(* ===== verification/Wt_Prelude.thy ===== *)
theory Wt_Prelude
  imports Main "HOL-Library.Word"
begin

text \<open>
  Shared vocabulary of the development: the machine types of the C source, the error codes
  that its functions return, sequencing of fallible calls (the \<open>WT_RET\<close> macro), and the
  generic lemmas on words, bytes and lists that the component theories use.
\<close>

unbundle bit_operations_syntax

section \<open>Machine types and error codes\<close>

type_synonym u8 = "8 word"
type_synonym u32 = "32 word"
type_synonym u64 = "64 word"
type_synonym bytes = "u8 list"

text \<open>
  The return codes of the modelled functions: the POSIX codes and the \<open>WT_\<close> codes of
  \<open>wiredtiger.in\<close>. \<open>OUT_OF_BOUNDS\<close> is not a code of the program: it marks the points at
  which the C code reads memory past the end of the buffer it was given (undefined
  behaviour), so that a theorem about a normal return also says that no such read happened.
\<close>

datatype wt_error =
    ENOMEM | EINVAL | ERANGE | WT_NOTFOUND | WT_DEADLOCK | WT_RESTART | WT_ERROR | OUT_OF_BOUNDS

type_synonym 'a result = "wt_error + 'a"

text \<open>\<open>WT_RET(call)\<close>: go on with the value of a successful call, return its error otherwise.\<close>

definition wt_ret :: "'a result \<Rightarrow> ('a \<Rightarrow> 'b result) \<Rightarrow> 'b result" where
  "wt_ret r k = (case r of Inl e \<Rightarrow> Inl e | Inr x \<Rightarrow> k x)"

lemma wt_ret_simps [simp]:
  "wt_ret (Inl e) k = Inl e"
  "wt_ret (Inr x) k = k x"
  by (simp_all add: wt_ret_def)

lemma wt_ret_Inr_iff: "wt_ret r k = Inr y \<longleftrightarrow> (\<exists>x. r = Inr x \<and> k x = Inr y)"
  by (cases r) auto

lemma wt_ret_Inl_iff:
  "wt_ret r k = Inl e \<longleftrightarrow> r = Inl e \<or> (\<exists>x. r = Inr x \<and> k x = Inl e)"
  by (cases r) auto

lemma wt_ret_cong [fundef_cong]:
  "r = r' \<Longrightarrow> (\<And>x. r' = Inr x \<Longrightarrow> k x = k' x) \<Longrightarrow> wt_ret r k = wt_ret r' k'"
  by (cases r') auto

named_theorems wt_defs "definitions to unfold in the component proofs"

section \<open>Words\<close>

lemma ucast_u8_u64_inverse [simp]: "(ucast (ucast (b :: u8) :: u64) :: u8) = b"
  by (rule bit_word_eqI) (simp add: bit_simps)

lemma unat_ucast_u8_u64 [simp]: "unat (ucast (b :: u8) :: u64) = unat b"
  by transfer simp

lemma word_less_iff_unat: "(a :: 'a::len word) < b \<longleftrightarrow> unat a < unat b"
  by (rule word_less_nat_alt)


lemma unat_less_power_of_bits:
  fixes x :: "'a::len word"
  assumes "\<And>i. n \<le> i \<Longrightarrow> \<not> bit x i"
  shows "unat x < 2 ^ n"
proof -
  have "take_bit n x = x"
    by (rule bit_word_eqI) (use assms not_less in \<open>auto simp: bit_simps\<close>)
  then have "unat x = take_bit n (unat x)"
    by (metis unsigned_take_bit_eq)
  then show ?thesis by (metis take_bit_nat_less_exp)
qed

lemma unat_ge_power_of_bit:
  fixes x :: "'a::len word"
  assumes "bit x n"
  shows "2 ^ n \<le> unat x"
proof -
  have "bit (unat x) n" using assms by (simp add: bit_unsigned_iff bit_imp_le_length)
  then have "odd (unat x div 2 ^ n)" by (simp add: bit_iff_odd)
  then have "unat x div 2 ^ n \<noteq> 0" by (metis even_zero)
  then show ?thesis by (meson div_less not_less)
qed

text \<open>A byte given by its value; the head bytes of the packed forms are stated with it.\<close>

definition byte :: "nat \<Rightarrow> u8" where
  "byte n = of_nat n"

lemma unat_byte [simp]: "unat (byte n) = n mod 256"
  by (simp add: byte_def unsigned_of_nat take_bit_eq_mod)

lemma byte_eq_iff: "byte m = byte n \<longleftrightarrow> m mod 256 = n mod 256"
  by (simp add: word_unat_eq_iff)

lemma byte_less_iff: "byte m < byte n \<longleftrightarrow> m mod 256 < n mod 256"
  by (simp add: word_less_iff_unat)

section \<open>Lists\<close>

lemma list_all_upt: "list_all P [0..<n] \<longleftrightarrow> (\<forall>k<n. P k)"
  by (auto simp: list_all_iff)

section \<open>Stores of ranges\<close>

text \<open>
  The interface of a set of half-open ranges kept in some state: adding a range that is not
  there, and taking away a range that is. The clients that add a whole list of ranges are
  proved over it.
\<close>

fun add_all :: "(int \<Rightarrow> int \<Rightarrow> 's \<Rightarrow> 's result) \<Rightarrow> (int \<times> int) list \<Rightarrow> 's \<Rightarrow> 's result" where
  "add_all add [] s = Inr s"
| "add_all add ((off, len) # rs) s = wt_ret (add off len s) (add_all add rs)"

definition range_of :: "int \<times> int \<Rightarrow> int set" where
  "range_of r = {fst r ..< fst r + snd r}"

fun fresh_ranges :: "int set \<Rightarrow> (int \<times> int) list \<Rightarrow> bool" where
  "fresh_ranges R [] = True"
| "fresh_ranges R (r # rs) = (range_of r \<inter> R = {} \<and> fresh_ranges (R \<union> range_of r) rs)"

locale range_store =
  fixes ok :: "'s \<Rightarrow> bool"
    and ranges :: "'s \<Rightarrow> int set"
    and add :: "int \<Rightarrow> int \<Rightarrow> 's \<Rightarrow> 's result"
    and del :: "int \<Rightarrow> int \<Rightarrow> 's \<Rightarrow> 's result"
  assumes add_fresh: "ok s \<Longrightarrow> 0 < len \<Longrightarrow> {off ..< off + len} \<inter> ranges s = {} \<Longrightarrow>
      \<exists>s'. add off len s = Inr s' \<and> ok s' \<and> ranges s' = ranges s \<union> {off ..< off + len}"
    and add_overlap: "ok s \<Longrightarrow> 0 < len \<Longrightarrow> {off ..< off + len} \<inter> ranges s \<noteq> {} \<Longrightarrow>
      add off len s = Inl EINVAL"
    and del_present: "ok s \<Longrightarrow> 0 < len \<Longrightarrow> {off ..< off + len} \<subseteq> ranges s \<Longrightarrow>
      \<exists>s'. del off len s = Inr s' \<and> ok s' \<and> ranges s' = ranges s - {off ..< off + len}"
    and del_absent: "ok s \<Longrightarrow> 0 < len \<Longrightarrow> {off ..< off + len} \<inter> ranges s = {} \<Longrightarrow>
      del off len s = Inl WT_NOTFOUND"
begin

lemma add_all_fresh:
  "ok s \<Longrightarrow> \<forall>r\<in>set rs. 0 < snd r \<Longrightarrow> fresh_ranges (ranges s) rs \<Longrightarrow>
     \<exists>s'. add_all add rs s = Inr s' \<and> ok s' \<and> ranges s' = ranges s \<union> (\<Union>r\<in>set rs. range_of r)"
proof (induction rs arbitrary: s)
  case (Cons r rs)
  obtain off len where r: "r = (off, len)" by (cases r)
  obtain s1 where s1: "add off len s = Inr s1" "ok s1" "ranges s1 = ranges s \<union> {off ..< off + len}"
    using add_fresh [of s len off] Cons.prems by (auto simp: r range_of_def)
  moreover have "fresh_ranges (ranges s1) rs" using Cons.prems(3) by (simp add: s1(3) r range_of_def)
  ultimately show ?case using Cons.IH [of s1] Cons.prems(2) by (auto simp: r range_of_def)
qed simp

lemma add_all_overlap:
  "ok s \<Longrightarrow> \<forall>r\<in>set rs. 0 < snd r \<Longrightarrow> \<not> fresh_ranges (ranges s) rs \<Longrightarrow>
     add_all add rs s = Inl EINVAL"
proof (induction rs arbitrary: s)
  case (Cons r rs)
  obtain off len where r: "r = (off, len)" by (cases r)
  show ?case
  proof (cases "{off ..< off + len} \<inter> ranges s = {}")
    case True
    then obtain s1 where s1: "add off len s = Inr s1" "ok s1" "ranges s1 = ranges s \<union> {off ..< off + len}"
      using add_fresh [of s len off] Cons.prems by (auto simp: r)
    moreover have "\<not> fresh_ranges (ranges s1) rs"
      using Cons.prems(3) True by (simp add: s1(3) r range_of_def)
    ultimately show ?thesis using Cons.IH [of s1] Cons.prems(2) by (simp add: r)
  next
    case False
    then show ?thesis using add_overlap [of s len off] Cons.prems by (simp add: r)
  qed
qed simp

lemma del_then_add:
  assumes "ok s" "0 < len" "{off ..< off + len} \<subseteq> ranges s"
  shows "\<exists>s'. wt_ret (del off len s) (add off len) = Inr s' \<and> ok s' \<and> ranges s' = ranges s"
proof -
  obtain s1 where s1: "del off len s = Inr s1" "ok s1" "ranges s1 = ranges s - {off ..< off + len}"
    using del_present [OF assms] by blast
  moreover obtain s2 where "add off len s1 = Inr s2" "ok s2" "ranges s2 = ranges s1 \<union> {off ..< off + len}"
    using add_fresh [OF s1(2) assms(2), of off] s1(3) by auto
  ultimately show ?thesis using assms(3) by auto
qed

end

end
