(* ===== verification/Wt_Bytes.thy ===== *)
theory Wt_Bytes
  imports Wt_Prelude
begin

text \<open>
  Fields of fixed width in a page image. The C code reads and writes them through pointers to
  structures, so a word is stored in the byte order of the host: \<open>be\<close> is true on a big-endian
  one.
\<close>

definition to_bytes :: "bool \<Rightarrow> nat \<Rightarrow> 'a::len word \<Rightarrow> bytes" where
  "to_bytes be n w = (let l = map (\<lambda>i. ucast (drop_bit (8 * i) w)) [0..<n] in if be then rev l else l)"

definition from_bytes :: "bool \<Rightarrow> bytes \<Rightarrow> 'a::len word" where
  "from_bytes be bs = foldr (\<lambda>b acc. push_bit 8 acc OR ucast b) (if be then rev bs else bs) 0"

definition put_at :: "nat \<Rightarrow> bytes \<Rightarrow> bytes \<Rightarrow> bytes" where
  "put_at k v img = take k img @ v @ drop (k + length v) img"

definition get_at :: "nat \<Rightarrow> nat \<Rightarrow> bytes \<Rightarrow> bytes" where
  "get_at k n img = take n (drop k img)"

lemma length_to_bytes [simp]: "length (to_bytes be n w) = n"
  by (simp add: to_bytes_def Let_def)

lemma fold_bytes_bits:
  fixes w :: "'a::len word"
  shows "bit (foldr (\<lambda>b acc. push_bit 8 acc OR ucast b) (map (\<lambda>i. ucast (drop_bit (8 * i) w) :: u8) [m..<m + n]) (0 :: 'a word)) k
    \<longleftrightarrow> k < LENGTH('a) \<and> k < 8 * n \<and> bit w (k + 8 * m)"
proof (induction n arbitrary: m k)
  case (Suc n)
  have "[m..<m + Suc n] = m # [Suc m..<Suc m + n]" by (simp add: upt_conv_Cons)
  then show ?case
    using Suc.IH [of "Suc m" "k - 8"]
    by (auto simp: bit_simps add.commute not_less)
qed simp

lemma from_to_bytes:
  fixes w :: "'a::len word"
  assumes "LENGTH('a) \<le> 8 * n"
  shows "from_bytes be (to_bytes be n w) = w"
proof -
  have "foldr (\<lambda>b acc. push_bit 8 acc OR ucast b) (map (\<lambda>i. ucast (drop_bit (8 * i) w) :: u8) [0..<n]) (0 :: 'a word) = w"
    using fold_bytes_bits [where m = 0 and n = n and w = w] assms
    by (intro bit_word_eqI) (auto simp del: upt_Suc)
  then show ?thesis by (simp add: from_bytes_def to_bytes_def Let_def)
qed

lemma from_to_u32 [simp]: "from_bytes be (to_bytes be 4 w) = w" for w :: u32
  by (rule from_to_bytes) simp

lemma from_to_u64 [simp]: "from_bytes be (to_bytes be 8 w) = w" for w :: u64
  by (rule from_to_bytes) simp

lemma length_put_at [simp]: "k + length v \<le> length img \<Longrightarrow> length (put_at k v img) = length img"
  by (simp add: put_at_def)

lemma get_put_same [simp]: "k \<le> length img \<Longrightarrow> get_at k (length v) (put_at k v img) = v"
  by (simp add: get_at_def put_at_def)

lemma get_put_same_width: "k \<le> length img \<Longrightarrow> length v = n \<Longrightarrow> get_at k n (put_at k v img) = v"
  by auto

lemma nth_put_at:
  "k + length v \<le> length img \<Longrightarrow> i < length img \<Longrightarrow>
    put_at k v img ! i = (if k \<le> i \<and> i < k + length v then v ! (i - k) else img ! i)"
  by (auto simp: put_at_def nth_append min_def)

lemma get_put_other:
  assumes "k + length v \<le> length img" "m + n \<le> k \<or> k + length v \<le> m" "m + n \<le> length img"
  shows "get_at m n (put_at k v img) = get_at m n img"
  using assms by (intro nth_equalityI) (auto simp: get_at_def nth_put_at)

lemma put_put_same: "k + length v \<le> length img \<Longrightarrow> length u = length v \<Longrightarrow> put_at k u (put_at k v img) = put_at k u img"
  by (intro nth_equalityI) (auto simp: nth_put_at)

lemma put_put_swap:
  assumes "k + length v \<le> length img" "m + length u \<le> length img" "m + length u \<le> k \<or> k + length v \<le> m"
  shows "put_at m u (put_at k v img) = put_at k v (put_at m u img)"
  using assms by (intro nth_equalityI) (auto simp: nth_put_at)

lemma drop_put_at: "k + length v \<le> n \<Longrightarrow> n \<le> length img \<Longrightarrow> drop n (put_at k v img) = drop n img"
  by (intro nth_equalityI) (auto simp: nth_put_at)

lemma take_put_at: "n \<le> k \<Longrightarrow> k + length v \<le> length img \<Longrightarrow> take n (put_at k v img) = take n img"
  by (intro nth_equalityI) (auto simp: nth_put_at)

lemma put_at_append: "k + length v \<le> length img \<Longrightarrow> put_at k v (img @ rest) = put_at k v img @ rest"
  by (simp add: put_at_def)

lemma get_at_append: "k + n \<le> length img \<Longrightarrow> get_at k n (img @ rest) = get_at k n img"
  by (simp add: get_at_def)

end
