(* ===== verification/Wt_Cksum.thy ===== *)
theory Wt_Cksum
  imports Wt_Cksum_Table
begin

text \<open>
  The page checksum \<open>__wt_cksum\<close> of \<open>src/src/block/block_cksum.c\<close>, in both of its compile-time
  variants: \<open>be\<close> stands for \<open>WORDS_BIGENDIAN\<close>. \<open>addr\<close> is the address of the chunk, which
  decides how many bytes are taken one by one before the 8-byte loop. The reference it is
  proved equal to is the bit-by-bit CRC-32C.
\<close>

section \<open>The routine\<close>

definition g_crc_slicing :: "bool \<Rightarrow> nat \<Rightarrow> u32 list" where
  "g_crc_slicing be k =
     (if be then
        [g_crc_slicing_be_0, g_crc_slicing_be_1, g_crc_slicing_be_2, g_crc_slicing_be_3,
         g_crc_slicing_be_4, g_crc_slicing_be_5, g_crc_slicing_be_6, g_crc_slicing_be_7] ! k
      else
        [g_crc_slicing_le_0, g_crc_slicing_le_1, g_crc_slicing_le_2, g_crc_slicing_le_3,
         g_crc_slicing_le_4, g_crc_slicing_le_5, g_crc_slicing_le_6, g_crc_slicing_le_7] ! k)"

text \<open>The one-byte update.\<close>

definition crc_step :: "bool \<Rightarrow> u32 \<Rightarrow> u8 \<Rightarrow> u32" where
  "crc_step be crc b =
     (if be then
        g_crc_slicing be 0 ! unat ((drop_bit 24 crc XOR ucast b) AND 0xFF) XOR push_bit 8 crc
      else
        g_crc_slicing be 0 ! unat ((crc XOR ucast b) AND 0xFF) XOR drop_bit 8 crc)"

text \<open>\<open>*(uint32_t *)p\<close> in the byte order of the machine.\<close>

definition load32 :: "bool \<Rightarrow> u8 \<Rightarrow> u8 \<Rightarrow> u8 \<Rightarrow> u8 \<Rightarrow> u32" where
  "load32 be b0 b1 b2 b3 =
     (if be then
        push_bit 24 (ucast b0) OR push_bit 16 (ucast b1) OR push_bit 8 (ucast b2) OR ucast b3
      else
        ucast b0 OR push_bit 8 (ucast b1) OR push_bit 16 (ucast b2) OR push_bit 24 (ucast b3))"

text \<open>The body of the 8-byte loop after the two loads.\<close>

definition crc_qword :: "bool \<Rightarrow> u32 \<Rightarrow> u32 \<Rightarrow> u32" where
  "crc_qword be crc next =
     (if be then
        g_crc_slicing be 4 ! unat (crc AND 0xFF) XOR
        g_crc_slicing be 5 ! unat (drop_bit 8 crc AND 0xFF) XOR
        g_crc_slicing be 6 ! unat (drop_bit 16 crc AND 0xFF) XOR
        g_crc_slicing be 7 ! unat (drop_bit 24 crc) XOR
        g_crc_slicing be 0 ! unat (next AND 0xFF) XOR
        g_crc_slicing be 1 ! unat (drop_bit 8 next AND 0xFF) XOR
        g_crc_slicing be 2 ! unat (drop_bit 16 next AND 0xFF) XOR
        g_crc_slicing be 3 ! unat (drop_bit 24 next)
      else
        g_crc_slicing be 7 ! unat (crc AND 0xFF) XOR
        g_crc_slicing be 6 ! unat (drop_bit 8 crc AND 0xFF) XOR
        g_crc_slicing be 5 ! unat (drop_bit 16 crc AND 0xFF) XOR
        g_crc_slicing be 4 ! unat (drop_bit 24 crc) XOR
        g_crc_slicing be 3 ! unat (next AND 0xFF) XOR
        g_crc_slicing be 2 ! unat (drop_bit 8 next AND 0xFF) XOR
        g_crc_slicing be 1 ! unat (drop_bit 16 next AND 0xFF) XOR
        g_crc_slicing be 0 ! unat (drop_bit 24 next))"

text \<open>Bytes up to the first 4-byte boundary.\<close>

fun crc_align :: "bool \<Rightarrow> u64 \<Rightarrow> u32 \<Rightarrow> bytes \<Rightarrow> u32 \<times> bytes" where
  "crc_align be addr crc [] = (crc, [])"
| "crc_align be addr crc (b # p) =
     (if addr AND 3 \<noteq> 0 then crc_align be (addr + 1) (crc_step be crc b) p else (crc, b # p))"

text \<open>\<open>nqwords\<close> rounds of the 8-byte loop.\<close>

fun crc_qwords :: "bool \<Rightarrow> nat \<Rightarrow> u32 \<Rightarrow> bytes \<Rightarrow> u32 \<times> bytes" where
  "crc_qwords be (Suc n) crc (b0 # b1 # b2 # b3 # b4 # b5 # b6 # b7 # p) =
     crc_qwords be n
       (crc_qword be (crc XOR load32 be b0 b1 b2 b3) (load32 be b4 b5 b6 b7)) p"
| "crc_qwords be n crc p = (crc, p)"

text \<open>The final byte swap of the big-endian variant.\<close>

definition crc_swap :: "u32 \<Rightarrow> u32" where
  "crc_swap crc =
     (push_bit 24 crc AND 0xFF000000) OR (push_bit 8 crc AND 0x00FF0000) OR
     (drop_bit 8 crc AND 0x0000FF00) OR (drop_bit 24 crc AND 0x000000FF)"

definition wt_cksum :: "bool \<Rightarrow> u64 \<Rightarrow> bytes \<Rightarrow> u32" where
  "wt_cksum be addr chunk =
     (let (crc, p) = crc_align be addr 0xffffffff chunk;
          len = length p;
          (crc, p) = crc_qwords be (len div 8) crc p;
          crc = foldl (crc_step be) crc (take (len mod 8) p)
      in if be then NOT (crc_swap crc) else NOT crc)"

section \<open>The reference: bit-by-bit CRC-32C\<close>

definition crc_bit :: "u32 \<Rightarrow> u32" where
  "crc_bit c = (if bit c 0 then drop_bit 1 c XOR 0x82F63B78 else drop_bit 1 c)"

definition crc_shift8 :: "u32 \<Rightarrow> u32" where
  "crc_shift8 c = crc_bit (crc_bit (crc_bit (crc_bit (crc_bit (crc_bit (crc_bit (crc_bit c)))))))"

definition crc32c :: "bytes \<Rightarrow> u32" where
  "crc32c bs = NOT (foldl (\<lambda>c b. crc_shift8 (c XOR ucast b)) 0xffffffff bs)"

text \<open>The table of a linear function, from its values at the powers of two.\<close>

definition lin_table :: "u32 list \<Rightarrow> u32 list" where
  "lin_table basis = foldl (\<lambda>L t. L @ map (\<lambda>x. x XOR t) L) [0] basis"

text \<open>The values of the repeated shift at the powers of two: shifted once, twice and so on.\<close>

definition crc_basis :: "nat \<Rightarrow> u32 list" where
  "crc_basis k = map (\<lambda>j. (crc_shift8 ^^ Suc k) (2 ^ j)) [0..<8]"

section \<open>Linearity\<close>

lemma crc_bit_xor: "crc_bit (a XOR b) = crc_bit a XOR crc_bit b"
  by (rule bit_word_eqI) (auto simp: crc_bit_def bit_simps)

lemma crc_shift8_xor: "crc_shift8 (a XOR b) = crc_shift8 a XOR crc_shift8 b"
  by (simp add: crc_shift8_def crc_bit_xor)

lemma crc_shift8_pow_xor:
  "(crc_shift8 ^^ n) (a XOR b) = (crc_shift8 ^^ n) a XOR (crc_shift8 ^^ n) b"
  by (induction n) (simp_all add: crc_shift8_xor)

lemma crc_bit_even: "\<not> bit c 0 \<Longrightarrow> crc_bit c = drop_bit 1 c"
  by (simp add: crc_bit_def)

lemma crc_shift8_push: "crc_shift8 (push_bit 8 c) = take_bit 24 c"
proof -
  let ?x = "push_bit 8 c"
  have step: "crc_bit (drop_bit i ?x) = drop_bit (Suc i) ?x" if "i < 8" for i
  proof -
    have "\<not> bit (drop_bit i ?x) 0" using that by (simp add: bit_drop_bit_eq bit_push_bit_iff del: drop_bit_push_bit)
    from crc_bit_even [OF this] show ?thesis by (simp only: drop_bit_drop_bit plus_1_eq_Suc)
  qed
  have "crc_shift8 ?x = drop_bit 8 ?x"
    using step [of 0] step [of 1] step [of 2] step [of 3] step [of 4] step [of 5] step [of 6]
      step [of 7]
    by (simp add: crc_shift8_def One_nat_def [symmetric] del: drop_bit_push_bit One_nat_def)
  also have "\<dots> = take_bit 24 c"
    by (rule bit_word_eqI) (auto simp: bit_simps)
  finally show ?thesis .
qed

lemma crc_shift8_0 [simp]: "crc_shift8 0 = 0"
  by (simp add: crc_shift8_def crc_bit_def)

lemma lin_table_snoc: "lin_table (bs @ [t]) = lin_table bs @ map (\<lambda>x. x XOR t) (lin_table bs)"
  by (simp add: lin_table_def)

lemma of_nat_xor_exp:
  assumes "a < 2 ^ n"
  shows "(of_nat a :: u32) XOR 2 ^ n = of_nat (a + 2 ^ n)"
proof -
  have "a AND 2 ^ n = 0"
  proof (rule bit_eqI)
    fix m
    have "\<not> bit a n" using assms by (simp add: bit_iff_odd)
    then show "bit (a AND 2 ^ n) m = bit (0 :: nat) m" by (auto simp: bit_simps)
  qed
  then have "a + 2 ^ n = a XOR 2 ^ n" by (rule disjunctive_add_eq_xor)
  then show ?thesis by (simp add: of_nat_xor_eq)
qed

lemma lin_table_eq:
  fixes f :: "u32 \<Rightarrow> u32"
  assumes lin: "\<And>a b. f (a XOR b) = f a XOR f b"
  shows "lin_table (map (\<lambda>j. f (2 ^ j)) [0..<n]) = map (\<lambda>i. f (of_nat i)) [0..<2 ^ n]"
proof (induction n)
  case 0
  have "f 0 = 0" using lin [of 0 0] by simp
  then show ?case by (simp add: lin_table_def)
next
  case (Suc n)
  have "map (\<lambda>x. x XOR f (2 ^ n)) (map (\<lambda>i. f (of_nat i)) [0..<2 ^ n]) =
      map (\<lambda>i. f (of_nat i)) [2 ^ n..<2 ^ Suc n]"
    by (rule nth_equalityI) (simp_all add: lin [symmetric] of_nat_xor_exp add.commute)
  with Suc show ?case
    by (simp add: lin_table_snoc upt_add_eq_append [of 0 "2 ^ n" "2 ^ n", simplified] mult_2)
qed


section \<open>The tables\<close>

text \<open>The entries at the powers of two decide each table.\<close>

lemma g_crc_slicing_le_0_lin:
  "g_crc_slicing_le_0 = lin_table
    [0xf26b8303, 0xe13b70f7, 0xc79a971f, 0x8ad958cf, 0x105ec76f, 0x20bd8ede, 0x417b1dbc, 0x82f63b78]"
  by (simp add: lin_table_def g_crc_slicing_le_0_def)

lemma g_crc_slicing_le_1_lin:
  "g_crc_slicing_le_1 = lin_table
    [0x13a29877, 0x274530ee, 0x4e8a61dc, 0x9d14c3b8, 0x3fc5f181, 0x7f8be302, 0xff17c604, 0xfbc3faf9]"
  by (simp add: lin_table_def g_crc_slicing_le_1_def)

lemma g_crc_slicing_le_2_lin:
  "g_crc_slicing_le_2 = lin_table
    [0xa541927e, 0x4f6f520d, 0x9edea41a, 0x38513ec5, 0x70a27d8a, 0xe144fb14, 0xc76580d9, 0x8b277743]"
  by (simp add: lin_table_def g_crc_slicing_le_2_def)

lemma g_crc_slicing_le_3_lin:
  "g_crc_slicing_le_3 = lin_table
    [0xdd45aab8, 0xbf672381, 0x7b2231f3, 0xf64463e6, 0xe964b13d, 0xd725148b, 0xaba65fe7, 0x52a0c93f]"
  by (simp add: lin_table_def g_crc_slicing_le_3_def)

lemma g_crc_slicing_le_4_lin:
  "g_crc_slicing_le_4 = lin_table
    [0x38116fac, 0x7022df58, 0xe045beb0, 0xc5670b91, 0x8f2261d3, 0x1ba8b557, 0x37516aae, 0x6ea2d55c]"
  by (simp add: lin_table_def g_crc_slicing_le_4_def)

lemma g_crc_slicing_le_5_lin:
  "g_crc_slicing_le_5 = lin_table
    [0xef306b19, 0xdb8ca0c3, 0xb2f53777, 0x6006181f, 0xc00c303e, 0x85f4168d, 0x0e045beb, 0x1c08b7d6]"
  by (simp add: lin_table_def g_crc_slicing_le_5_def)

lemma g_crc_slicing_le_6_lin:
  "g_crc_slicing_le_6 = lin_table
    [0x68032cc8, 0xd0065990, 0xa5e0c5d1, 0x4e2dfd53, 0x9c5bfaa6, 0x3d5b83bd, 0x7ab7077a, 0xf56e0ef4]"
  by (simp add: lin_table_def g_crc_slicing_le_6_def)

lemma g_crc_slicing_le_7_lin:
  "g_crc_slicing_le_7 = lin_table
    [0x493c7d27, 0x9278fa4e, 0x211d826d, 0x423b04da, 0x847609b4, 0x0d006599, 0x1a00cb32, 0x34019664]"
  by (simp add: lin_table_def g_crc_slicing_le_7_def)

lemma g_crc_slicing_be_0_lin:
  "g_crc_slicing_be_0 = lin_table
    [0x03836bf2, 0xf7703be1, 0x1f979ac7, 0xcf58d98a, 0x6fc75e10, 0xde8ebd20, 0xbc1d7b41, 0x783bf682]"
  by (simp add: lin_table_def g_crc_slicing_be_0_def)

lemma g_crc_slicing_be_1_lin:
  "g_crc_slicing_be_1 = lin_table
    [0x7798a213, 0xee304527, 0xdc618a4e, 0xb8c3149d, 0x81f1c53f, 0x02e38b7f, 0x04c617ff, 0xf9fac3fb]"
  by (simp add: lin_table_def g_crc_slicing_be_1_def)

lemma g_crc_slicing_be_2_lin:
  "g_crc_slicing_be_2 = lin_table
    [0x7e9241a5, 0x0d526f4f, 0x1aa4de9e, 0xc53e5138, 0x8a7da270, 0x14fb44e1, 0xd98065c7, 0x4377278b]"
  by (simp add: lin_table_def g_crc_slicing_be_2_def)

lemma g_crc_slicing_be_3_lin:
  "g_crc_slicing_be_3 = lin_table
    [0xb8aa45dd, 0x812367bf, 0xf331227b, 0xe66344f6, 0x3db164e9, 0x8b1425d7, 0xe75fa6ab, 0x3fc9a052]"
  by (simp add: lin_table_def g_crc_slicing_be_3_def)

lemma g_crc_slicing_be_4_lin:
  "g_crc_slicing_be_4 = lin_table
    [0xac6f1138, 0x58df2270, 0xb0be45e0, 0x910b67c5, 0xd361228f, 0x57b5a81b, 0xae6a5137, 0x5cd5a26e]"
  by (simp add: lin_table_def g_crc_slicing_be_4_def)

lemma g_crc_slicing_be_5_lin:
  "g_crc_slicing_be_5 = lin_table
    [0x196b30ef, 0xc3a08cdb, 0x7737f5b2, 0x1f180660, 0x3e300cc0, 0x8d16f485, 0xeb5b040e, 0xd6b7081c]"
  by (simp add: lin_table_def g_crc_slicing_be_5_def)

lemma g_crc_slicing_be_6_lin:
  "g_crc_slicing_be_6 = lin_table
    [0xc82c0368, 0x905906d0, 0xd1c5e0a5, 0x53fd2d4e, 0xa6fa5b9c, 0xbd835b3d, 0x7a07b77a, 0xf40e6ef5]"
  by (simp add: lin_table_def g_crc_slicing_be_6_def)

lemma g_crc_slicing_be_7_lin:
  "g_crc_slicing_be_7 = lin_table
    [0x277d3c49, 0x4efa7892, 0x6d821d21, 0xda043b42, 0xb4097684, 0x9965000d, 0x32cb001a, 0x64960134]"
  by (simp add: lin_table_def g_crc_slicing_be_7_def)

lemma crc_basis_Suc: "crc_basis (Suc k) = map crc_shift8 (crc_basis k)"
  by (simp add: crc_basis_def)

lemma crc_basis_0: "crc_basis 0 = [0xf26b8303, 0xe13b70f7, 0xc79a971f, 0x8ad958cf, 0x105ec76f, 0x20bd8ede, 0x417b1dbc, 0x82f63b78]"
  by (simp add: crc_basis_def crc_shift8_def crc_bit_def upt_rec)

lemma crc_basis_1: "crc_basis (Suc 0) = [0x13a29877, 0x274530ee, 0x4e8a61dc, 0x9d14c3b8, 0x3fc5f181, 0x7f8be302, 0xff17c604, 0xfbc3faf9]"
  by (subst crc_basis_Suc) (simp add: crc_basis_0 crc_shift8_def crc_bit_def)

lemma crc_basis_2: "crc_basis (Suc (Suc 0)) = [0xa541927e, 0x4f6f520d, 0x9edea41a, 0x38513ec5, 0x70a27d8a, 0xe144fb14, 0xc76580d9, 0x8b277743]"
  by (subst crc_basis_Suc) (simp add: crc_basis_1 crc_shift8_def crc_bit_def)

lemma crc_basis_3: "crc_basis (Suc (Suc (Suc 0))) = [0xdd45aab8, 0xbf672381, 0x7b2231f3, 0xf64463e6, 0xe964b13d, 0xd725148b, 0xaba65fe7, 0x52a0c93f]"
  by (subst crc_basis_Suc) (simp add: crc_basis_2 crc_shift8_def crc_bit_def)

lemma crc_basis_4: "crc_basis (Suc (Suc (Suc (Suc 0)))) = [0x38116fac, 0x7022df58, 0xe045beb0, 0xc5670b91, 0x8f2261d3, 0x1ba8b557, 0x37516aae, 0x6ea2d55c]"
  by (subst crc_basis_Suc) (simp add: crc_basis_3 crc_shift8_def crc_bit_def)

lemma crc_basis_5: "crc_basis (Suc (Suc (Suc (Suc (Suc 0))))) = [0xef306b19, 0xdb8ca0c3, 0xb2f53777, 0x6006181f, 0xc00c303e, 0x85f4168d, 0x0e045beb, 0x1c08b7d6]"
  by (subst crc_basis_Suc) (simp add: crc_basis_4 crc_shift8_def crc_bit_def)

lemma crc_basis_6: "crc_basis (Suc (Suc (Suc (Suc (Suc (Suc 0)))))) = [0x68032cc8, 0xd0065990, 0xa5e0c5d1, 0x4e2dfd53, 0x9c5bfaa6, 0x3d5b83bd, 0x7ab7077a, 0xf56e0ef4]"
  by (subst crc_basis_Suc) (simp add: crc_basis_5 crc_shift8_def crc_bit_def)

lemma crc_basis_7: "crc_basis (Suc (Suc (Suc (Suc (Suc (Suc (Suc 0))))))) = [0x493c7d27, 0x9278fa4e, 0x211d826d, 0x423b04da, 0x847609b4, 0x0d006599, 0x1a00cb32, 0x34019664]"
  by (subst crc_basis_Suc) (simp add: crc_basis_6 crc_shift8_def crc_bit_def)

lemmas le_lin =
  g_crc_slicing_le_0_lin g_crc_slicing_le_1_lin g_crc_slicing_le_2_lin g_crc_slicing_le_3_lin
  g_crc_slicing_le_4_lin g_crc_slicing_le_5_lin g_crc_slicing_le_6_lin g_crc_slicing_le_7_lin

lemmas crc_basis_values =
  crc_basis_0 crc_basis_1 crc_basis_2 crc_basis_3 crc_basis_4 crc_basis_5 crc_basis_6 crc_basis_7

lemma less_8_cases:
  "k < 8 \<longleftrightarrow> k = 0 \<or> k = Suc 0 \<or> k = Suc (Suc 0) \<or> k = Suc (Suc (Suc 0)) \<or>
     k = Suc (Suc (Suc (Suc 0))) \<or> k = Suc (Suc (Suc (Suc (Suc 0)))) \<or>
     k = Suc (Suc (Suc (Suc (Suc (Suc 0))))) \<or> k = Suc (Suc (Suc (Suc (Suc (Suc (Suc 0))))))"
  by auto

lemma le_tables_lin: "k < 8 \<Longrightarrow> g_crc_slicing False k = lin_table (crc_basis k)"
  unfolding less_8_cases
  by (elim disjE) (simp_all add: g_crc_slicing_def le_lin crc_basis_values del: crc_basis_Suc)

lemma le_table:
  assumes "k < 8" "i < 256"
  shows "g_crc_slicing False k ! i = (crc_shift8 ^^ Suc k) (of_nat i)"
proof -
  have "g_crc_slicing False k = map (\<lambda>i. (crc_shift8 ^^ Suc k) (of_nat i)) [0..<256]"
    using le_tables_lin [OF assms(1)] lin_table_eq [of "crc_shift8 ^^ Suc k" 8, OF crc_shift8_pow_xor]
    by (simp add: crc_basis_def)
  then show ?thesis using assms(2) by (simp del: funpow.simps)
qed

section \<open>The byte swap\<close>

lemma swap_masks:
  "(0xFF000000 :: u32) = push_bit 24 (mask 8)" "(0x00FF0000 :: u32) = push_bit 16 (mask 8)"
  "(0x0000FF00 :: u32) = push_bit 8 (mask 8)" "(0x000000FF :: u32) = mask 8"
  by (simp_all add: mask_eq_exp_minus_1)

lemma bit_crc_swap:
  "bit (crc_swap x) i \<longleftrightarrow>
     (if i < 8 then bit x (24 + i) else if i < 16 then bit x (8 + i)
      else if i < 24 then bit x (i - 8) else i < 32 \<and> bit x (i - 24))"
  unfolding crc_swap_def swap_masks
  by (auto simp: bit_simps simp del: push_bit_mask_eq)

lemma bit_u32_bound: "bit (x :: u32) i \<Longrightarrow> i < 32"
  using bit_imp_le_length by force

lemma bit_u8_u32: "bit (ucast (b :: u8) :: u32) i \<longleftrightarrow> i < 8 \<and> bit b i"
  using bit_imp_le_length [of b i] by (auto simp: bit_simps)

lemma crc_swap_xor: "crc_swap (a XOR b) = crc_swap a XOR crc_swap b"
  by (rule bit_word_eqI) (auto simp: bit_crc_swap bit_xor_iff)

lemma crc_swap_swap [simp]: "crc_swap (crc_swap x) = x"
  by (rule bit_word_eqI) (auto simp: bit_crc_swap)

lemma crc_swap_shift: "push_bit 8 (crc_swap x) = crc_swap (drop_bit 8 x)"
  by (rule bit_word_eqI) (auto simp: bit_crc_swap bit_simps dest: bit_u32_bound)

lemma crc_swap_byte0: "crc_swap x AND 0xFF = drop_bit 24 x"
  unfolding swap_masks(4)
  by (rule bit_word_eqI) (auto simp: bit_crc_swap bit_simps dest: bit_u32_bound)

lemma crc_swap_byte1: "drop_bit 8 (crc_swap x) AND 0xFF = drop_bit 16 x AND 0xFF"
  unfolding swap_masks(4) by (rule bit_word_eqI) (auto simp: bit_crc_swap bit_simps)

lemma crc_swap_byte2: "drop_bit 16 (crc_swap x) AND 0xFF = drop_bit 8 x AND 0xFF"
  unfolding swap_masks(4) by (rule bit_word_eqI) (auto simp: bit_crc_swap bit_simps)

lemma crc_swap_byte3: "drop_bit 24 (crc_swap x) = x AND 0xFF"
  unfolding swap_masks(4) by (rule bit_word_eqI) (auto simp: bit_crc_swap bit_simps)

lemmas crc_swap_bytes = crc_swap_byte0 crc_swap_byte1 crc_swap_byte2 crc_swap_byte3

lemma bit_load32:
  "bit (load32 False b0 b1 b2 b3) i \<longleftrightarrow>
     (if i < 8 then bit b0 i else if i < 16 then bit b1 (i - 8)
      else if i < 24 then bit b2 (i - 16) else i < 32 \<and> bit b3 (i - 24))"
  "bit (load32 True b0 b1 b2 b3) i \<longleftrightarrow>
     (if i < 8 then bit b3 i else if i < 16 then bit b2 (i - 8)
      else if i < 24 then bit b1 (i - 16) else i < 32 \<and> bit b0 (i - 24))"
  by (auto simp: load32_def bit_or_iff bit_push_bit_iff bit_u8_u32)

lemma load32_swap: "load32 True b0 b1 b2 b3 = crc_swap (load32 False b0 b1 b2 b3)"
  by (rule bit_word_eqI) (auto simp: bit_crc_swap bit_load32)

lemma crc_basis_swapped:
  "map crc_swap (crc_basis (0)) =
    [0x03836bf2, 0xf7703be1, 0x1f979ac7, 0xcf58d98a, 0x6fc75e10, 0xde8ebd20, 0xbc1d7b41, 0x783bf682]"
  "map crc_swap (crc_basis (Suc 0)) =
    [0x7798a213, 0xee304527, 0xdc618a4e, 0xb8c3149d, 0x81f1c53f, 0x02e38b7f, 0x04c617ff, 0xf9fac3fb]"
  "map crc_swap (crc_basis (Suc (Suc 0))) =
    [0x7e9241a5, 0x0d526f4f, 0x1aa4de9e, 0xc53e5138, 0x8a7da270, 0x14fb44e1, 0xd98065c7, 0x4377278b]"
  "map crc_swap (crc_basis (Suc (Suc (Suc 0)))) =
    [0xb8aa45dd, 0x812367bf, 0xf331227b, 0xe66344f6, 0x3db164e9, 0x8b1425d7, 0xe75fa6ab, 0x3fc9a052]"
  "map crc_swap (crc_basis (Suc (Suc (Suc (Suc 0))))) =
    [0xac6f1138, 0x58df2270, 0xb0be45e0, 0x910b67c5, 0xd361228f, 0x57b5a81b, 0xae6a5137, 0x5cd5a26e]"
  "map crc_swap (crc_basis (Suc (Suc (Suc (Suc (Suc 0)))))) =
    [0x196b30ef, 0xc3a08cdb, 0x7737f5b2, 0x1f180660, 0x3e300cc0, 0x8d16f485, 0xeb5b040e, 0xd6b7081c]"
  "map crc_swap (crc_basis (Suc (Suc (Suc (Suc (Suc (Suc 0))))))) =
    [0xc82c0368, 0x905906d0, 0xd1c5e0a5, 0x53fd2d4e, 0xa6fa5b9c, 0xbd835b3d, 0x7a07b77a, 0xf40e6ef5]"
  "map crc_swap (crc_basis (Suc (Suc (Suc (Suc (Suc (Suc (Suc 0)))))))) =
    [0x277d3c49, 0x4efa7892, 0x6d821d21, 0xda043b42, 0xb4097684, 0x9965000d, 0x32cb001a, 0x64960134]"
  by (simp_all add: crc_basis_values crc_swap_def)

lemmas be_lin =
  g_crc_slicing_be_0_lin g_crc_slicing_be_1_lin g_crc_slicing_be_2_lin g_crc_slicing_be_3_lin
  g_crc_slicing_be_4_lin g_crc_slicing_be_5_lin g_crc_slicing_be_6_lin g_crc_slicing_be_7_lin

lemma be_tables_lin: "k < 8 \<Longrightarrow> g_crc_slicing True k = lin_table (map crc_swap (crc_basis k))"
  unfolding less_8_cases
  by (elim disjE) (simp_all add: g_crc_slicing_def be_lin crc_basis_swapped)

lemma be_table:
  assumes "k < 8" "i < 256"
  shows "g_crc_slicing True k ! i = crc_swap (g_crc_slicing False k ! i)"
proof -
  have "lin_table (map (\<lambda>j. crc_swap ((crc_shift8 ^^ Suc k) (2 ^ j))) [0..<8]) =
      map (\<lambda>i. crc_swap ((crc_shift8 ^^ Suc k) (of_nat i))) [0..<2 ^ 8]"
    by (rule lin_table_eq) (simp only: crc_shift8_pow_xor crc_swap_xor)
  then have "g_crc_slicing True k =
      map (\<lambda>i. crc_swap ((crc_shift8 ^^ Suc k) (of_nat i))) [0..<256]"
    using be_tables_lin [OF assms(1)] by (simp add: crc_basis_def comp_def)
  then show ?thesis using assms le_table [OF assms] by (simp del: funpow.simps)
qed

section \<open>One byte, four bytes, eight bytes\<close>

lemma shift8_split: "crc_shift8 y = crc_shift8 (y AND 0xFF) XOR drop_bit 8 y"
proof -
  have y: "y = (y AND 0xFF) XOR push_bit 8 (drop_bit 8 y)"
    unfolding swap_masks(4) by (rule bit_word_eqI) (auto simp: bit_simps)
  have "take_bit 24 (drop_bit 8 y) = drop_bit 8 y"
    by (rule bit_word_eqI) (auto simp: bit_simps dest: bit_u32_bound)
  then have "crc_shift8 (push_bit 8 (drop_bit 8 y)) = drop_bit 8 y"
    by (simp only: crc_shift8_push)
  then show ?thesis by (subst y) (simp only: crc_shift8_xor)
qed

lemma shift8_pow_split:
  "(crc_shift8 ^^ Suc n) y = (crc_shift8 ^^ Suc n) (y AND 0xFF) XOR (crc_shift8 ^^ n) (drop_bit 8 y)"
  unfolding funpow_Suc_right comp_def
  by (subst shift8_split) (simp only: crc_shift8_pow_xor)

lemma shift8_absorb:
  assumes "take_bit 24 y = y"
  shows "crc_shift8 x XOR y = crc_shift8 (x XOR push_bit 8 y)"
  using assms by (simp only: crc_shift8_xor crc_shift8_push)

lemma byte_index_less: "unat ((x :: u32) AND 0xFF) < 256" "unat (drop_bit 24 (x :: u32)) < 256"
proof -
  show "unat (x AND 0xFF) < 256"
    using unat_less_power_of_bits [of 8 "x AND 0xFF"] unfolding swap_masks(4)
    by (simp add: bit_simps)
  show "unat (drop_bit 24 x) < 256"
    using unat_less_power_of_bits [of 8 "drop_bit 24 x"] bit_u32_bound [of x]
    by (force simp: bit_simps)
qed

lemma le_table_word:
  "k < 8 \<Longrightarrow> g_crc_slicing False k ! unat (x AND 0xFF) = (crc_shift8 ^^ Suc k) (x AND 0xFF)"
  "k < 8 \<Longrightarrow> g_crc_slicing False k ! unat (drop_bit 24 x) = (crc_shift8 ^^ Suc k) (drop_bit 24 x)"
  using byte_index_less [of x] by (simp_all add: le_table del: funpow.simps)

lemma crc_step_le: "crc_step False c b = crc_shift8 (c XOR ucast b)"
proof -
  have "drop_bit 8 (c XOR ucast b) = drop_bit 8 c"
    by (rule bit_word_eqI) (auto simp: bit_simps dest: bit_imp_le_length)
  then show ?thesis
    using shift8_split [of "c XOR ucast b"] le_table_word(1) [of 0 "c XOR ucast b"]
    by (simp add: crc_step_def)
qed

lemma shift8_absorb_byte:
  "crc_shift8 x XOR ucast (b :: u8) = crc_shift8 (x XOR push_bit 8 (ucast b))"
  "crc_shift8 x XOR push_bit 8 (ucast b) = crc_shift8 (x XOR push_bit 16 (ucast b))"
  "crc_shift8 x XOR push_bit 16 (ucast b) = crc_shift8 (x XOR push_bit 24 (ucast b))"
proof -
  have low: "take_bit 24 (push_bit n (ucast b)) = (push_bit n (ucast b) :: u32)" if "n \<le> 16" for n
    using that by (intro bit_word_eqI) (auto simp: bit_take_bit_iff bit_push_bit_iff bit_u8_u32)
  show "crc_shift8 x XOR ucast b = crc_shift8 (x XOR push_bit 8 (ucast b))"
    "crc_shift8 x XOR push_bit 8 (ucast b) = crc_shift8 (x XOR push_bit 16 (ucast b))"
    "crc_shift8 x XOR push_bit 16 (ucast b) = crc_shift8 (x XOR push_bit 24 (ucast b))"
    using shift8_absorb [OF low [of 0], of x] shift8_absorb [OF low [of 8], of x]
      shift8_absorb [OF low [of 16], of x] by (simp_all add: push_bit_push_bit)
qed

lemma load32_xor:
  "load32 False b0 b1 b2 b3 =
     ucast b0 XOR push_bit 8 (ucast b1) XOR push_bit 16 (ucast b2) XOR push_bit 24 (ucast b3)"
  by (rule bit_word_eqI) (auto simp: bit_load32 bit_xor_iff bit_push_bit_iff bit_u8_u32)

lemma shift8_pow4: "(crc_shift8 ^^ 4) z = crc_shift8 (crc_shift8 (crc_shift8 (crc_shift8 z)))"
  by (simp add: eval_nat_numeral)

lemma crc_four_bytes:
  "foldl (crc_step False) c [b0, b1, b2, b3] = (crc_shift8 ^^ 4) (c XOR load32 False b0 b1 b2 b3)"
  by (simp only: foldl.simps crc_step_le shift8_absorb_byte load32_xor xor.assoc shift8_pow4)

lemma crc_qword_le: "crc_qword False x y = (crc_shift8 ^^ 8) x XOR (crc_shift8 ^^ 4) y"
proof -
  have quarter: "(crc_shift8 ^^ Suc (Suc (Suc (Suc n)))) z =
      (crc_shift8 ^^ Suc (Suc (Suc (Suc n)))) (z AND 0xFF) XOR
      (crc_shift8 ^^ Suc (Suc (Suc n))) (drop_bit 8 z AND 0xFF) XOR
      (crc_shift8 ^^ Suc (Suc n)) (drop_bit 16 z AND 0xFF) XOR
      (crc_shift8 ^^ Suc n) (drop_bit 24 z)" for n z
    using shift8_pow_split [of "Suc (Suc (Suc n))" z] shift8_pow_split [of "Suc (Suc n)" "drop_bit 8 z"]
      shift8_pow_split [of "Suc n" "drop_bit 16 z"]
    by (simp only: drop_bit_drop_bit) (simp add: xor.assoc)
  have "(crc_shift8 ^^ 4) y =
      (crc_shift8 ^^ 4) (y AND 0xFF) XOR (crc_shift8 ^^ 3) (drop_bit 8 y AND 0xFF) XOR
      (crc_shift8 ^^ Suc (Suc 0)) (drop_bit 16 y AND 0xFF) XOR (crc_shift8 ^^ Suc 0) (drop_bit 24 y)"
    using quarter [of 0 y] by (simp only: eval_nat_numeral BitM.simps)
  then show ?thesis
    using quarter [of 4 x]
    by (simp add: crc_qword_def le_table_word xor.assoc del: funpow.simps)
qed

lemma be_table_word:
  fixes x :: u32
  shows
  "k < 8 \<Longrightarrow> g_crc_slicing True k ! unat (x AND 0xFF) = crc_swap (g_crc_slicing False k ! unat (x AND 0xFF))"
  "k < 8 \<Longrightarrow> g_crc_slicing True k ! unat (drop_bit 24 x) = crc_swap (g_crc_slicing False k ! unat (drop_bit 24 x))"
  using byte_index_less [of x] by (simp_all add: be_table)

lemma crc_step_be: "crc_step True (crc_swap c) b = crc_swap (crc_step False c b)"
proof -
  have "(drop_bit 24 (crc_swap c) XOR ucast b) AND 0xFF = (c XOR ucast b) AND 0xFF"
    unfolding crc_swap_byte3 by (rule bit_word_eqI) (auto simp: bit_simps)
  then show ?thesis
    by (simp add: crc_step_def be_table_word crc_swap_xor crc_swap_shift)
qed

lemma crc_qword_be: "crc_qword True (crc_swap x) (crc_swap y) = crc_swap (crc_qword False x y)"
  by (simp add: crc_qword_def crc_swap_bytes be_table_word crc_swap_xor xor.commute
      xor.left_commute)

lemma crc_eight_bytes:
  "crc_qword be (c XOR load32 be b0 b1 b2 b3) (load32 be b4 b5 b6 b7) =
     foldl (crc_step be) c [b0, b1, b2, b3, b4, b5, b6, b7]"
proof -
  have le: "crc_qword False (c XOR load32 False b0 b1 b2 b3) (load32 False b4 b5 b6 b7) =
     foldl (crc_step False) c [b0, b1, b2, b3, b4, b5, b6, b7]" for c
  proof -
    let ?d = "foldl (crc_step False) c [b0, b1, b2, b3]"
    have "foldl (crc_step False) c [b0, b1, b2, b3, b4, b5, b6, b7] =
        foldl (crc_step False) ?d [b4, b5, b6, b7]" by simp
    also have "\<dots> = (crc_shift8 ^^ 4) (?d XOR load32 False b4 b5 b6 b7)" by (rule crc_four_bytes)
    also have "\<dots> = (crc_shift8 ^^ 4) ((crc_shift8 ^^ 4) (c XOR load32 False b0 b1 b2 b3)) XOR
        (crc_shift8 ^^ 4) (load32 False b4 b5 b6 b7)"
      by (simp only: crc_four_bytes crc_shift8_pow_xor)
    also have "(crc_shift8 ^^ 4) ((crc_shift8 ^^ 4) z) = (crc_shift8 ^^ 8) z" for z
      using funpow_add [of 4 4 crc_shift8] by simp
    finally show ?thesis by (simp only: crc_qword_le)
  qed
  show ?thesis
  proof (cases be)
    case True
    let ?c = "crc_swap c"
    have "crc_qword True (crc_swap ?c XOR load32 True b0 b1 b2 b3) (load32 True b4 b5 b6 b7) =
        crc_swap (crc_qword False (?c XOR load32 False b0 b1 b2 b3) (load32 False b4 b5 b6 b7))"
      by (simp only: load32_swap crc_swap_xor [symmetric] crc_qword_be)
    also have "\<dots> = foldl (crc_step True) (crc_swap ?c) [b0, b1, b2, b3, b4, b5, b6, b7]"
      unfolding le by (simp only: foldl.simps crc_step_be)
    finally show ?thesis using True by simp
  qed (simp only: le)
qed

section \<open>The loops\<close>

lemma crc_align_eq:
  "\<exists>n. crc_align be addr c p = (foldl (crc_step be) c (take n p), drop n p)"
proof (induction be addr c p rule: crc_align.induct)
  case (2 be addr c b p)
  show ?case
  proof (cases "addr AND 3 = 0")
    case False
    then obtain n where "crc_align be (addr + 1) (crc_step be c b) p =
        (foldl (crc_step be) (crc_step be c b) (take n p), drop n p)"
      using 2 by blast
    then show ?thesis using False by (intro exI [of _ "Suc n"]) simp
  qed (auto intro: exI [of _ 0])
qed simp

lemma crc_qwords_eq:
  "8 * n \<le> length p \<Longrightarrow>
     crc_qwords be n c p = (foldl (crc_step be) c (take (8 * n) p), drop (8 * n) p)"
proof (induction n arbitrary: c p)
  case (Suc n)
  from Suc.prems obtain b0 b1 b2 b3 b4 b5 b6 b7 q
    where p: "p = b0 # b1 # b2 # b3 # b4 # b5 # b6 # b7 # q"
    by (auto simp: Suc_le_length_iff eval_nat_numeral)
  with Suc.prems have "8 * n \<le> length q" by simp
  moreover have "8 * Suc n = Suc (Suc (Suc (Suc (Suc (Suc (Suc (Suc (8 * n))))))))" by simp
  ultimately show ?case unfolding p using Suc.IH [of q] by (simp only: crc_qwords.simps
      crc_eight_bytes take_Suc_Cons drop_Suc_Cons foldl.simps)
qed simp

lemma crc_fold_be:
  "foldl (crc_step True) (crc_swap c) bs = crc_swap (foldl (crc_step False) c bs)"
  by (induction bs arbitrary: c) (simp_all add: crc_step_be)

lemma wt_cksum_fold:
  "wt_cksum be addr chunk =
     (if be then NOT (crc_swap (foldl (crc_step be) 0xffffffff chunk))
      else NOT (foldl (crc_step be) 0xffffffff chunk))"
proof -
  obtain n where a: "crc_align be addr 0xffffffff chunk =
      (foldl (crc_step be) 0xffffffff (take n chunk), drop n chunk)"
    using crc_align_eq by blast
  let ?p = "drop n chunk" and ?m = "8 * (length (drop n chunk) div 8)"
  have q: "crc_qwords be (length ?p div 8) c ?p = (foldl (crc_step be) c (take ?m ?p), drop ?m ?p)" for c
    by (rule crc_qwords_eq) simp
  have "length (drop ?m ?p) = length ?p mod 8" by (simp only: length_drop [of ?m] minus_mult_div_eq_mod)
  then have t: "take (length ?p mod 8) (drop ?m ?p) = drop ?m ?p" by simp
  have "foldl (crc_step be) (foldl (crc_step be) (foldl (crc_step be) 0xffffffff (take n chunk))
      (take ?m ?p)) (drop ?m ?p) = foldl (crc_step be) 0xffffffff (take n chunk @ take ?m ?p @ drop ?m ?p)"
    by (simp only: foldl_append)
  also have "take n chunk @ take ?m ?p @ drop ?m ?p = chunk" by (simp only: append_take_drop_id)
  finally show ?thesis
    unfolding wt_cksum_def a Let_def prod.case q t by (simp only:)
qed

lemma wt_cksum_crc32c: "wt_cksum be addr chunk = crc32c chunk"
proof -
  have fold: "foldl (crc_step False) c chunk = foldl (\<lambda>c b. crc_shift8 (c XOR ucast b)) c chunk" for c
    by (rule foldl_cong) (simp_all add: crc_step_le)
  have "crc_swap 0xffffffff = 0xffffffff" by (simp add: crc_swap_def)
  then show ?thesis
    using crc_fold_be [of "0xffffffff" chunk] by (simp add: wt_cksum_fold crc32c_def fold)
qed

section \<open>Sensitivity to changes\<close>

lemma crc_bit_zero: "crc_bit c = 0 \<Longrightarrow> c = 0"
proof (cases "bit c 0")
  case True
  assume "crc_bit c = 0"
  then have "bit (drop_bit 1 c XOR 0x82F63B78) 31 = bit (0 :: u32) 31" using True by (simp add: crc_bit_def)
  moreover have "\<not> bit (drop_bit 1 c) 31" using bit_u32_bound [of c 32] by (auto simp: bit_drop_bit_eq)
  moreover have "bit (0x82F63B78 :: u32) 31" by simp
  ultimately show ?thesis unfolding bit_xor_iff by simp
next
  case False
  assume "crc_bit c = 0"
  then have z: "drop_bit 1 c = 0" using False by (simp add: crc_bit_def)
  show ?thesis
  proof (rule bit_word_eqI)
    fix n
    show "bit c n = bit (0 :: u32) n"
      using False arg_cong [OF z, of "\<lambda>w. bit w (n - 1)"] by (cases n) (simp_all add: bit_drop_bit_eq)
  qed
qed

lemma xor_cancel: "c XOR a = c XOR b \<Longrightarrow> a = b" for a b c :: u32
  by (metis xor.assoc xor_self_eq xor.left_neutral)

lemma crc_shift8_inj: "crc_shift8 a = crc_shift8 b \<Longrightarrow> a = b"
proof -
  assume "crc_shift8 a = crc_shift8 b"
  then have "crc_shift8 (a XOR b) = 0" by (simp add: crc_shift8_xor)
  then have "a XOR b = 0" unfolding crc_shift8_def by (blast dest: crc_bit_zero)
  then show "a = b" by (metis xor_self_eq xor_cancel)
qed

lemma crc_fold_inj:
  "foldl (\<lambda>c b. crc_shift8 (c XOR ucast b)) a bs = foldl (\<lambda>c b. crc_shift8 (c XOR ucast b)) b bs \<Longrightarrow> a = b"
  for bs :: bytes
proof (induction bs arbitrary: a b)
  case (Cons x bs)
  then have "crc_shift8 (a XOR ucast x) = crc_shift8 (b XOR ucast x)" by simp
  from crc_shift8_inj [OF this] show ?case by (metis xor.commute xor_cancel)
qed simp

text \<open>Two chunks that differ in one byte have different checksums.\<close>

lemma crc32c_change_byte: "x \<noteq> y \<Longrightarrow> crc32c (pre @ x # post) \<noteq> crc32c (pre @ y # post)"
proof
  assume "x \<noteq> y"
  let ?c = "foldl (\<lambda>c b. crc_shift8 (c XOR ucast b)) 0xffffffff pre"
  assume "crc32c (pre @ x # post) = crc32c (pre @ y # post)"
  then have "crc_shift8 (?c XOR ucast x) = crc_shift8 (?c XOR ucast y)"
    unfolding crc32c_def by (auto dest: crc_fold_inj)
  from crc_shift8_inj [OF this] have "?c XOR ucast x = ?c XOR ucast y" .
  then have "(ucast x :: u32) = ucast y" by (rule xor_cancel)
  then have "bit x n = bit y n" for n using arg_cong [of _ _ "\<lambda>w. bit w n"] bit_u8_u32
    by (metis bit_imp_le_length len_num1 len_bit0 mult_2 numeral_Bit0 one_add_one)
  then have "x = y" by (intro bit_word_eqI)
  then show False using \<open>x \<noteq> y\<close> by contradiction
qed

section \<open>Properties\<close>

text \<open>
  C7: the slicing-by-8 checksum, in both byte orders and wherever the chunk is placed in
  memory, is the CRC-32C of the chunk computed bit by bit.
\<close>

theorem wt_cksum_is_crc32c: "wt_cksum be addr chunk = crc32c chunk"
  by (rule wt_cksum_crc32c)

end
