(* ===== verification/Wt_Intpack.thy ===== *)
theory Wt_Intpack
  imports Wt_Prelude
begin

text \<open>
  Variable-length integer packing, \<open>src/src/include/intpack.i\<close>, and the byte-wise key
  comparison of \<open>src/src/include/btree.i\<close> under which packed integers are ordered.
  A pack function returns the bytes it stores at \<open>*pp\<close>; an unpack function takes the bytes
  from \<open>*pp\<close> to the end of the buffer and returns the value with the bytes from the
  advanced \<open>*pp\<close> on. \<open>maxlen\<close> is the caller's bound, with 0 for no bound.
\<close>

section \<open>Markers and limits\<close>

definition NEG_MULTI_MARKER :: u8 where [code_unfold]: "NEG_MULTI_MARKER = 0x10"
definition NEG_2BYTE_MARKER :: u8 where [code_unfold]: "NEG_2BYTE_MARKER = 0x20"
definition NEG_1BYTE_MARKER :: u8 where [code_unfold]: "NEG_1BYTE_MARKER = 0x40"
definition POS_1BYTE_MARKER :: u8 where [code_unfold]: "POS_1BYTE_MARKER = 0x80"
definition POS_2BYTE_MARKER :: u8 where [code_unfold]: "POS_2BYTE_MARKER = 0xc0"
definition POS_MULTI_MARKER :: u8 where [code_unfold]: "POS_MULTI_MARKER = 0xe0"

definition NEG_1BYTE_MIN :: int where "NEG_1BYTE_MIN = - (2 ^ 6)"
definition NEG_2BYTE_MIN :: int where "NEG_2BYTE_MIN = - (2 ^ 13) + NEG_1BYTE_MIN"
definition POS_1BYTE_MAX :: int where "POS_1BYTE_MAX = 2 ^ 6 - 1"
definition POS_2BYTE_MAX :: int where "POS_2BYTE_MAX = 2 ^ 13 + POS_1BYTE_MAX"

lemmas marker_defs =
  NEG_MULTI_MARKER_def NEG_2BYTE_MARKER_def NEG_1BYTE_MARKER_def
  POS_1BYTE_MARKER_def POS_2BYTE_MARKER_def POS_MULTI_MARKER_def

lemmas limit_defs =
  NEG_1BYTE_MIN_def NEG_2BYTE_MIN_def POS_1BYTE_MAX_def POS_2BYTE_MAX_def

definition GET_BITS :: "'a::len word \<Rightarrow> nat \<Rightarrow> nat \<Rightarrow> 'a word" where
  "GET_BITS x start end = drop_bit end (x AND (push_bit start 1 - 1))"

text \<open>\<open>WT_SIZE_CHECK(l, maxl)\<close> followed by the rest of the function.\<close>

definition wt_size_check :: "nat \<Rightarrow> nat \<Rightarrow> 'a result \<Rightarrow> 'a result" where
  "wt_size_check l maxl k = (if maxl \<noteq> 0 \<and> l > maxl then Inl ENOMEM else k)"

text \<open>\<open>__builtin_clzll\<close> of a non-zero value: the number of zero bits above the highest set bit.\<close>

definition clzll :: "u64 \<Rightarrow> nat" where
  "clzll x = length (takeWhile (\<lambda>i. \<not> bit x i) (rev [0..<64]))"

definition WT_LEADING_ZEROS :: "u64 \<Rightarrow> nat" where
  "WT_LEADING_ZEROS x = (if x = 0 then 8 else clzll x div 8)"

section \<open>Packing\<close>

text \<open>The loop that stores the low \<open>len\<close> bytes of \<open>x\<close>, most significant first.\<close>

fun vpack_loop :: "nat \<Rightarrow> u64 \<Rightarrow> bytes" where
  "vpack_loop 0 x = []"
| "vpack_loop (Suc len) x = ucast (drop_bit (8 * len) x) # vpack_loop len x"

text \<open>\<open>marker\<close> is the byte the caller has stored at \<open>**pp\<close>, into which the length is or-ed.\<close>

definition wt_vpack_posint :: "u8 \<Rightarrow> nat \<Rightarrow> u64 \<Rightarrow> bytes result" where
  "wt_vpack_posint marker maxlen x =
     (let lz = WT_LEADING_ZEROS x; len = 8 - lz
      in wt_size_check (len + 1) maxlen
           (Inr ((marker OR (of_nat len AND 0xf)) # vpack_loop len x)))"

definition wt_vpack_negint :: "u8 \<Rightarrow> nat \<Rightarrow> u64 \<Rightarrow> bytes result" where
  "wt_vpack_negint marker maxlen x =
     (let lz = WT_LEADING_ZEROS (NOT x); len = 8 - lz
      in wt_size_check (len + 1) maxlen
           (Inr ((marker OR (of_nat lz AND 0xf)) # vpack_loop len x)))"

definition wt_vpack_uint :: "nat \<Rightarrow> u64 \<Rightarrow> bytes result" where
  "wt_vpack_uint maxlen x =
     wt_size_check 1 maxlen
       (if x \<le> of_int POS_1BYTE_MAX then
          Inr [POS_1BYTE_MARKER OR ucast (GET_BITS x 6 0)]
        else if x \<le> of_int POS_2BYTE_MAX then
          wt_size_check 2 maxlen
            (let x = x - of_int (POS_1BYTE_MAX + 1)
             in Inr [POS_2BYTE_MARKER OR ucast (GET_BITS x 13 8), ucast (GET_BITS x 8 0)])
        else
          wt_vpack_posint POS_MULTI_MARKER maxlen (x - of_int (POS_2BYTE_MAX + 1)))"

text \<open>The argument is an \<open>int64_t\<close>: a 64-bit word compared through \<open>sint\<close>.\<close>

definition wt_vpack_int :: "nat \<Rightarrow> u64 \<Rightarrow> bytes result" where
  "wt_vpack_int maxlen x =
     wt_size_check 1 maxlen
       (if sint x < NEG_2BYTE_MIN then
          wt_vpack_negint NEG_MULTI_MARKER maxlen x
        else if sint x < NEG_1BYTE_MIN then
          wt_size_check 2 maxlen
            (let x = x - of_int NEG_2BYTE_MIN
             in Inr [NEG_2BYTE_MARKER OR ucast (GET_BITS x 13 8), ucast (GET_BITS x 8 0)])
        else if sint x < 0 then
          (let x = x - of_int NEG_1BYTE_MIN
           in Inr [NEG_1BYTE_MARKER OR ucast (GET_BITS x 6 0)])
        else wt_vpack_uint maxlen x)"

section \<open>Unpacking\<close>

text \<open>\<open>x = (x << 8) | *p++\<close>, \<open>len\<close> times.\<close>

fun vunpack_loop :: "nat \<Rightarrow> u64 \<Rightarrow> bytes \<Rightarrow> (u64 \<times> bytes) result" where
  "vunpack_loop 0 x p = Inr (x, p)"
| "vunpack_loop (Suc len) x [] = Inl OUT_OF_BOUNDS"
| "vunpack_loop (Suc len) x (b # p) = vunpack_loop len (push_bit 8 x OR ucast b) p"

fun wt_vunpack_posint :: "nat \<Rightarrow> bytes \<Rightarrow> (u64 \<times> bytes) result" where
  "wt_vunpack_posint maxlen [] = Inl OUT_OF_BOUNDS"
| "wt_vunpack_posint maxlen (b # p) =
     (let len = unat (b AND 0xf)
      in wt_size_check (len + 1) maxlen (vunpack_loop len 0 p))"

text \<open>\<open>len\<close> is a \<open>uint8_t\<close>: \<open>8 - lz\<close> wraps when the low nibble is above 8.\<close>

fun wt_vunpack_negint :: "nat \<Rightarrow> bytes \<Rightarrow> (u64 \<times> bytes) result" where
  "wt_vunpack_negint maxlen [] = Inl OUT_OF_BOUNDS"
| "wt_vunpack_negint maxlen (b # p) =
     (let len = unat (8 - (b AND 0xf))
      in wt_size_check (len + 1) maxlen (vunpack_loop len (- 1) p))"

fun wt_vunpack_uint :: "nat \<Rightarrow> bytes \<Rightarrow> (u64 \<times> bytes) result" where
  "wt_vunpack_uint maxlen p =
     wt_size_check 1 maxlen
       (case p of [] \<Rightarrow> Inl OUT_OF_BOUNDS
        | b # q \<Rightarrow>
          (let tag = b AND 0xf0
           in if tag \<in> {POS_1BYTE_MARKER, POS_1BYTE_MARKER OR 0x10,
                        POS_1BYTE_MARKER OR 0x20, POS_1BYTE_MARKER OR 0x30} then
                Inr (ucast (GET_BITS b 6 0), q)
              else if tag \<in> {POS_2BYTE_MARKER, POS_2BYTE_MARKER OR 0x10} then
                wt_size_check 2 maxlen
                  (case q of [] \<Rightarrow> Inl OUT_OF_BOUNDS
                   | c # r \<Rightarrow>
                     Inr ((push_bit 8 (ucast (GET_BITS b 5 0)) OR ucast c)
                            + of_int (POS_1BYTE_MAX + 1), r))
              else if tag = POS_MULTI_MARKER then
                wt_ret (wt_vunpack_posint maxlen p)
                  (\<lambda>(x, r). Inr (x + of_int (POS_2BYTE_MAX + 1), r))
              else Inl EINVAL))"

text \<open>
  In the two-byte negative case the pointer has been advanced past both bytes when the
  source adds a further \<open>p += 2\<close>: the pointer ends four bytes on.
\<close>

fun wt_vunpack_int :: "nat \<Rightarrow> bytes \<Rightarrow> (u64 \<times> bytes) result" where
  "wt_vunpack_int maxlen p =
     wt_size_check 1 maxlen
       (case p of [] \<Rightarrow> Inl OUT_OF_BOUNDS
        | b # q \<Rightarrow>
          (let tag = b AND 0xf0
           in if tag = NEG_MULTI_MARKER then wt_vunpack_negint maxlen p
              else if tag \<in> {NEG_2BYTE_MARKER, NEG_2BYTE_MARKER OR 0x10} then
                wt_size_check 2 maxlen
                  (case q of [] \<Rightarrow> Inl OUT_OF_BOUNDS
                   | c # r \<Rightarrow>
                     Inr ((push_bit 8 (ucast (GET_BITS b 5 0)) OR ucast c)
                            + of_int NEG_2BYTE_MIN, drop 2 r))
              else if tag \<in> {NEG_1BYTE_MARKER, NEG_1BYTE_MARKER OR 0x10,
                             NEG_1BYTE_MARKER OR 0x20, NEG_1BYTE_MARKER OR 0x30} then
                Inr (of_int NEG_1BYTE_MIN + ucast (GET_BITS b 6 0), q)
              else wt_vunpack_uint maxlen p))"

declare wt_vunpack_uint.simps [simp del] wt_vunpack_int.simps [simp del]

section \<open>Packed sizes\<close>

definition WT_INTPACK64_MAXSIZE :: nat where
  "WT_INTPACK64_MAXSIZE = 8 + 1"

definition wt_vsize_posint :: "u64 \<Rightarrow> nat" where
  "wt_vsize_posint x = WT_INTPACK64_MAXSIZE - WT_LEADING_ZEROS x"

definition wt_vsize_negint :: "u64 \<Rightarrow> nat" where
  "wt_vsize_negint x = WT_INTPACK64_MAXSIZE - WT_LEADING_ZEROS (NOT x)"

definition wt_vsize_uint :: "u64 \<Rightarrow> nat" where
  "wt_vsize_uint x =
     (if x \<le> of_int POS_1BYTE_MAX then 1
      else if x \<le> of_int POS_2BYTE_MAX then 2
      else wt_vsize_posint (x - of_int (POS_2BYTE_MAX + 1)))"

definition wt_vsize_int :: "u64 \<Rightarrow> nat" where
  "wt_vsize_int x =
     (if sint x < NEG_2BYTE_MIN then wt_vsize_negint x
      else if sint x < NEG_1BYTE_MIN then 2
      else if sint x < 0 then 1
      else wt_vsize_uint x)"

section \<open>The key comparison\<close>

text \<open>
  \<open>__wt_btree_lex_compare\<close> of two items: the first differing byte decides, then the sizes
  (\<open>usz\<close>, \<open>tsz\<close> are the remaining sizes when the common prefix is used up).
\<close>

fun wt_btree_lex_compare :: "bytes \<Rightarrow> bytes \<Rightarrow> int" where
  "wt_btree_lex_compare (u # us) (t # ts) =
     (if u \<noteq> t then (if u < t then - 1 else 1) else wt_btree_lex_compare us ts)"
| "wt_btree_lex_compare us ts =
     (if length us = length ts then 0 else if length us < length ts then - 1 else 1)"


section \<open>Leading zero bytes\<close>

lemma clzll_bounds:
  assumes "x \<noteq> 0"
  shows "clzll x < 64" "bit x (63 - clzll x)" "\<And>i. 63 - clzll x < i \<Longrightarrow> \<not> bit x i"
proof -
  let ?P = "\<lambda>i. \<not> bit x i" and ?xs = "rev [0..<64]"
  have ex: "\<exists>i<64. bit x i"
  proof (rule ccontr)
    assume "\<not> ?thesis"
    then have "x = 0" by (intro bit_word_eqI) auto
    with assms show False by simp
  qed
  have len: "clzll x < length ?xs"
  proof (rule ccontr)
    assume "\<not> ?thesis"
    then have "takeWhile ?P ?xs = ?xs"
      using length_takeWhile_le [of ?P ?xs] unfolding clzll_def
      by (metis takeWhile_eq_take take_all le_refl not_less order_antisym)
    then have "\<forall>i\<in>set ?xs. ?P i" by (metis set_takeWhileD)
    with ex show False by auto
  qed
  then show l: "clzll x < 64" by simp
  have "\<not> ?P (?xs ! clzll x)"
    using nth_length_takeWhile [of ?P ?xs] len unfolding clzll_def by simp
  with l show "bit x (63 - clzll x)" by (simp add: rev_nth)
  fix i assume i: "63 - clzll x < i"
  show "\<not> bit x i"
  proof (cases "i < 64")
    case True
    have m: "63 - i < clzll x" using i l True by arith
    have "?P (?xs ! (63 - i))"
      using takeWhile_nth [of "63 - i" ?P ?xs] m nth_mem [of "63 - i" "takeWhile ?P ?xs"]
      unfolding clzll_def by (metis set_takeWhileD)
    with True show ?thesis by (simp add: rev_nth)
  qed (use bit_imp_le_length in fastforce)
qed

lemma WT_LEADING_ZEROS_le: "WT_LEADING_ZEROS x \<le> 8"
  using clzll_bounds(1) [of x] by (auto simp: WT_LEADING_ZEROS_def)

lemma WT_LEADING_ZEROS_upper: "unat x < 2 ^ (8 * (8 - WT_LEADING_ZEROS x))"
proof (cases "x = 0")
  case False
  have "unat x < 2 ^ (64 - clzll x)"
    using clzll_bounds [OF False] by (intro unat_less_power_of_bits) auto
  also have "\<dots> \<le> 2 ^ (8 * (8 - clzll x div 8))"
    using clzll_bounds(1) [OF False] by (intro power_increasing) auto
  finally show ?thesis using False by (simp add: WT_LEADING_ZEROS_def)
qed (simp add: WT_LEADING_ZEROS_def)

lemma WT_LEADING_ZEROS_lower:
  assumes "WT_LEADING_ZEROS x < 8"
  shows "2 ^ (8 * (7 - WT_LEADING_ZEROS x)) \<le> unat x"
proof -
  have nz: "x \<noteq> 0" using assms by (auto simp: WT_LEADING_ZEROS_def)
  have "(2::nat) ^ (8 * (7 - clzll x div 8)) \<le> 2 ^ (63 - clzll x)"
    using clzll_bounds(1) [OF nz] by (intro power_increasing) auto
  also have "\<dots> \<le> unat x"
    by (rule unat_ge_power_of_bit) (rule clzll_bounds(2) [OF nz])
  finally show ?thesis using nz by (simp add: WT_LEADING_ZEROS_def)
qed

lemma WT_LEADING_ZEROS_mono:
  assumes "unat x \<le> unat y"
  shows "WT_LEADING_ZEROS y \<le> WT_LEADING_ZEROS x"
proof (rule ccontr)
  assume "\<not> ?thesis"
  then have lt: "WT_LEADING_ZEROS x < WT_LEADING_ZEROS y" by simp
  have "2 ^ (8 * (7 - WT_LEADING_ZEROS x)) \<le> unat x"
    using lt WT_LEADING_ZEROS_le [of y] by (intro WT_LEADING_ZEROS_lower) simp
  also have "\<dots> \<le> unat y" by (rule assms)
  also have "\<dots> < 2 ^ (8 * (8 - WT_LEADING_ZEROS y))" by (rule WT_LEADING_ZEROS_upper)
  finally have "8 * (7 - WT_LEADING_ZEROS x) < 8 * (8 - WT_LEADING_ZEROS y)"
    by (simp only: power_strict_increasing_iff)
  with lt show False by simp
qed

lemma length_vpack_loop [simp]: "length (vpack_loop len x) = len"
  by (induction len) auto

lemma vunpack_vpack_loop:
  "vunpack_loop len a (vpack_loop len x @ rest) =
     Inr (push_bit (8 * len) a OR take_bit (8 * len) x, rest)"
proof (induction len arbitrary: a)
  case (Suc len)
  let ?b = "ucast (drop_bit (8 * len) x) :: u8"
  have "push_bit (8 * len) (push_bit 8 a OR ucast ?b) OR take_bit (8 * len) x =
        push_bit (8 * Suc len) a OR take_bit (8 * Suc len) x"
    by (rule bit_word_eqI) (auto simp: bit_simps add.commute)
  then show ?case by (simp add: Suc.IH)
qed simp

lemma unat_vpack_head: "unat (ucast (drop_bit n (x :: u64)) :: u8) = unat x div 2 ^ n mod 256"
  unfolding unsigned_ucast_eq unsigned_drop_bit_eq
  using unsigned_less [of x, where ?'a = nat] by (simp add: take_bit_eq_mod drop_bit_eq_div)

lemma lex_compare_vpack_loop:
  assumes "unat x mod 2 ^ (8 * len) < unat y mod 2 ^ (8 * len)"
  shows "wt_btree_lex_compare (vpack_loop len x) (vpack_loop len y) = - 1"
  using assms
proof (induction len)
  case (Suc len)
  let ?M = "2 ^ (8 * len) :: nat"
  have split: "v mod 2 ^ (8 * Suc len) = ?M * (v div ?M mod 256) + v mod ?M" for v :: nat
    using mod_mult2_eq [of v ?M 256] by (simp add: power_add mult.commute)
  let ?hx = "unat x div ?M mod 256" and ?hy = "unat y div ?M mod 256"
  have lt: "?M * ?hx + unat x mod ?M < ?M * ?hy + unat y mod ?M"
    using Suc.prems by (simp only: split)
  have "?hx \<le> ?hy"
  proof (rule ccontr)
    assume "\<not> ?hx \<le> ?hy"
    then have "?M * ?hy + ?M \<le> ?M * ?hx"
      using mult_le_mono2 [of "?hy + 1" ?hx ?M] by simp
    moreover have "unat y mod ?M < ?M" by simp
    ultimately show False using lt by linarith
  qed
  moreover have "unat x mod ?M < unat y mod ?M" if "?hx = ?hy"
    using lt that by simp
  ultimately show ?case
    using Suc.IH by (auto simp: word_less_iff_unat word_unat_eq_iff unat_vpack_head)
qed simp




section \<open>The packed forms\<close>

lemma byte_markers_table:
  "list_all (\<lambda>k. POS_1BYTE_MARKER OR byte k = byte (128 + k)) [0..<64]"
  "list_all (\<lambda>k. NEG_1BYTE_MARKER OR byte k = byte (64 + k)) [0..<64]"
  "list_all (\<lambda>k. POS_2BYTE_MARKER OR byte k = byte (192 + k)) [0..<32]"
  "list_all (\<lambda>k. NEG_2BYTE_MARKER OR byte k = byte (32 + k)) [0..<32]"
  "list_all (\<lambda>k. POS_MULTI_MARKER OR (of_nat k AND 0xf) = byte (224 + k)) [0..<16]"
  "list_all (\<lambda>k. NEG_MULTI_MARKER OR (of_nat k AND 0xf) = byte (16 + k)) [0..<16]"
  by code_simp+

lemmas byte_markers = byte_markers_table [unfolded list_all_upt, rule_format]

lemma byte_tags_table:
  "list_all (\<lambda>k. byte (128 + k) AND 0xf0 \<in>
     {POS_1BYTE_MARKER, POS_1BYTE_MARKER OR 0x10, POS_1BYTE_MARKER OR 0x20, POS_1BYTE_MARKER OR 0x30}) [0..<64]"
  "list_all (\<lambda>k. byte (192 + k) AND 0xf0 \<in>
     {POS_2BYTE_MARKER, POS_2BYTE_MARKER OR 0x10}) [0..<32]"
  "list_all (\<lambda>k. byte (224 + k) AND 0xf0 = POS_MULTI_MARKER) [0..<16]"
  "list_all (\<lambda>k. byte (64 + k) AND 0xf0 \<in>
     {NEG_1BYTE_MARKER, NEG_1BYTE_MARKER OR 0x10, NEG_1BYTE_MARKER OR 0x20, NEG_1BYTE_MARKER OR 0x30}) [0..<64]"
  "list_all (\<lambda>k. byte (32 + k) AND 0xf0 \<in>
     {NEG_2BYTE_MARKER, NEG_2BYTE_MARKER OR 0x10}) [0..<32]"
  "list_all (\<lambda>k. byte (16 + k) AND 0xf0 = NEG_MULTI_MARKER) [0..<16]"
  by code_simp+

lemmas byte_tags = byte_tags_table [unfolded list_all_upt, rule_format]

lemma byte_payloads_table:
  "list_all (\<lambda>k. GET_BITS (byte (128 + k)) 6 0 = byte k) [0..<64]"
  "list_all (\<lambda>k. GET_BITS (byte (64 + k)) 6 0 = byte k) [0..<64]"
  "list_all (\<lambda>k. GET_BITS (byte (192 + k)) 5 0 = byte k) [0..<32]"
  "list_all (\<lambda>k. GET_BITS (byte (32 + k)) 5 0 = byte k) [0..<32]"
  "list_all (\<lambda>k. unat (byte (224 + k) AND 0xf) = k) [0..<16]"
  "list_all (\<lambda>k. unat (8 - (byte (16 + k) AND 0xf)) = 8 - k) [0..<9]"
  by code_simp+

lemmas byte_payloads = byte_payloads_table [unfolded list_all_upt, rule_format]

lemma GET_BITS_unat:
  assumes "s < LENGTH('a)"
  shows "unat (GET_BITS (x :: 'a::len word) s e) = unat x mod 2 ^ s div 2 ^ e"
proof -
  have "x AND (push_bit s 1 - 1) = take_bit s x"
    by (simp add: take_bit_eq_mask mask_eq_exp_minus_1 push_bit_eq_mult)
  moreover have "unat x mod 2 ^ s < 2 ^ LENGTH('a)"
    using unsigned_less [of x, where ?'a = nat] by (meson le_less_trans mod_less_eq_dividend)
  ultimately show ?thesis unfolding GET_BITS_def
    by (simp only: unsigned_drop_bit_eq unsigned_take_bit_eq) (simp add: take_bit_eq_mod drop_bit_eq_div)
qed

lemma ucast_u8_eq_byte: "(ucast (x :: u64) :: u8) = byte (unat x)"
  by (simp add: byte_def)

lemma ucast_GET_BITS:
  "s < 64 \<Longrightarrow> ucast (GET_BITS (x :: u64) s e) = byte (unat x mod 2 ^ s div 2 ^ e)"
  by (simp add: ucast_u8_eq_byte GET_BITS_unat)

lemma limits_u64:
  "x \<le> (of_int POS_1BYTE_MAX :: u64) \<longleftrightarrow> unat x \<le> 63"
  "x \<le> (of_int POS_2BYTE_MAX :: u64) \<longleftrightarrow> unat x \<le> 8255"
  by (simp_all add: limit_defs word_le_nat_alt)

lemma limits_value:
  "(of_int (POS_1BYTE_MAX + 1) :: u64) = 64"
  "(of_int (POS_2BYTE_MAX + 1) :: u64) = 8256"
  "(of_int POS_1BYTE_MAX :: u64) + 1 = 64"
  "(of_int POS_2BYTE_MAX :: u64) + 1 = 8256"
  by (simp_all add: limit_defs)

lemma unat_minus_u64: "unat (c :: u64) \<le> unat x \<Longrightarrow> unat (x - c) = unat x - unat c"
  by (simp add: unat_sub word_le_nat_alt)

lemma wt_size_check_1 [simp]: "wt_size_check (Suc 0) maxlen k = k"
  by (auto simp: wt_size_check_def)

lemma wt_vpack_uint_1byte:
  assumes "unat x \<le> 63"
  shows "wt_vpack_uint maxlen x = Inr [byte (128 + unat x)]"
  using assms
  by (simp add: wt_vpack_uint_def limits_u64 ucast_GET_BITS byte_markers)

lemma wt_vpack_uint_2byte:
  assumes "63 < unat x" "unat x \<le> 8255"
  shows "wt_vpack_uint maxlen x = wt_size_check 2 maxlen
    (Inr [byte (192 + (unat x - 64) div 256), byte ((unat x - 64) mod 256)])"
proof -
  have y: "unat (x - 64) = unat x - 64"
    using assms by (subst unat_minus_u64) auto
  have "(unat x - 64) div 256 < 32" using assms by simp
  with assms show ?thesis
    by (simp add: wt_vpack_uint_def limits_u64 limits_value Let_def ucast_GET_BITS y byte_markers)
qed

lemma wt_vpack_uint_multi:
  assumes "8255 < unat x"
  defines "y \<equiv> x - 8256"
  defines "len \<equiv> 8 - WT_LEADING_ZEROS y"
  shows "wt_vpack_uint maxlen x =
    wt_size_check (len + 1) maxlen (Inr (byte (224 + len) # vpack_loop len y))"
proof -
  have "len < 16" by (simp add: len_def)
  with assms(1) show ?thesis
    unfolding wt_vpack_uint_def wt_vpack_posint_def limits_u64 limits_value Let_def
      y_def [symmetric] len_def [symmetric]
    by (simp add: byte_markers)
qed

section \<open>Round trip, size and order of unsigned integers\<close>

lemma wt_vsize_uint_cases:
  "unat x \<le> 63 \<Longrightarrow> wt_vsize_uint x = 1"
  "63 < unat x \<Longrightarrow> unat x \<le> 8255 \<Longrightarrow> wt_vsize_uint x = 2"
  "8255 < unat x \<Longrightarrow> wt_vsize_uint x = 8 - WT_LEADING_ZEROS (x - 8256) + 1"
  using WT_LEADING_ZEROS_le [of "x - 8256"]
  by (simp_all add: wt_vsize_uint_def limits_u64 limits_value wt_vsize_posint_def WT_INTPACK64_MAXSIZE_def)

lemma wt_vpack_uint_bound:
  "wt_vpack_uint maxlen x = wt_size_check (wt_vsize_uint x) maxlen (wt_vpack_uint 0 x)"
  and wt_vpack_uint_total:
  "\<exists>bs. wt_vpack_uint 0 x = Inr bs \<and> length bs = wt_vsize_uint x"
proof -
  consider "unat x \<le> 63" | "63 < unat x" "unat x \<le> 8255" | "8255 < unat x" by linarith
  then have "wt_vpack_uint maxlen x = wt_size_check (wt_vsize_uint x) maxlen (wt_vpack_uint 0 x) \<and>
    (\<exists>bs. wt_vpack_uint 0 x = Inr bs \<and> length bs = wt_vsize_uint x)"
  proof cases
    case 1 then show ?thesis by (simp add: wt_vpack_uint_1byte wt_vsize_uint_cases)
  next
    case 2 then show ?thesis
      by (simp add: wt_vpack_uint_2byte wt_vsize_uint_cases wt_size_check_def)
  next
    case 3 then show ?thesis
      by (simp add: wt_vpack_uint_multi wt_vsize_uint_cases wt_size_check_def)
  qed
  then show "wt_vpack_uint maxlen x = wt_size_check (wt_vsize_uint x) maxlen (wt_vpack_uint 0 x)"
    "\<exists>bs. wt_vpack_uint 0 x = Inr bs \<and> length bs = wt_vsize_uint x" by auto
qed



lemma ucast_byte: "k < 256 \<Longrightarrow> (ucast (byte k) :: u64) = of_nat k"
  by (simp add: word_unat_eq_iff unsigned_of_nat take_bit_nat_eq_self)

lemma byte_mod: "byte (n mod 256) = byte n"
  by (simp add: byte_eq_iff)

lemma two_byte_value:
  assumes "v < 65536"
  shows "push_bit 8 (ucast (byte (v div 256))) OR ucast (byte (v mod 256)) = (of_nat v :: u64)"
proof -
  have v: "unat (of_nat v :: u64) = v"
    using assms by (simp add: unsigned_of_nat take_bit_eq_mod)
  have "vpack_loop 2 (of_nat v) = [byte (v div 256), byte (v mod 256)]"
    unfolding numeral_2_eq_2 vpack_loop.simps
    by (simp only: list.inject word_unat_eq_iff unat_vpack_head v unat_byte) simp
  moreover have "take_bit 16 (of_nat v :: u64) = of_nat v"
    unfolding word_unat_eq_iff unsigned_take_bit_eq v using assms by (simp add: take_bit_eq_mod)
  ultimately show ?thesis
    using vunpack_vpack_loop [of 2 0 "of_nat v" "[]"] by (simp add: numeral_2_eq_2)
qed

lemma wt_vunpack_uint_1byte:
  "k < 64 \<Longrightarrow> wt_vunpack_uint maxlen (byte (128 + k) # rest) = Inr (of_nat k, rest)"
  using byte_tags(1) [of k]
  by (simp add: wt_vunpack_uint.simps Let_def byte_payloads ucast_byte)

lemma wt_vunpack_uint_2byte:
  assumes "v < 8192"
  shows "wt_vunpack_uint maxlen (byte (192 + v div 256) # byte (v mod 256) # rest) =
    wt_size_check 2 maxlen (Inr (of_nat v + 64, rest))"
proof -
  have k: "v div 256 < 32" using assms by simp
  let ?b = "byte (192 + v div 256)"
  have tag: "?b AND 0xf0 \<in> {POS_2BYTE_MARKER, POS_2BYTE_MARKER OR 0x10}"
    by (rule byte_tags(2) [OF k])
  have no1: "?b AND 0xf0 \<notin> {POS_1BYTE_MARKER, POS_1BYTE_MARKER OR 0x10,
      POS_1BYTE_MARKER OR 0x20, POS_1BYTE_MARKER OR 0x30}"
    using tag by (auto simp: marker_defs)
  show ?thesis
    using tag no1 k assms two_byte_value [of v]
    by (simp add: wt_vunpack_uint.simps Let_def byte_payloads limits_value)
qed

lemma wt_vunpack_uint_multi:
  assumes "len < 16"
  shows "wt_vunpack_uint maxlen (byte (224 + len) # p) =
    wt_size_check (len + 1) maxlen
      (wt_ret (vunpack_loop len 0 p) (\<lambda>(x, r). Inr (x + 8256, r)))"
proof -
  let ?b = "byte (224 + len)"
  have tag: "?b AND 0xf0 = POS_MULTI_MARKER" by (rule byte_tags(3) [OF assms])
  have no: "POS_MULTI_MARKER \<notin> {POS_1BYTE_MARKER, POS_1BYTE_MARKER OR 0x10,
      POS_1BYTE_MARKER OR 0x20, POS_1BYTE_MARKER OR 0x30}"
    "POS_MULTI_MARKER \<notin> {POS_2BYTE_MARKER, POS_2BYTE_MARKER OR 0x10}"
    by (auto simp: marker_defs)
  show ?thesis
    using no assms
    by (simp add: wt_vunpack_uint.simps Let_def tag byte_payloads limits_value wt_size_check_def)
qed

lemma wt_vunpack_vpack_uint:
  assumes "wt_vpack_uint maxlen x = Inr bs"
  shows "wt_vunpack_uint maxlen (bs @ rest) = Inr (x, rest)"
proof -
  consider "unat x \<le> 63" | "63 < unat x" "unat x \<le> 8255" | "8255 < unat x" by linarith
  then show ?thesis
  proof cases
    case 1
    with assms show ?thesis
      by (auto simp: wt_vpack_uint_1byte wt_vunpack_uint_1byte)
  next
    case 2
    let ?v = "unat x - 64"
    have "of_nat ?v + 64 = x" using 2 by (simp add: word_unat_eq_iff unat_minus_u64)
    moreover have "?v < 8192" using 2 by simp
    ultimately show ?thesis
      using assms 2 wt_vunpack_uint_2byte [of ?v maxlen rest]
      by (auto simp: wt_vpack_uint_2byte wt_size_check_def split: if_splits)
  next
    case 3
    let ?y = "x - 8256"
    have "take_bit (8 * (8 - WT_LEADING_ZEROS ?y)) ?y = ?y"
      using WT_LEADING_ZEROS_upper [of ?y]
      by (simp only: word_unat_eq_iff unsigned_take_bit_eq take_bit_nat_eq_self)
    with assms 3 show ?thesis
      by (auto simp: wt_vpack_uint_multi wt_vunpack_uint_multi vunpack_vpack_loop
          wt_size_check_def split: if_splits)
  qed
qed

lemma div_mod_256_less:
  "a < b \<Longrightarrow> a div 256 < b div 256 \<or> a div 256 = b div 256 \<and> a mod 256 < b mod (256 :: nat)"
  using div_mult_mod_eq [of a 256] div_mult_mod_eq [of b 256] div_le_mono [of a b 256] by linarith

lemma lex_compare_two_bytes:
  assumes "c + b div 256 < 256" "a < b"
  shows "wt_btree_lex_compare [byte (c + a div 256), byte (a mod 256)]
           [byte (c + b div 256), byte (b mod 256)] = - 1"
  using assms div_mod_256_less [of a b] by (auto simp: byte_eq_iff byte_less_iff)

lemma lex_compare_head:
  "m < n \<Longrightarrow> n < 256 \<Longrightarrow> wt_btree_lex_compare (byte m # us) (byte n # ts) = - 1"
  by (simp add: byte_eq_iff byte_less_iff)

lemma wt_vpack_uint_mono:
  assumes "x < y" "wt_vpack_uint 0 x = Inr bx" "wt_vpack_uint 0 y = Inr cy"
  shows "wt_btree_lex_compare bx cy = - 1"
proof -
  have xy: "unat x < unat y" using assms(1) by (simp add: word_less_iff_unat)
  consider "unat y \<le> 63" | "unat x \<le> 63" "63 < unat y" "unat y \<le> 8255"
    | "63 < unat x" "unat y \<le> 8255" | "unat x \<le> 63" "8255 < unat y"
    | "63 < unat x" "unat x \<le> 8255" "8255 < unat y" | "8255 < unat x"
    by linarith
  then show ?thesis
  proof cases
    case 3
    then show ?thesis
      using assms(2,3) xy lex_compare_two_bytes [of 192 "unat y - 64" "unat x - 64"]
      by (simp add: wt_vpack_uint_2byte wt_size_check_def)
  next
    case 6
    let ?u = "x - 8256" and ?v = "y - 8256"
    have u: "unat ?u = unat x - 8256" "unat ?v = unat y - 8256"
      using 6 xy by (subst unat_minus_u64; simp)+
    have lz: "WT_LEADING_ZEROS ?v \<le> WT_LEADING_ZEROS ?u"
      using xy by (intro WT_LEADING_ZEROS_mono) (simp add: u)
    have "unat ?u mod 2 ^ (8 * (8 - WT_LEADING_ZEROS ?u)) = unat ?u"
      "unat ?v mod 2 ^ (8 * (8 - WT_LEADING_ZEROS ?v)) = unat ?v"
      by (simp_all only: mod_less WT_LEADING_ZEROS_upper)
    then have "wt_btree_lex_compare (vpack_loop (8 - WT_LEADING_ZEROS ?u) ?u)
        (vpack_loop (8 - WT_LEADING_ZEROS ?v) ?v) = - 1"
      if "WT_LEADING_ZEROS ?u = WT_LEADING_ZEROS ?v"
      using 6 xy that lex_compare_vpack_loop [of ?u "8 - WT_LEADING_ZEROS ?u" ?v] by (simp add: u)
    moreover have "wt_btree_lex_compare (byte (224 + (8 - WT_LEADING_ZEROS ?u)) # us)
        (byte (224 + (8 - WT_LEADING_ZEROS ?v)) # ts) = - 1"
      if "WT_LEADING_ZEROS ?u \<noteq> WT_LEADING_ZEROS ?v" for us ts
      using lz that WT_LEADING_ZEROS_le [of ?u] by (intro lex_compare_head) auto
    ultimately show ?thesis
      using assms(2,3) 6 xy by (cases "WT_LEADING_ZEROS ?u = WT_LEADING_ZEROS ?v")
        (auto simp: wt_vpack_uint_multi wt_size_check_def)
  next
    case 1
    then show ?thesis using assms(2,3) xy
      by (auto simp: wt_vpack_uint_1byte intro!: lex_compare_head)
  next
    case 2
    then show ?thesis using assms(2,3) xy
      by (auto simp: wt_vpack_uint_1byte wt_vpack_uint_2byte wt_size_check_def
          intro!: lex_compare_head)
  next
    case 4
    then show ?thesis using assms(2,3) xy
      by (auto simp: wt_vpack_uint_1byte wt_vpack_uint_multi wt_size_check_def
          intro!: lex_compare_head)
  next
    case 5
    then show ?thesis using assms(2,3) xy
      by (auto simp: wt_vpack_uint_2byte wt_vpack_uint_multi wt_size_check_def
          intro!: lex_compare_head)
  qed
qed

section \<open>Signed integers\<close>

lemma uint_of_negative:
  fixes x :: u64
  assumes "sint x < 0"
  shows "uint x = 2 ^ 64 + sint x"
proof -
  have "uint x = (2 ^ 64 + sint x) mod 2 ^ 64"
    by (simp add: uint_sint take_bit_eq_mod)
  also have "\<dots> = 2 ^ 64 + sint x"
    using assms sint_greater_eq [of x] by (intro mod_pos_pos_trivial) simp_all
  finally show ?thesis .
qed

lemma uint_of_nonnegative:
  fixes x :: u64
  assumes "0 \<le> sint x"
  shows "uint x = sint x"
  using assms sint_less [of x] by (simp add: uint_sint take_bit_eq_mod)

lemma unat_shift_negative:
  fixes x :: u64
  assumes "- c \<le> sint x" "sint x < 0" "c < 2 ^ 63"
  shows "unat (x - of_int (- c)) = nat (sint x + c)"
proof -
  have "uint (x - of_int (- c)) = (uint x + c) mod 2 ^ 64"
    by (simp add: uint_word_ariths uint_word_of_int mod_simps)
  also have "\<dots> = (sint x + c) mod 2 ^ 64"
    using mod_add_self1 [of "2 ^ 64" "sint x + c"]
    by (simp add: uint_of_negative [OF assms(2)] add.assoc)
  also have "\<dots> = sint x + c" using assms by simp
  finally show ?thesis by (simp add: unat_eq_nat_uint)
qed

lemma neg_limits:
  "NEG_1BYTE_MIN = - 64" "NEG_2BYTE_MIN = - 8256"
  by (simp_all add: limit_defs)

lemma wt_vpack_int_nonnegative: "0 \<le> sint x \<Longrightarrow> wt_vpack_int maxlen x = wt_vpack_uint maxlen x"
  by (simp add: wt_vpack_int_def neg_limits)

lemma wt_vpack_int_1byte:
  assumes "- 64 \<le> sint x" "sint x < 0"
  shows "wt_vpack_int maxlen x = Inr [byte (64 + nat (sint x + 64))]"
  using assms unat_shift_negative [of 64 x]
  by (simp add: wt_vpack_int_def neg_limits Let_def ucast_GET_BITS byte_markers)

lemma wt_vpack_int_2byte:
  assumes "- 8256 \<le> sint x" "sint x < - 64"
  shows "wt_vpack_int maxlen x = wt_size_check 2 maxlen
    (Inr [byte (32 + nat (sint x + 8256) div 256), byte (nat (sint x + 8256) mod 256)])"
proof -
  have "nat (sint x + 8256) div 256 < 32" using assms by simp
  with assms show ?thesis
    using unat_shift_negative [of 8256 x]
    by (simp add: wt_vpack_int_def neg_limits Let_def ucast_GET_BITS byte_markers)
qed

lemma wt_vpack_int_multi:
  assumes "sint x < - 8256"
  defines "lz \<equiv> WT_LEADING_ZEROS (NOT x)"
  shows "wt_vpack_int maxlen x = wt_size_check (8 - lz + 1) maxlen
    (Inr (byte (16 + lz) # vpack_loop (8 - lz) x))"
proof -
  have "lz < 16" using WT_LEADING_ZEROS_le [of "NOT x"] by (simp add: lz_def)
  with assms(1) show ?thesis
    unfolding wt_vpack_int_def wt_vpack_negint_def neg_limits Let_def lz_def [symmetric]
    by (simp add: byte_markers)
qed

lemma unat_NOT: "unat (NOT x) = 2 ^ 64 - 1 - unat (x :: u64)"
proof -
  have "NOT x = - 1 - x" by (simp add: not_eq_complement)
  moreover have "unat x \<le> unat (- 1 :: u64)" by (simp add: word_le_nat_alt [symmetric])
  moreover have "unat (- 1 :: u64) = 2 ^ 64 - 1"
    by (simp add: unsigned_minus_1_eq_mask mask_eq_exp_minus_1)
  ultimately show ?thesis by (simp only: unat_minus_u64)
qed

lemma uint_NOT_negative:
  fixes x :: u64
  assumes "sint x < 0"
  shows "uint (NOT x) = - sint x - 1"
proof -
  have "int (unat x) = 2 ^ 64 + sint x"
    using uint_of_negative [OF assms] by simp
  then have "int (unat (NOT x)) = - sint x - 1"
    using unsigned_less [of x, where ?'a = nat] by (simp add: unat_NOT of_nat_diff)
  then show ?thesis by simp
qed

lemma low_bits_of_NOT:
  fixes z :: u64
  assumes "unat (NOT z) < 2 ^ k" "k \<le> 64"
  shows "unat z mod 2 ^ k = 2 ^ k - 1 - unat (NOT z)"
proof -
  let ?M = "2 ^ k :: nat" and ?q = "2 ^ (64 - k) :: nat"
  have "?M * ?q = 2 ^ 64" using assms(2) by (simp flip: power_add)
  moreover obtain r where "?q = Suc r" by (metis Suc_pred zero_less_numeral zero_less_power)
  ultimately have "2 ^ 64 = ?M * r + ?M" by simp
  moreover have "unat z = 2 ^ 64 - 1 - unat (NOT z)"
    using unat_NOT [of "NOT z"] by simp
  ultimately have "unat z = ?M * r + (?M - 1 - unat (NOT z))"
    using assms(1) by linarith
  then have "unat z mod ?M = (?M - 1 - unat (NOT z)) mod ?M" by simp
  also have "\<dots> = ?M - 1 - unat (NOT z)" by (rule mod_less) simp
  finally show ?thesis .
qed

lemma wt_vpack_uint_head:
  assumes "wt_vpack_uint maxlen x = Inr bs"
  obtains n ts where "bs = byte n # ts" "128 \<le> n" "n < 240"
proof -
  consider "unat x \<le> 63" | "63 < unat x" "unat x \<le> 8255" | "8255 < unat x" by linarith
  then show thesis
  proof cases
    case 1 with assms show thesis
      by (intro that [of "128 + unat x" "[]"]) (auto simp: wt_vpack_uint_1byte)
  next
    case 2 with assms show thesis
      by (intro that [of "192 + (unat x - 64) div 256" "[byte ((unat x - 64) mod 256)]"])
        (auto simp: wt_vpack_uint_2byte wt_size_check_def split: if_splits)
  next
    case 3 with assms show thesis
      by (intro that [of "224 + (8 - WT_LEADING_ZEROS (x - 8256))"
          "vpack_loop (8 - WT_LEADING_ZEROS (x - 8256)) (x - 8256)"])
        (auto simp: wt_vpack_uint_multi wt_size_check_def split: if_splits)
  qed
qed

lemma lex_compare_negatives:
  assumes "sint x < sint y" "sint y < 0"
    and bx: "wt_vpack_int 0 x = Inr bx" and cy: "wt_vpack_int 0 y = Inr cy"
  shows "wt_btree_lex_compare bx cy = - 1"
proof -
  consider "- 64 \<le> sint x" | "- 8256 \<le> sint x" "sint x < - 64" "- 64 \<le> sint y"
    | "- 8256 \<le> sint x" "sint y < - 64" | "sint x < - 8256" "- 64 \<le> sint y"
    | "sint x < - 8256" "- 8256 \<le> sint y" "sint y < - 64" | "sint y < - 8256"
    using assms(1) by linarith
  then show ?thesis
  proof cases
    case 1
    with assms show ?thesis by (auto simp: wt_vpack_int_1byte intro!: lex_compare_head)
  next
    case 2
    with assms show ?thesis
      by (auto simp: wt_vpack_int_1byte wt_vpack_int_2byte wt_size_check_def
          intro!: lex_compare_head)
  next
    case 3
    then show ?thesis
      using assms lex_compare_two_bytes [of 32 "nat (sint y + 8256)" "nat (sint x + 8256)"]
      by (simp add: wt_vpack_int_2byte wt_size_check_def)
  next
    case 4
    with assms WT_LEADING_ZEROS_le [of "NOT x"] show ?thesis
      by (auto simp: wt_vpack_int_1byte wt_vpack_int_multi wt_size_check_def
          intro!: lex_compare_head)
  next
    case 5
    with assms WT_LEADING_ZEROS_le [of "NOT x"] show ?thesis
      by (auto simp: wt_vpack_int_2byte wt_vpack_int_multi wt_size_check_def
          intro!: lex_compare_head)
  next
    case 6
    let ?a = "WT_LEADING_ZEROS (NOT x)" and ?b = "WT_LEADING_ZEROS (NOT y)"
    have "uint (NOT y) < uint (NOT x)"
      using assms(1,2) by (simp add: uint_NOT_negative)
    then have lt: "unat (NOT y) < unat (NOT x)" by (simp only: word_less_def [symmetric] word_less_nat_alt [symmetric])
    then have ab: "?a \<le> ?b" by (intro WT_LEADING_ZEROS_mono) simp
    let ?k = "8 * (8 - ?a)"
    have "wt_btree_lex_compare (vpack_loop (8 - ?a) x) (vpack_loop (8 - ?b) y) = - 1"
      if eq: "?a = ?b"
    proof -
      have "unat (NOT x) < 2 ^ ?k" by (rule WT_LEADING_ZEROS_upper)
      moreover have "unat (NOT y) < 2 ^ ?k" unfolding eq by (rule WT_LEADING_ZEROS_upper)
      ultimately have "unat x mod 2 ^ ?k < unat y mod 2 ^ ?k"
        using lt low_bits_of_NOT [of x ?k] low_bits_of_NOT [of y ?k] by linarith
      then show ?thesis unfolding eq [symmetric] by (rule lex_compare_vpack_loop)
    qed
    moreover have "wt_btree_lex_compare (byte (16 + ?a) # us) (byte (16 + ?b) # ts) = - 1"
      if "?a \<noteq> ?b" for us ts
      using that ab WT_LEADING_ZEROS_le [of "NOT y"] by (intro lex_compare_head) auto
    ultimately show ?thesis
      using assms 6 by (cases "?a = ?b") (auto simp: wt_vpack_int_multi wt_size_check_def)
  qed
qed

lemma wt_vpack_int_negative_head:
  assumes "sint x < 0" "wt_vpack_int maxlen x = Inr bs"
  obtains n ts where "bs = byte n # ts" "n < 128"
proof -
  consider "- 64 \<le> sint x" | "- 8256 \<le> sint x" "sint x < - 64" | "sint x < - 8256" by linarith
  then show thesis
  proof cases
    case 1 with assms show thesis
      by (intro that [of "64 + nat (sint x + 64)" "[]"]) (auto simp: wt_vpack_int_1byte)
  next
    case 2 with assms show thesis
      by (intro that [of "32 + nat (sint x + 8256) div 256" "[byte (nat (sint x + 8256) mod 256)]"])
        (auto simp: wt_vpack_int_2byte wt_size_check_def split: if_splits)
  next
    case 3 with assms WT_LEADING_ZEROS_le [of "NOT x"] show thesis
      by (intro that [of "16 + WT_LEADING_ZEROS (NOT x)" "vpack_loop (8 - WT_LEADING_ZEROS (NOT x)) x"])
        (auto simp: wt_vpack_int_multi wt_size_check_def split: if_splits)
  qed
qed

lemma wt_vpack_int_mono:
  assumes "sint x < sint y" "wt_vpack_int 0 x = Inr bx" "wt_vpack_int 0 y = Inr cy"
  shows "wt_btree_lex_compare bx cy = - 1"
proof (cases "0 \<le> sint x")
  case True
  then have "x < y" using assms(1) by (simp add: word_less_def uint_of_nonnegative)
  then show ?thesis
    using True assms by (intro wt_vpack_uint_mono [of x y]) (simp_all add: wt_vpack_int_nonnegative)
next
  case False
  show ?thesis
  proof (cases "sint y < 0")
    case True
    with assms show ?thesis by (intro lex_compare_negatives [of x y])
  next
    case y: False
    obtain m us where "bx = byte m # us" "m < 128"
      using False assms(2) by (elim wt_vpack_int_negative_head [rotated]) auto
    moreover obtain n ts where "cy = byte n # ts" "128 \<le> n" "n < 240"
      using y assms(3) wt_vpack_uint_head by (metis not_less wt_vpack_int_nonnegative)
    ultimately show ?thesis by (simp add: byte_eq_iff byte_less_iff)
  qed
qed


lemma wt_vunpack_int_1byte:
  assumes "k < 64"
  shows "wt_vunpack_int maxlen (byte (64 + k) # rest) = Inr (of_int (int k - 64), rest)"
proof -
  let ?b = "byte (64 + k)"
  have tag: "?b AND 0xf0 \<in> {NEG_1BYTE_MARKER, NEG_1BYTE_MARKER OR 0x10,
      NEG_1BYTE_MARKER OR 0x20, NEG_1BYTE_MARKER OR 0x30}"
    by (rule byte_tags(4) [OF assms])
  then have "?b AND 0xf0 \<notin> {NEG_MULTI_MARKER, NEG_2BYTE_MARKER, NEG_2BYTE_MARKER OR 0x10}"
    by (auto simp: marker_defs)
  with tag assms show ?thesis
    by (simp add: wt_vunpack_int.simps Let_def byte_payloads ucast_byte neg_limits)
qed

lemma wt_vunpack_int_2byte:
  assumes "v < 8192"
  shows "wt_vunpack_int maxlen (byte (32 + v div 256) # byte (v mod 256) # rest) =
    wt_size_check 2 maxlen (Inr (of_int (int v - 8256), drop 2 rest))"
proof -
  have k: "v div 256 < 32" using assms by simp
  let ?b = "byte (32 + v div 256)"
  have tag: "?b AND 0xf0 \<in> {NEG_2BYTE_MARKER, NEG_2BYTE_MARKER OR 0x10}"
    by (rule byte_tags(5) [OF k])
  then have "?b AND 0xf0 \<noteq> NEG_MULTI_MARKER" by (auto simp: marker_defs)
  with tag k assms two_byte_value [of v] show ?thesis
    by (simp add: wt_vunpack_int.simps Let_def byte_payloads neg_limits)
qed

lemma wt_vunpack_int_multi:
  assumes "lz < 9"
  shows "wt_vunpack_int maxlen (byte (16 + lz) # p) =
    wt_size_check (8 - lz + 1) maxlen (vunpack_loop (8 - lz) (- 1) p)"
  using assms by (simp add: wt_vunpack_int.simps byte_tags byte_payloads Let_def)

lemma byte_tags_uint_table:
  "list_all (\<lambda>k. byte (128 + k) AND 0xf0 \<notin>
     {NEG_MULTI_MARKER, NEG_2BYTE_MARKER, NEG_2BYTE_MARKER OR 0x10, NEG_1BYTE_MARKER,
      NEG_1BYTE_MARKER OR 0x10, NEG_1BYTE_MARKER OR 0x20, NEG_1BYTE_MARKER OR 0x30}) [0..<112]"
  by code_simp

lemma wt_vunpack_int_uint:
  assumes "128 \<le> n" "n < 240"
  shows "wt_vunpack_int maxlen (byte n # p) = wt_vunpack_uint maxlen (byte n # p)"
proof -
  have "byte (128 + (n - 128)) AND 0xf0 \<notin>
     {NEG_MULTI_MARKER, NEG_2BYTE_MARKER, NEG_2BYTE_MARKER OR 0x10, NEG_1BYTE_MARKER,
      NEG_1BYTE_MARKER OR 0x10, NEG_1BYTE_MARKER OR 0x20, NEG_1BYTE_MARKER OR 0x30}"
    using assms by (intro byte_tags_uint_table [unfolded list_all_upt, rule_format]) simp
  then show ?thesis using assms(1) by (simp add: wt_vunpack_int.simps Let_def)
qed

lemma sign_extend_NOT:
  fixes x :: u64
  assumes "unat (NOT x) < 2 ^ k"
  shows "push_bit k (- 1) OR take_bit k x = x"
proof (rule bit_word_eqI)
  fix i assume "i < LENGTH(64)"
  moreover have "\<not> bit (NOT x) i" if "k \<le> i"
  proof
    assume "bit (NOT x) i"
    then have "2 ^ i \<le> unat (NOT x)" by (rule unat_ge_power_of_bit)
    from this assms have "(2::nat) ^ i < 2 ^ k" by (rule le_less_trans)
    with that show False by (simp add: power_strict_increasing_iff)
  qed
  ultimately show "bit (push_bit k (- 1) OR take_bit k x) i = bit x i"
    by (auto simp: bit_simps)
qed

lemma wt_vunpack_vpack_int:
  assumes "wt_vpack_int maxlen x = Inr bs"
  shows "wt_vunpack_int maxlen (bs @ rest) =
    Inr (x, if NEG_2BYTE_MIN \<le> sint x \<and> sint x < NEG_1BYTE_MIN then drop 2 rest else rest)"
proof -
  consider "0 \<le> sint x" | "- 64 \<le> sint x" "sint x < 0" | "- 8256 \<le> sint x" "sint x < - 64"
    | "sint x < - 8256" by linarith
  then show ?thesis
  proof cases
    case 1
    then have u: "wt_vpack_uint maxlen x = Inr bs" using assms by (simp add: wt_vpack_int_nonnegative)
    then obtain n ts where "bs = byte n # ts" "128 \<le> n" "n < 240" by (rule wt_vpack_uint_head)
    with 1 wt_vunpack_vpack_uint [OF u, of rest] show ?thesis
      by (simp add: wt_vunpack_int_uint neg_limits)
  next
    case 2
    with assms show ?thesis
      by (auto simp: wt_vpack_int_1byte wt_vunpack_int_1byte neg_limits)
  next
    case 3
    with assms wt_vunpack_int_2byte [of "nat (sint x + 8256)" maxlen rest] show ?thesis
      by (auto simp: wt_vpack_int_2byte wt_size_check_def neg_limits split: if_splits)
  next
    case 4
    have "push_bit (8 * (8 - WT_LEADING_ZEROS (NOT x))) (- 1) OR
        take_bit (8 * (8 - WT_LEADING_ZEROS (NOT x))) x = x"
      by (rule sign_extend_NOT) (rule WT_LEADING_ZEROS_upper)
    with assms 4 WT_LEADING_ZEROS_le [of "NOT x"] show ?thesis
      by (auto simp: wt_vpack_int_multi wt_vunpack_int_multi vunpack_vpack_loop neg_limits
          wt_size_check_def split: if_splits)
  qed
qed

lemma wt_vpack_int_total:
  "\<exists>bs. wt_vpack_int 0 x = Inr bs \<and> length bs = wt_vsize_int x"
proof -
  consider "0 \<le> sint x" | "- 64 \<le> sint x" "sint x < 0" | "- 8256 \<le> sint x" "sint x < - 64"
    | "sint x < - 8256" by linarith
  then show ?thesis
  proof cases
    case 1 then show ?thesis
      using wt_vpack_uint_total [of x]
      by (simp add: wt_vpack_int_nonnegative wt_vsize_int_def neg_limits)
  next
    case 2 then show ?thesis by (simp add: wt_vpack_int_1byte wt_vsize_int_def neg_limits)
  next
    case 3 then show ?thesis
      by (simp add: wt_vpack_int_2byte wt_vsize_int_def neg_limits wt_size_check_def)
  next
    case 4 then show ?thesis using WT_LEADING_ZEROS_le [of "NOT x"]
      by (simp add: wt_vpack_int_multi wt_vsize_int_def wt_vsize_negint_def neg_limits
          WT_INTPACK64_MAXSIZE_def wt_size_check_def)
  qed
qed

lemma lex_compare_refl: "wt_btree_lex_compare bs bs = 0"
  by (induction bs) auto

lemma lex_compare_swap: "wt_btree_lex_compare bs cs = - 1 \<Longrightarrow> wt_btree_lex_compare cs bs = 1"
  by (induction bs cs rule: wt_btree_lex_compare.induct) (auto split: if_splits)

lemma wt_vpack_int_bound:
  "wt_vpack_int maxlen x = wt_size_check (wt_vsize_int x) maxlen (wt_vpack_int 0 x)"
proof (cases "0 \<le> sint x")
  case True
  then show ?thesis using wt_vpack_uint_bound [of maxlen x]
    by (simp add: wt_vpack_int_nonnegative wt_vsize_int_def neg_limits)
next
  case False
  have lz: "WT_INTPACK64_MAXSIZE - WT_LEADING_ZEROS (NOT x) = 8 - WT_LEADING_ZEROS (NOT x) + 1"
    using WT_LEADING_ZEROS_le [of "NOT x"] by (simp add: WT_INTPACK64_MAXSIZE_def)
  consider "- 64 \<le> sint x" | "- 8256 \<le> sint x" "sint x < - 64" | "sint x < - 8256" by linarith
  then show ?thesis using False lz
    by cases (auto simp: wt_vpack_int_1byte wt_vpack_int_2byte wt_vpack_int_multi
        wt_vsize_int_def wt_vsize_negint_def neg_limits wt_size_check_def)
qed

lemma wt_vsize_int_range: "1 \<le> wt_vsize_int x \<and> wt_vsize_int x \<le> WT_INTPACK64_MAXSIZE"
proof -
  have "8 - n \<le> 8 \<and> 1 \<le> 9 - m" if "m \<le> 8" for m n :: nat using that by simp
  then show ?thesis
    using WT_LEADING_ZEROS_le [of "NOT x"] WT_LEADING_ZEROS_le [of "x - 8256"]
    by (auto simp: wt_vsize_int_def wt_vsize_negint_def wt_vsize_uint_def wt_vsize_posint_def
        WT_INTPACK64_MAXSIZE_def limits_value)
qed

section \<open>Properties\<close>

text \<open>
  C22: packing an unsigned integer into a buffer with room for it and unpacking the bytes gives
  the integer back and leaves the pointer right behind the packed form, whatever follows.
\<close>

theorem vpack_uint_roundtrip:
  assumes "maxlen = 0 \<or> wt_vsize_uint x \<le> maxlen"
  shows "\<exists>bs. wt_vpack_uint maxlen x = Inr bs \<and>
    wt_vunpack_uint maxlen (bs @ rest) = Inr (x, rest)"
proof -
  obtain bs where "wt_vpack_uint maxlen x = Inr bs"
    using assms wt_vpack_uint_total [of x] wt_vpack_uint_bound [of maxlen x]
    by (auto simp: wt_size_check_def)
  then show ?thesis by (auto intro: wt_vunpack_vpack_uint)
qed

theorem vpack_uint_roundtrip_witness:
  "wt_vsize_uint 100000 \<le> 4 \<and>
   (\<exists>bs. wt_vpack_uint 4 100000 = Inr bs \<and> wt_vunpack_uint 4 (bs @ [7]) = Inr (100000, [7]))"
proof -
  have "wt_vsize_uint 100000 \<le> 4" by code_simp
  then show ?thesis using vpack_uint_roundtrip [of 4 100000 "[7]"] by blast
qed

text \<open>
  C23: packed signed integers, compared byte by byte as keys are, have the order of the integers.
\<close>

theorem vpack_int_order:
  "\<exists>bx cy. wt_vpack_int 0 x = Inr bx \<and> wt_vpack_int 0 y = Inr cy \<and>
     wt_btree_lex_compare bx cy =
       (if sint x < sint y then - 1 else if sint x = sint y then 0 else 1)"
proof -
  obtain bx cy where bx: "wt_vpack_int 0 x = Inr bx" and cy: "wt_vpack_int 0 y = Inr cy"
    using wt_vpack_int_total by blast
  have "x = y" if "sint x = sint y"
    using arg_cong [OF that, of "of_int :: int \<Rightarrow> u64"] by simp
  then consider "sint x < sint y" | "sint y < sint x" | "x = y" by linarith
  then have "wt_btree_lex_compare bx cy =
      (if sint x < sint y then - 1 else if sint x = sint y then 0 else 1)"
  proof cases
    case 1
    with wt_vpack_int_mono [OF 1 bx cy] show ?thesis by simp
  next
    case 2
    with lex_compare_swap [OF wt_vpack_int_mono [OF 2 cy bx]] show ?thesis by auto
  next
    case 3
    with bx cy lex_compare_refl show ?thesis by simp
  qed
  with bx cy show ?thesis by blast
qed

text \<open>
  Packed unsigned integers, compared byte by byte as keys are, have the order of the
  integers over the whole 64-bit range.
\<close>

theorem vpack_uint_order:
  "\<exists>bx cy. wt_vpack_uint 0 x = Inr bx \<and> wt_vpack_uint 0 y = Inr cy \<and>
     wt_btree_lex_compare bx cy = (if x < y then - 1 else if x = y then 0 else 1)"
proof -
  obtain bx cy where bx: "wt_vpack_uint 0 x = Inr bx" and cy: "wt_vpack_uint 0 y = Inr cy"
    using wt_vpack_uint_total by blast
  consider "x < y" | "y < x" | "x = y" by fastforce
  then have "wt_btree_lex_compare bx cy =
      (if x < y then - 1 else if x = y then 0 else 1)"
  proof cases
    case 1
    with wt_vpack_uint_mono [OF 1 bx cy] show ?thesis by simp
  next
    case 2
    with lex_compare_swap [OF wt_vpack_uint_mono [OF 2 cy bx]] show ?thesis by auto
  next
    case 3
    with bx cy lex_compare_refl show ?thesis by simp
  qed
  with bx cy show ?thesis by blast
qed

text \<open>
  C38: packing a signed integer fails with \<open>ENOMEM\<close> exactly when the caller's bound is below
  the size that \<open>__wt_vsize_int\<close> predicts; otherwise it writes exactly that many bytes,
  between one and \<open>WT_INTPACK64_MAXSIZE\<close>.
\<close>

theorem vpack_int_size:
  "(maxlen \<noteq> 0 \<and> maxlen < wt_vsize_int x \<and> wt_vpack_int maxlen x = Inl ENOMEM) \<or>
   (\<exists>bs. wt_vpack_int maxlen x = Inr bs \<and> length bs = wt_vsize_int x \<and>
      1 \<le> length bs \<and> length bs \<le> WT_INTPACK64_MAXSIZE \<and>
      (maxlen = 0 \<or> length bs \<le> maxlen))"
  using wt_vpack_int_total [of x] wt_vpack_int_bound [of maxlen x] wt_vsize_int_range [of x]
  by (auto simp: wt_size_check_def)

text \<open>
  C39: unpacking a packed signed integer gives the integer back; the pointer ends right behind
  the packed form except for the two-byte negative range (from \<open>NEG_2BYTE_MIN\<close> up to, not
  including, \<open>NEG_1BYTE_MIN\<close>), where the code skips two further bytes.
\<close>

theorem vpack_int_roundtrip:
  assumes "maxlen = 0 \<or> wt_vsize_int x \<le> maxlen"
  shows "\<exists>bs. wt_vpack_int maxlen x = Inr bs \<and>
    wt_vunpack_int maxlen (bs @ rest) =
      Inr (x, if NEG_2BYTE_MIN \<le> sint x \<and> sint x < NEG_1BYTE_MIN then drop 2 rest else rest)"
proof -
  obtain bs where "wt_vpack_int maxlen x = Inr bs"
    using assms wt_vpack_int_total [of x] wt_vpack_int_bound [of maxlen x]
    by (auto simp: wt_size_check_def)
  then show ?thesis using wt_vunpack_vpack_int by blast
qed

theorem vpack_int_roundtrip_witness:
  "wt_vsize_int (- 100) \<le> 2 \<and>
   (\<exists>bs. wt_vpack_int 2 (- 100) = Inr bs \<and>
      wt_vunpack_int 2 (bs @ [1, 2, 3]) = Inr (- 100, [3]))"
proof -
  have h: "wt_vsize_int (- 100) \<le> 2" by code_simp
  have "NEG_2BYTE_MIN \<le> sint (- 100 :: u64) \<and> sint (- 100 :: u64) < NEG_1BYTE_MIN"
    by code_simp
  with h show ?thesis using vpack_int_roundtrip [of 2 "- 100" "[1, 2, 3]"] by simp
qed

end
