(* ===== verification/Wt_Skiplist.thy ===== *)
theory Wt_Skiplist
  imports Wt_Prelude
begin

text \<open>
  Skiplists as the block manager uses them. A skiplist is represented by its level-0 chain,
  each node carrying its depth: the chain that the source links through \<open>next[i]\<close> is the
  sublist of the nodes whose depth is above \<open>i\<close>. A pointer to a link (\<open>&node->next[i]\<close> or
  \<open>&head[i]\<close>) is represented by the part of the level-0 chain behind the node that owns the
  link. The level-by-level search of the source is kept as it is; the lemmas show that its
  result is the first node not below the key and that linking or unlinking a node at every
  level is insertion into, or removal from, the level-0 chain.

  The theory also holds the random number generator (\<open>src/src/support/rand.c\<close>) and the choice
  of a node's depth (\<open>src/src/include/btree.i\<close>).
\<close>

section \<open>Random depths\<close>

text \<open>The two static variables of \<open>__wt_random\<close>.\<close>

record rng =
  m_w :: u32
  m_z :: u32

definition rng_init :: rng where
  "rng_init = \<lparr>m_w = 521288629, m_z = 362436069\<rparr>"

definition wt_random :: "rng \<Rightarrow> u32 \<times> rng" where
  "wt_random g =
     (let z = 36969 * (m_z g AND 65535) + drop_bit 16 (m_z g);
          w = 18000 * (m_w g AND 65535) + drop_bit 16 (m_w g)
      in (push_bit 16 z + (w AND 65535), g\<lparr>m_z := z, m_w := w\<rparr>))"

definition WT_SKIP_MAXDEPTH :: nat where
  "WT_SKIP_MAXDEPTH = 10"

definition WT_SKIP_PROBABILITY :: u32 where
  "WT_SKIP_PROBABILITY = drop_bit 2 (- 1)"

text \<open>The loop of \<open>__wt_skip_choose_depth\<close> from depth \<open>d\<close> on.\<close>

function choose_depth_from :: "nat \<Rightarrow> rng \<Rightarrow> nat \<times> rng" where
  "choose_depth_from d g =
     (if d < WT_SKIP_MAXDEPTH then
        (let (r, g') = wt_random g
         in if r < WT_SKIP_PROBABILITY then choose_depth_from (Suc d) g' else (d, g'))
      else (d, g))"
  by pat_completeness auto
termination
  by (relation "measure (\<lambda>(d, g). WT_SKIP_MAXDEPTH - d)") auto

definition wt_skip_choose_depth :: "rng \<Rightarrow> nat \<times> rng" where
  "wt_skip_choose_depth g = choose_depth_from 1 g"

declare choose_depth_from.simps [simp del]

section \<open>Search\<close>

text \<open>\<open>*extp\<close> for a link at level \<open>i\<close>: the next node of depth above \<open>i\<close>, with what is behind it.\<close>

fun skip_next :: "('n \<Rightarrow> nat) \<Rightarrow> nat \<Rightarrow> 'n list \<Rightarrow> ('n \<times> 'n list) option" where
  "skip_next depth i [] = None"
| "skip_next depth i (n # ns) = (if i < depth n then Some (n, ns) else skip_next depth i ns)"

lemma skip_next_SomeD:
  "skip_next depth i s = Some (n, r) \<Longrightarrow>
     \<exists>u. s = u @ n # r \<and> (\<forall>x\<in>set u. depth x \<le> i) \<and> i < depth n"
proof (induction s)
  case (Cons x s)
  show ?case
  proof (cases "i < depth x")
    case True
    with Cons.prems show ?thesis by auto
  next
    case False
    with Cons obtain u where "s = u @ n # r" "\<forall>x\<in>set u. depth x \<le> i" "i < depth n" by auto
    with False show ?thesis by (intro exI [of _ "x # u"]) auto
  qed
qed simp

lemma skip_next_None: "skip_next depth i s = None \<Longrightarrow> \<forall>x\<in>set s. depth x \<le> i"
  by (induction s) (auto split: if_splits)

text \<open>
  The search loop shared by \<open>__block_off_srch\<close> and \<open>__block_size_srch\<close>: as far as possible at
  each level, then one level down; the links at which it stepped down, level 0 first.
\<close>

function skip_srch ::
  "('n \<Rightarrow> nat) \<Rightarrow> ('n \<Rightarrow> int) \<Rightarrow> nat \<Rightarrow> int \<Rightarrow> 'n list \<Rightarrow> 'n list list" where
  "skip_srch depth key 0 k s = []"
| "skip_srch depth key (Suc i) k s =
     (case skip_next depth i s of
        Some (n, r) \<Rightarrow>
          if key n < k then skip_srch depth key (Suc i) k r
          else skip_srch depth key i k s @ [s]
      | None \<Rightarrow> skip_srch depth key i k s @ [s])"
  by pat_completeness auto
termination
  by (relation "measures [\<lambda>(d, key, i, k, s). i, \<lambda>(d, key, i, k, s). length s]")
    (auto dest!: skip_next_SomeD)

declare skip_srch.simps(2) [simp del]

text \<open>
  \<open>*stack[i] = ext\<close> and \<open>*stack[i] = ext->next[i]\<close> over the levels of the node: the node is
  put in front of, or taken out at, the link \<open>cell\<close> of level 0.
\<close>

definition skip_link :: "'n \<Rightarrow> 'n list \<Rightarrow> 'n list \<Rightarrow> 'n list" where
  "skip_link n cell xs = take (length xs - length cell) xs @ n # cell"

definition skip_unlink :: "'n list \<Rightarrow> 'n list \<Rightarrow> 'n list" where
  "skip_unlink cell xs = take (length xs - length cell) xs @ tl cell"

text \<open>The node behind the link is changed in place (not its key and not its depth).\<close>

definition skip_update :: "'n \<Rightarrow> 'n list \<Rightarrow> 'n list \<Rightarrow> 'n list" where
  "skip_update n cell xs = take (length xs - length cell) xs @ n # tl cell"

definition skip_level :: "('n \<Rightarrow> nat) \<Rightarrow> nat \<Rightarrow> 'n list \<Rightarrow> 'n list" where
  "skip_level depth i xs = filter (\<lambda>n. i < depth n) xs"

section \<open>Depths\<close>

lemma choose_depth_from_range:
  "1 \<le> d \<Longrightarrow> d \<le> WT_SKIP_MAXDEPTH \<Longrightarrow>
     1 \<le> fst (choose_depth_from d g) \<and> fst (choose_depth_from d g) \<le> WT_SKIP_MAXDEPTH"
proof (induction d g rule: choose_depth_from.induct)
  case (1 d g)
  obtain r g' where "wt_random g = (r, g')" by (cases "wt_random g")
  with 1 show ?case by (subst (1 2) choose_depth_from.simps) auto
qed

lemma wt_skip_choose_depth_range:
  "wt_skip_choose_depth g = (d, g') \<Longrightarrow> 0 < d \<and> d \<le> WT_SKIP_MAXDEPTH"
  using choose_depth_from_range [of 1 g]
  by (simp add: wt_skip_choose_depth_def WT_SKIP_MAXDEPTH_def)

section \<open>The search result\<close>

lemma length_skip_srch [simp]: "length (skip_srch depth key i k s) = i"
proof (induction depth key i k s rule: skip_srch.induct)
  case (2 depth key i k s)
  then show ?case by (auto simp: skip_srch.simps(2) split: option.splits)
qed simp

definition skip_sorted :: "('n \<Rightarrow> nat) \<Rightarrow> ('n \<Rightarrow> int) \<Rightarrow> 'n list \<Rightarrow> bool" where
  "skip_sorted depth key xs \<longleftrightarrow>
     sorted_wrt (\<lambda>a b. key a < key b) xs \<and> (\<forall>n\<in>set xs. 0 < depth n)"

lemma dropWhile_below:
  "(\<And>x. x \<in> set u \<Longrightarrow> P x) \<Longrightarrow> dropWhile P (u @ r) = dropWhile P r"
  by (rule dropWhile_append2) auto

lemma dropWhile_stop: "\<not> P n \<Longrightarrow> dropWhile P (u @ n # r) = dropWhile P u @ n # r"
  by (induction u) auto

text \<open>
  At every level \<open>j\<close> the link found has only smaller nodes in front of it, and the chain of
  level \<open>j\<close> behind it is the chain of the nodes not below the key.
\<close>

lemma skip_level_none:
  "\<forall>x\<in>set s. depth x \<le> i \<Longrightarrow> skip_level depth i s = []"
  by (simp add: skip_level_def filter_empty_conv not_less)

lemma skip_level_dropWhile_none:
  "skip_next depth i s = None \<Longrightarrow> skip_level depth i (dropWhile P s) = skip_level depth i s"
  using skip_next_None [of depth i s] skip_level_none [of s depth i]
    skip_level_none [of "dropWhile P s" depth i] by (simp add: set_dropWhileD)

lemma skip_level_dropWhile_stop:
  assumes "skip_next depth i s = Some (n, r)" "\<not> P n"
  shows "skip_level depth i (dropWhile P s) = skip_level depth i s"
proof -
  obtain u where u: "s = u @ n # r" "\<forall>x\<in>set u. depth x \<le> i"
    using skip_next_SomeD [OF assms(1)] by blast
  have "skip_level depth i (dropWhile P u) = []" "skip_level depth i u = []"
    using u(2) by (auto intro!: skip_level_none dest: set_dropWhileD)
  then show ?thesis
    using dropWhile_stop [of P n u r] assms(2) by (simp add: u(1) skip_level_def)
qed

definition cell_ok ::
  "('n \<Rightarrow> nat) \<Rightarrow> ('n \<Rightarrow> int) \<Rightarrow> int \<Rightarrow> 'n list \<Rightarrow> nat \<Rightarrow> 'n list \<Rightarrow> bool" where
  "cell_ok depth key k s j c \<longleftrightarrow>
     (\<exists>u. s = u @ c \<and> (\<forall>n\<in>set u. key n < k)) \<and>
     skip_level depth j c = skip_level depth j (dropWhile (\<lambda>n. key n < k) s)"

lemma cell_ok_stop:
  assumes "j < Suc i" "j < i \<Longrightarrow> cell_ok depth key k s j (st ! j)" "length st = i"
    and "skip_level depth i (dropWhile (\<lambda>n. key n < k) s) = skip_level depth i s"
  shows "cell_ok depth key k s j ((st @ [s]) ! j)"
proof (cases "j < i")
  case True
  then show ?thesis using assms(2,3) by (simp add: nth_append)
next
  case False
  then have "j = i" using assms(1) by simp
  then show ?thesis using assms(3,4) by (simp add: nth_append cell_ok_def)
qed

lemma cell_ok_step:
  assumes "\<forall>x\<in>set v. key x < k" "cell_ok depth key k r j c"
  shows "cell_ok depth key k (v @ r) j c"
proof -
  obtain u where u: "r = u @ c" "\<forall>n\<in>set u. key n < k"
    using assms(2) by (auto simp: cell_ok_def)
  have "v @ r = (v @ u) @ c" "\<forall>n\<in>set (v @ u). key n < k" using u assms(1) by auto
  moreover have "dropWhile (\<lambda>n. key n < k) (v @ r) = dropWhile (\<lambda>n. key n < k) r"
    using assms(1) by (intro dropWhile_below) simp
  ultimately show ?thesis using assms(2) unfolding cell_ok_def by metis
qed

lemma skip_srch_cell:
  assumes "skip_sorted depth key s" "j < i"
  shows "cell_ok depth key k s j (skip_srch depth key i k s ! j)"
  using assms
proof (induction depth key i k s rule: skip_srch.induct)
  case (2 depth key i k s)
  show ?case
  proof (cases "skip_next depth i s")
    case None
    then have "skip_srch depth key (Suc i) k s = skip_srch depth key i k s @ [s]"
      by (simp add: skip_srch.simps(2))
    then show ?thesis
      using cell_ok_stop [OF "2.prems"(2) "2.IH"(1) [OF None "2.prems"(1)]]
        skip_level_dropWhile_none [OF None] by simp
  next
    case (Some nr)
    obtain n r where nr: "nr = (n, r)" by (cases nr)
    obtain u where u: "s = (u @ [n]) @ r"
      using Some nr skip_next_SomeD [of depth i s n r] by auto
    show ?thesis
    proof (cases "key n < k")
      case True
      have "skip_sorted depth key r" "\<forall>x\<in>set (u @ [n]). key x < k"
        using True "2.prems"(1) by (auto simp: skip_sorted_def u sorted_wrt_append)
      note step = cell_ok_step [OF this(2) "2.IH"(2) [OF Some nr [symmetric] True this(1) "2.prems"(2)]]
      have "skip_srch depth key (Suc i) k s = skip_srch depth key (Suc i) k r"
        using Some nr True by (subst skip_srch.simps(2)) simp
      then show ?thesis using step by (simp add: u)
    next
      case False
      then have "skip_srch depth key (Suc i) k s = skip_srch depth key i k s @ [s]"
        using Some nr by (simp add: skip_srch.simps(2))
      then show ?thesis
        using cell_ok_stop [OF "2.prems"(2) "2.IH"(3) [OF Some nr [symmetric] False "2.prems"(1)]]
          skip_level_dropWhile_stop [OF Some [unfolded nr], of "\<lambda>n. key n < k"] False by simp
    qed
  qed
qed simp

lemma skip_level_0: "skip_sorted depth key xs \<Longrightarrow> set ys \<subseteq> set xs \<Longrightarrow> skip_level depth 0 ys = ys"
  by (auto simp: skip_level_def skip_sorted_def intro!: filter_True)

section \<open>The interface of a search\<close>

text \<open>
  What a search routine promises: a link for every level, each with the right chain behind it.
  The lemmas of the locale are what linking and unlinking through these links gives, for the
  level-0 chain and for the chain of every level.
\<close>

lemma skip_sorted_sorted: "skip_sorted depth key xs \<Longrightarrow> sorted (map key xs)"
  by (induction xs) (auto simp: skip_sorted_def)

lemma skip_sorted_distinct: "skip_sorted depth key xs \<Longrightarrow> distinct (map key xs)"
  by (induction xs) (auto simp: skip_sorted_def)

lemma skip_sorted_iff:
  "skip_sorted depth key xs \<longleftrightarrow>
     sorted (map key xs) \<and> distinct (map key xs) \<and> (\<forall>n\<in>set xs. 0 < depth n)"
  using strict_sorted_iff [of "map key xs"] by (simp add: skip_sorted_def sorted_wrt_map)

lemma map_insort_key: "map key (insort_key key n xs) = insort (key n) (map key xs)"
  by (induction xs) auto

lemma insort_key_split:
  "insort_key key n xs = takeWhile (\<lambda>m. key m < key n) xs @ n # dropWhile (\<lambda>m. key m < key n) xs"
  for key :: "'n \<Rightarrow> int"
  by (induction xs) auto

lemma skip_sorted_dropWhile:
  "skip_sorted depth key s \<Longrightarrow> n \<in> set s \<Longrightarrow>
     dropWhile (\<lambda>m. key m < key n) s = n # filter (\<lambda>m. key n < key m) s"
proof (induction s)
  case (Cons x s)
  show ?case
  proof (cases "n = x")
    case True
    have "filter (\<lambda>m. key x < key m) s = s"
      using Cons.prems(1) by (intro filter_True) (auto simp: skip_sorted_def)
    with True show ?thesis by simp
  next
    case False
    then have "key x < key n" "n \<in> set s" "skip_sorted depth key s"
      using Cons.prems by (auto simp: skip_sorted_def)
    with Cons.IH show ?thesis by simp
  qed
qed simp

lemma skip_sorted_takeWhile:
  "skip_sorted depth key s \<Longrightarrow> takeWhile (\<lambda>m. key m < k) s = filter (\<lambda>m. key m < k) s"
proof (induction s)
  case (Cons x s)
  have "filter (\<lambda>m. key m < k) s = []" if "\<not> key x < k"
    using that Cons.prems by (fastforce simp: skip_sorted_def filter_empty_conv)
  with Cons show ?case by (auto simp: skip_sorted_def)
qed simp

locale skip_search =
  fixes depth :: "'n \<Rightarrow> nat"
    and key :: "'n \<Rightarrow> int"
    and srch :: "int \<Rightarrow> 'n list \<Rightarrow> 'n list list"
  assumes srch_length: "length (srch k s) = WT_SKIP_MAXDEPTH"
    and srch_cell: "skip_sorted depth key s \<Longrightarrow> j < WT_SKIP_MAXDEPTH \<Longrightarrow>
      cell_ok depth key k s j (srch k s ! j)"
begin

lemma srch_first:
  assumes "skip_sorted depth key s"
  shows "srch k s ! 0 = dropWhile (\<lambda>n. key n < k) s"
proof -
  let ?c = "srch k s ! 0"
  have c: "\<exists>u. s = u @ ?c" "skip_level depth 0 ?c = skip_level depth 0 (dropWhile (\<lambda>n. key n < k) s)"
    using srch_cell [OF assms, of 0 k] by (auto simp: cell_ok_def WT_SKIP_MAXDEPTH_def)
  then have "set ?c \<subseteq> set s" by auto (metis Un_iff set_append)
  then show ?thesis
    using c(2) skip_level_0 [OF assms] by (metis set_dropWhileD subsetI)
qed

lemma link_insort:
  assumes "skip_sorted depth key s"
  shows "skip_link n (srch (key n) s ! 0) s = insort_key key n s"
proof -
  let ?P = "\<lambda>m. key m < key n"
  have "length s - length (dropWhile ?P s) = length (takeWhile ?P s)"
    by (metis add_diff_cancel_right' length_append takeWhile_dropWhile_id)
  then show ?thesis
    by (simp add: skip_link_def srch_first [OF assms] insort_key_split takeWhile_eq_take [symmetric])
qed

lemma link_sorted:
  assumes "skip_sorted depth key s" "key n \<notin> key ` set s" "0 < depth n"
  shows "skip_sorted depth key (skip_link n (srch (key n) s ! 0) s)"
  using assms unfolding link_insort [OF assms(1)] skip_sorted_iff
  by (auto simp: map_insort_key sorted_insort distinct_insort set_insort_key)

lemma sorted_parts:
  assumes "skip_sorted depth key s" "n \<in> set s"
  shows "s = filter (\<lambda>m. key m < key n) s @ n # filter (\<lambda>m. key n < key m) s"
  using takeWhile_dropWhile_id [of "\<lambda>m. key m < key n" s]
    skip_sorted_takeWhile [OF assms(1)] skip_sorted_dropWhile [OF assms] by metis

lemma srch_found:
  assumes "skip_sorted depth key s" "n \<in> set s"
  shows "srch (key n) s ! 0 = n # filter (\<lambda>m. key n < key m) s"
  using srch_first [OF assms(1)] skip_sorted_dropWhile [OF assms] by simp

lemma filter_other:
  assumes "skip_sorted depth key s" "n \<in> set s"
  shows "filter (\<lambda>m. key m \<noteq> key n) s =
    filter (\<lambda>m. key m < key n) s @ filter (\<lambda>m. key n < key m) s"
proof -
  have "(\<lambda>m. key m < key n \<and> key m \<noteq> key n) = (\<lambda>m. key m < key n)"
    "(\<lambda>m. key n < key m \<and> key m \<noteq> key n) = (\<lambda>m. key n < key m)" by auto
  then show ?thesis by (subst sorted_parts [OF assms]) simp
qed

lemma unlink_filter:
  assumes "skip_sorted depth key s" "n \<in> set s"
  shows "skip_unlink (srch (key n) s ! 0) s = filter (\<lambda>m. key m \<noteq> key n) s"
proof -
  let ?l = "filter (\<lambda>m. key m < key n) s" and ?g = "filter (\<lambda>m. key n < key m) s"
  have s: "s = ?l @ n # ?g" by (rule sorted_parts [OF assms])
  have "take (length s - length (n # ?g)) s = ?l"
    by (metis add_diff_cancel_right' append_eq_conv_conj length_append s)
  moreover have "filter (\<lambda>m. key m \<noteq> key n) s = ?l @ ?g"
    by (rule filter_other [OF assms])
  ultimately show ?thesis by (simp add: skip_unlink_def srch_found [OF assms])
qed

lemma update_map:
  assumes "skip_sorted depth key s" "n \<in> set s"
  shows "skip_update n' (srch (key n) s ! 0) s = map (\<lambda>m. if key m = key n then n' else m) s"
proof -
  let ?l = "filter (\<lambda>m. key m < key n) s" and ?g = "filter (\<lambda>m. key n < key m) s"
  have s: "s = ?l @ n # ?g" by (rule sorted_parts [OF assms])
  have "take (length s - length (n # ?g)) s = ?l"
    by (metis add_diff_cancel_right' append_eq_conv_conj length_append s)
  moreover have "map (\<lambda>m. if key m = key n then n' else m) s = ?l @ n' # ?g"
    by (subst s) (auto intro!: map_idI)
  ultimately show ?thesis by (simp add: skip_update_def srch_found [OF assms])
qed

lemma unlink_sorted:
  assumes "skip_sorted depth key s" "n \<in> set s"
  shows "skip_sorted depth key (skip_unlink (srch (key n) s ! 0) s)"
  using assms(1) unfolding unlink_filter [OF assms] by (simp add: skip_sorted_def sorted_wrt_filter)

lemma level_split:
  assumes "skip_sorted depth key s" "j < WT_SKIP_MAXDEPTH"
  shows "skip_level depth j (take (length s - length (srch k s ! j)) s) =
      skip_level depth j (takeWhile (\<lambda>m. key m < k) s)"
    and "skip_level depth j (srch k s ! j) = skip_level depth j (dropWhile (\<lambda>m. key m < k) s)"
proof -
  let ?c = "srch k s ! j"
  obtain u where u: "s = u @ ?c"
    and c: "skip_level depth j ?c = skip_level depth j (dropWhile (\<lambda>m. key m < k) s)"
    using srch_cell [OF assms, of k] by (auto simp: cell_ok_def)
  show "skip_level depth j ?c = skip_level depth j (dropWhile (\<lambda>m. key m < k) s)" by (rule c)
  have "skip_level depth j u @ skip_level depth j ?c =
      skip_level depth j (takeWhile (\<lambda>m. key m < k) s) @
      skip_level depth j (dropWhile (\<lambda>m. key m < k) s)"
    by (metis filter_append skip_level_def takeWhile_dropWhile_id u)
  moreover have "take (length s - length ?c) s = u"
    by (metis add_diff_cancel_right' append_eq_conv_conj length_append u)
  ultimately show "skip_level depth j (take (length s - length ?c) s) =
      skip_level depth j (takeWhile (\<lambda>m. key m < k) s)" using c by simp
qed

lemma link_level:
  assumes "skip_sorted depth key s" "j < WT_SKIP_MAXDEPTH"
  shows "skip_level depth j (skip_link n (srch (key n) s ! 0) s) =
    (if j < depth n
     then skip_level depth j (take (length s - length (srch (key n) s ! j)) s) @
       n # skip_level depth j (srch (key n) s ! j)
     else skip_level depth j s)"
proof -
  let ?t = "takeWhile (\<lambda>m. key m < key n) s" and ?d = "dropWhile (\<lambda>m. key m < key n) s"
  have "skip_level depth j s = skip_level depth j ?t @ skip_level depth j ?d"
    unfolding skip_level_def filter_append [symmetric] takeWhile_dropWhile_id ..
  then show ?thesis
    unfolding link_insort [OF assms(1)] level_split [OF assms] insort_key_split
    by (simp add: skip_level_def)
qed

lemma unlink_level:
  assumes "skip_sorted depth key s" "j < WT_SKIP_MAXDEPTH" "n \<in> set s"
  shows "skip_level depth j (skip_unlink (srch (key n) s ! 0) s) =
    (if j < depth n
     then skip_level depth j (take (length s - length (srch (key n) s ! j)) s) @
       tl (skip_level depth j (srch (key n) s ! j))
     else skip_level depth j s)"
proof -
  let ?l = "filter (\<lambda>m. key m < key n) s" and ?g = "filter (\<lambda>m. key n < key m) s"
  have s: "s = ?l @ n # ?g" by (rule sorted_parts [OF assms(1,3)])
  have "filter (\<lambda>m. key m \<noteq> key n) s = ?l @ ?g"
    by (rule filter_other [OF assms(1,3)])
  moreover have "skip_level depth j s = skip_level depth j ?l @ skip_level depth j (n # ?g)"
    by (subst s) (simp add: skip_level_def)
  ultimately show ?thesis
    by (simp add: unlink_filter level_split assms skip_sorted_takeWhile [OF assms(1)]
        skip_sorted_dropWhile [OF assms(1,3)]) (simp add: skip_level_def)
qed

end

end
