(* ===== verification/Wt_Extlist.thy ===== *)
theory Wt_Extlist
  imports Wt_Skiplist
begin

text \<open>
  Extent lists of the block manager (\<open>src/src/block/block_ext.c\<close>, structures in
  \<open>src/src/include/block.h\<close>): a by-offset skiplist of the extents and a by-size skiplist whose
  entries carry a by-offset skiplist of the extents of that size.

  File offsets and sizes (\<open>off_t\<close>) are \<open>int\<close>: the arithmetic of the source is on ranges inside
  a file of at most \<open>INT64_MAX\<close> bytes (\<open>__wt_block_extend\<close> checks that bound) and does not
  overflow there. The byte and entry counters keep their widths. An extent is linked on two
  skiplists through one structure, which is never changed while it is linked; the model has
  a copy on each. Memory allocation succeeds. A call that fails returns its error and no
  list, since every caller gives up except on \<open>WT_NOTFOUND\<close>, which is returned before
  anything is changed.
\<close>

section \<open>Structures\<close>

record wt_ext =
  ext_off :: int
  ext_size :: int
  ext_depth :: nat

record wt_size =
  sz_size :: int
  sz_depth :: nat
  sz_off :: "wt_ext list"

record wt_extlist =
  el_name :: string
  el_bytes :: u64
  el_entries :: u32
  el_offset :: int
  el_cksum :: u32
  el_size :: u32
  el_off :: "wt_ext list"
  el_sz :: "wt_size list"

definition WT_BLOCK_DESC_SECTOR :: int where
  "WT_BLOCK_DESC_SECTOR = 512"

definition WT_BLOCK_INVALID_OFFSET :: int where
  "WT_BLOCK_INVALID_OFFSET = 0"

definition WT_BLOCK_EXTLIST_MAGIC :: int where
  "WT_BLOCK_EXTLIST_MAGIC = 71002"

section \<open>Searches\<close>

definition block_off_srch :: "int \<Rightarrow> wt_ext list \<Rightarrow> wt_ext list list" where
  "block_off_srch off head = skip_srch ext_depth ext_off WT_SKIP_MAXDEPTH off head"

definition block_size_srch :: "int \<Rightarrow> wt_size list \<Rightarrow> wt_size list list" where
  "block_size_srch len head = skip_srch sz_depth sz_size WT_SKIP_MAXDEPTH len head"

text \<open>The loop of \<open>__block_off_srch_pair\<close> from level \<open>i - 1\<close> down, at the link in front of \<open>s\<close>.\<close>

function off_srch_pair ::
  "nat \<Rightarrow> int \<Rightarrow> wt_ext list \<Rightarrow> wt_ext option \<Rightarrow> wt_ext option \<Rightarrow> wt_ext option \<times> wt_ext option"
where
  "off_srch_pair 0 off s before after = (before, after)"
| "off_srch_pair (Suc i) off s before after =
     (case skip_next ext_depth i s of
        None \<Rightarrow> off_srch_pair i off s before after
      | Some (e, r) \<Rightarrow>
          if ext_off e < off then off_srch_pair (Suc i) off r (Some e) after
          else off_srch_pair i off s before (Some e))"
  by pat_completeness auto
termination
  by (relation "measures [\<lambda>(i, off, s, b, a). i, \<lambda>(i, off, s, b, a). length s]")
    (auto dest!: skip_next_SomeD)

declare off_srch_pair.simps(2) [simp del]

definition block_off_srch_pair :: "wt_extlist \<Rightarrow> int \<Rightarrow> wt_ext option \<times> wt_ext option" where
  "block_off_srch_pair el off = off_srch_pair WT_SKIP_MAXDEPTH off (el_off el) None None"

function extlist_last :: "nat \<Rightarrow> wt_ext list \<Rightarrow> wt_ext option \<Rightarrow> wt_ext option" where
  "extlist_last 0 s ext = ext"
| "extlist_last (Suc i) s ext =
     (case skip_next ext_depth i s of
        None \<Rightarrow> extlist_last i s ext
      | Some (e, r) \<Rightarrow> extlist_last (Suc i) r (Some e))"
  by pat_completeness auto
termination
  by (relation "measures [\<lambda>(i, s, e). i, \<lambda>(i, s, e). length s]") (auto dest!: skip_next_SomeD)

declare extlist_last.simps(2) [simp del]

definition block_extlist_last :: "wt_ext list \<Rightarrow> wt_ext option" where
  "block_extlist_last head = extlist_last WT_SKIP_MAXDEPTH head None"

section \<open>Insertion and removal\<close>

definition block_ext_insert :: "wt_extlist \<Rightarrow> wt_ext \<Rightarrow> wt_extlist" where
  "block_ext_insert el ext =
     (let scell = block_size_srch (ext_size ext) (el_sz el) ! 0;
          isnew = (case scell of [] \<Rightarrow> True | szp # _ \<Rightarrow> sz_size szp \<noteq> ext_size ext);
          szp = (if isnew then \<lparr>sz_size = ext_size ext, sz_depth = ext_depth ext, sz_off = []\<rparr>
                 else hd scell);
          acell = block_off_srch (ext_off ext) (el_off el) ! 0;
          bcell = block_off_srch (ext_off ext) (sz_off szp) ! 0;
          szp' = szp\<lparr>sz_off := skip_link ext bcell (sz_off szp)\<rparr>
      in el\<lparr>el_off := skip_link ext acell (el_off el),
            el_sz := (if isnew then skip_link szp' scell (el_sz el)
                      else skip_update szp' scell (el_sz el)),
            el_entries := el_entries el + 1,
            el_bytes := el_bytes el + of_int (ext_size ext)\<rparr>)"

definition block_off_insert :: "rng \<Rightarrow> wt_extlist \<Rightarrow> int \<Rightarrow> int \<Rightarrow> wt_extlist \<times> rng" where
  "block_off_insert g el off len =
     (let (skipdepth, g') = wt_skip_choose_depth g
      in (block_ext_insert el \<lparr>ext_off = off, ext_size = len, ext_depth = skipdepth\<rparr>, g'))"

definition block_off_match :: "wt_extlist \<Rightarrow> int \<Rightarrow> int \<Rightarrow> bool" where
  "block_off_match el off len =
     (let (before, after) = block_off_srch_pair el off
      in (case before of Some b \<Rightarrow> off < ext_off b + ext_size b | None \<Rightarrow> False) \<or>
         (case after of Some a \<Rightarrow> ext_off a < off + len | None \<Rightarrow> False))"

definition block_off_remove :: "wt_extlist \<Rightarrow> int \<Rightarrow> (wt_ext \<times> wt_extlist) result" where
  "block_off_remove el off =
     (let acell = block_off_srch off (el_off el) ! 0 in
      if acell = [] \<or> ext_off (hd acell) \<noteq> off then Inl EINVAL
      else
        (let off_list = skip_unlink acell (el_off el);
             scell = block_size_srch (ext_size (hd acell)) (el_sz el) ! 0 in
         if scell = [] \<or> sz_size (hd scell) \<noteq> ext_size (hd acell) then Inl EINVAL
         else
           (let szp = hd scell;
                bcell = block_off_srch off (sz_off szp) ! 0 in
            if bcell = [] \<or> ext_off (hd bcell) \<noteq> off then Inl EINVAL
            else
              (let ext = hd bcell;
                   szp' = szp\<lparr>sz_off := skip_unlink bcell (sz_off szp)\<rparr>;
                   sz_list = (if sz_off szp' = [] then skip_unlink scell (el_sz el)
                              else skip_update szp' scell (el_sz el))
               in Inr (ext, el\<lparr>el_off := off_list, el_sz := sz_list,
                                el_entries := el_entries el - 1,
                                el_bytes := el_bytes el - of_int (ext_size ext)\<rparr>)))))"

text \<open>
  The tail of \<open>__wt_block_off_remove_overlap\<close>: the removed structure is used for the first
  remaining part, the second part gets a new one.
\<close>

definition reinsert_parts ::
  "rng \<Rightarrow> wt_extlist \<Rightarrow> wt_ext \<Rightarrow> int \<Rightarrow> int \<Rightarrow> int \<Rightarrow> int \<Rightarrow> wt_extlist \<times> rng" where
  "reinsert_parts g el ext a_off a_size b_off b_size =
     (if a_size \<noteq> 0 then
        (let el1 = block_ext_insert el (ext\<lparr>ext_off := a_off, ext_size := a_size\<rparr>)
         in if b_size \<noteq> 0 then block_off_insert g el1 b_off b_size else (el1, g))
      else if b_size \<noteq> 0 then
        (block_ext_insert el (ext\<lparr>ext_off := b_off, ext_size := b_size\<rparr>), g)
      else (el, g))"

definition wt_block_off_remove_overlap ::
  "rng \<Rightarrow> wt_extlist \<Rightarrow> int \<Rightarrow> int \<Rightarrow> (wt_extlist \<times> rng) result" where
  "wt_block_off_remove_overlap g el off len =
     (let (before, after) = block_off_srch_pair el off;
          from_after =
            (case after of
               Some a \<Rightarrow>
                 if ext_off a < off + len then
                   wt_ret (block_off_remove el (ext_off a)) (\<lambda>(ext, el1).
                     Inr (reinsert_parts g el1 ext WT_BLOCK_INVALID_OFFSET 0
                       (off + len) (ext_size ext - (off + len - ext_off ext))))
                 else Inl WT_NOTFOUND
             | None \<Rightarrow> Inl WT_NOTFOUND)
      in case before of
           Some b \<Rightarrow>
             if off < ext_off b + ext_size b then
               wt_ret (block_off_remove el (ext_off b)) (\<lambda>(ext, el1).
                 Inr (reinsert_parts g el1 ext (ext_off ext) (off - ext_off ext)
                   (off + len) (ext_size ext - (off - ext_off ext + len))))
             else from_after
         | None \<Rightarrow> from_after)"

definition block_merge :: "rng \<Rightarrow> wt_extlist \<Rightarrow> int \<Rightarrow> int \<Rightarrow> (wt_extlist \<times> rng) result" where
  "block_merge g el off len =
     (let (before, after) = block_off_srch_pair el off in
      if (case before of Some b \<Rightarrow> off < ext_off b + ext_size b | None \<Rightarrow> False) then Inl EINVAL
      else if (case after of Some a \<Rightarrow> ext_off a < off + len | None \<Rightarrow> False) then Inl EINVAL
      else
        (let before' = (case before of
               Some b \<Rightarrow> if ext_off b + ext_size b \<noteq> off then None else Some b | None \<Rightarrow> None);
             after' = (case after of
               Some a \<Rightarrow> if off + len \<noteq> ext_off a then None else Some a | None \<Rightarrow> None)
         in case (before', after') of
              (None, None) \<Rightarrow> Inr (block_off_insert g el off len)
            | (None, Some a) \<Rightarrow>
                wt_ret (block_off_remove el (ext_off a)) (\<lambda>(ext, el1).
                  Inr (block_ext_insert el1
                    (ext\<lparr>ext_off := off, ext_size := ext_size ext + len\<rparr>), g))
            | (Some b, Some a) \<Rightarrow>
                wt_ret (block_off_remove el (ext_off a)) (\<lambda>(_, el1).
                wt_ret (block_off_remove el1 (ext_off b)) (\<lambda>(ext, el2).
                  Inr (block_ext_insert el2
                    (ext\<lparr>ext_size := ext_size ext + (len + ext_size a)\<rparr>), g)))
            | (Some b, None) \<Rightarrow>
                wt_ret (block_off_remove el (ext_off b)) (\<lambda>(ext, el1).
                  Inr (block_ext_insert el1
                    (ext\<lparr>ext_size := ext_size ext + len\<rparr>), g))))"

definition wt_block_insert_ext ::
  "rng \<Rightarrow> wt_extlist \<Rightarrow> int \<Rightarrow> int \<Rightarrow> (wt_extlist \<times> rng) result" where
  "wt_block_insert_ext g el off len = block_merge g el off len"

text \<open>\<open>WT_EXT_FOREACH(ext, a->off) __block_merge(b, ext->off, ext->size)\<close>\<close>

fun extlist_merge_loop ::
  "rng \<Rightarrow> wt_ext list \<Rightarrow> wt_extlist \<Rightarrow> (wt_extlist \<times> rng) result" where
  "extlist_merge_loop g [] b = Inr (b, g)"
| "extlist_merge_loop g (ext # exts) b =
     wt_ret (block_merge g b (ext_off ext) (ext_size ext)) (\<lambda>(b', g').
       extlist_merge_loop g' exts b')"

definition wt_block_extlist_merge ::
  "rng \<Rightarrow> wt_extlist \<Rightarrow> wt_extlist \<Rightarrow> (wt_extlist \<times> rng) result" where
  "wt_block_extlist_merge g a b = extlist_merge_loop g (el_off a) b"

section \<open>Checking, initialisation and discard\<close>

fun extlist_check_loop :: "wt_ext list \<Rightarrow> wt_ext list \<Rightarrow> unit result" where
  "extlist_check_loop (a # as) (b # bs) =
     (if ext_off a + ext_size a \<le> ext_off b then extlist_check_loop as (b # bs)
      else if ext_off b + ext_size b \<le> ext_off a then extlist_check_loop (a # as) bs
      else Inl EINVAL)"
| "extlist_check_loop as bs = Inr ()"

definition wt_block_extlist_check :: "wt_extlist \<Rightarrow> wt_extlist \<Rightarrow> unit result" where
  "wt_block_extlist_check al bl = extlist_check_loop (el_off al) (el_off bl)"

definition extlist_zero :: wt_extlist where
  "extlist_zero = \<lparr>el_name = [], el_bytes = 0, el_entries = 0, el_offset = 0, el_cksum = 0,
     el_size = 0, el_off = [], el_sz = []\<rparr>"

text \<open>\<open>snprintf\<close> into a buffer of 128 bytes keeps at most 127 characters.\<close>

definition wt_block_extlist_init ::
  "wt_extlist \<Rightarrow> string option \<Rightarrow> string option \<Rightarrow> wt_extlist" where
  "wt_block_extlist_init el name extname =
     (let str = (\<lambda>s. case s of None \<Rightarrow> [] | Some s \<Rightarrow> s)
      in el\<lparr>el_name := take 127 (str name @ ''.'' @ str extname),
            el_offset := WT_BLOCK_INVALID_OFFSET\<rparr>)"

definition wt_block_extlist_free :: "wt_extlist \<Rightarrow> wt_extlist" where
  "wt_block_extlist_free el = extlist_zero"

section \<open>The searches\<close>

interpretation off_index: skip_search ext_depth ext_off block_off_srch
  by unfold_locales (simp_all add: block_off_srch_def skip_srch_cell)

interpretation size_index: skip_search sz_depth sz_size block_size_srch
  by unfold_locales (simp_all add: block_size_srch_def skip_srch_cell)

abbreviation off_sorted :: "wt_ext list \<Rightarrow> bool" where
  "off_sorted \<equiv> skip_sorted ext_depth ext_off"

definition below_off :: "int \<Rightarrow> wt_ext list \<Rightarrow> wt_ext option \<Rightarrow> wt_ext option" where
  "below_off off s d = (let l = takeWhile (\<lambda>e. ext_off e < off) s in if l = [] then d else Some (last l))"

definition above_off :: "int \<Rightarrow> wt_ext list \<Rightarrow> wt_ext option \<Rightarrow> wt_ext option" where
  "above_off off s d = (case dropWhile (\<lambda>e. ext_off e < off) s of [] \<Rightarrow> d | e # _ \<Rightarrow> Some e)"

lemma skip_sorted_append: "skip_sorted d k (u @ v) \<Longrightarrow> skip_sorted d k u \<and> skip_sorted d k v"
  by (auto simp: skip_sorted_def sorted_wrt_append)

lemma skip_next_level0:
  assumes "skip_sorted d k s"
  shows "skip_next d 0 s = (case s of [] \<Rightarrow> None | n # r \<Rightarrow> Some (n, r))"
  using assms by (cases s) (auto simp: skip_sorted_def)

lemma below_step:
  assumes "\<forall>x\<in>set (u @ [e]). ext_off x < off"
  shows "below_off off (u @ e # r) d = below_off off r (Some e)" "above_off off (u @ e # r) d = above_off off r d"
proof -
  have "takeWhile (\<lambda>e. ext_off e < off) (u @ e # r) =
      u @ e # takeWhile (\<lambda>e. ext_off e < off) r"
    "dropWhile (\<lambda>e. ext_off e < off) (u @ e # r) = dropWhile (\<lambda>e. ext_off e < off) r"
    using assms by (simp_all add: takeWhile_append2 dropWhile_append2)
  then show "below_off off (u @ e # r) d = below_off off r (Some e)"
    "above_off off (u @ e # r) d = above_off off r d"
    by (simp_all add: below_off_def above_off_def Let_def)
qed

lemma above_off_default:
  assumes "e \<in> set s" "\<not> ext_off e < off"
  shows "above_off off s d = above_off off s d'"
proof -
  have "dropWhile (\<lambda>e. ext_off e < off) s \<noteq> []" using assms by (auto simp: dropWhile_eq_Nil_conv)
  then show ?thesis by (auto simp: above_off_def split: list.splits)
qed

lemma off_srch_pair_correct:
  "off_sorted s \<Longrightarrow> 0 < i \<Longrightarrow> off_srch_pair i off s b a = (below_off off s b, above_off off s a)"
proof (induction i off s b a rule: off_srch_pair.induct)
  case (2 i off s b a)
  show ?case
  proof (cases "skip_next ext_depth i s")
    case None
    show ?thesis
    proof (cases "i = 0")
      case True
      then have "s = []" using None skip_next_level0 [OF "2.prems"(1)] by (auto split: list.splits)
      then show ?thesis using None True by (simp add: off_srch_pair.simps(2) below_off_def above_off_def)
    next
      case False
      then show ?thesis using None "2.IH"(1) [OF None "2.prems"(1)] by (simp add: off_srch_pair.simps(2))
    qed
  next
    case (Some er)
    obtain e r where er: "er = (e, r)" by (cases er)
    obtain u where u: "s = u @ e # r" "\<forall>x\<in>set u. ext_depth x \<le> i"
      using skip_next_SomeD Some er by metis
    show ?thesis
    proof (cases "ext_off e < off")
      case True
      have "\<forall>x\<in>set (u @ [e]). ext_off x < off" "off_sorted r"
        using "2.prems"(1) True by (auto simp: u skip_sorted_def sorted_wrt_append)
      moreover have "off_srch_pair (Suc i) off s b a = off_srch_pair (Suc i) off r (Some e) a"
        using True Some er by (subst off_srch_pair.simps(2)) simp
      ultimately show ?thesis
        using "2.IH"(2) [OF Some er [symmetric] True] below_step [of u e off r] by (simp add: u(1))
    next
      case False
      have eq: "off_srch_pair (Suc i) off s b a = off_srch_pair i off s b (Some e)"
        using False Some er by (simp add: off_srch_pair.simps(2))
      show ?thesis
      proof (cases "i = 0")
        case True
        then have "u = []" using u "2.prems"(1) by (cases u) (auto simp: skip_sorted_def)
        then show ?thesis using eq True False by (simp add: u below_off_def above_off_def)
      next
        case nz: False
        have "above_off off s (Some e) = above_off off s a" by (rule above_off_default) (use False u in auto)
        then show ?thesis using eq nz "2.IH"(3) [OF Some er [symmetric] False "2.prems"(1)] by simp
      qed
    qed
  qed
qed simp

lemma extlist_last_correct:
  "off_sorted s \<Longrightarrow> 0 < i \<Longrightarrow> extlist_last i s d = (if s = [] then d else Some (last s))"
proof (induction i s d rule: extlist_last.induct)
  case (2 i s d)
  show ?case
  proof (cases "skip_next ext_depth i s")
    case None
    show ?thesis
    proof (cases "i = 0")
      case True
      then have "s = []" using None skip_next_level0 [OF "2.prems"(1)] by (auto split: list.splits)
      then show ?thesis using None True by (simp add: extlist_last.simps(2))
    next
      case False
      then show ?thesis using None "2.IH"(1) [OF None "2.prems"(1)] by (simp add: extlist_last.simps(2))
    qed
  next
    case (Some er)
    obtain e r where er: "er = (e, r)" by (cases er)
    obtain u where u: "s = u @ e # r" using skip_next_SomeD Some er by metis
    have "off_sorted r" using "2.prems"(1) by (auto simp: u skip_sorted_def sorted_wrt_append)
    moreover have "extlist_last (Suc i) s d = extlist_last (Suc i) r (Some e)"
      using Some er by (subst extlist_last.simps(2)) simp
    ultimately show ?thesis using "2.IH"(2) [OF Some er [symmetric]] by (simp add: u)
  qed
qed simp

lemma block_off_srch_pair_correct:
  "off_sorted (el_off el) \<Longrightarrow>
     block_off_srch_pair el off = (below_off off (el_off el) None, above_off off (el_off el) None)"
  by (simp add: block_off_srch_pair_def off_srch_pair_correct WT_SKIP_MAXDEPTH_def)

lemma block_extlist_last_correct:
  "off_sorted xs \<Longrightarrow> block_extlist_last xs = (if xs = [] then None else Some (last xs))"
  by (simp add: block_extlist_last_def extlist_last_correct WT_SKIP_MAXDEPTH_def)

lemma last_greatest: "sorted_wrt (\<lambda>a b. f a < f b) l \<Longrightarrow> e \<in> set l \<Longrightarrow> f e \<le> (f (last l) :: int)"
  by (induction l rule: rev_induct) (auto simp: sorted_wrt_append)

lemma below_SomeD:
  assumes "off_sorted xs" "below_off off xs None = Some b"
  shows "b \<in> set xs" "ext_off b < off" "\<And>e. e \<in> set xs \<Longrightarrow> ext_off e < off \<Longrightarrow> ext_off e \<le> ext_off b"
proof -
  let ?l = "takeWhile (\<lambda>e. ext_off e < off) xs"
  have l: "?l = filter (\<lambda>e. ext_off e < off) xs" by (rule skip_sorted_takeWhile [OF assms(1)])
  have ne: "?l \<noteq> []" and b: "b = last ?l"
    using assms(2) by (auto simp: below_off_def Let_def split: if_splits)
  then have mem: "b \<in> set ?l" using last_in_set by blast
  then show "b \<in> set xs" "ext_off b < off" unfolding l by auto
  have s: "sorted_wrt (\<lambda>a b. ext_off a < ext_off b) ?l"
    using assms(1) unfolding l by (simp add: skip_sorted_def sorted_wrt_filter)
  have "ext_off e \<le> ext_off b" if "e \<in> set ?l" for e
    using last_greatest [OF s that] unfolding b .
  then show "ext_off e \<le> ext_off b" if "e \<in> set xs" "ext_off e < off" for e
    using that unfolding l by simp
qed

lemma below_NoneD: "below_off off xs None = None \<Longrightarrow> off_sorted xs \<Longrightarrow> e \<in> set xs \<Longrightarrow> off \<le> ext_off e"
  using skip_sorted_takeWhile [of ext_depth ext_off xs off]
  by (auto simp: below_off_def Let_def filter_empty_conv not_less split: if_splits)

lemma above_SomeD:
  assumes "off_sorted xs" "above_off off xs None = Some a"
  shows "a \<in> set xs" "off \<le> ext_off a" "\<And>e. e \<in> set xs \<Longrightarrow> off \<le> ext_off e \<Longrightarrow> ext_off a \<le> ext_off e"
proof -
  obtain r where d: "dropWhile (\<lambda>e. ext_off e < off) xs = a # r"
    using assms(2) by (auto simp: above_off_def split: list.splits)
  have xs: "xs = takeWhile (\<lambda>e. ext_off e < off) xs @ a # r"
    using takeWhile_dropWhile_id [of "\<lambda>e. ext_off e < off" xs] d by simp
  then show "a \<in> set xs" by (metis in_set_conv_decomp)
  show "off \<le> ext_off a" using hd_dropWhile [of "\<lambda>e. ext_off e < off" xs] d by simp
  have "off_sorted (a # r)" using assms(1) xs skip_sorted_append by metis
  then show "ext_off a \<le> ext_off e" if e: "e \<in> set xs" "off \<le> ext_off e" for e
  proof -
    have "e \<notin> set (takeWhile (\<lambda>e. ext_off e < off) xs)" using e(2) by (meson not_less set_takeWhileD)
    then have "e \<in> set (a # r)" using e(1) xs by (metis UnE set_append)
    then show ?thesis using \<open>off_sorted (a # r)\<close> by (auto simp: skip_sorted_def)
  qed
qed

lemma above_NoneD: "above_off off xs None = None \<Longrightarrow> e \<in> set xs \<Longrightarrow> ext_off e < off"
  by (auto simp: above_off_def dropWhile_eq_Nil_conv split: list.splits)

section \<open>Consistency of the two indexes\<close>

definition sz_ok :: "wt_ext list \<Rightarrow> wt_size list \<Rightarrow> bool" where
  "sz_ok offs sz \<longleftrightarrow>
     skip_sorted sz_depth sz_size sz \<and>
     (\<forall>s\<in>set sz. sz_off s \<noteq> [] \<and> sz_off s = filter (\<lambda>e. ext_size e = sz_size s) offs) \<and>
     (\<forall>e\<in>set offs. ext_size e \<in> sz_size ` set sz)"

definition depths_ok :: "wt_extlist \<Rightarrow> bool" where
  "depths_ok el \<longleftrightarrow> (\<forall>e\<in>set (el_off el). ext_depth e \<le> WT_SKIP_MAXDEPTH) \<and>
     (\<forall>s\<in>set (el_sz el). sz_depth s \<le> WT_SKIP_MAXDEPTH)"

definition idx_ok :: "wt_extlist \<Rightarrow> bool" where
  "idx_ok el \<longleftrightarrow>
     off_sorted (el_off el) \<and> sz_ok (el_off el) (el_sz el) \<and> depths_ok el \<and>
     el_entries el = of_nat (length (el_off el)) \<and>
     el_bytes el = of_int (\<Sum>e\<leftarrow>el_off el. ext_size e)"

lemma off_sorted_filter: "off_sorted xs \<Longrightarrow> off_sorted (filter P xs)"
  by (simp add: skip_sorted_def sorted_wrt_filter)

lemma sum_list_insort_key: "(\<Sum>x\<leftarrow>insort_key k e xs. f x) = f e + (\<Sum>x\<leftarrow>xs. f x :: int)"
  by (induction xs) auto

lemma filter_other_remove1:
  "distinct (map f xs) \<Longrightarrow> e \<in> set xs \<Longrightarrow> filter (\<lambda>m. f m \<noteq> f e) xs = remove1 e xs"
proof (induction xs)
  case (Cons x xs)
  show ?case
  proof (cases "x = e")
    case True
    then have "f e \<notin> f ` set xs" using Cons.prems(1) by simp
    then have "\<forall>m\<in>set xs. f m \<noteq> f e" by (metis image_eqI)
    then show ?thesis using True by (simp add: filter_True)
  next
    case False
    then show ?thesis using Cons by auto
  qed
qed simp

lemma scell_cases:
  assumes "skip_sorted sz_depth sz_size sz"
  shows "(\<exists>s\<in>set sz. sz_size s = k \<and> block_size_srch k sz ! 0 \<noteq> [] \<and> hd (block_size_srch k sz ! 0) = s) \<or>
    (k \<notin> sz_size ` set sz \<and>
     (case block_size_srch k sz ! 0 of [] \<Rightarrow> True | s # _ \<Rightarrow> sz_size s \<noteq> k))"
proof (cases "k \<in> sz_size ` set sz")
  case True
  then obtain s where "s \<in> set sz" "sz_size s = k" by auto
  then show ?thesis using size_index.srch_found [OF assms] by fastforce
next
  case False
  have "set (block_size_srch k sz ! 0) \<subseteq> set sz"
    using size_index.srch_first [OF assms] set_dropWhileD by fastforce
  then show ?thesis using False by (auto split: list.splits)
qed

lemma sz_okD:
  assumes "sz_ok offs sz"
  shows "skip_sorted sz_depth sz_size sz"
    and "\<And>e. e \<in> set offs \<Longrightarrow> ext_size e \<in> sz_size ` set sz"
    and "\<And>s. s \<in> set sz \<Longrightarrow> sz_off s \<noteq> []"
    and "\<And>s. s \<in> set sz \<Longrightarrow> filter (\<lambda>e. ext_size e = sz_size s) offs = sz_off s"
  using assms unfolding sz_ok_def by auto

lemma sz_okI:
  assumes "skip_sorted sz_depth sz_size sz"
    and "\<And>e. e \<in> set offs \<Longrightarrow> ext_size e \<in> sz_size ` set sz"
    and "\<And>s. s \<in> set sz \<Longrightarrow> sz_off s \<noteq> []"
    and "\<And>s. s \<in> set sz \<Longrightarrow> filter (\<lambda>e. ext_size e = sz_size s) offs = sz_off s"
  shows "sz_ok offs sz"
  using assms unfolding sz_ok_def by auto

lemma idx_okD:
  assumes "idx_ok el"
  shows "off_sorted (el_off el)" "sz_ok (el_off el) (el_sz el)" "depths_ok el"
    "skip_sorted sz_depth sz_size (el_sz el)" "distinct (map ext_off (el_off el))"
  using assms sz_okD(1) unfolding idx_ok_def skip_sorted_iff by blast+

lemma skip_sorted_map:
  assumes "skip_sorted depth key s" "\<And>m. m \<in> set s \<Longrightarrow> key (f m) = key m \<and> 0 < depth (f m)"
  shows "skip_sorted depth key (map f s)"
proof -
  have "map key (map f s) = map key s" using assms(2) by simp
  then show ?thesis using assms unfolding skip_sorted_iff by (metis (no_types, lifting) imageE set_map)
qed

lemma image_keys: "(\<And>m. m \<in> set s \<Longrightarrow> key (f m) = key m) \<Longrightarrow> key ` set (map f s) = key ` set s"
  by (simp add: image_image cong: image_cong)

lemma sz_ok_insert_old:
  assumes "off_sorted offs" "sz_ok offs sz" "s \<in> set sz" "sz_size s = ext_size e"
  shows "sz_ok (insort_key ext_off e offs)
    (map (\<lambda>m. if sz_size m = sz_size s then s\<lparr>sz_off := insort_key ext_off e (sz_off s)\<rparr> else m) sz)"
    (is "sz_ok ?offs (map ?f sz)")
proof (rule sz_okI)
  note sz = sz_okD [OF assms(2)]
  have sorted: "sorted (map ext_off offs)" using assms(1) by (simp add: skip_sorted_iff)
  show "skip_sorted sz_depth sz_size (map ?f sz)"
    using sz(1) assms(3) by (intro skip_sorted_map) (auto simp: skip_sorted_def)
  show "ext_size x \<in> sz_size ` set (map ?f sz)" if "x \<in> set ?offs" for x
  proof -
    have "ext_size e \<in> sz_size ` set sz" using assms(3,4) by force
    then show ?thesis using that sz(2) [of x] image_keys [of sz sz_size ?f]
      by (auto simp: set_insort_key simp del: set_map image_image)
  qed
  fix m assume "m \<in> set (map ?f sz)"
  then obtain n where n: "n \<in> set sz" "m = ?f n" by auto
  have "filter (\<lambda>x. ext_size x = ext_size e) ?offs = insort_key ext_off e (sz_off s)"
    using filter_insort [OF sorted, of "\<lambda>x. ext_size x = ext_size e" e] sz(4) [OF assms(3)] assms(4)
    by simp
  then show "sz_off m \<noteq> []" "filter (\<lambda>x. ext_size x = sz_size m) ?offs = sz_off m"
    using n assms(4) sz(3,4) [OF n(1)]
    by (cases "sz_size n = sz_size s"; simp add: filter_insort_triv)+
qed

lemma sz_ok_insert_new:
  assumes "off_sorted offs" "sz_ok offs sz" "ext_size e \<notin> sz_size ` set sz" "0 < ext_depth e"
  shows "sz_ok (insort_key ext_off e offs)
    (insort_key sz_size \<lparr>sz_size = ext_size e, sz_depth = ext_depth e, sz_off = [e]\<rparr> sz)"
    (is "sz_ok ?offs (insort_key sz_size ?s sz)")
proof (rule sz_okI)
  note sz = sz_okD [OF assms(2)]
  have sorted: "sorted (map ext_off offs)" using assms(1) by (simp add: skip_sorted_iff)
  show "skip_sorted sz_depth sz_size (insort_key sz_size ?s sz)"
    using assms(3,4) sz(1) size_index.link_sorted [of sz ?s] size_index.link_insort [of sz ?s] by simp
  show "ext_size x \<in> sz_size ` set (insort_key sz_size ?s sz)" if "x \<in> set ?offs" for x
    using that sz(2) by (auto simp: set_insort_key)
  have "filter (\<lambda>x. ext_size x = ext_size e) offs = []"
    using sz(2) assms(3) unfolding filter_empty_conv by metis
  then have new: "filter (\<lambda>x. ext_size x = ext_size e) ?offs = [e]"
    using filter_insort [OF sorted, of "\<lambda>x. ext_size x = ext_size e" e] by simp
  fix s assume "s \<in> set (insort_key sz_size ?s sz)"
  then consider "s = ?s" | "s \<in> set sz" "ext_size e \<noteq> sz_size s"
    using assms(3) by (auto simp: set_insort_key)
  then show "sz_off s \<noteq> []" "filter (\<lambda>x. ext_size x = sz_size s) ?offs = sz_off s"
    using new sz(3,4) by (cases; simp add: filter_insort_triv)+
qed

lemma block_ext_insert_off:
  "off_sorted (el_off el) \<Longrightarrow> el_off (block_ext_insert el e) = insort_key ext_off e (el_off el)"
  by (simp add: block_ext_insert_def Let_def off_index.link_insort)

lemma block_ext_insert_sz:
  assumes "off_sorted (el_off el)" "sz_ok (el_off el) (el_sz el)"
  shows "el_sz (block_ext_insert el e) =
    (if ext_size e \<in> sz_size ` set (el_sz el)
     then (let s = hd (block_size_srch (ext_size e) (el_sz el) ! 0) in
       map (\<lambda>m. if sz_size m = ext_size e then s\<lparr>sz_off := insort_key ext_off e (sz_off s)\<rparr> else m) (el_sz el))
     else insort_key sz_size \<lparr>sz_size = ext_size e, sz_depth = ext_depth e, sz_off = [e]\<rparr> (el_sz el))"
proof -
  let ?c = "block_size_srch (ext_size e) (el_sz el) ! 0"
  have sorted: "skip_sorted sz_depth sz_size (el_sz el)" using assms(2) by (simp add: sz_ok_def)
  have nil: "skip_link e (block_off_srch (ext_off e) [] ! 0) [] = [e]"
    using off_index.link_insort [of "[]" e] by (simp add: skip_sorted_def)
  show ?thesis
    using scell_cases [OF sorted, of "ext_size e"]
  proof (elim disjE bexE conjE)
    fix s assume s: "s \<in> set (el_sz el)" "sz_size s = ext_size e" "?c \<noteq> []" "hd ?c = s"
    then have "off_sorted (sz_off s)"
      using assms off_sorted_filter by (metis (no_types) sz_ok_def)
    then have "skip_link e (block_off_srch (ext_off e) (sz_off s) ! 0) (sz_off s) =
        insort_key ext_off e (sz_off s)" by (rule off_index.link_insort)
    moreover have "ext_size e \<in> sz_size ` set (el_sz el)" using s(1,2) by force
    moreover have "(case ?c of [] \<Rightarrow> True | m # _ \<Rightarrow> sz_size m \<noteq> ext_size e) = False"
      using s(2-4) by (cases ?c) auto
    ultimately show ?thesis
      using size_index.update_map [OF sorted s(1)] s(2,4) by (simp add: block_ext_insert_def Let_def)
  next
    assume "ext_size e \<notin> sz_size ` set (el_sz el)"
      "case ?c of [] \<Rightarrow> True | m # _ \<Rightarrow> sz_size m \<noteq> ext_size e"
    then show ?thesis
      using size_index.link_insort [OF sorted, of
        "\<lparr>sz_size = ext_size e, sz_depth = ext_depth e, sz_off = [e]\<rparr>"] nil
      by (simp add: block_ext_insert_def Let_def)
  qed
qed

lemma block_ext_insert_ok:
  assumes "idx_ok el" "ext_off e \<notin> ext_off ` set (el_off el)"
    and "0 < ext_depth e" "ext_depth e \<le> WT_SKIP_MAXDEPTH"
  shows "idx_ok (block_ext_insert el e)"
proof -
  have el: "off_sorted (el_off el)" "sz_ok (el_off el) (el_sz el)" "depths_ok el"
    "skip_sorted sz_depth sz_size (el_sz el)"
    by (rule idx_okD [OF assms(1)])+
  note off = block_ext_insert_off [OF el(1)]
  note sz = block_ext_insert_sz [OF el(1,2)]
  have "off_sorted (el_off (block_ext_insert el e))"
    using off_index.link_sorted [OF el(1) assms(2,3)] off_index.link_insort [OF el(1), of e]
    by (simp add: off)
  moreover have "sz_ok (el_off (block_ext_insert el e)) (el_sz (block_ext_insert el e)) \<and>
      (\<forall>s\<in>set (el_sz (block_ext_insert el e)). sz_depth s \<le> WT_SKIP_MAXDEPTH)"
  proof (cases "ext_size e \<in> sz_size ` set (el_sz el)")
    case True
    then obtain s where s: "s \<in> set (el_sz el)" "sz_size s = ext_size e"
        "hd (block_size_srch (ext_size e) (el_sz el) ! 0) = s"
      using scell_cases [OF el(4), of "ext_size e"] by blast
    have "el_sz (block_ext_insert el e) =
      map (\<lambda>m. if sz_size m = sz_size s then s\<lparr>sz_off := insort_key ext_off e (sz_off s)\<rparr> else m) (el_sz el)"
      using True s by (simp add: sz Let_def)
    then show ?thesis
      using sz_ok_insert_old [OF el(1,2) s(1,2)] el(3) s(1) by (auto simp: off depths_ok_def)
  next
    case False
    then show ?thesis
      using sz_ok_insert_new [OF el(1,2) False assms(3)] el(3) assms(4)
      by (auto simp: off sz depths_ok_def set_insort_key)
  qed
  moreover have "el_entries (block_ext_insert el e) = of_nat (length (el_off (block_ext_insert el e)))"
    using assms(1) by (simp add: off idx_ok_def) (simp add: block_ext_insert_def Let_def)
  moreover have "el_bytes (block_ext_insert el e) =
      of_int (\<Sum>e\<leftarrow>el_off (block_ext_insert el e). ext_size e)"
    using assms(1) by (simp add: off idx_ok_def sum_list_insort_key)
      (simp add: block_ext_insert_def Let_def)
  ultimately show ?thesis
    using el(3) assms(4) by (auto simp: idx_ok_def depths_ok_def off set_insort_key)
qed

text \<open>The fields of an extent list that the range operations leave alone.\<close>

definition el_meta :: "wt_extlist \<Rightarrow> string \<times> int \<times> u32 \<times> u32" where
  "el_meta el = (el_name el, el_offset el, el_cksum el, el_size el)"

lemma block_ext_insert_meta [simp]: "el_meta (block_ext_insert el e) = el_meta el"
  by (simp add: block_ext_insert_def Let_def el_meta_def)

lemma sz_ok_remove:
  assumes "off_sorted offs" "sz_ok offs sz" "e \<in> set offs" "s \<in> set sz" "sz_size s = ext_size e"
  defines "bucket \<equiv> filter (\<lambda>m. ext_off m \<noteq> ext_off e) (sz_off s)"
  shows "sz_ok (filter (\<lambda>m. ext_off m \<noteq> ext_off e) offs)
    (if bucket = [] then filter (\<lambda>m. sz_size m \<noteq> sz_size s) sz
     else map (\<lambda>m. if sz_size m = sz_size s then s\<lparr>sz_off := bucket\<rparr> else m) sz)"
    (is "sz_ok ?offs ?sz")
proof -
  have dist: "distinct (map ext_off offs)" using assms(1) by (simp add: skip_sorted_iff)
  note sz = sz_okD [OF assms(2)]
  have bucket: "bucket = filter (\<lambda>x. ext_size x = sz_size s) ?offs"
    unfolding bucket_def sz(4) [OF assms(4), symmetric] filter_filter by (simp add: conj_commute)
  have uniq: "x = e" if "x \<in> set offs" "ext_off x = ext_off e" for x
    using dist assms(3) that by (auto simp: distinct_map dest: inj_onD)
  have other: "filter (\<lambda>x. ext_size x = sz_size m) ?offs = sz_off m"
    if m: "m \<in> set sz" "sz_size m \<noteq> sz_size s" for m
  proof -
    have "filter (\<lambda>x. ext_size x = sz_size m) ?offs = filter (\<lambda>x. ext_size x = sz_size m) offs"
      unfolding filter_filter using uniq m(2) assms(5) by (intro filter_cong refl) metis
    then show ?thesis using sz(4) [OF m(1)] by simp
  qed
  show ?thesis
  proof (cases "bucket = []")
    case True
    then have "\<forall>x\<in>set ?offs. ext_size x \<noteq> sz_size s" unfolding bucket filter_empty_conv .
    then have "ext_size x \<in> sz_size ` set (filter (\<lambda>m. sz_size m \<noteq> sz_size s) sz)"
      if "x \<in> set ?offs" for x
      using sz(2) [of x] that by fastforce
    moreover have "skip_sorted sz_depth sz_size (filter (\<lambda>m. sz_size m \<noteq> sz_size s) sz)"
      using sz(1) by (simp add: skip_sorted_def sorted_wrt_filter)
    ultimately show ?thesis
      using True other sz(3) by (intro sz_okI) simp_all
  next
    case False
    let ?f = "\<lambda>m. if sz_size m = sz_size s then s\<lparr>sz_off := bucket\<rparr> else m"
    have "sz_ok ?offs (map ?f sz)"
    proof (rule sz_okI)
      show "skip_sorted sz_depth sz_size (map ?f sz)"
        using sz(1) assms(4) by (intro skip_sorted_map) (auto simp: skip_sorted_def)
      show "ext_size x \<in> sz_size ` set (map ?f sz)" if "x \<in> set ?offs" for x
        using that sz(2) [of x] image_keys [of sz sz_size ?f] by simp
      fix m assume "m \<in> set (map ?f sz)"
      then obtain n where n: "n \<in> set sz" "m = ?f n" by auto
      show "sz_off m \<noteq> []" "filter (\<lambda>x. ext_size x = sz_size m) ?offs = sz_off m"
        using n False bucket other [OF n(1)] sz(3) [OF n(1)] by (cases "sz_size n = sz_size s"; simp)+
    qed
    then show ?thesis using False by simp
  qed
qed

lemma block_off_remove_missing:
  assumes "off_sorted (el_off el)" "off \<notin> ext_off ` set (el_off el)"
  shows "block_off_remove el off = Inl EINVAL"
proof -
  have "set (block_off_srch off (el_off el) ! 0) \<subseteq> set (el_off el)"
    using off_index.srch_first [OF assms(1)] set_dropWhileD by fastforce
  then have "block_off_srch off (el_off el) ! 0 = [] \<or>
      ext_off (hd (block_off_srch off (el_off el) ! 0)) \<noteq> off"
    using assms(2) by (metis hd_in_set image_eqI subsetD)
  then show ?thesis unfolding block_off_remove_def Let_def by presburger
qed

lemma block_off_remove_found:
  assumes "off_sorted (el_off el)" "sz_ok (el_off el) (el_sz el)" "e \<in> set (el_off el)"
    and s: "s \<in> set (el_sz el)" "sz_size s = ext_size e"
      "hd (block_size_srch (ext_size e) (el_sz el) ! 0) = s"
      "block_size_srch (ext_size e) (el_sz el) ! 0 \<noteq> []"
  defines "bucket \<equiv> filter (\<lambda>m. ext_off m \<noteq> ext_off e) (sz_off s)"
  shows "block_off_remove el (ext_off e) =
    Inr (e, el\<lparr>el_off := filter (\<lambda>m. ext_off m \<noteq> ext_off e) (el_off el),
      el_sz := (if bucket = [] then filter (\<lambda>m. sz_size m \<noteq> sz_size s) (el_sz el)
        else map (\<lambda>m. if sz_size m = sz_size s then s\<lparr>sz_off := bucket\<rparr> else m) (el_sz el)),
      el_entries := el_entries el - 1,
      el_bytes := el_bytes el - of_int (ext_size e)\<rparr>)"
proof -
  have sorted: "skip_sorted sz_depth sz_size (el_sz el)" using assms(2) by (simp add: sz_ok_def)
  have b: "sz_off s = filter (\<lambda>x. ext_size x = sz_size s) (el_off el)"
    using assms(2) s(1) by (auto simp: sz_ok_def)
  have bs: "off_sorted (sz_off s)" "e \<in> set (sz_off s)"
    using off_sorted_filter [OF assms(1)] assms(3) s(2) unfolding b by auto
  show ?thesis
    using off_index.srch_found [OF assms(1,3)] off_index.unlink_filter [OF assms(1,3)]
      off_index.srch_found [OF bs] off_index.unlink_filter [OF bs]
      size_index.unlink_filter [OF sorted s(1)] size_index.update_map [OF sorted s(1)] s(2-4)
    by (simp add: block_off_remove_def Let_def bucket_def)
qed

lemma block_off_remove_ok:
  assumes "idx_ok el" "e \<in> set (el_off el)"
  obtains el' where "block_off_remove el (ext_off e) = Inr (e, el')" "idx_ok el'"
    "el_off el' = filter (\<lambda>m. ext_off m \<noteq> ext_off e) (el_off el)" "el_meta el' = el_meta el"
proof -
  have el: "off_sorted (el_off el)" "sz_ok (el_off el) (el_sz el)" "depths_ok el"
    "skip_sorted sz_depth sz_size (el_sz el)" "distinct (map ext_off (el_off el))"
    by (rule idx_okD [OF assms(1)])+
  have "ext_size e \<in> sz_size ` set (el_sz el)" using el(2) assms(2) by (simp add: sz_ok_def)
  then obtain s where s: "s \<in> set (el_sz el)" "sz_size s = ext_size e"
      "hd (block_size_srch (ext_size e) (el_sz el) ! 0) = s"
      "block_size_srch (ext_size e) (el_sz el) ! 0 \<noteq> []"
    using scell_cases [OF el(4), of "ext_size e"] by blast
  note found = block_off_remove_found [OF el(1,2) assms(2) s]
  let ?offs = "filter (\<lambda>m. ext_off m \<noteq> ext_off e) (el_off el)"
  have perm: "?offs = remove1 e (el_off el)" by (rule filter_other_remove1 [OF el(5) assms(2)])
  have sum: "(\<Sum>e\<leftarrow>?offs. ext_size e) = (\<Sum>e\<leftarrow>el_off el. ext_size e) - ext_size e"
    unfolding perm using assms(2) by (simp add: sum_list_map_remove1)
  have len: "(of_nat (length ?offs) :: u32) = of_nat (length (el_off el)) - 1"
    using perm length_remove1 [of e "el_off el"] length_pos_if_in_set [OF assms(2)] assms(2)
    by (simp add: of_nat_diff Suc_le_eq)
  show thesis
    by (rule that [OF found])
      (use assms(1) sum len s(1) sz_ok_remove [OF el(1,2) assms(2) s(1,2)] off_sorted_filter [OF el(1)] in
        \<open>auto simp: idx_ok_def depths_ok_def el_meta_def\<close>)
qed

section \<open>Ranges\<close>

definition ext_range :: "wt_ext \<Rightarrow> int set" where
  "ext_range e = {ext_off e ..< ext_off e + ext_size e}"

definition el_ranges :: "wt_extlist \<Rightarrow> int set" where
  "el_ranges el = (\<Union>e\<in>set (el_off el). ext_range e)"

text \<open>Extents are not empty, and two of them neither overlap nor touch.\<close>

definition separated :: "wt_ext set \<Rightarrow> bool" where
  "separated S \<longleftrightarrow>
     (\<forall>e\<in>S. 0 < ext_size e) \<and>
     (\<forall>a\<in>S. \<forall>b\<in>S. ext_off a < ext_off b \<longrightarrow> ext_off a + ext_size a < ext_off b)"

definition extlist_ok :: "wt_extlist \<Rightarrow> bool" where
  "extlist_ok el \<longleftrightarrow> idx_ok el \<and> separated (set (el_off el))"

lemma extlist_okD:
  assumes "extlist_ok el"
  shows "idx_ok el" "off_sorted (el_off el)" "separated (set (el_off el))"
    and "\<And>a b. a \<in> set (el_off el) \<Longrightarrow> b \<in> set (el_off el) \<Longrightarrow> ext_off a = ext_off b \<Longrightarrow> a = b"
    and "\<And>e. e \<in> set (el_off el) \<Longrightarrow> 0 < ext_depth e \<and> ext_depth e \<le> WT_SKIP_MAXDEPTH"
    and "\<And>e. e \<in> set (el_off el) \<Longrightarrow> 0 < ext_size e"
    and "\<And>a b. a \<in> set (el_off el) \<Longrightarrow> b \<in> set (el_off el) \<Longrightarrow> ext_off a < ext_off b \<Longrightarrow>
      ext_off a + ext_size a < ext_off b"
  using assms
  by (auto simp: extlist_ok_def idx_ok_def skip_sorted_iff distinct_map depths_ok_def separated_def
      dest: inj_onD)

lemma separated_subset: "separated S \<Longrightarrow> T \<subseteq> S \<Longrightarrow> separated T"
  unfolding separated_def by blast

lemma extlist_insert:
  assumes "extlist_ok el" "separated (insert e (set (el_off el)))"
    and "ext_off e \<notin> ext_off ` set (el_off el)" "0 < ext_depth e" "ext_depth e \<le> WT_SKIP_MAXDEPTH"
  shows "extlist_ok (block_ext_insert el e)"
    and "set (el_off (block_ext_insert el e)) = insert e (set (el_off el))"
    and "el_ranges (block_ext_insert el e) = ext_range e \<union> el_ranges el"
proof -
  show set: "set (el_off (block_ext_insert el e)) = insert e (set (el_off el))"
    using extlist_okD(2) [OF assms(1)] by (simp add: block_ext_insert_off set_insort_key)
  show "extlist_ok (block_ext_insert el e)"
    using assms(2) block_ext_insert_ok [OF extlist_okD(1) [OF assms(1)] assms(3-5)]
    by (simp add: extlist_ok_def set)
  show "el_ranges (block_ext_insert el e) = ext_range e \<union> el_ranges el"
    by (simp add: el_ranges_def set)
qed

lemma extlist_remove:
  assumes "extlist_ok el" "e \<in> set (el_off el)"
  obtains el' where "block_off_remove el (ext_off e) = Inr (e, el')" "extlist_ok el'"
    "set (el_off el') = set (el_off el) - {e}" "el_ranges el' = el_ranges el - ext_range e"
    "el_ranges el = ext_range e \<union> el_ranges el'" "el_meta el' = el_meta el"
proof -
  obtain el' where el': "block_off_remove el (ext_off e) = Inr (e, el')" "idx_ok el'"
    "el_off el' = filter (\<lambda>m. ext_off m \<noteq> ext_off e) (el_off el)" "el_meta el' = el_meta el"
    using block_off_remove_ok [OF extlist_okD(1) [OF assms(1)] assms(2)] by blast
  have set: "set (el_off el') = set (el_off el) - {e}"
    using extlist_okD(4) [OF assms(1) _ assms(2)] el'(3) by auto
  have "extlist_ok el'"
    using el'(2) separated_subset [OF extlist_okD(3) [OF assms(1)]] by (auto simp: extlist_ok_def set)
  moreover have "ext_range m \<inter> ext_range e = {}" if "m \<in> set (el_off el')" for m
  proof -
    have m: "m \<in> set (el_off el)" "ext_off m \<noteq> ext_off e" using that el'(3) by auto
    then show ?thesis
      using extlist_okD(7) [OF assms(1) m(1) assms(2)] extlist_okD(7) [OF assms(1) assms(2) m(1)]
      by (cases "ext_off m < ext_off e") (auto simp: ext_range_def)
  qed
  then have "el_ranges el' = el_ranges el - ext_range e"
    unfolding el_ranges_def set by auto
  moreover have "el_ranges el = ext_range e \<union> el_ranges el'"
    unfolding el_ranges_def set using assms(2) by auto
  ultimately show thesis using that el'(1,4) set by blast
qed

lemma block_off_insert_ok:
  assumes "extlist_ok el" "0 < len"
    and "\<And>e. e \<in> set (el_off el) \<Longrightarrow> ext_off e < off \<Longrightarrow> ext_off e + ext_size e < off"
    and "\<And>e. e \<in> set (el_off el) \<Longrightarrow> off \<le> ext_off e \<Longrightarrow> off + len < ext_off e"
  shows "\<exists>el' g' e. block_off_insert g el off len = (el', g') \<and> extlist_ok el' \<and>
    el_ranges el' = {off ..< off + len} \<union> el_ranges el \<and> el_meta el' = el_meta el \<and>
    ext_off e = off \<and> ext_size e = len \<and> set (el_off el') = insert e (set (el_off el))"
proof -
  obtain d g' where d: "wt_skip_choose_depth g = (d, g')" by (cases "wt_skip_choose_depth g")
  let ?e = "\<lparr>ext_off = off, ext_size = len, ext_depth = d\<rparr>"
  have ins: "separated (insert ?e (set (el_off el)))"
  proof -
    have "separated (set (el_off el))" using assms(1) by (rule extlist_okD)
    then show ?thesis using assms(2-4) unfolding separated_def by fastforce
  qed
  have "ext_off ?e \<notin> ext_off ` set (el_off el)" using assms(2,4) by fastforce
  note extlist_insert [OF assms(1) ins this]
  then show ?thesis
    using wt_skip_choose_depth_range [OF d]
    by (intro exI [of _ "block_ext_insert el ?e"] exI [of _ g'] exI [of _ ?e])
      (simp add: block_off_insert_def d ext_range_def)
qed

lemma ranges_overlap_iff:
  assumes "extlist_ok el" "0 < len"
  shows "{off ..< off + len} \<inter> el_ranges el \<noteq> {} \<longleftrightarrow>
    (\<exists>b. below_off off (el_off el) None = Some b \<and> off < ext_off b + ext_size b) \<or>
    (\<exists>a. above_off off (el_off el) None = Some a \<and> ext_off a < off + len)"
    (is "?L \<longleftrightarrow> ?B \<or> ?A")
proof
  note s = extlist_okD(2) [OF assms(1)]
  assume ?L
  then obtain e x where e: "e \<in> set (el_off el)" "ext_off e \<le> x" "x < ext_off e + ext_size e"
      "off \<le> x" "x < off + len"
    by (auto simp: el_ranges_def ext_range_def)
  show "?B \<or> ?A"
  proof (cases "ext_off e < off")
    case True
    then obtain b where b: "below_off off (el_off el) None = Some b"
      using below_NoneD [OF _ s e(1)] by fastforce
    have "b = e"
    proof (rule ccontr)
      assume "b \<noteq> e"
      then have "ext_off e < ext_off b"
        using below_SomeD [OF s b] e(1) True extlist_okD(4) [OF assms(1)] by fastforce
      then show False
        using extlist_okD(7) [OF assms(1) e(1)] below_SomeD [OF s b] e by fastforce
    qed
    then show ?thesis using b e by auto
  next
    case False
    then obtain a where a: "above_off off (el_off el) None = Some a"
      using above_NoneD [OF _ e(1)] by fastforce
    then show ?thesis using above_SomeD(3) [OF s a e(1)] False e by auto
  qed
next
  note s = extlist_okD(2) [OF assms(1)]
  assume "?B \<or> ?A"
  then show ?L
  proof
    assume ?B
    then obtain b where b: "below_off off (el_off el) None = Some b" "off < ext_off b + ext_size b" by auto
    then have "off \<in> {off ..< off + len} \<inter> el_ranges el"
      using below_SomeD [OF s b(1)] assms(2) by (auto simp: el_ranges_def ext_range_def intro!: bexI [of _ b])
    then show ?L by blast
  next
    assume ?A
    then obtain a where a: "above_off off (el_off el) None = Some a" "ext_off a < off + len" by auto
    then have "ext_off a \<in> {off ..< off + len} \<inter> el_ranges el"
      using above_SomeD [OF s a(1)] extlist_okD(6) [OF assms(1)]
      by (auto simp: el_ranges_def ext_range_def intro!: bexI [of _ a])
    then show ?L by blast
  qed
qed

lemma block_off_match_iff:
  assumes "extlist_ok el" "0 < len"
  shows "block_off_match el off len \<longleftrightarrow> {off ..< off + len} \<inter> el_ranges el \<noteq> {}"
  unfolding ranges_overlap_iff [OF assms] block_off_match_def
    block_off_srch_pair_correct [OF extlist_okD(2) [OF assms(1)]]
  by (auto split: option.splits)

section \<open>Merging a range\<close>

definition merge_before :: "wt_extlist \<Rightarrow> int \<Rightarrow> wt_ext option" where
  "merge_before el off = (case below_off off (el_off el) None of
     Some b \<Rightarrow> if ext_off b + ext_size b \<noteq> off then None else Some b | None \<Rightarrow> None)"

definition merge_after :: "wt_extlist \<Rightarrow> int \<Rightarrow> int \<Rightarrow> wt_ext option" where
  "merge_after el off len = (case above_off off (el_off el) None of
     Some a \<Rightarrow> if off + len \<noteq> ext_off a then None else Some a | None \<Rightarrow> None)"

lemma disjoint_gap:
  assumes "{off ..< off + len} \<inter> el_ranges el = {}" "e \<in> set (el_off el)" "0 < ext_size e" "0 < len"
  shows "ext_off e < off \<Longrightarrow> ext_off e + ext_size e \<le> off"
    and "off \<le> ext_off e \<Longrightarrow> off + len \<le> ext_off e"
proof -
  have d: "{off ..< off + len} \<inter> ext_range e = {}" using assms(1,2) by (auto simp: el_ranges_def)
  have "off \<notin> ext_range e" "ext_off e \<notin> {off ..< off + len}"
    using d assms(3,4) by (auto simp: ext_range_def)
  then show "ext_off e < off \<Longrightarrow> ext_off e + ext_size e \<le> off"
    "off \<le> ext_off e \<Longrightarrow> off + len \<le> ext_off e"
    using assms(3,4) by (auto simp: ext_range_def)
qed

lemma merge_before_cases:
  assumes "extlist_ok el" "{off ..< off + len} \<inter> el_ranges el = {}" "0 < len"
  shows "case merge_before el off of
      Some b \<Rightarrow> b \<in> set (el_off el) \<and> ext_off b < off \<and> ext_off b + ext_size b = off
    | None \<Rightarrow> \<forall>e\<in>set (el_off el). ext_off e < off \<longrightarrow> ext_off e + ext_size e < off"
proof (cases "merge_before el off")
  case (Some b)
  then have "below_off off (el_off el) None = Some b" "ext_off b + ext_size b = off"
    by (auto simp: merge_before_def split: option.splits if_splits)
  then show ?thesis using Some below_SomeD [OF extlist_okD(2) [OF assms(1)]] by simp
next
  case None
  have "ext_off e + ext_size e < off" if e: "e \<in> set (el_off el)" "ext_off e < off" for e
  proof -
    obtain b where b: "below_off off (el_off el) None = Some b" "ext_off b + ext_size b \<noteq> off"
      using None e below_NoneD [OF _ extlist_okD(2) [OF assms(1)] e(1), of off]
      by (fastforce simp: merge_before_def split: option.splits if_splits)
    note bD = below_SomeD [OF extlist_okD(2) [OF assms(1)] b(1)]
    show ?thesis
    proof (cases "e = b")
      case True
      then show ?thesis
        using b(2) disjoint_gap(1) [OF assms(2) e(1) extlist_okD(6) [OF assms(1) e(1)] assms(3) e(2)] by simp
    next
      case False
      then have "ext_off e < ext_off b"
        using bD(1) bD(3) [OF e] extlist_okD(4) [OF assms(1) e(1)] by fastforce
      then show ?thesis using extlist_okD(7) [OF assms(1) e(1) bD(1)] bD(2) by simp
    qed
  qed
  then show ?thesis using None by simp
qed

lemma merge_after_cases:
  assumes "extlist_ok el" "{off ..< off + len} \<inter> el_ranges el = {}" "0 < len"
  shows "case merge_after el off len of
      Some a \<Rightarrow> a \<in> set (el_off el) \<and> ext_off a = off + len
    | None \<Rightarrow> \<forall>e\<in>set (el_off el). off \<le> ext_off e \<longrightarrow> off + len < ext_off e"
proof (cases "merge_after el off len")
  case (Some a)
  then have "above_off off (el_off el) None = Some a" "off + len = ext_off a"
    by (auto simp: merge_after_def split: option.splits if_splits)
  then show ?thesis using Some above_SomeD [OF extlist_okD(2) [OF assms(1)]] by simp
next
  case None
  have "off + len < ext_off e" if e: "e \<in> set (el_off el)" "off \<le> ext_off e" for e
  proof -
    obtain a where a: "above_off off (el_off el) None = Some a" "off + len \<noteq> ext_off a"
      using None e above_NoneD [OF _ e(1), of off]
      by (fastforce simp: merge_after_def split: option.splits if_splits)
    note aD = above_SomeD [OF extlist_okD(2) [OF assms(1)] a(1)]
    have "off + len \<le> ext_off a"
      by (rule disjoint_gap(2) [OF assms(2) aD(1) extlist_okD(6) [OF assms(1) aD(1)] assms(3) aD(2)])
    then show ?thesis using a(2) aD(3) [OF e] by simp
  qed
  then show ?thesis using None by simp
qed

lemma block_merge_unfold:
  assumes "extlist_ok el" "{off ..< off + len} \<inter> el_ranges el = {}" "0 < len"
  shows "block_merge g el off len =
    (case (merge_before el off, merge_after el off len) of
       (None, None) \<Rightarrow> Inr (block_off_insert g el off len)
     | (None, Some a) \<Rightarrow>
         wt_ret (block_off_remove el (ext_off a)) (\<lambda>(ext, el1).
           Inr (block_ext_insert el1
             (ext\<lparr>ext_off := off, ext_size := ext_size ext + len\<rparr>), g))
     | (Some b, Some a) \<Rightarrow>
         wt_ret (block_off_remove el (ext_off a)) (\<lambda>(_, el1).
         wt_ret (block_off_remove el1 (ext_off b)) (\<lambda>(ext, el2).
           Inr (block_ext_insert el2
             (ext\<lparr>ext_size := ext_size ext + (len + ext_size a)\<rparr>), g)))
     | (Some b, None) \<Rightarrow>
         wt_ret (block_off_remove el (ext_off b)) (\<lambda>(ext, el1).
           Inr (block_ext_insert el1 (ext\<lparr>ext_size := ext_size ext + len\<rparr>), g)))"
proof -
  have "\<not> (case below_off off (el_off el) None of Some b \<Rightarrow> off < ext_off b + ext_size b | None \<Rightarrow> False)"
    "\<not> (case above_off off (el_off el) None of Some a \<Rightarrow> ext_off a < off + len | None \<Rightarrow> False)"
    using ranges_overlap_iff [OF assms(1,3), of off] assms(2) by (auto split: option.splits)
  then show ?thesis
    unfolding block_merge_def block_off_srch_pair_correct [OF extlist_okD(2) [OF assms(1)]]
      merge_before_def merge_after_def Let_def by simp
qed

lemma block_merge_overlap:
  assumes "extlist_ok el" "0 < len" "{off ..< off + len} \<inter> el_ranges el \<noteq> {}"
  shows "block_merge g el off len = Inl EINVAL"
  using assms(3) unfolding ranges_overlap_iff [OF assms(1,2)]
  by (auto simp: block_merge_def block_off_srch_pair_correct [OF extlist_okD(2) [OF assms(1)]])

text \<open>Putting back one extent that has grown over the merged range and its neighbours.\<close>

lemma extlist_grow:
  assumes "extlist_ok el" "0 < ext_depth e" "ext_depth e \<le> WT_SKIP_MAXDEPTH" "0 < ext_size e"
    and "\<And>m. m \<in> set (el_off el) \<Longrightarrow>
      ext_off m + ext_size m < ext_off e \<or> ext_off e + ext_size e < ext_off m"
  shows "extlist_ok (block_ext_insert el e)"
    and "el_ranges (block_ext_insert el e) = ext_range e \<union> el_ranges el"
    and "set (el_off (block_ext_insert el e)) = insert e (set (el_off el))"
proof -
  have "separated (insert e (set (el_off el)))"
    using extlist_okD(3) [OF assms(1)] assms(4,5) unfolding separated_def by fastforce
  moreover have "ext_off e \<notin> ext_off ` set (el_off el)"
    using assms(4,5) extlist_okD(6) [OF assms(1)] by fastforce
  ultimately show "extlist_ok (block_ext_insert el e)"
    "el_ranges (block_ext_insert el e) = ext_range e \<union> el_ranges el"
    "set (el_off (block_ext_insert el e)) = insert e (set (el_off el))"
    using extlist_insert [OF assms(1) _ _ assms(2,3)] by blast+
qed

definition added ::
  "wt_extlist \<Rightarrow> int set \<Rightarrow> (wt_extlist \<times> rng) result \<Rightarrow> bool" where
  "added el R r \<longleftrightarrow> (\<exists>el' g'. r = Inr (el', g') \<and> extlist_ok el' \<and>
     el_ranges el' = el_ranges el \<union> R \<and> el_meta el' = el_meta el)"

lemma extlist_other_gap:
  assumes "extlist_ok el" "e \<in> set (el_off el)" "m \<in> set (el_off el) - {e}"
  shows "ext_off m + ext_size m < ext_off e \<or> ext_off e + ext_size e < ext_off m"
  using extlist_okD(4,7) [OF assms(1,2), of m] extlist_okD(7) [OF assms(1) _ assms(2), of m] assms(3)
  by (metis Diff_iff insertI1 linorder_less_linear)

lemma merge_at_after:
  assumes "extlist_ok el" "{off ..< off + len} \<inter> el_ranges el = {}" "0 < len"
    and a: "a \<in> set (el_off el)" "ext_off a = off + len"
    and no_before: "\<forall>e\<in>set (el_off el). ext_off e < off \<longrightarrow> ext_off e + ext_size e < off"
  shows "added el {off ..< off + len}
    (wt_ret (block_off_remove el (ext_off a)) (\<lambda>(ext, el1).
       Inr (block_ext_insert el1 (ext\<lparr>ext_off := off, ext_size := ext_size ext + len\<rparr>), g)))"
proof -
  obtain el1 where el1: "block_off_remove el (ext_off a) = Inr (a, el1)" "extlist_ok el1"
    "set (el_off el1) = set (el_off el) - {a}" "el_ranges el = ext_range a \<union> el_ranges el1"
    "el_meta el1 = el_meta el"
    using extlist_remove [OF assms(1) a(1)] by metis
  let ?e = "a\<lparr>ext_off := off, ext_size := ext_size a + len\<rparr>"
  have gap: "ext_off m + ext_size m < ext_off ?e \<or> ext_off ?e + ext_size ?e < ext_off m"
    if m: "m \<in> set (el_off el1)" for m
  proof -
    have m': "m \<in> set (el_off el)" "m \<in> set (el_off el) - {a}" using m el1(3) by auto
    note disjoint_gap(2) [OF assms(2) m'(1) extlist_okD(6) [OF el1(2) m] assms(3)]
    then show ?thesis
      using extlist_other_gap [OF assms(1) a(1) m'(2)] no_before m'(1) a(2)
        extlist_okD(6) [OF el1(2) m] by (cases "ext_off m < off") auto
  qed
  have "ext_range ?e = ext_range a \<union> {off ..< off + len}"
    using extlist_okD(6) [OF assms(1) a(1)] a(2) assms(3) by (auto simp: ext_range_def)
  then show ?thesis
    using extlist_grow [OF el1(2), of ?e] gap extlist_okD(5,6) [OF assms(1) a(1)] assms(3) el1
    by (auto simp: added_def)
qed

lemma merge_at_before:
  assumes "extlist_ok el" "0 < len"
    and b: "b \<in> set (el_off el)" "ext_off b + ext_size b = off"
    and no_after: "\<forall>e\<in>set (el_off el). off \<le> ext_off e \<longrightarrow> off + len < ext_off e"
  shows "added el {off ..< off + len}
    (wt_ret (block_off_remove el (ext_off b)) (\<lambda>(ext, el1).
       Inr (block_ext_insert el1 (ext\<lparr>ext_size := ext_size ext + len\<rparr>), g)))"
proof -
  obtain el1 where el1: "block_off_remove el (ext_off b) = Inr (b, el1)" "extlist_ok el1"
    "set (el_off el1) = set (el_off el) - {b}" "el_ranges el = ext_range b \<union> el_ranges el1"
    "el_meta el1 = el_meta el"
    using extlist_remove [OF assms(1) b(1)] by metis
  let ?e = "b\<lparr>ext_size := ext_size b + len\<rparr>"
  have gap: "ext_off m + ext_size m < ext_off ?e \<or> ext_off ?e + ext_size ?e < ext_off m"
    if m: "m \<in> set (el_off el1)" for m
    using extlist_other_gap [OF assms(1) b(1)] m no_after b(2) assms(2) el1(3) by fastforce
  have "ext_range ?e = ext_range b \<union> {off ..< off + len}"
    using extlist_okD(6) [OF assms(1) b(1)] b(2) assms(2) by (auto simp: ext_range_def)
  then show ?thesis
    using extlist_grow [OF el1(2), of ?e] gap extlist_okD(5,6) [OF assms(1) b(1)] assms(2) el1
    by (auto simp: added_def)
qed

lemma merge_at_both:
  assumes "extlist_ok el" "0 < len" and disj: "{off ..< off + len} \<inter> el_ranges el = {}"
    and b: "b \<in> set (el_off el)" "ext_off b + ext_size b = off"
    and a: "a \<in> set (el_off el)" "ext_off a = off + len"
  shows "added el {off ..< off + len}
    (wt_ret (block_off_remove el (ext_off a)) (\<lambda>(_, el1).
     wt_ret (block_off_remove el1 (ext_off b)) (\<lambda>(ext, el2).
       Inr (block_ext_insert el2 (ext\<lparr>ext_size := ext_size ext + (len + ext_size a)\<rparr>), g))))"
proof -
  obtain el1 where el1: "block_off_remove el (ext_off a) = Inr (a, el1)" "extlist_ok el1"
    "set (el_off el1) = set (el_off el) - {a}" "el_ranges el = ext_range a \<union> el_ranges el1"
    "el_meta el1 = el_meta el"
    using extlist_remove [OF assms(1) a(1)] by metis
  have b1: "b \<in> set (el_off el1)"
    using el1(3) a b assms(2) extlist_okD(6) [OF assms(1) a(1)] by fastforce
  obtain el2 where el2: "block_off_remove el1 (ext_off b) = Inr (b, el2)" "extlist_ok el2"
    "set (el_off el2) = set (el_off el1) - {b}" "el_ranges el1 = ext_range b \<union> el_ranges el2"
    "el_meta el2 = el_meta el1"
    using extlist_remove [OF el1(2) b1] by metis
  let ?e = "b\<lparr>ext_size := ext_size b + (len + ext_size a)\<rparr>"
  have gap: "ext_off m + ext_size m < ext_off ?e \<or> ext_off ?e + ext_size ?e < ext_off m"
    if m: "m \<in> set (el_off el2)" for m
  proof -
    have m': "m \<in> set (el_off el)" "m \<in> set (el_off el) - {a}" "m \<in> set (el_off el) - {b}"
      using m el1(3) el2(3) by auto
    show ?thesis
      using extlist_other_gap [OF assms(1) b(1) m'(3)] extlist_other_gap [OF assms(1) a(1) m'(2)]
        disjoint_gap(2) [OF disj m'(1) extlist_okD(6) [OF el2(2) m] assms(2)] a(2) b(2)
        extlist_okD(6) [OF el2(2) m] by (cases "ext_off m < off") auto
  qed
  have "ext_range ?e = ext_range b \<union> {off ..< off + len} \<union> ext_range a"
    using extlist_okD(6) [OF assms(1) b(1)] extlist_okD(6) [OF assms(1) a(1)] a(2) b(2) assms(2)
    by (auto simp: ext_range_def)
  then show ?thesis
    using extlist_grow [OF el2(2), of ?e] gap extlist_okD(5,6) [OF assms(1) b(1)]
      extlist_okD(6) [OF assms(1) a(1)] assms(2) el1 el2
    by (auto simp: added_def)
qed

lemma block_merge_added:
  assumes "extlist_ok el" "0 < len" "{off ..< off + len} \<inter> el_ranges el = {}"
  shows "added el {off ..< off + len} (block_merge g el off len)"
proof -
  note unfold = block_merge_unfold [OF assms(1,3,2), of g]
  note before = merge_before_cases [OF assms(1,3,2)] and after = merge_after_cases [OF assms(1,3,2)]
  show ?thesis
  proof (cases "merge_before el off")
    case None
    note b = None
    show ?thesis
    proof (cases "merge_after el off len")
      case None
      then show ?thesis
        using block_off_insert_ok [OF assms(1,2), of off g] b before after unfold
        by (auto simp: added_def)
    next
      case (Some a)
      then show ?thesis
        using merge_at_after [OF assms(1,3,2), of a g] b before after unfold by simp
    qed
  next
    case (Some b)
    note b = Some
    show ?thesis
    proof (cases "merge_after el off len")
      case None
      then show ?thesis
        using merge_at_before [OF assms(1,2), of b off g] b before after unfold by simp
    next
      case (Some a)
      then show ?thesis
        using merge_at_both [OF assms(1,2,3), of b a g] b before after unfold by simp
    qed
  qed
qed

section \<open>Removing a range\<close>

lemma reinsert_parts_ok:
  assumes "extlist_ok el" "0 < ext_depth e" "ext_depth e \<le> WT_SKIP_MAXDEPTH" "0 < len"
    and gap: "\<And>m. m \<in> set (el_off el) \<Longrightarrow>
      ext_off m + ext_size m < ext_off e \<or> ext_off e + ext_size e < ext_off m"
    and inside: "ext_off e \<le> off" "off + len \<le> ext_off e + ext_size e"
    and a_off: "ext_off e < off \<Longrightarrow> a_off = ext_off e"
  shows "added el ({ext_off e ..< off} \<union> {off + len ..< ext_off e + ext_size e})
    (Inr (reinsert_parts g el e a_off (off - ext_off e) (off + len)
      (ext_off e + ext_size e - (off + len))))"
proof -
  let ?a = "e\<lparr>ext_off := ext_off e, ext_size := off - ext_off e\<rparr>"
  let ?b = "e\<lparr>ext_off := off + len, ext_size := ext_off e + ext_size e - (off + len)\<rparr>"
  show ?thesis
  proof (cases "ext_off e < off")
    case True
    have gap_a: "ext_off m + ext_size m < ext_off ?a \<or> ext_off ?a + ext_size ?a < ext_off m"
      if "m \<in> set (el_off el)" for m using gap [OF that] inside assms(4) by auto
    have a: "extlist_ok (block_ext_insert el ?a)"
      "el_ranges (block_ext_insert el ?a) = ext_range ?a \<union> el_ranges el"
      "set (el_off (block_ext_insert el ?a)) = insert ?a (set (el_off el))"
      by (rule extlist_grow [OF assms(1)]; use gap_a assms(2,3) True in auto)+
    show ?thesis
    proof (cases "off + len = ext_off e + ext_size e")
      case at_end: True
      then show ?thesis
        using a a_off [OF True] True
        by (auto simp: added_def reinsert_parts_def Let_def ext_range_def)
    next
      case False
      obtain el' g' where "block_off_insert g (block_ext_insert el ?a) (off + len)
          (ext_off e + ext_size e - (off + len)) = (el', g')" "extlist_ok el'"
        "el_ranges el' = {off + len ..< ext_off e + ext_size e} \<union> el_ranges (block_ext_insert el ?a)"
        "el_meta el' = el_meta (block_ext_insert el ?a)"
        using block_off_insert_ok [OF a(1), of "ext_off e + ext_size e - (off + len)" "off + len" g]
          a(3) gap inside assms(4) False True extlist_okD(6) [OF assms(1)] by fastforce
      then show ?thesis
        using a a_off [OF True] True False
        by (auto simp: added_def reinsert_parts_def Let_def ext_range_def)
    qed
  next
    case start: False
    then have off: "off = ext_off e" using inside by simp
    show ?thesis
    proof (cases "off + len = ext_off e + ext_size e")
      case True
      then show ?thesis using assms(1) off by (auto simp: added_def reinsert_parts_def)
    next
      case False
      have gap_b: "ext_off m + ext_size m < ext_off ?b \<or> ext_off ?b + ext_size ?b < ext_off m"
        if "m \<in> set (el_off el)" for m using gap [OF that] inside assms(4) by auto
      have "extlist_ok (block_ext_insert el ?b)"
        "el_ranges (block_ext_insert el ?b) = ext_range ?b \<union> el_ranges el"
        by (rule extlist_grow [OF assms(1)]; use gap_b assms(2,3) False inside in auto)+
      then show ?thesis
        using off False by (auto simp: added_def reinsert_parts_def ext_range_def)
    qed
  qed
qed

definition removed ::
  "wt_extlist \<Rightarrow> int set \<Rightarrow> (wt_extlist \<times> rng) result \<Rightarrow> bool" where
  "removed el R r \<longleftrightarrow> (\<exists>el' g'. r = Inr (el', g') \<and> extlist_ok el' \<and>
     el_ranges el' = el_ranges el - R \<and> el_meta el' = el_meta el)"

lemma remove_part:
  assumes "extlist_ok el" "e \<in> set (el_off el)" "0 < len"
    and inside: "ext_off e \<le> off" "off + len \<le> ext_off e + ext_size e"
    and a_off: "ext_off e < off \<Longrightarrow> a_off = ext_off e"
  shows "removed el {off ..< off + len}
    (wt_ret (block_off_remove el (ext_off e)) (\<lambda>(ext, el1).
       Inr (reinsert_parts g el1 ext a_off (off - ext_off e) (off + len)
         (ext_off e + ext_size e - (off + len)))))"
proof -
  obtain el1 where el1: "block_off_remove el (ext_off e) = Inr (e, el1)" "extlist_ok el1"
    "set (el_off el1) = set (el_off el) - {e}" "el_ranges el1 = el_ranges el - ext_range e"
    "el_ranges el = ext_range e \<union> el_ranges el1" "el_meta el1 = el_meta el"
    using extlist_remove [OF assms(1,2)] by metis
  have "added el1 ({ext_off e ..< off} \<union> {off + len ..< ext_off e + ext_size e})
    (Inr (reinsert_parts g el1 e a_off (off - ext_off e) (off + len)
      (ext_off e + ext_size e - (off + len))))"
    using extlist_other_gap [OF assms(1,2)] el1(3) extlist_okD(5) [OF assms(1,2)]
    by (intro reinsert_parts_ok [OF el1(2) _ _ assms(3) _ inside a_off]) auto
  moreover have "\<forall>x\<in>el_ranges el1. x \<notin> ext_range e" using el1(4) by blast
  then have "el_ranges el1 \<union> ({ext_off e ..< off} \<union> {off + len ..< ext_off e + ext_size e}) =
      el_ranges el - {off ..< off + len}"
    unfolding el1(5) using inside assms(3) by (auto simp: ext_range_def)
  ultimately show ?thesis using el1(1,6) by (auto simp: added_def removed_def)
qed

lemma inside_one_extent:
  assumes "extlist_ok el" "0 < len" "{off ..< off + len} \<subseteq> el_ranges el"
  obtains e where "e \<in> set (el_off el)" "ext_off e \<le> off" "off + len \<le> ext_off e + ext_size e"
proof -
  obtain e where e: "e \<in> set (el_off el)" "ext_off e \<le> off" "off < ext_off e + ext_size e"
    using assms(2,3) by (auto simp: el_ranges_def ext_range_def subset_iff dest!: spec [of _ off])
  have "off + len \<le> ext_off e + ext_size e"
  proof (rule ccontr)
    assume "\<not> off + len \<le> ext_off e + ext_size e"
    then have "ext_off e + ext_size e \<in> el_ranges el" using assms(3) e by auto
    then obtain m where m: "m \<in> set (el_off el)" "ext_off m \<le> ext_off e + ext_size e"
        "ext_off e + ext_size e < ext_off m + ext_size m"
      by (auto simp: el_ranges_def ext_range_def)
    then have "m \<in> set (el_off el) - {e}" by auto
    then show False
      using extlist_other_gap [OF assms(1) e(1)] m extlist_okD(6) [OF assms(1) e(1)] by fastforce
  qed
  then show thesis using that e by blast
qed

lemma remove_overlap_missing:
  assumes "extlist_ok el" "0 < len" "{off ..< off + len} \<inter> el_ranges el = {}"
  shows "wt_block_off_remove_overlap g el off len = Inl WT_NOTFOUND"
proof -
  have "\<And>b. below_off off (el_off el) None = Some b \<Longrightarrow> \<not> off < ext_off b + ext_size b"
    "\<And>a. above_off off (el_off el) None = Some a \<Longrightarrow> \<not> ext_off a < off + len"
    using ranges_overlap_iff [OF assms(1,2), of off] assms(3) by blast+
  then show ?thesis
    by (simp add: wt_block_off_remove_overlap_def
        block_off_srch_pair_correct [OF extlist_okD(2) [OF assms(1)]] Let_def split: option.split)
qed

lemma below_inside:
  assumes "extlist_ok el" "e \<in> set (el_off el)" "ext_off e < off" "off < ext_off e + ext_size e"
  shows "below_off off (el_off el) None = Some e"
proof -
  note s = extlist_okD(2) [OF assms(1)]
  obtain b where b: "below_off off (el_off el) None = Some b"
    using below_NoneD [OF _ s assms(2), of off] assms(3) by fastforce
  have "b = e"
  proof (rule ccontr)
    assume "b \<noteq> e"
    then have "b \<in> set (el_off el) - {e}" using below_SomeD(1) [OF s b] by simp
    then show False
      using extlist_other_gap [OF assms(1,2)] below_SomeD [OF s b] assms(2-4)
        extlist_okD(6) [OF assms(1), of b] by fastforce
  qed
  then show ?thesis using b by simp
qed

lemma above_start:
  assumes "extlist_ok el" "e \<in> set (el_off el)"
  shows "above_off (ext_off e) (el_off el) None = Some e"
    and "below_off (ext_off e) (el_off el) None = Some b \<Longrightarrow> ext_off b + ext_size b < ext_off e"
proof -
  note s = extlist_okD(2) [OF assms(1)]
  obtain a where a: "above_off (ext_off e) (el_off el) None = Some a"
    using above_NoneD [OF _ assms(2), of "ext_off e"] by fastforce
  have "ext_off a = ext_off e" using above_SomeD(2,3) [OF s a] assms(2) by fastforce
  then show "above_off (ext_off e) (el_off el) None = Some e"
    using a extlist_okD(4) [OF assms(1) above_SomeD(1) [OF s a] assms(2)] by simp
  assume b: "below_off (ext_off e) (el_off el) None = Some b"
  show "ext_off b + ext_size b < ext_off e"
    using extlist_okD(7) [OF assms(1) below_SomeD(1) [OF s b] assms(2)] below_SomeD(2) [OF s b] .
qed

lemma remove_overlap_removed:
  assumes "extlist_ok el" "0 < len" "{off ..< off + len} \<subseteq> el_ranges el"
  shows "removed el {off ..< off + len} (wt_block_off_remove_overlap g el off len)"
proof -
  obtain e where e: "e \<in> set (el_off el)" "ext_off e \<le> off" "off + len \<le> ext_off e + ext_size e"
    using inside_one_extent [OF assms] .
  note pair = block_off_srch_pair_correct [OF extlist_okD(2) [OF assms(1)]]
  obtain el1 where el1: "block_off_remove el (ext_off e) = Inr (e, el1)"
    using extlist_remove [OF assms(1) e(1)] by metis
  show ?thesis
  proof (cases "ext_off e < off")
    case True
    have "below_off off (el_off el) None = Some e"
      using below_inside [OF assms(1) e(1) True] e(3) assms(2) by simp
    then show ?thesis
      using remove_part [OF assms(1) e(1) assms(2) e(2,3), of "ext_off e" g] e assms(2) el1
      by (simp add: wt_block_off_remove_overlap_def pair Let_def algebra_simps)
  next
    case False
    then have off: "off = ext_off e" using e by simp
    have "wt_block_off_remove_overlap g el off len =
        wt_ret (block_off_remove el (ext_off e)) (\<lambda>(ext, el1).
          Inr (reinsert_parts g el1 ext WT_BLOCK_INVALID_OFFSET 0
            (off + len) (ext_size ext - (off + len - ext_off ext))))"
      using above_start [OF assms(1) e(1)] assms(2)
      by (auto simp: wt_block_off_remove_overlap_def pair Let_def off split: option.splits)
    then show ?thesis
      using remove_part [OF assms(1) e(1) assms(2) e(2,3), of WT_BLOCK_INVALID_OFFSET g] el1
      by (simp add: off algebra_simps)
  qed
qed

section \<open>The range store interface\<close>

text \<open>An extent list, with the random generator that its insertions draw from, as a range store.\<close>

definition merge_range :: "int \<Rightarrow> int \<Rightarrow> wt_extlist \<times> rng \<Rightarrow> (wt_extlist \<times> rng) result" where
  "merge_range off len s = block_merge (snd s) (fst s) off len"

definition remove_range :: "int \<Rightarrow> int \<Rightarrow> wt_extlist \<times> rng \<Rightarrow> (wt_extlist \<times> rng) result" where
  "remove_range off len s = wt_block_off_remove_overlap (snd s) (fst s) off len"

interpretation extents: range_store
  "\<lambda>s. extlist_ok (fst s)" "\<lambda>s. el_ranges (fst s)" merge_range remove_range
proof unfold_locales
  fix s :: "wt_extlist \<times> rng" and len off :: int
  assume ok: "extlist_ok (fst s)" "0 < len"
  show "{off ..< off + len} \<inter> el_ranges (fst s) = {} \<Longrightarrow> \<exists>s'. merge_range off len s = Inr s' \<and>
      extlist_ok (fst s') \<and> el_ranges (fst s') = el_ranges (fst s) \<union> {off ..< off + len}"
    using block_merge_added [OF ok, of off "snd s"] by (auto simp: added_def merge_range_def)
  show "{off ..< off + len} \<inter> el_ranges (fst s) \<noteq> {} \<Longrightarrow> merge_range off len s = Inl EINVAL"
    using block_merge_overlap [OF ok] by (simp add: merge_range_def)
  show "{off ..< off + len} \<subseteq> el_ranges (fst s) \<Longrightarrow> \<exists>s'. remove_range off len s = Inr s' \<and>
      extlist_ok (fst s') \<and> el_ranges (fst s') = el_ranges (fst s) - {off ..< off + len}"
    using remove_overlap_removed [OF ok, of off "snd s"] by (auto simp: removed_def remove_range_def)
  show "{off ..< off + len} \<inter> el_ranges (fst s) = {} \<Longrightarrow> remove_range off len s = Inl WT_NOTFOUND"
    using remove_overlap_missing [OF ok] by (simp add: remove_range_def)
qed

definition ext_pair :: "wt_ext \<Rightarrow> int \<times> int" where
  "ext_pair e = (ext_off e, ext_size e)"

lemma range_of_ext_pair [simp]: "range_of (ext_pair e) = ext_range e"
  by (simp add: range_of_def ext_pair_def ext_range_def)

lemma extlist_merge_loop_add_all:
  "extlist_merge_loop g exts b = add_all merge_range (map ext_pair exts) (b, g)"
proof (induction exts arbitrary: g b)
  case (Cons e exts)
  then show ?case by (cases "block_merge g b (ext_off e) (ext_size e)") (auto simp: ext_pair_def merge_range_def)
qed simp

lemma fresh_ranges_separated:
  assumes "off_sorted exts" "separated (set exts)" "(\<Union>e\<in>set exts. ext_range e) \<inter> R = {}"
  shows "fresh_ranges R (map ext_pair exts)"
  using assms
proof (induction exts arbitrary: R)
  case (Cons e exts)
  have "ext_range m \<inter> ext_range e = {}" if "m \<in> set exts" for m
  proof -
    have "ext_off e < ext_off m" using Cons.prems(1) that by (auto simp: skip_sorted_def)
    then have "ext_off e + ext_size e < ext_off m" using Cons.prems(2) that by (auto simp: separated_def)
    then show ?thesis by (auto simp: ext_range_def)
  qed
  then have "(\<Union>e\<in>set exts. ext_range e) \<inter> (R \<union> ext_range e) = {}" using Cons.prems(3) by auto
  moreover have "off_sorted exts" "separated (set exts)"
    using Cons.prems(1,2) separated_subset [of "set (e # exts)" "set exts"] by (auto simp: skip_sorted_def)
  ultimately show ?case using Cons.IH Cons.prems(3) by auto
qed simp

lemma extlist_check_loop_iff:
  assumes "sorted_wrt (\<lambda>a b. ext_off a < ext_off b) as" "sorted_wrt (\<lambda>a b. ext_off a < ext_off b) bs"
    and "\<forall>e\<in>set as \<union> set bs. 0 < ext_size e"
  shows "extlist_check_loop as bs =
    (if (\<Union>e\<in>set as. ext_range e) \<inter> (\<Union>e\<in>set bs. ext_range e) = {} then Inr () else Inl EINVAL)"
  using assms
proof (induction as bs rule: extlist_check_loop.induct)
  case (1 a as b bs)
  consider "ext_off a + ext_size a \<le> ext_off b"
    | "\<not> ext_off a + ext_size a \<le> ext_off b" "ext_off b + ext_size b \<le> ext_off a"
    | "\<not> ext_off a + ext_size a \<le> ext_off b" "\<not> ext_off b + ext_size b \<le> ext_off a" by blast
  then show ?case
  proof cases
    case 1
    have "\<forall>m\<in>set (b # bs). ext_range a \<inter> ext_range m = {}"
      using 1 "1.prems"(2) by (fastforce simp: ext_range_def)
    then have "ext_range a \<inter> (\<Union>e\<in>set (b # bs). ext_range e) = {}" by blast
    then have "(\<Union>e\<in>set (a # as). ext_range e) \<inter> (\<Union>e\<in>set (b # bs). ext_range e) =
        (\<Union>e\<in>set as. ext_range e) \<inter> (\<Union>e\<in>set (b # bs). ext_range e)" by auto
    then show ?thesis using 1 "1.IH"(1) [OF 1] "1.prems" by simp
  next
    case 2
    have "\<forall>m\<in>set (a # as). ext_range m \<inter> ext_range b = {}"
      using 2 "1.prems"(1) by (fastforce simp: ext_range_def)
    then have "(\<Union>e\<in>set (a # as). ext_range e) \<inter> ext_range b = {}" by blast
    then have "(\<Union>e\<in>set (a # as). ext_range e) \<inter> (\<Union>e\<in>set (b # bs). ext_range e) =
        (\<Union>e\<in>set (a # as). ext_range e) \<inter> (\<Union>e\<in>set bs. ext_range e)" by auto
    then show ?thesis using 2 "1.IH"(2) [OF 2] "1.prems" by simp
  next
    case 3
    then have "max (ext_off a) (ext_off b) \<in> ext_range a \<inter> ext_range b"
      using "1.prems"(3) by (auto simp: ext_range_def)
    then have "(\<Union>e\<in>set (a # as). ext_range e) \<inter> (\<Union>e\<in>set (b # bs). ext_range e) \<noteq> {}" by auto
    then show ?thesis using 3 by simp
  qed
qed auto

lemma fresh_rangesD: "fresh_ranges R rs \<Longrightarrow> r \<in> set rs \<Longrightarrow> range_of r \<inter> R = {}"
  by (induction rs arbitrary: R) auto

lemma fresh_ranges_extlist:
  assumes "extlist_ok a"
  shows "fresh_ranges R (map ext_pair (el_off a)) \<longleftrightarrow> el_ranges a \<inter> R = {}"
proof
  assume "fresh_ranges R (map ext_pair (el_off a))"
  then have "\<forall>r\<in>set (map ext_pair (el_off a)). range_of r \<inter> R = {}" using fresh_rangesD by blast
  then show "el_ranges a \<inter> R = {}" by (auto simp: el_ranges_def)
next
  assume "el_ranges a \<inter> R = {}"
  then show "fresh_ranges R (map ext_pair (el_off a))"
    using extlist_okD(2,3) [OF assms] by (intro fresh_ranges_separated) (auto simp: el_ranges_def)
qed

lemma extlist_pairs:
  assumes "extlist_ok a"
  shows "\<forall>r\<in>set (map ext_pair (el_off a)). 0 < snd r"
    and "(\<Union>r\<in>set (map ext_pair (el_off a)). range_of r) = el_ranges a"
  using extlist_okD(6) [OF assms] by (auto simp: ext_pair_def el_ranges_def range_of_def ext_range_def)

lemmas extlist_merge_facts =
  wt_block_extlist_merge_def extlist_merge_loop_add_all fresh_ranges_extlist extlist_pairs

section \<open>Properties of extent lists\<close>

definition sample_extlist :: wt_extlist where
  "sample_extlist =
     (let a = \<lparr>ext_off = 512, ext_size = 1024, ext_depth = 1\<rparr>;
          b = \<lparr>ext_off = 4096, ext_size = 512, ext_depth = 2\<rparr>
      in \<lparr>el_name = ''live.avail'', el_bytes = 1536, el_entries = 2, el_offset = 0, el_cksum = 0,
          el_size = 0, el_off = [a, b],
          el_sz = [\<lparr>sz_size = 512, sz_depth = 2, sz_off = [b]\<rparr>,
                   \<lparr>sz_size = 1024, sz_depth = 1, sz_off = [a]\<rparr>]\<rparr>)"

lemma sample_extlist_ok: "extlist_ok sample_extlist"
  by (auto simp: sample_extlist_def Let_def extlist_ok_def idx_ok_def sz_ok_def depths_ok_def skip_sorted_def
      separated_def WT_SKIP_MAXDEPTH_def)

lemma extlist_zero_ok: "extlist_ok extlist_zero"
  by (simp add: extlist_zero_def extlist_ok_def idx_ok_def sz_ok_def depths_ok_def skip_sorted_def
      separated_def)

lemma extlist_zero_ranges: "el_ranges extlist_zero = {}"
  by (simp add: extlist_zero_def el_ranges_def)

lemma sample_extlist_ranges: "el_ranges sample_extlist = {512 ..< 1536} \<union> {4096 ..< 4608}"
  by (auto simp: sample_extlist_def Let_def el_ranges_def ext_range_def)

text \<open>
  C6: merging a range into a well-formed extent list adds exactly the bytes of the range and
  keeps the list well formed (both skiplists and the counters consistent, extents separated),
  and is refused with \<open>EINVAL\<close> exactly when some byte of the range is already on the list.
\<close>

theorem block_merge_spec:
  assumes "extlist_ok el" "0 < len"
  shows "if {off ..< off + len} \<inter> el_ranges el = {}
    then \<exists>el' g'. block_merge g el off len = Inr (el', g') \<and> extlist_ok el' \<and>
      el_ranges el' = el_ranges el \<union> {off ..< off + len}
    else block_merge g el off len = Inl EINVAL"
  using block_merge_added [OF assms, of off g] block_merge_overlap [OF assms, of off g]
  by (auto simp: added_def)

theorem block_merge_spec_witness:
  "extlist_ok sample_extlist \<and>
   (\<exists>el' g'. block_merge rng_init sample_extlist 1536 2560 = Inr (el', g') \<and> extlist_ok el' \<and>
      el_ranges el' = {512 ..< 4608}) \<and>
   block_merge rng_init sample_extlist 1024 4096 = Inl EINVAL"
proof -
  have "{512 ..< 1536} \<union> {4096 ..< 4608} \<union> {1536 ..< 4096} = {512 ..< 4608 :: int}" by auto
  moreover have "{1536 ..< 4096} \<inter> ({512 ..< 1536} \<union> {4096 ..< 4608}) = ({} :: int set)" by auto
  moreover have "1024 \<in> {1024 ..< 5120} \<inter> ({512 ..< 1536} \<union> {4096 ..< 4608} :: int set)" by auto
  then have "{1024 ..< 5120} \<inter> ({512 ..< 1536} \<union> {4096 ..< 4608}) \<noteq> ({} :: int set)" by blast
  ultimately show ?thesis
    using block_merge_spec [OF sample_extlist_ok, of 2560 1536 rng_init]
      block_merge_spec [OF sample_extlist_ok, of 4096 1024 rng_init] sample_extlist_ok
    by (simp add: sample_extlist_ranges)
qed

text \<open>
  C21: removing a range that is on the list takes away exactly its bytes and keeps the list well
  formed, whether the range is a whole extent, its start, its end or its middle; a range
  with no byte on the list is reported with \<open>WT_NOTFOUND\<close>.
\<close>

theorem block_off_remove_overlap_spec:
  assumes "extlist_ok el" "0 < len"
  shows "({off ..< off + len} \<subseteq> el_ranges el \<longrightarrow>
      (\<exists>el' g'. wt_block_off_remove_overlap g el off len = Inr (el', g') \<and> extlist_ok el' \<and>
        el_ranges el' = el_ranges el - {off ..< off + len})) \<and>
    ({off ..< off + len} \<inter> el_ranges el = {} \<longrightarrow>
      wt_block_off_remove_overlap g el off len = Inl WT_NOTFOUND)"
  using remove_overlap_removed [OF assms, of off g] remove_overlap_missing [OF assms, of off g]
  by (auto simp: removed_def)

theorem block_off_remove_overlap_spec_witness:
  "(\<exists>el' g'. wt_block_off_remove_overlap rng_init sample_extlist 1024 128 = Inr (el', g') \<and>
      extlist_ok el' \<and> el_ranges el' = {512 ..< 1024} \<union> {1152 ..< 1536} \<union> {4096 ..< 4608}) \<and>
   wt_block_off_remove_overlap rng_init sample_extlist 2048 512 = Inl WT_NOTFOUND"
proof -
  have "{512 ..< 1536} \<union> {4096 ..< 4608} - {1024 ..< 1152} =
    ({512 ..< 1024} \<union> {1152 ..< 1536} \<union> {4096 ..< 4608} :: int set)" by auto
  moreover have "{1024 ..< 1152} \<subseteq> ({512 ..< 1536} \<union> {4096 ..< 4608} :: int set)" by auto
  moreover have "{2048 ..< 2560} \<inter> ({512 ..< 1536} \<union> {4096 ..< 4608}) = ({} :: int set)" by auto
  ultimately show ?thesis
    using block_off_remove_overlap_spec [OF sample_extlist_ok, of 128 1024 rng_init]
      block_off_remove_overlap_spec [OF sample_extlist_ok, of 512 2048 rng_init]
    by (simp add: sample_extlist_ranges)
qed

text \<open>
  Merging one extent list into another gives the union of their bytes when they have no
  byte in common, and fails with \<open>EINVAL\<close> otherwise.
\<close>

theorem block_extlist_merge_spec:
  assumes "extlist_ok a" "extlist_ok b"
  shows "if el_ranges a \<inter> el_ranges b = {}
    then \<exists>b' g'. wt_block_extlist_merge g a b = Inr (b', g') \<and> extlist_ok b' \<and>
      el_ranges b' = el_ranges b \<union> el_ranges a
    else wt_block_extlist_merge g a b = Inl EINVAL"
  using extents.add_all_fresh [of "(b, g)" "map ext_pair (el_off a)"]
    extents.add_all_overlap [of "(b, g)" "map ext_pair (el_off a)"] assms
  by (auto simp: extlist_merge_facts simp del: set_map)

theorem block_extlist_merge_spec_witness:
  "(\<exists>b' g'. wt_block_extlist_merge rng_init sample_extlist extlist_zero = Inr (b', g') \<and>
      extlist_ok b' \<and> el_ranges b' = {512 ..< 1536} \<union> {4096 ..< 4608}) \<and>
   wt_block_extlist_merge rng_init sample_extlist sample_extlist = Inl EINVAL"
proof -
  have "512 \<in> {512 ..< 1536} \<union> {4096 ..< 4608 :: int}" by simp
  then have "{512 ..< 1536} \<union> {4096 ..< 4608 :: int} \<noteq> {}" by blast
  then show ?thesis
    using block_extlist_merge_spec [OF sample_extlist_ok extlist_zero_ok, of rng_init]
      block_extlist_merge_spec [OF sample_extlist_ok sample_extlist_ok, of rng_init]
    by (simp add: sample_extlist_ranges extlist_zero_ranges)
qed

text \<open>
  C34: the check for overlaps between two extent lists, which walks both lists in parallel,
  accepts exactly the pairs of lists with no byte in common.
\<close>

theorem block_extlist_check_spec:
  assumes "extlist_ok al" "extlist_ok bl"
  shows "wt_block_extlist_check al bl =
    (if el_ranges al \<inter> el_ranges bl = {} then Inr () else Inl EINVAL)"
proof -
  have "\<forall>e\<in>set (el_off al) \<union> set (el_off bl). 0 < ext_size e"
    using extlist_okD(6) assms by blast
  note extlist_check_loop_iff [OF _ _ this]
  then show ?thesis
    using extlist_okD(2) [OF assms(1)] extlist_okD(2) [OF assms(2)]
    by (simp add: wt_block_extlist_check_def el_ranges_def skip_sorted_def)
qed

theorem block_extlist_check_spec_witness:
  "wt_block_extlist_check sample_extlist extlist_zero = Inr () \<and>
   wt_block_extlist_check sample_extlist sample_extlist = Inl EINVAL"
proof -
  have "512 \<in> {512 ..< 1536} \<union> {4096 ..< 4608 :: int}" by simp
  then have "{512 ..< 1536} \<union> {4096 ..< 4608 :: int} \<noteq> {}" by blast
  then show ?thesis
    using block_extlist_check_spec [OF sample_extlist_ok extlist_zero_ok]
      block_extlist_check_spec [OF sample_extlist_ok sample_extlist_ok]
    by (simp add: sample_extlist_ranges extlist_zero_ranges)
qed



end
