(* ===== verification/Wt_Block_Addr.thy ===== *)
theory Wt_Block_Addr
  imports Wt_Intpack Wt_Extlist
begin

text \<open>
  Address cookies and checkpoint cookies (\<open>src/src/block/block_addr.c\<close>): the packed form of a
  block's offset, size and checksum that the btree layer stores, and of the checkpoint
  structure that is stored in the metadata. Offsets are stored as a count of allocation units
  behind the description sector. The functions take the fields of \<open>WT_BLOCK\<close> that they read,
  the allocation size and the file size. Writing is unbounded (\<open>maxlen\<close> 0), as in the source;
  a pointer into a buffer is the list of the bytes from there on.
\<close>

section \<open>Structures\<close>

record wt_block_ckpt =
  ck_version :: u8
  root_offset :: int
  root_cksum :: u32
  root_size :: u32
  ck_alloc :: wt_extlist
  ck_avail :: wt_extlist
  ck_discard :: wt_extlist
  ck_file_size :: int
  ck_ckpt_size :: u64
  ck_ckpt_avail :: wt_extlist
  ck_write_gen :: u64

definition WT_BM_CHECKPOINT_VERSION :: u8 where
  "WT_BM_CHECKPOINT_VERSION = 1"

section \<open>Cookies\<close>

definition block_buffer_to_addr :: "u32 \<Rightarrow> bytes \<Rightarrow> ((int \<times> u32 \<times> u32) \<times> bytes) result" where
  "block_buffer_to_addr allocsize p =
     wt_ret (wt_vunpack_uint 0 p) (\<lambda>(ou, p).
     wt_ret (wt_vunpack_uint 0 p) (\<lambda>(s, p).
     wt_ret (wt_vunpack_uint 0 p) (\<lambda>(c, p).
       if s = 0 then Inr ((0, 0, 0), p)
       else Inr ((sint ou * uint allocsize + WT_BLOCK_DESC_SECTOR, ucast s * allocsize, ucast c), p))))"

definition wt_block_addr_to_buffer :: "u32 \<Rightarrow> int \<Rightarrow> u32 \<Rightarrow> u32 \<Rightarrow> bytes result" where
  "wt_block_addr_to_buffer allocsize offset len cksum =
     (let ou = (if len = 0 then of_int WT_BLOCK_INVALID_OFFSET
                else of_int (offset - WT_BLOCK_DESC_SECTOR) div ucast allocsize);
          s = (if len = 0 then 0 else ucast (len div allocsize));
          c = (if len = 0 then 0 else ucast cksum)
      in wt_ret (wt_vpack_uint 0 ou) (\<lambda>bo.
         wt_ret (wt_vpack_uint 0 s) (\<lambda>bs.
         wt_ret (wt_vpack_uint 0 c) (\<lambda>bc.
           Inr (bo @ bs @ bc)))))"

definition wt_block_buffer_to_addr :: "u32 \<Rightarrow> bytes \<Rightarrow> (int \<times> u32 \<times> u32) result" where
  "wt_block_buffer_to_addr allocsize p =
     wt_ret (block_buffer_to_addr allocsize p) (\<lambda>(a, _). Inr a)"

text \<open>The return value is an error code or the answer: 1 for a valid address, 0 otherwise.\<close>

definition wt_block_addr_valid :: "u32 \<Rightarrow> int \<Rightarrow> bytes \<Rightarrow> bool result" where
  "wt_block_addr_valid allocsize file_size addr =
     wt_ret (wt_block_buffer_to_addr allocsize addr) (\<lambda>(offset, len, _).
       Inr (\<not> file_size < offset + uint len))"

definition wt_block_buffer_to_ckpt ::
  "u32 \<Rightarrow> bytes \<Rightarrow> wt_block_ckpt \<Rightarrow> wt_block_ckpt result" where
  "wt_block_buffer_to_ckpt allocsize p ci =
     (case p of
        [] \<Rightarrow> Inl OUT_OF_BOUNDS
      | v # p \<Rightarrow>
          (let ci = ci\<lparr>ck_version := v\<rparr> in
           if v \<noteq> WT_BM_CHECKPOINT_VERSION then Inl WT_ERROR
           else
             wt_ret (block_buffer_to_addr allocsize p) (\<lambda>((offset, len, cksum), p).
               let ci = ci\<lparr>root_offset := offset, root_size := len, root_cksum := cksum\<rparr> in
             wt_ret (block_buffer_to_addr allocsize p) (\<lambda>((offset, len, cksum), p).
               let ci = ci\<lparr>ck_alloc :=
                 (ck_alloc ci)\<lparr>el_offset := offset, el_size := len, el_cksum := cksum\<rparr>\<rparr> in
             wt_ret (block_buffer_to_addr allocsize p) (\<lambda>((offset, len, cksum), p).
               let ci = ci\<lparr>ck_avail :=
                 (ck_avail ci)\<lparr>el_offset := offset, el_size := len, el_cksum := cksum\<rparr>\<rparr> in
             wt_ret (block_buffer_to_addr allocsize p) (\<lambda>((offset, len, cksum), p).
               let ci = ci\<lparr>ck_discard :=
                 (ck_discard ci)\<lparr>el_offset := offset, el_size := len, el_cksum := cksum\<rparr>\<rparr> in
             wt_ret (wt_vunpack_uint 0 p) (\<lambda>(a, p).
               let ci = ci\<lparr>ck_file_size := sint a\<rparr> in
             wt_ret (wt_vunpack_uint 0 p) (\<lambda>(a, p).
               let ci = ci\<lparr>ck_ckpt_size := a\<rparr> in
             wt_ret (wt_vunpack_uint 0 p) (\<lambda>(a, p).
               Inr (ci\<lparr>ck_write_gen := a\<rparr>))))))))))"

definition wt_block_ckpt_to_buffer :: "u32 \<Rightarrow> wt_block_ckpt \<Rightarrow> bytes result" where
  "wt_block_ckpt_to_buffer allocsize ci =
     (if ck_version ci \<noteq> WT_BM_CHECKPOINT_VERSION then Inl WT_ERROR
      else
        wt_ret (wt_block_addr_to_buffer allocsize (root_offset ci) (root_size ci) (root_cksum ci)) (\<lambda>b1.
        wt_ret (wt_block_addr_to_buffer allocsize
          (el_offset (ck_alloc ci)) (el_size (ck_alloc ci)) (el_cksum (ck_alloc ci))) (\<lambda>b2.
        wt_ret (wt_block_addr_to_buffer allocsize
          (el_offset (ck_avail ci)) (el_size (ck_avail ci)) (el_cksum (ck_avail ci))) (\<lambda>b3.
        wt_ret (wt_block_addr_to_buffer allocsize
          (el_offset (ck_discard ci)) (el_size (ck_discard ci)) (el_cksum (ck_discard ci))) (\<lambda>b4.
        wt_ret (wt_vpack_uint 0 (of_int (ck_file_size ci))) (\<lambda>b5.
        wt_ret (wt_vpack_uint 0 (ck_ckpt_size ci)) (\<lambda>b6.
        wt_ret (wt_vpack_uint 0 (ck_write_gen ci)) (\<lambda>b7.
          Inr (ck_version ci # b1 @ b2 @ b3 @ b4 @ b5 @ b6 @ b7)))))))))"

section \<open>Round trips\<close>

lemma vpack_uint_0:
  obtains bs where "wt_vpack_uint 0 x = Inr bs" "\<And>rest. wt_vunpack_uint 0 (bs @ rest) = Inr (x, rest)"
  using wt_vpack_uint_total [of x] wt_vunpack_vpack_uint by blast

text \<open>
  The addresses the block manager hands out: none (all three parts 0), or a range behind the
  description sector that is aligned to the allocation size and not empty.
\<close>

definition addr_ok :: "u32 \<Rightarrow> int \<Rightarrow> u32 \<Rightarrow> u32 \<Rightarrow> bool" where
  "addr_ok allocsize offset len cksum \<longleftrightarrow>
     (if len = 0 then offset = 0 \<and> cksum = 0
      else WT_BLOCK_DESC_SECTOR \<le> offset \<and> offset < 2 ^ 63 \<and>
        (offset - WT_BLOCK_DESC_SECTOR) mod uint allocsize = 0 \<and> uint len mod uint allocsize = 0)"

lemma ucast_u32_u64_inverse: "(ucast (ucast (x :: u32) :: u64) :: u32) = x"
  by (rule bit_word_eqI) (simp add: bit_simps)

lemma uint_of_int_div:
  assumes "0 \<le> n" "n < 2 ^ 63"
  shows "sint (of_int n div ucast (a :: u32) :: u64) = n div uint a"
proof -
  have u: "uint (of_int n :: u64) = n" using assms by (simp add: unsigned_of_int take_bit_int_eq_self)
  have "uint (ucast a :: u64) = uint a"
    by (simp add: unsigned_ucast_eq take_bit_int_eq_self unsigned_less [of a, simplified] less_trans [OF unsigned_less])
  then have d: "uint (of_int n div ucast a :: u64) = n div uint a" by (simp add: uint_div u)
  moreover have "n div uint a \<le> n"
    using zdiv_mono2 [OF assms(1), of 1 "uint a"] assms(1) uint_ge_0 [of a]
    by (cases "uint a = 0") (auto simp del: uint_ge_0)
  moreover have "0 \<le> n div uint a" using assms(1) by (simp add: div_int_pos_iff)
  ultimately show ?thesis using assms(2) by (simp add: sint_uint signed_take_bit_int_eq_self)
qed

lemma addr_to_buffer_roundtrip:
  assumes "allocsize \<noteq> 0" "addr_ok allocsize offset len cksum"
  obtains bs where "wt_block_addr_to_buffer allocsize offset len cksum = Inr bs"
    "\<And>rest. block_buffer_to_addr allocsize (bs @ rest) = Inr ((offset, len, cksum), rest)"
proof -
  define ou :: u64 where
    "ou = (if len = 0 then 0 else of_int (offset - WT_BLOCK_DESC_SECTOR) div ucast allocsize)"
  define s :: u64 where "s = (if len = 0 then 0 else ucast (len div allocsize))"
  define c :: u64 where "c = (if len = 0 then 0 else ucast cksum)"
  obtain b1 where b1: "wt_vpack_uint 0 ou = Inr b1" "\<And>r. wt_vunpack_uint 0 (b1 @ r) = Inr (ou, r)"
    using vpack_uint_0 by blast
  obtain b2 where b2: "wt_vpack_uint 0 s = Inr b2" "\<And>r. wt_vunpack_uint 0 (b2 @ r) = Inr (s, r)"
    using vpack_uint_0 by blast
  obtain b3 where b3: "wt_vpack_uint 0 c = Inr b3" "\<And>r. wt_vunpack_uint 0 (b3 @ r) = Inr (c, r)"
    using vpack_uint_0 by blast
  have "wt_block_addr_to_buffer allocsize offset len cksum = Inr (b1 @ b2 @ b3)"
    using b1(1) b2(1) b3(1)
    by (cases "len = 0") (simp_all add: wt_block_addr_to_buffer_def ou_def s_def c_def WT_BLOCK_INVALID_OFFSET_def)
  moreover have "block_buffer_to_addr allocsize ((b1 @ b2 @ b3) @ rest) = Inr ((offset, len, cksum), rest)"
    for rest
  proof (cases "len = 0")
    case True
    then show ?thesis
      using assms(2) b1(2) b2(2) b3(2) by (simp add: block_buffer_to_addr_def s_def addr_ok_def)
  next
    case False
    let ?d = "offset - WT_BLOCK_DESC_SECTOR"
    have ok: "WT_BLOCK_DESC_SECTOR \<le> offset" "offset < 2 ^ 63" "?d mod uint allocsize = 0"
      "uint len mod uint allocsize = 0" using assms(2) False by (simp_all add: addr_ok_def)
    have "uint len div uint allocsize * uint allocsize = uint len"
      using ok(4) div_mult_mod_eq [of "uint len" "uint allocsize"] by simp
    then have len: "len div allocsize * allocsize = len"
      using unsigned_less [of len, where ?'a = int]
      by (simp add: word_uint_eq_iff uint_div uint_word_ariths)
    have s: "ucast s = len div allocsize" using False by (simp add: s_def ucast_u32_u64_inverse)
    then have "s \<noteq> 0" using False len by auto
    moreover have "sint ou * uint allocsize = ?d"
      using uint_of_int_div [of ?d allocsize] ok False
      by (auto simp: ou_def WT_BLOCK_DESC_SECTOR_def)
    ultimately show ?thesis
      using False b1(2) b2(2) b3(2) len s
      by (simp add: block_buffer_to_addr_def c_def ucast_u32_u64_inverse)
  qed
  ultimately show thesis using that by blast
qed

lemma file_size_roundtrip: "0 \<le> n \<Longrightarrow> n < 2 ^ 63 \<Longrightarrow> sint (of_int n :: u64) = n"
  by (simp add: signed_of_int signed_take_bit_int_eq_self)

text \<open>The part of the checkpoint structure that the cookie carries.\<close>

definition ckpt_cookie_part ::
  "wt_block_ckpt \<Rightarrow> u8 \<times> (int \<times> u32 \<times> u32) list \<times> int \<times> u64 \<times> u64" where
  "ckpt_cookie_part ci =
     (ck_version ci,
      (root_offset ci, root_size ci, root_cksum ci) #
        map (\<lambda>el. (el_offset el, el_size el, el_cksum el)) [ck_alloc ci, ck_avail ci, ck_discard ci],
      ck_file_size ci, ck_ckpt_size ci, ck_write_gen ci)"

definition ckpt_addrs_ok :: "u32 \<Rightarrow> wt_block_ckpt \<Rightarrow> bool" where
  "ckpt_addrs_ok allocsize ci \<longleftrightarrow>
     addr_ok allocsize (root_offset ci) (root_size ci) (root_cksum ci) \<and>
     list_all (\<lambda>el. addr_ok allocsize (el_offset el) (el_size el) (el_cksum el))
       [ck_alloc ci, ck_avail ci, ck_discard ci] \<and>
     0 \<le> ck_file_size ci \<and> ck_file_size ci < 2 ^ 63"

section \<open>Properties of the cookies\<close>

text \<open>
  C36: an address cookie unpacks to the offset, size and checksum it was made from, for every
  address the block manager hands out, and leaves the pointer right behind the cookie.
\<close>

theorem block_addr_roundtrip:
  assumes "allocsize \<noteq> 0" "addr_ok allocsize offset len cksum"
  shows "\<exists>bs. wt_block_addr_to_buffer allocsize offset len cksum = Inr bs \<and>
    block_buffer_to_addr allocsize (bs @ rest) = Inr ((offset, len, cksum), rest)"
  using addr_to_buffer_roundtrip [OF assms] by metis

theorem block_addr_roundtrip_witness:
  "\<exists>bs. wt_block_addr_to_buffer 512 1024 4096 99 = Inr bs \<and>
     block_buffer_to_addr 512 (bs @ [7]) = Inr ((1024, 4096, 99), [7])"
  using block_addr_roundtrip [of 512 1024 4096 99 "[7]"]
  by (simp add: addr_ok_def WT_BLOCK_DESC_SECTOR_def)

lemma ckpt_buffer_roundtrip:
  assumes "allocsize \<noteq> 0" "ckpt_addrs_ok allocsize ci" "ck_version ci = WT_BM_CHECKPOINT_VERSION"
  shows "\<exists>bs ci'. wt_block_ckpt_to_buffer allocsize ci = Inr bs \<and>
      wt_block_buffer_to_ckpt allocsize (bs @ rest) ci0 = Inr ci' \<and>
      ckpt_cookie_part ci' = ckpt_cookie_part ci \<and>
      el_off (ck_alloc ci') = el_off (ck_alloc ci0) \<and> el_off (ck_avail ci') = el_off (ck_avail ci0) \<and>
      el_off (ck_discard ci') = el_off (ck_discard ci0) \<and> ck_ckpt_avail ci' = ck_ckpt_avail ci0 \<and>
      ck_alloc ci' = (ck_alloc ci0)\<lparr>el_offset := el_offset (ck_alloc ci), el_size := el_size (ck_alloc ci), el_cksum := el_cksum (ck_alloc ci)\<rparr> \<and>
      ck_avail ci' = (ck_avail ci0)\<lparr>el_offset := el_offset (ck_avail ci), el_size := el_size (ck_avail ci), el_cksum := el_cksum (ck_avail ci)\<rparr> \<and>
      ck_discard ci' = (ck_discard ci0)\<lparr>el_offset := el_offset (ck_discard ci), el_size := el_size (ck_discard ci), el_cksum := el_cksum (ck_discard ci)\<rparr>"
proof -
  have ok: "addr_ok allocsize (root_offset ci) (root_size ci) (root_cksum ci)"
    "addr_ok allocsize (el_offset (ck_alloc ci)) (el_size (ck_alloc ci)) (el_cksum (ck_alloc ci))"
    "addr_ok allocsize (el_offset (ck_avail ci)) (el_size (ck_avail ci)) (el_cksum (ck_avail ci))"
    "addr_ok allocsize (el_offset (ck_discard ci)) (el_size (ck_discard ci)) (el_cksum (ck_discard ci))"
    "0 \<le> ck_file_size ci" "ck_file_size ci < 2 ^ 63"
    using assms(2) by (simp_all add: ckpt_addrs_ok_def)
  obtain b1 where b1: "wt_block_addr_to_buffer allocsize (root_offset ci) (root_size ci) (root_cksum ci) = Inr b1"
    "\<And>r. block_buffer_to_addr allocsize (b1 @ r) = Inr ((root_offset ci, root_size ci, root_cksum ci), r)"
    using addr_to_buffer_roundtrip [OF assms(1) ok(1)] by blast
  obtain b2 where b2: "wt_block_addr_to_buffer allocsize (el_offset (ck_alloc ci)) (el_size (ck_alloc ci))
      (el_cksum (ck_alloc ci)) = Inr b2" "\<And>r. block_buffer_to_addr allocsize (b2 @ r) =
      Inr ((el_offset (ck_alloc ci), el_size (ck_alloc ci), el_cksum (ck_alloc ci)), r)"
    using addr_to_buffer_roundtrip [OF assms(1) ok(2)] by blast
  obtain b3 where b3: "wt_block_addr_to_buffer allocsize (el_offset (ck_avail ci)) (el_size (ck_avail ci))
      (el_cksum (ck_avail ci)) = Inr b3" "\<And>r. block_buffer_to_addr allocsize (b3 @ r) =
      Inr ((el_offset (ck_avail ci), el_size (ck_avail ci), el_cksum (ck_avail ci)), r)"
    using addr_to_buffer_roundtrip [OF assms(1) ok(3)] by blast
  obtain b4 where b4: "wt_block_addr_to_buffer allocsize (el_offset (ck_discard ci)) (el_size (ck_discard ci))
      (el_cksum (ck_discard ci)) = Inr b4" "\<And>r. block_buffer_to_addr allocsize (b4 @ r) =
      Inr ((el_offset (ck_discard ci), el_size (ck_discard ci), el_cksum (ck_discard ci)), r)"
    using addr_to_buffer_roundtrip [OF assms(1) ok(4)] by blast
  obtain b5 where b5: "wt_vpack_uint 0 (of_int (ck_file_size ci)) = Inr b5"
    "\<And>r. wt_vunpack_uint 0 (b5 @ r) = Inr (of_int (ck_file_size ci), r)"
    using vpack_uint_0 by blast
  obtain b6 where b6: "wt_vpack_uint 0 (ck_ckpt_size ci) = Inr b6"
    "\<And>r. wt_vunpack_uint 0 (b6 @ r) = Inr (ck_ckpt_size ci, r)" using vpack_uint_0 by blast
  obtain b7 where b7: "wt_vpack_uint 0 (ck_write_gen ci) = Inr b7"
    "\<And>r. wt_vunpack_uint 0 (b7 @ r) = Inr (ck_write_gen ci, r)" using vpack_uint_0 by blast
  show ?thesis
    using assms(3) b1 b2 b3 b4 b5 b6 b7 file_size_roundtrip [OF ok(5,6)]
    by (simp add: wt_block_ckpt_to_buffer_def wt_block_buffer_to_ckpt_def ckpt_cookie_part_def)
qed

text \<open>
  C37: a checkpoint cookie unpacks to the version, the four addresses, the file size, the
  checkpoint size and the write generation it was made from; the extent lists of the
  structure it is unpacked into keep their contents. Any other version is refused both ways.
\<close>

theorem block_ckpt_roundtrip:
  assumes "allocsize \<noteq> 0" "ckpt_addrs_ok allocsize ci"
  shows "if ck_version ci = WT_BM_CHECKPOINT_VERSION
    then \<exists>bs ci'. wt_block_ckpt_to_buffer allocsize ci = Inr bs \<and>
      wt_block_buffer_to_ckpt allocsize (bs @ rest) ci0 = Inr ci' \<and>
      ckpt_cookie_part ci' = ckpt_cookie_part ci \<and>
      el_off (ck_alloc ci') = el_off (ck_alloc ci0) \<and> el_off (ck_avail ci') = el_off (ck_avail ci0) \<and>
      el_off (ck_discard ci') = el_off (ck_discard ci0) \<and> ck_ckpt_avail ci' = ck_ckpt_avail ci0
    else wt_block_ckpt_to_buffer allocsize ci = Inl WT_ERROR \<and>
      wt_block_buffer_to_ckpt allocsize (ck_version ci # rest) ci0 = Inl WT_ERROR"
proof (cases "ck_version ci = WT_BM_CHECKPOINT_VERSION")
  case True
  then show ?thesis using ckpt_buffer_roundtrip [OF assms, of rest ci0] by (auto simp del: split_paired_Ex)
next
  case False
  then show ?thesis
    by (simp add: wt_block_ckpt_to_buffer_def wt_block_buffer_to_ckpt_def)
qed

definition ckpt_zero :: wt_block_ckpt where
  "ckpt_zero = \<lparr>ck_version = 0, root_offset = 0, root_cksum = 0, root_size = 0,
     ck_alloc = extlist_zero, ck_avail = extlist_zero, ck_discard = extlist_zero,
     ck_file_size = 0, ck_ckpt_size = 0, ck_ckpt_avail = extlist_zero, ck_write_gen = 0\<rparr>"

theorem block_ckpt_roundtrip_witness:
  "\<exists>bs ci'. wt_block_ckpt_to_buffer 512
       (ckpt_zero\<lparr>ck_version := 1, root_offset := 1024, root_size := 512, root_cksum := 5,
          ck_file_size := 4096, ck_write_gen := 77\<rparr>) = Inr bs \<and>
     wt_block_buffer_to_ckpt 512 (bs @ []) ckpt_zero = Inr ci' \<and>
     root_offset ci' = 1024 \<and> root_size ci' = 512 \<and> root_cksum ci' = 5 \<and>
     ck_file_size ci' = 4096 \<and> ck_write_gen ci' = 77"
  using block_ckpt_roundtrip [of 512 "ckpt_zero\<lparr>ck_version := 1, root_offset := 1024,
    root_size := 512, root_cksum := 5, ck_file_size := 4096, ck_write_gen := 77\<rparr>" "[]" ckpt_zero]
  by (auto simp: ckpt_addrs_ok_def ckpt_zero_def addr_ok_def WT_BLOCK_DESC_SECTOR_def extlist_zero_def
      WT_BM_CHECKPOINT_VERSION_def ckpt_cookie_part_def)

end
