(* ===== verification/Wt_Block.thy ===== *)
theory Wt_Block
  imports Wt_Block_Addr
begin

text \<open>
  The block allocator (\<open>src/src/block/block_ext.c\<close>, the operations on \<open>WT_BLOCK\<close>): allocation
  from the available list or by extending the file, freeing, the diagnostic check for
  misplaced blocks, and the reconciliation of a checkpoint's alloc and discard lists. Each
  operation runs under the block's \<open>live_lock\<close>, so it is one step. The state of the random
  number generator, static in the source, is a field of the block.
\<close>

section \<open>Structures\<close>

record wt_block =
  blk_file_size :: int
  blk_allocsize :: u32
  blk_checksum :: bool
  blk_live :: wt_block_ckpt
  blk_live_load :: bool
  blk_rng :: rng

definition INT64_MAX :: int where
  "INT64_MAX = 2 ^ 63 - 1"

section \<open>Allocation\<close>

definition wt_block_extend :: "wt_block \<Rightarrow> int \<Rightarrow> (int \<times> wt_block) result" where
  "wt_block_extend block len =
     (if blk_file_size block < WT_BLOCK_DESC_SECTOR then Inl EINVAL
      else if INT64_MAX - len < blk_file_size block then Inl WT_ERROR
      else Inr (blk_file_size block, block\<lparr>blk_file_size := blk_file_size block + len\<rparr>))"

text \<open>The first part of \<open>__wt_block_alloc\<close>: the offset, taken from the available list if possible.\<close>

definition block_alloc_offset :: "wt_block \<Rightarrow> int \<Rightarrow> (int \<times> wt_block) result" where
  "block_alloc_offset block len =
     (let live = blk_live block in
      case block_size_srch len (el_sz (ck_avail live)) ! 0 of
        [] \<Rightarrow> wt_block_extend block len
      | szp # _ \<Rightarrow>
          (case sz_off szp of
             [] \<Rightarrow> Inl OUT_OF_BOUNDS
           | first # _ \<Rightarrow>
               wt_ret (block_off_remove (ck_avail live) (ext_off first)) (\<lambda>(ext, avail).
                 let avail' = (if len < ext_size ext
                               then block_ext_insert avail
                                 (ext\<lparr>ext_off := ext_off ext + len, ext_size := ext_size ext - len\<rparr>)
                               else avail)
                 in Inr (ext_off ext, block\<lparr>blk_live := live\<lparr>ck_avail := avail'\<rparr>\<rparr>))))"

definition wt_block_alloc :: "wt_block \<Rightarrow> int \<Rightarrow> (int \<times> wt_block) result" where
  "wt_block_alloc block len =
     (if len mod uint (blk_allocsize block) \<noteq> 0 then Inl EINVAL
      else
        wt_ret (block_alloc_offset block len) (\<lambda>(off, block).
        wt_ret (block_merge (blk_rng block) (ck_alloc (blk_live block)) off len) (\<lambda>(alloc, g).
          Inr (off, block\<lparr>blk_live := (blk_live block)\<lparr>ck_alloc := alloc\<rparr>, blk_rng := g\<rparr>))))"

section \<open>Freeing\<close>

definition wt_block_off_free :: "wt_block \<Rightarrow> int \<Rightarrow> int \<Rightarrow> wt_block result" where
  "wt_block_off_free block offset len =
     (let live = blk_live block in
      case wt_block_off_remove_overlap (blk_rng block) (ck_alloc live) offset len of
        Inr (alloc, g) \<Rightarrow>
          wt_ret (block_merge g (ck_avail live) offset len) (\<lambda>(avail, g).
            Inr (block\<lparr>blk_live := live\<lparr>ck_alloc := alloc, ck_avail := avail\<rparr>, blk_rng := g\<rparr>))
      | Inl e \<Rightarrow>
          if e = WT_NOTFOUND then
            wt_ret (block_merge (blk_rng block) (ck_discard live) offset len) (\<lambda>(discard, g).
              Inr (block\<lparr>blk_live := live\<lparr>ck_discard := discard\<rparr>, blk_rng := g\<rparr>))
          else Inl e)"

definition wt_block_misplaced :: "wt_block \<Rightarrow> int \<Rightarrow> u32 \<Rightarrow> unit result" where
  "wt_block_misplaced block offset len =
     (if block_off_match (ck_avail (blk_live block)) offset (uint len) then Inl WT_ERROR
      else if block_off_match (ck_discard (blk_live block)) offset (uint len) then Inl WT_ERROR
      else Inr ())"

text \<open>\<open>diagnostic\<close> says whether the program is built with \<open>HAVE_DIAGNOSTIC\<close>.\<close>

definition wt_block_free :: "bool \<Rightarrow> wt_block \<Rightarrow> bytes \<Rightarrow> wt_block result" where
  "wt_block_free diagnostic block addr =
     wt_ret (wt_block_buffer_to_addr (blk_allocsize block) addr) (\<lambda>(offset, len, cksum).
     wt_ret (if diagnostic then wt_block_misplaced block offset len else Inr ()) (\<lambda>_.
       wt_block_off_free block offset (uint len)))"

section \<open>Reconciling overlaps\<close>

text \<open>
  A pointer to an extent of a list is represented by the extent it points to, and \<open>ext_next\<close>
  follows its level-0 link.
\<close>

definition ext_next :: "wt_extlist \<Rightarrow> wt_ext \<Rightarrow> wt_ext option" where
  "ext_next el e = (case dropWhile (\<lambda>x. ext_off x \<le> ext_off e) (el_off el) of
     [] \<Rightarrow> None | x # _ \<Rightarrow> Some x)"

type_synonym overlap_state =
  "wt_extlist \<times> wt_ext option \<times> wt_extlist \<times> wt_ext option \<times> wt_extlist \<times> rng"

text \<open>
  \<open>__block_ext_overlap\<close> after the swap: \<open>a\<close> starts first. The result holds both lists, the
  caller's two pointers, the list that collects the overlaps, and the generator.
\<close>

definition ext_overlap_ordered ::
  "rng \<Rightarrow> wt_extlist \<Rightarrow> wt_ext \<Rightarrow> wt_extlist \<Rightarrow> wt_ext \<Rightarrow> wt_extlist \<Rightarrow> overlap_state result" where
  "ext_overlap_ordered g ael a bel b avail =
     (if ext_off a = ext_off b then
        (if ext_size a = ext_size b then
           (let ap = ext_next ael a; bp = ext_next bel b in
            wt_ret (block_merge g avail (ext_off b) (ext_size b)) (\<lambda>(avail, g).
            wt_ret (block_off_remove ael (ext_off a)) (\<lambda>(_, ael).
            wt_ret (block_off_remove bel (ext_off b)) (\<lambda>(_, bel).
              Inr (ael, ap, bel, bp, avail, g)))))
         else if ext_size b < ext_size a then
           wt_ret (block_off_remove ael (ext_off a)) (\<lambda>(a, ael).
             let a = a\<lparr>ext_off := ext_off a + ext_size b, ext_size := ext_size a - ext_size b\<rparr>;
                 ael = block_ext_insert ael a;
                 bp = ext_next bel b in
             wt_ret (block_merge g avail (ext_off b) (ext_size b)) (\<lambda>(avail, g).
             wt_ret (block_off_remove bel (ext_off b)) (\<lambda>(_, bel).
               Inr (ael, Some a, bel, bp, avail, g))))
         else
           wt_ret (block_off_remove bel (ext_off b)) (\<lambda>(b, bel).
             let b = b\<lparr>ext_off := ext_off b + ext_size a, ext_size := ext_size b - ext_size a\<rparr>;
                 bel = block_ext_insert bel b;
                 ap = ext_next ael a in
             wt_ret (block_merge g avail (ext_off a) (ext_size a)) (\<lambda>(avail, g).
             wt_ret (block_off_remove ael (ext_off a)) (\<lambda>(_, ael).
               Inr (ael, ap, bel, Some b, avail, g)))))
      else if ext_off a + ext_size a = ext_off b + ext_size b then
        wt_ret (block_off_remove ael (ext_off a)) (\<lambda>(a, ael).
          let a = a\<lparr>ext_size := ext_size a - ext_size b\<rparr>;
              ael = block_ext_insert ael a;
              bp = ext_next bel b in
          wt_ret (block_merge g avail (ext_off b) (ext_size b)) (\<lambda>(avail, g).
          wt_ret (block_off_remove bel (ext_off b)) (\<lambda>(_, bel).
            Inr (ael, Some a, bel, bp, avail, g))))
      else if ext_off a + ext_size a < ext_off b + ext_size b then
        (let off = ext_off b; len = ext_off a + ext_size a - ext_off b in
         wt_ret (block_merge g avail off len) (\<lambda>(avail, g).
         wt_ret (block_off_remove ael (ext_off a)) (\<lambda>(a, ael).
           let a = a\<lparr>ext_size := ext_size a - len\<rparr>;
               ael = block_ext_insert ael a in
           wt_ret (block_off_remove bel (ext_off b)) (\<lambda>(b, bel).
             let b = b\<lparr>ext_off := ext_off b + len, ext_size := ext_size b - len\<rparr>
             in Inr (ael, Some a, block_ext_insert bel b, Some b, avail, g)))))
      else
        (let off = ext_off b + ext_size b; len = ext_off a + ext_size a - off in
         wt_ret (block_off_remove ael (ext_off a)) (\<lambda>(a, ael).
           let a = a\<lparr>ext_size := ext_off b - ext_off a\<rparr>;
               ael = block_ext_insert ael a in
           wt_ret (block_merge g ael off len) (\<lambda>(ael, g).
           let bp = ext_next bel b in
           wt_ret (block_merge g avail (ext_off b) (ext_size b)) (\<lambda>(avail, g).
           wt_ret (block_off_remove bel (ext_off b)) (\<lambda>(_, bel).
             Inr (ael, Some a, bel, bp, avail, g)))))))"

definition block_ext_overlap ::
  "rng \<Rightarrow> wt_extlist \<Rightarrow> wt_ext \<Rightarrow> wt_extlist \<Rightarrow> wt_ext \<Rightarrow> wt_extlist \<Rightarrow> overlap_state result" where
  "block_ext_overlap g ael a bel b avail =
     (if ext_off b < ext_off a then
        wt_ret (ext_overlap_ordered g bel b ael a avail) (\<lambda>(bel, bp, ael, ap, avail, g).
          Inr (ael, ap, bel, bp, avail, g))
      else ext_overlap_ordered g ael a bel b avail)"

text \<open>The loop of \<open>__wt_block_extlist_overlap\<close>; \<open>None\<close> is running out of fuel.\<close>

fun extlist_overlap_loop :: "nat \<Rightarrow> overlap_state \<Rightarrow> (wt_extlist \<times> wt_extlist \<times> wt_extlist \<times> rng) result option" where
  "extlist_overlap_loop fuel (ael, Some a, bel, Some b, avail, g) =
     (case fuel of
        0 \<Rightarrow> None
      | Suc n \<Rightarrow>
          if ext_off a + ext_size a \<le> ext_off b
          then extlist_overlap_loop n (ael, ext_next ael a, bel, Some b, avail, g)
          else if ext_off b + ext_size b \<le> ext_off a
          then extlist_overlap_loop n (ael, Some a, bel, ext_next bel b, avail, g)
          else
            (case block_ext_overlap g ael a bel b avail of
               Inl e \<Rightarrow> Some (Inl e)
             | Inr s \<Rightarrow> extlist_overlap_loop n s))"
| "extlist_overlap_loop fuel (ael, None, bel, bp, avail, g) = Some (Inr (ael, bel, avail, g))"
| "extlist_overlap_loop fuel (ael, ap, bel, None, avail, g) = Some (Inr (ael, bel, avail, g))"

definition extlist_first :: "wt_extlist \<Rightarrow> wt_ext option" where
  "extlist_first el = (case el_off el of [] \<Rightarrow> None | e # _ \<Rightarrow> Some e)"

text \<open>
  The walk needs at most two rounds for each extent of the two lists: fuel for that is shown
  to be enough. The overlaps of \<open>ci\<close> go to the checkpoint-available list of the live system.
\<close>

definition overlap_fuel :: "wt_extlist \<Rightarrow> wt_extlist \<Rightarrow> nat" where
  "overlap_fuel ael bel = 2 * (length (el_off ael) + length (el_off bel)) + 2"

definition wt_block_extlist_overlap ::
  "rng \<Rightarrow> wt_extlist \<Rightarrow> wt_extlist \<Rightarrow> wt_extlist \<Rightarrow>
     (wt_extlist \<times> wt_extlist \<times> wt_extlist \<times> rng) result option" where
  "wt_block_extlist_overlap g alloc discard ckpt_avail =
     extlist_overlap_loop (overlap_fuel alloc discard)
       (alloc, extlist_first alloc, discard, extlist_first discard, ckpt_avail, g)"

section \<open>The invariant of the allocator\<close>

abbreviation avail_of :: "wt_block \<Rightarrow> int set" where
  "avail_of block \<equiv> el_ranges (ck_avail (blk_live block))"

abbreviation alloc_of :: "wt_block \<Rightarrow> int set" where
  "alloc_of block \<equiv> el_ranges (ck_alloc (blk_live block))"

abbreviation discard_of :: "wt_block \<Rightarrow> int set" where
  "discard_of block \<equiv> el_ranges (ck_discard (blk_live block))"

abbreviation ckpt_avail_of :: "wt_block \<Rightarrow> int set" where
  "ckpt_avail_of block \<equiv> el_ranges (ck_ckpt_avail (blk_live block))"

abbreviation file_of :: "wt_block \<Rightarrow> int set" where
  "file_of block \<equiv> {WT_BLOCK_DESC_SECTOR ..< blk_file_size block}"

definition lists_ok :: "wt_block \<Rightarrow> bool" where
  "lists_ok block \<longleftrightarrow>
     extlist_ok (ck_avail (blk_live block)) \<and> extlist_ok (ck_alloc (blk_live block)) \<and>
     extlist_ok (ck_discard (blk_live block)) \<and> extlist_ok (ck_ckpt_avail (blk_live block))"

definition block_ok :: "wt_block \<Rightarrow> bool" where
  "block_ok block \<longleftrightarrow>
     lists_ok block \<and>
     avail_of block \<inter> alloc_of block = {} \<and> avail_of block \<inter> discard_of block = {} \<and>
     avail_of block \<inter> ckpt_avail_of block = {} \<and> alloc_of block \<inter> discard_of block = {} \<and>
     alloc_of block \<inter> ckpt_avail_of block = {} \<and> discard_of block \<inter> ckpt_avail_of block = {} \<and>
     avail_of block \<union> alloc_of block \<union> discard_of block \<union> ckpt_avail_of block \<subseteq> file_of block \<and>
     WT_BLOCK_DESC_SECTOR \<le> blk_file_size block \<and> blk_file_size block \<le> INT64_MAX"

text \<open>Best fit: the smallest size that is large enough, and within that size the lowest offset.\<close>

definition best_fit :: "wt_ext set \<Rightarrow> int \<Rightarrow> wt_ext \<Rightarrow> bool" where
  "best_fit S len e \<longleftrightarrow> e \<in> S \<and> len \<le> ext_size e \<and>
     (\<forall>x\<in>S. len \<le> ext_size x \<longrightarrow>
        ext_size e < ext_size x \<or> ext_size e = ext_size x \<and> ext_off e \<le> ext_off x)"

lemma size_srch_first:
  assumes "extlist_ok el"
  shows "case block_size_srch len (el_sz el) ! 0 of
      [] \<Rightarrow> \<forall>x\<in>set (el_off el). ext_size x < len
    | szp # _ \<Rightarrow> (\<exists>first r. sz_off szp = first # r \<and> best_fit (set (el_off el)) len first)"
proof -
  note idx = idx_okD [OF extlist_okD(1) [OF assms]]
  note sz = sz_okD [OF idx(2)]
  have c: "block_size_srch len (el_sz el) ! 0 = dropWhile (\<lambda>s. sz_size s < len) (el_sz el)"
    by (rule size_index.srch_first [OF idx(4)])
  show ?thesis
  proof (cases "dropWhile (\<lambda>s. sz_size s < len) (el_sz el)")
    case Nil
    then have "\<forall>s\<in>set (el_sz el). sz_size s < len" by (simp add: dropWhile_eq_Nil_conv)
    then have "\<forall>x\<in>set (el_off el). ext_size x < len" using sz(2) by fastforce
    then show ?thesis unfolding c Nil by simp
  next
    case (Cons szp r)
    have szp: "szp \<in> set (el_sz el)" "len \<le> sz_size szp"
      using Cons hd_dropWhile [of "\<lambda>s. sz_size s < len" "el_sz el"]
      by (auto dest!: arg_cong [where f = set] intro: set_dropWhileD)
    have least: "sz_size szp \<le> sz_size s" if s: "s \<in> set (el_sz el)" "len \<le> sz_size s" for s
    proof -
      have "s \<notin> set (takeWhile (\<lambda>s. sz_size s < len) (el_sz el))"
        using s(2) by (meson not_less set_takeWhileD)
      then have "s \<in> set (szp # r)"
        using s(1) Cons takeWhile_dropWhile_id [of "\<lambda>s. sz_size s < len" "el_sz el"]
        by (metis UnE set_append)
      moreover have "skip_sorted sz_depth sz_size (szp # r)"
        using idx(4) Cons takeWhile_dropWhile_id [of "\<lambda>s. sz_size s < len" "el_sz el"] skip_sorted_append
        by metis
      ultimately show ?thesis by (auto simp: skip_sorted_def)
    qed
    obtain first q where first: "sz_off szp = first # q" using sz(3) [OF szp(1)] by (cases "sz_off szp") auto
    have bucket: "filter (\<lambda>e. ext_size e = sz_size szp) (el_off el) = first # q"
      using sz(4) [OF szp(1)] first by simp
    have mem: "set (first # q) = {x \<in> set (el_off el). ext_size x = sz_size szp}"
      unfolding bucket [symmetric] by simp
    then have f: "first \<in> set (el_off el)" "ext_size first = sz_size szp" by auto
    have "off_sorted (first # q)" using off_sorted_filter [OF idx(1)] bucket by metis
    then have low: "ext_off first \<le> ext_off x" if "x \<in> set (first # q)" for x
      using that by (auto simp: skip_sorted_def)
    have "ext_size first < ext_size x \<or> ext_size first = ext_size x \<and> ext_off first \<le> ext_off x"
      if x: "x \<in> set (el_off el)" "len \<le> ext_size x" for x
    proof -
      obtain s where s: "s \<in> set (el_sz el)" "sz_size s = ext_size x" using sz(2) [OF x(1)] by auto
      then have "ext_size first \<le> ext_size x" using least [OF s(1)] x(2) f(2) by simp
      moreover have "x \<in> set (first # q)" if "ext_size x = ext_size first"
        unfolding mem using x(1) that f(2) by simp
      ultimately show ?thesis using low by force
    qed
    then have "best_fit (set (el_off el)) len first"
      using f szp(2) by (simp add: best_fit_def)
    then show ?thesis using first by (simp add: c Cons)
  qed
qed

lemma block_okD:
  assumes "block_ok block"
  shows "extlist_ok (ck_avail (blk_live block))" "extlist_ok (ck_alloc (blk_live block))"
    "extlist_ok (ck_discard (blk_live block))" "extlist_ok (ck_ckpt_avail (blk_live block))"
    "avail_of block \<inter> alloc_of block = {}" "avail_of block \<inter> discard_of block = {}"
    "avail_of block \<inter> ckpt_avail_of block = {}" "alloc_of block \<inter> discard_of block = {}"
    "alloc_of block \<inter> ckpt_avail_of block = {}" "discard_of block \<inter> ckpt_avail_of block = {}"
    "avail_of block \<union> alloc_of block \<union> discard_of block \<union> ckpt_avail_of block \<subseteq> file_of block"
    "WT_BLOCK_DESC_SECTOR \<le> blk_file_size block" "blk_file_size block \<le> INT64_MAX"
  using assms by (simp_all add: block_ok_def lists_ok_def)

lemma take_front:
  assumes "extlist_ok el" "e \<in> set (el_off el)" "0 < len" "len \<le> ext_size e"
  obtains el1 where "block_off_remove el (ext_off e) = Inr (e, el1)"
    "let el2 = (if len < ext_size e
       then block_ext_insert el1 (e\<lparr>ext_off := ext_off e + len, ext_size := ext_size e - len\<rparr>) else el1)
     in extlist_ok el2 \<and> el_ranges el2 = el_ranges el - {ext_off e ..< ext_off e + len} \<and>
       el_meta el2 = el_meta el"
proof -
  obtain el1 where el1: "block_off_remove el (ext_off e) = Inr (e, el1)" "extlist_ok el1"
    "set (el_off el1) = set (el_off el) - {e}" "el_ranges el1 = el_ranges el - ext_range e"
    "el_ranges el = ext_range e \<union> el_ranges el1" "el_meta el1 = el_meta el"
    using extlist_remove [OF assms(1,2)] by metis
  show thesis
  proof (cases "len < ext_size e")
    case True
    let ?e = "e\<lparr>ext_off := ext_off e + len, ext_size := ext_size e - len\<rparr>"
    have gap: "ext_off m + ext_size m < ext_off ?e \<or> ext_off ?e + ext_size ?e < ext_off m"
      if "m \<in> set (el_off el1)" for m
      using extlist_other_gap [OF assms(1,2)] that el1(3) assms(3) by fastforce
    have ok: "extlist_ok (block_ext_insert el1 ?e)"
      "el_ranges (block_ext_insert el1 ?e) = ext_range ?e \<union> el_ranges el1"
      using extlist_grow [OF el1(2), of ?e] gap extlist_okD(5) [OF assms(1,2)] True by auto
    have "\<forall>x\<in>el_ranges el1. x \<notin> ext_range e" using el1(4) by blast
    then have "ext_range ?e \<union> el_ranges el1 = el_ranges el - {ext_off e ..< ext_off e + len}"
      unfolding el1(5) using True assms(3) by (auto simp: ext_range_def)
    then show ?thesis using that [OF el1(1)] ok True el1(6) by (simp add: Let_def)
  next
    case False
    then show ?thesis using that [OF el1(1)] el1(2,4,6) assms(4) by (simp add: Let_def ext_range_def)
  qed
qed

text \<open>What taking an offset for \<open>len\<close> bytes does, in terms of the byte sets.\<close>

lemma block_alloc_offset_ok:
  assumes "block_ok block" "0 < len"
  shows "(\<exists>e block'. best_fit (set (el_off (ck_avail (blk_live block)))) len e \<and>
      block_alloc_offset block len = Inr (ext_off e, block') \<and>
      block' = block\<lparr>blk_live := (blk_live block)\<lparr>ck_avail := ck_avail (blk_live block')\<rparr>\<rparr> \<and>
      extlist_ok (ck_avail (blk_live block')) \<and>
      {ext_off e ..< ext_off e + len} \<subseteq> avail_of block \<and>
      avail_of block' = avail_of block - {ext_off e ..< ext_off e + len}) \<or>
    (\<forall>x\<in>set (el_off (ck_avail (blk_live block))). ext_size x < len) \<and>
      block_alloc_offset block len = wt_block_extend block len"
proof (cases "block_size_srch len (el_sz (ck_avail (blk_live block))) ! 0")
  case Nil
  then show ?thesis
    using size_srch_first [OF block_okD(1) [OF assms(1)], of len] by (simp add: block_alloc_offset_def)
next
  case (Cons szp r)
  let ?el = "ck_avail (blk_live block)"
  obtain first q where first: "sz_off szp = first # q" "best_fit (set (el_off ?el)) len first"
    using size_srch_first [OF block_okD(1) [OF assms(1)], of len] Cons by auto
  then have e: "first \<in> set (el_off ?el)" "len \<le> ext_size first" by (simp_all add: best_fit_def)
  obtain el1 where el1: "block_off_remove ?el (ext_off first) = Inr (first, el1)"
    "let el2 = (if len < ext_size first
       then block_ext_insert el1
         (first\<lparr>ext_off := ext_off first + len, ext_size := ext_size first - len\<rparr>) else el1)
     in extlist_ok el2 \<and> el_ranges el2 = el_ranges ?el - {ext_off first ..< ext_off first + len} \<and>
       el_meta el2 = el_meta ?el"
    using take_front [OF block_okD(1) [OF assms(1)] e(1) assms(2) e(2)] by metis
  have "{ext_off first ..< ext_off first + len} \<subseteq> ext_range first" using e(2) by (auto simp: ext_range_def)
  then have "{ext_off first ..< ext_off first + len} \<subseteq> avail_of block" using e(1) by (auto simp: el_ranges_def)
  then show ?thesis
    using Cons first el1 by (intro disjI1 exI [of _ first]) (auto simp: block_alloc_offset_def Let_def)
qed

lemma merge_obtain:
  assumes "extlist_ok el" "0 < len" "{off ..< off + len} \<inter> el_ranges el = {}"
  obtains el' g' where "block_merge g el off len = Inr (el', g')" "extlist_ok el'"
    "el_ranges el' = el_ranges el \<union> {off ..< off + len}" "el_meta el' = el_meta el"
  using block_merge_added [OF assms, of g] by (auto simp: added_def)

lemma block_ok_take:
  assumes "block_ok block" "extlist_ok avail" "extlist_ok alloc"
    and "el_ranges avail = avail_of block - r" "el_ranges alloc = alloc_of block \<union> r" "r \<subseteq> avail_of block"
  shows "block_ok (block\<lparr>blk_live := (blk_live block)\<lparr>ck_avail := avail, ck_alloc := alloc\<rparr>, blk_rng := g\<rparr>)"
proof -
  note ok = block_okD [OF assms(1)]
  have "(avail_of block - r) \<inter> (alloc_of block \<union> r) = {}" using ok(5) by blast
  moreover have "(avail_of block - r) \<inter> discard_of block = {}" using ok(6) by blast
  moreover have "(avail_of block - r) \<inter> ckpt_avail_of block = {}" using ok(7) by blast
  moreover have "(alloc_of block \<union> r) \<inter> discard_of block = {}" using ok(6,8) assms(6) by blast
  moreover have "(alloc_of block \<union> r) \<inter> ckpt_avail_of block = {}" using ok(7,9) assms(6) by blast
  moreover have "(avail_of block - r) \<union> (alloc_of block \<union> r) \<union> discard_of block \<union> ckpt_avail_of block \<subseteq>
      file_of block" using ok(11) assms(6) by blast
  ultimately show ?thesis
    unfolding block_ok_def lists_ok_def using ok(3,4,10,12,13) assms(2-5) by simp
qed

lemma block_ok_extend:
  assumes "block_ok block" "extlist_ok alloc"
    and "el_ranges alloc = alloc_of block \<union> {blk_file_size block ..< blk_file_size block + len}"
    and "0 < len" "blk_file_size block + len \<le> INT64_MAX"
  shows "block_ok (block\<lparr>blk_file_size := blk_file_size block + len,
    blk_live := (blk_live block)\<lparr>ck_alloc := alloc\<rparr>, blk_rng := g\<rparr>)"
proof -
  note ok = block_okD [OF assms(1)]
  let ?r = "{blk_file_size block ..< blk_file_size block + len}"
  have "file_of block \<inter> ?r = {}" by auto
  then have r: "avail_of block \<inter> ?r = {}" "discard_of block \<inter> ?r = {}" "ckpt_avail_of block \<inter> ?r = {}"
    using ok(11) by blast+
  have "file_of block \<union> ?r \<subseteq> {WT_BLOCK_DESC_SECTOR ..< blk_file_size block + len}"
    using assms(4) ok(12) by auto
  then have "avail_of block \<union> (alloc_of block \<union> ?r) \<union> discard_of block \<union> ckpt_avail_of block \<subseteq>
      {WT_BLOCK_DESC_SECTOR ..< blk_file_size block + len}" using ok(11) by blast
  moreover have "avail_of block \<inter> (alloc_of block \<union> ?r) = {}" using r(1) ok(5) by blast
  moreover have "(alloc_of block \<union> ?r) \<inter> discard_of block = {}" using r(2) ok(8) by blast
  moreover have "(alloc_of block \<union> ?r) \<inter> ckpt_avail_of block = {}" using r(3) ok(9) by blast
  ultimately show ?thesis
    unfolding block_ok_def lists_ok_def using ok(1,3,4,6,7,10,12) assms(2-5) by simp
qed

lemma alloc_cases:
  assumes "block_ok block" "0 < len" "len mod uint (blk_allocsize block) = 0"
  obtains (fit) e :: wt_ext and block' where "wt_block_alloc block len = Inr (ext_off e, block')" "block_ok block'"
      "best_fit (set (el_off (ck_avail (blk_live block)))) len e"
      "{ext_off e ..< ext_off e + len} \<subseteq> avail_of block"
      "alloc_of block' = alloc_of block \<union> {ext_off e ..< ext_off e + len}"
      "avail_of block' = avail_of block - {ext_off e ..< ext_off e + len}"
      "discard_of block' = discard_of block" "ckpt_avail_of block' = ckpt_avail_of block"
      "blk_file_size block' = blk_file_size block"
      "blk_allocsize block' = blk_allocsize block"
  | (extend) block' where "wt_block_alloc block len = Inr (blk_file_size block, block')" "block_ok block'"
      "\<forall>x\<in>set (el_off (ck_avail (blk_live block))). ext_size x < len"
      "alloc_of block' = alloc_of block \<union> {blk_file_size block ..< blk_file_size block + len}"
      "avail_of block' = avail_of block"
      "discard_of block' = discard_of block" "ckpt_avail_of block' = ckpt_avail_of block"
      "blk_file_size block' = blk_file_size block + len"
      "blk_allocsize block' = blk_allocsize block"
  | (full) "wt_block_alloc block len = Inl WT_ERROR"
      "\<forall>x\<in>set (el_off (ck_avail (blk_live block))). ext_size x < len"
      "INT64_MAX - len < blk_file_size block"
  using block_alloc_offset_ok [OF assms(1,2)]
proof (elim disjE exE conjE)
  note ok = block_okD [OF assms(1)]
  fix e :: wt_ext and block1 :: wt_block
  let ?r = "{ext_off e ..< ext_off e + len}"
  assume e: "best_fit (set (el_off (ck_avail (blk_live block)))) len e"
    "block_alloc_offset block len = Inr (ext_off e, block1)"
    "block1 = block\<lparr>blk_live := (blk_live block)\<lparr>ck_avail := ck_avail (blk_live block1)\<rparr>\<rparr>"
    "extlist_ok (ck_avail (blk_live block1))" "?r \<subseteq> avail_of block" "avail_of block1 = avail_of block - ?r"
  define avail where "avail = ck_avail (blk_live block1)"
  have b1: "block1 = block\<lparr>blk_live := (blk_live block)\<lparr>ck_avail := avail\<rparr>\<rparr>"
    unfolding avail_def by (rule e(3))
  have av: "extlist_ok avail" "el_ranges avail = avail_of block - ?r" using e(4,6) by (simp_all add: avail_def)
  have disj: "?r \<inter> alloc_of block = {}" using e(5) ok(5) by blast
  obtain alloc g' where m: "block_merge (blk_rng block) (ck_alloc (blk_live block)) (ext_off e) len = Inr (alloc, g')"
    "extlist_ok alloc" "el_ranges alloc = alloc_of block \<union> ?r"
    using merge_obtain [OF ok(2) assms(2) disj, of "blk_rng block"] by metis
  let ?b = "block\<lparr>blk_live := (blk_live block)\<lparr>ck_avail := avail, ck_alloc := alloc\<rparr>, blk_rng := g'\<rparr>"
  have "wt_block_alloc block len = Inr (ext_off e, ?b)"
    using e(2) m(1) assms(3) by (simp add: wt_block_alloc_def b1)
  moreover have "block_ok ?b" by (rule block_ok_take [OF assms(1) av(1) m(2) av(2) m(3) e(5)])
  ultimately show thesis by (rule fit [OF _ _ e(1,5)]) (simp_all add: av m(3))
next
  note ok = block_okD [OF assms(1)]
  let ?r = "{blk_file_size block ..< blk_file_size block + len}"
  assume e: "\<forall>x\<in>set (el_off (ck_avail (blk_live block))). ext_size x < len"
    "block_alloc_offset block len = wt_block_extend block len"
  show thesis
  proof (cases "INT64_MAX - len < blk_file_size block")
    case True
    then show ?thesis using e ok(12) assms(3) by (intro full) (simp_all add: wt_block_alloc_def wt_block_extend_def)
  next
    case False
    have "file_of block \<inter> ?r = {}" by auto
    then have disj: "?r \<inter> alloc_of block = {}" using ok(11) by blast
    obtain alloc g' where m:
      "block_merge (blk_rng block) (ck_alloc (blk_live block)) (blk_file_size block) len = Inr (alloc, g')"
      "extlist_ok alloc" "el_ranges alloc = alloc_of block \<union> ?r"
      using merge_obtain [OF ok(2) assms(2) disj, of "blk_rng block"] by metis
    let ?b = "block\<lparr>blk_file_size := blk_file_size block + len,
        blk_live := (blk_live block)\<lparr>ck_alloc := alloc\<rparr>, blk_rng := g'\<rparr>"
    have "wt_block_alloc block len = Inr (blk_file_size block, ?b)"
      using e(2) ok(12) m(1) assms(3) False by (simp add: wt_block_alloc_def wt_block_extend_def)
    moreover have "block_ok ?b"
      using False assms(2) by (intro block_ok_extend [OF assms(1) m(2,3)]) simp_all
    ultimately show ?thesis by (rule extend [OF _ _ e(1)]) (simp_all add: m(3))
  qed
qed

lemma remove_obtain:
  assumes "extlist_ok el" "0 < len" "{off ..< off + len} \<subseteq> el_ranges el"
  obtains el' g' where "wt_block_off_remove_overlap g el off len = Inr (el', g')" "extlist_ok el'"
    "el_ranges el' = el_ranges el - {off ..< off + len}" "el_meta el' = el_meta el"
  using remove_overlap_removed [OF assms, of g] by (auto simp: removed_def)

text \<open>A range that the btree layer may free: inside the file, on none of the free lists, and either
  all or none of it allocated since the last checkpoint.\<close>

definition freeable :: "wt_block \<Rightarrow> int \<Rightarrow> int \<Rightarrow> bool" where
  "freeable block off len \<longleftrightarrow> 0 < len \<and>
     {off ..< off + len} \<subseteq> file_of block \<and>
     {off ..< off + len} \<inter> (avail_of block \<union> discard_of block \<union> ckpt_avail_of block) = {} \<and>
     ({off ..< off + len} \<subseteq> alloc_of block \<or> {off ..< off + len} \<inter> alloc_of block = {})"

lemma off_free_cases:
  assumes "block_ok block" "freeable block off len"
  obtains (reuse) block' where "wt_block_off_free block off len = Inr block'" "block_ok block'"
      "{off ..< off + len} \<subseteq> alloc_of block"
      "alloc_of block' = alloc_of block - {off ..< off + len}"
      "avail_of block' = avail_of block \<union> {off ..< off + len}"
      "discard_of block' = discard_of block" "ckpt_avail_of block' = ckpt_avail_of block"
      "blk_file_size block' = blk_file_size block" "blk_allocsize block' = blk_allocsize block"
  | (discard) block' where "wt_block_off_free block off len = Inr block'" "block_ok block'"
      "{off ..< off + len} \<inter> alloc_of block = {}"
      "alloc_of block' = alloc_of block" "avail_of block' = avail_of block"
      "discard_of block' = discard_of block \<union> {off ..< off + len}"
      "ckpt_avail_of block' = ckpt_avail_of block"
      "blk_file_size block' = blk_file_size block" "blk_allocsize block' = blk_allocsize block"
proof -
  note ok = block_okD [OF assms(1)]
  let ?r = "{off ..< off + len}"
  have len: "0 < len" and r: "?r \<subseteq> file_of block" "?r \<inter> avail_of block = {}" "?r \<inter> discard_of block = {}"
    "?r \<inter> ckpt_avail_of block = {}" "?r \<subseteq> alloc_of block \<or> ?r \<inter> alloc_of block = {}"
    using assms(2) unfolding freeable_def by blast+
  show thesis
  proof (cases "?r \<subseteq> alloc_of block")
    case True
    obtain alloc g1 where a: "wt_block_off_remove_overlap (blk_rng block) (ck_alloc (blk_live block)) off len =
        Inr (alloc, g1)" "extlist_ok alloc" "el_ranges alloc = alloc_of block - ?r"
      using remove_obtain [OF ok(2) len True, of "blk_rng block"] by metis
    obtain avail g2 where v: "block_merge g1 (ck_avail (blk_live block)) off len = Inr (avail, g2)"
        "extlist_ok avail" "el_ranges avail = avail_of block \<union> ?r"
      using merge_obtain [OF ok(1) len r(2), of g1] by metis
    let ?b = "block\<lparr>blk_live := (blk_live block)\<lparr>ck_alloc := alloc, ck_avail := avail\<rparr>, blk_rng := g2\<rparr>"
    have "wt_block_off_free block off len = Inr ?b"
      using a(1) v(1) by (simp add: wt_block_off_free_def Let_def)
    moreover have "block_ok ?b"
    proof -
      have "(avail_of block \<union> ?r) \<inter> (alloc_of block - ?r) = {}" using ok(5) by blast
      moreover have "(avail_of block \<union> ?r) \<inter> discard_of block = {}" using ok(6) r(3) by blast
      moreover have "(avail_of block \<union> ?r) \<inter> ckpt_avail_of block = {}" using ok(7) r(4) by blast
      moreover have "(alloc_of block - ?r) \<inter> discard_of block = {}" using ok(8) by blast
      moreover have "(alloc_of block - ?r) \<inter> ckpt_avail_of block = {}" using ok(9) by blast
      moreover have "(avail_of block \<union> ?r) \<union> (alloc_of block - ?r) \<union> discard_of block \<union>
          ckpt_avail_of block \<subseteq> file_of block" using ok(11) r(1) by blast
      ultimately show ?thesis
        unfolding block_ok_def lists_ok_def using ok(3,4,10,12,13) a(2,3) v(2,3) by simp
    qed
    ultimately show ?thesis by (rule reuse [OF _ _ True]) (simp_all add: a(3) v(3))
  next
    case False
    then have no: "?r \<inter> alloc_of block = {}" using r(5) by blast
    obtain discard g2 where d: "block_merge (blk_rng block) (ck_discard (blk_live block)) off len = Inr (discard, g2)"
        "extlist_ok discard" "el_ranges discard = discard_of block \<union> ?r"
      using merge_obtain [OF ok(3) len r(3), of "blk_rng block"] by metis
    let ?b = "block\<lparr>blk_live := (blk_live block)\<lparr>ck_discard := discard\<rparr>, blk_rng := g2\<rparr>"
    have "wt_block_off_free block off len = Inr ?b"
      using remove_overlap_missing [OF ok(2) len no] d(1) by (simp add: wt_block_off_free_def Let_def)
    moreover have "block_ok ?b"
    proof -
      have "avail_of block \<inter> (discard_of block \<union> ?r) = {}" using ok(6) r(2) by blast
      moreover have "alloc_of block \<inter> (discard_of block \<union> ?r) = {}" using ok(8) no by blast
      moreover have "(discard_of block \<union> ?r) \<inter> ckpt_avail_of block = {}" using ok(10) r(4) by blast
      moreover have "avail_of block \<union> alloc_of block \<union> (discard_of block \<union> ?r) \<union>
          ckpt_avail_of block \<subseteq> file_of block" using ok(11) r(1) by blast
      ultimately show ?thesis
        unfolding block_ok_def lists_ok_def using ok(1,2,4,5,7,9,12,13) d(2,3) by simp
    qed
    ultimately show ?thesis by (rule discard [OF _ _ no]) (simp_all add: d(3))
  qed
qed

section \<open>Sequences of allocations and frees\<close>

text \<open>
  The allocator together with the blocks its callers hold: an allocation hands out a block, a
  free takes back one that is held.
\<close>

inductive alloc_run :: "wt_block \<Rightarrow> (int \<times> int) set \<Rightarrow> wt_block \<Rightarrow> (int \<times> int) set \<Rightarrow> bool" where
  run_start: "alloc_run block held block held"
| run_alloc: "alloc_run block0 held0 block held \<Longrightarrow> 0 < len \<Longrightarrow>
    wt_block_alloc block len = Inr (off, block') \<Longrightarrow>
    alloc_run block0 held0 block' (insert (off, len) held)"
| run_free: "alloc_run block0 held0 block held \<Longrightarrow> (off, len) \<in> held \<Longrightarrow>
    wt_block_off_free block off len = Inr block' \<Longrightarrow>
    alloc_run block0 held0 block' (held - {(off, len)})"

definition held_ok :: "wt_block \<Rightarrow> (int \<times> int) set \<Rightarrow> bool" where
  "held_ok block held \<longleftrightarrow> block_ok block \<and>
     (\<forall>(off, len)\<in>held. freeable block off len) \<and>
     (\<forall>h\<in>held. \<forall>h'\<in>held. h \<noteq> h' \<longrightarrow> range_of h \<inter> range_of h' = {})"

lemma held_okD:
  assumes "held_ok block held" "h \<in> held"
  shows "freeable block (fst h) (snd h)" "range_of h \<subseteq> file_of block"
    "range_of h \<inter> (avail_of block \<union> discard_of block \<union> ckpt_avail_of block) = {}"
    "range_of h \<subseteq> alloc_of block \<or> range_of h \<inter> alloc_of block = {}" "0 < snd h"
proof -
  show f: "freeable block (fst h) (snd h)" using assms by (cases h) (auto simp: held_ok_def)
  show "range_of h \<subseteq> file_of block" using f unfolding freeable_def range_of_def by blast
  show "range_of h \<inter> (avail_of block \<union> discard_of block \<union> ckpt_avail_of block) = {}"
    using f unfolding freeable_def range_of_def by blast
  show "range_of h \<subseteq> alloc_of block \<or> range_of h \<inter> alloc_of block = {}"
    using f unfolding freeable_def range_of_def by blast
  show "0 < snd h" using f by (simp add: freeable_def)
qed

lemma held_okI:
  assumes "block_ok block"
    and "\<And>h. h \<in> held \<Longrightarrow> 0 < snd h"
    and "\<And>h. h \<in> held \<Longrightarrow> range_of h \<subseteq> file_of block"
    and "\<And>h. h \<in> held \<Longrightarrow> range_of h \<inter> (avail_of block \<union> discard_of block \<union> ckpt_avail_of block) = {}"
    and "\<And>h. h \<in> held \<Longrightarrow> range_of h \<subseteq> alloc_of block \<or> range_of h \<inter> alloc_of block = {}"
    and "\<And>h h'. h \<in> held \<Longrightarrow> h' \<in> held \<Longrightarrow> h \<noteq> h' \<Longrightarrow> range_of h \<inter> range_of h' = {}"
  shows "held_ok block held"
proof -
  have "freeable block off len" if "(off, len) \<in> held" for off len
    using assms(2-5) [OF that] unfolding freeable_def range_of_def by simp
  then show ?thesis using assms(1,6) by (auto simp: held_ok_def)
qed

lemma alloc_effect:
  assumes "block_ok block" "0 < len" "wt_block_alloc block len = Inr (off, block')"
  shows "block_ok block'"
    "{off ..< off + len} \<subseteq> avail_of block \<or> {off ..< off + len} \<inter> file_of block = {}"
    "alloc_of block' = alloc_of block \<union> {off ..< off + len}"
    "avail_of block' = avail_of block - {off ..< off + len}"
    "discard_of block' = discard_of block" "ckpt_avail_of block' = ckpt_avail_of block"
    "file_of block \<subseteq> file_of block'"
proof -
  let ?r = "{off ..< off + len}"
  have mod: "len mod uint (blk_allocsize block) = 0"
    using assms(3) by (auto simp: wt_block_alloc_def split: if_splits)
  have "block_ok block' \<and> (?r \<subseteq> avail_of block \<or> ?r \<inter> file_of block = {}) \<and>
    alloc_of block' = alloc_of block \<union> ?r \<and> avail_of block' = avail_of block - ?r \<and>
    discard_of block' = discard_of block \<and> ckpt_avail_of block' = ckpt_avail_of block \<and>
    file_of block \<subseteq> file_of block'"
  proof (cases rule: alloc_cases [OF assms(1,2) mod])
    case (1 e b)
    then show ?thesis using assms(3) by simp
  next
    case (2 b)
    have "off = blk_file_size block" using assms(3) 2(1) by simp
    then have out: "?r \<inter> file_of block = {}" by auto
    then have "avail_of block - ?r = avail_of block" using block_okD(11) [OF assms(1)] by blast
    then show ?thesis using assms(2,3) 2 out by simp
  next
    case 3
    then show ?thesis using assms(3) by simp
  qed
  then show "block_ok block'"
    "{off ..< off + len} \<subseteq> avail_of block \<or> {off ..< off + len} \<inter> file_of block = {}"
    "alloc_of block' = alloc_of block \<union> {off ..< off + len}"
    "avail_of block' = avail_of block - {off ..< off + len}"
    "discard_of block' = discard_of block" "ckpt_avail_of block' = ckpt_avail_of block"
    "file_of block \<subseteq> file_of block'" by blast+
qed

lemma held_ok_alloc:
  assumes "held_ok block held" "0 < len" "wt_block_alloc block len = Inr (off, block')"
  shows "held_ok block' (insert (off, len) held)"
    and "\<And>h. h \<in> held \<Longrightarrow> range_of (off, len) \<inter> range_of h = {}"
proof -
  have ok: "block_ok block" using assms(1) by (simp add: held_ok_def)
  note new = alloc_effect [OF ok assms(2,3), folded range_of_def [of "(off, len)", simplified]]
  note old = held_okD [OF assms(1)]
  show disj: "range_of (off, len) \<inter> range_of h = {}" if "h \<in> held" for h
    using new(2) old(2,3) [OF that] by blast
  have r: "range_of (off, len) \<subseteq> file_of block'"
    "range_of (off, len) \<inter> (avail_of block' \<union> discard_of block' \<union> ckpt_avail_of block') = {}"
    using block_okD(5,8,9,11) [OF new(1)] new(3) by blast+
  show "held_ok block' (insert (off, len) held)"
  proof (rule held_okI [OF new(1)])
    fix h assume h: "h \<in> insert (off, len) held"
    show "0 < snd h" using h old(5) assms(2) by (metis insertE snd_conv)
    show "range_of h \<subseteq> file_of block'"
    proof (cases "h = (off, len)")
      case False
      then show ?thesis using h old(2) new(7) by blast
    qed (use r(1) in simp)
    show "range_of h \<inter> (avail_of block' \<union> discard_of block' \<union> ckpt_avail_of block') = {}"
    proof (cases "h = (off, len)")
      case False
      then have "range_of h \<inter> (avail_of block \<union> discard_of block \<union> ckpt_avail_of block) = {}"
        using h old(3) by blast
      then show ?thesis unfolding new(4-6) by blast
    qed (use r(2) in simp)
    show "range_of h \<subseteq> alloc_of block' \<or> range_of h \<inter> alloc_of block' = {}"
    proof (cases "h = (off, len)")
      case False
      then have "h \<in> held" using h by blast
      then show ?thesis unfolding new(3) using old(4) disj by blast
    qed (use new(3) in simp)
  next
    fix h h' assume "h \<in> insert (off, len) held" "h' \<in> insert (off, len) held" "h \<noteq> h'"
    then show "range_of h \<inter> range_of h' = {}" using disj assms(1) unfolding held_ok_def by blast
  qed
qed

lemma held_ok_free:
  assumes "held_ok block held" "(off, len) \<in> held"
  obtains block' where "wt_block_off_free block off len = Inr block'" "held_ok block' (held - {(off, len)})"
proof -
  have ok: "block_ok block" using assms(1) by (simp add: held_ok_def)
  note old = held_okD [OF assms(1)]
  have disj: "range_of h \<inter> range_of (off, len) = {}" if "h \<in> held - {(off, len)}" for h
    using assms that unfolding held_ok_def by blast
  have f: "freeable block off len" using old(1) [OF assms(2)] by simp
  have pairs: "h \<in> held - {(off, len)} \<Longrightarrow> h' \<in> held - {(off, len)} \<Longrightarrow> h \<noteq> h' \<Longrightarrow>
    range_of h \<inter> range_of h' = {}" for h h'
    using assms(1) unfolding held_ok_def by blast
  show thesis
  proof (cases rule: off_free_cases [OF ok f])
    case (1 block')
    note b = 1 [folded range_of_def [of "(off, len)", simplified]]
    have "held_ok block' (held - {(off, len)})"
    proof (rule held_okI [OF b(2)])
      fix h assume h: "h \<in> held - {(off, len)}"
      then have h': "h \<in> held" by blast
      show "0 < snd h" "range_of h \<subseteq> file_of block'" using old(2,5) [OF h'] b(8) by simp_all
      show "range_of h \<inter> (avail_of block' \<union> discard_of block' \<union> ckpt_avail_of block') = {}"
        unfolding b(5-7) using old(3) [OF h'] disj [OF h] by blast
      show "range_of h \<subseteq> alloc_of block' \<or> range_of h \<inter> alloc_of block' = {}"
        unfolding b(4) using old(4) [OF h'] disj [OF h] by blast
    qed (rule pairs)
    then show ?thesis using that b(1) by blast
  next
    case (2 block')
    note b = 2 [folded range_of_def [of "(off, len)", simplified]]
    have "held_ok block' (held - {(off, len)})"
    proof (rule held_okI [OF b(2)])
      fix h assume h: "h \<in> held - {(off, len)}"
      then have h': "h \<in> held" by blast
      show "0 < snd h" "range_of h \<subseteq> file_of block'" using old(2,5) [OF h'] b(8) by simp_all
      show "range_of h \<inter> (avail_of block' \<union> discard_of block' \<union> ckpt_avail_of block') = {}"
        unfolding b(5-7) using old(3) [OF h'] disj [OF h] by blast
      show "range_of h \<subseteq> alloc_of block' \<or> range_of h \<inter> alloc_of block' = {}"
        unfolding b(4) using old(4) [OF h'] .
    qed (rule pairs)
    then show ?thesis using that b(1) by blast
  qed
qed

lemma alloc_run_held_ok: "alloc_run block0 held0 block held \<Longrightarrow> held_ok block0 held0 \<Longrightarrow> held_ok block held"
proof (induction rule: alloc_run.induct)
  case (run_alloc block0 held0 block held len off block')
  then show ?case using held_ok_alloc(1) by blast
next
  case (run_free block0 held0 block held off len block')
  then show ?case using held_ok_free [of block held off len] by force
qed

lemma ext_next_correct:
  assumes "extlist_ok el"
  shows "case ext_next el e of
      None \<Rightarrow> \<forall>x\<in>set (el_off el). ext_off x \<le> ext_off e
    | Some n \<Rightarrow> n \<in> set (el_off el) \<and> ext_off e < ext_off n \<and>
        (\<forall>x\<in>set (el_off el). ext_off e < ext_off x \<longrightarrow> ext_off n \<le> ext_off x)"
proof -
  have "dropWhile (\<lambda>x. ext_off x \<le> ext_off e) (el_off el) = dropWhile (\<lambda>x. ext_off x < ext_off e + 1) (el_off el)"
    by (rule dropWhile_cong) auto
  then have next_: "ext_next el e = above_off (ext_off e + 1) (el_off el) None"
    by (simp add: ext_next_def above_off_def)
  note s = extlist_okD(2) [OF assms]
  show ?thesis
  proof (cases "ext_next el e")
    case None
    then show ?thesis using above_NoneD [of "ext_off e + 1" "el_off el"] next_ by fastforce
  next
    case (Some n)
    then show ?thesis using above_SomeD [OF s, of "ext_off e + 1" n] next_ by simp
  qed
qed

section \<open>The walk over two lists\<close>

text \<open>
  The extents of a list from the current one on, and the invariant of the walk: every byte on
  both lists is at or behind the start of the current extent of each list, and what was
  taken off both lists is what was added to the third.
\<close>

definition rest_of :: "wt_extlist \<Rightarrow> wt_ext option \<Rightarrow> wt_ext set" where
  "rest_of el p = (case p of None \<Rightarrow> {} | Some e \<Rightarrow> {x \<in> set (el_off el). ext_off e \<le> ext_off x})"

definition at_or_behind :: "wt_ext option \<Rightarrow> int set \<Rightarrow> bool" where
  "at_or_behind p S = (case p of None \<Rightarrow> S = {} | Some e \<Rightarrow> \<forall>x\<in>S. ext_off e \<le> x)"

definition pointer_ok :: "wt_extlist \<Rightarrow> wt_ext option \<Rightarrow> bool" where
  "pointer_ok el p = (case p of None \<Rightarrow> True | Some e \<Rightarrow> e \<in> set (el_off el))"

definition walk_ok :: "int set \<Rightarrow> int set \<Rightarrow> int set \<Rightarrow> overlap_state \<Rightarrow> bool" where
  "walk_ok A B V s = (case s of (ael, ap, bel, bp, avail, g) \<Rightarrow>
     extlist_ok ael \<and> extlist_ok bel \<and> extlist_ok avail \<and> pointer_ok ael ap \<and> pointer_ok bel bp \<and>
     at_or_behind ap (el_ranges ael \<inter> el_ranges bel) \<and> at_or_behind bp (el_ranges ael \<inter> el_ranges bel) \<and>
     (\<exists>M. M \<inter> V = {} \<and> M \<inter> el_ranges ael = {} \<and> M \<inter> el_ranges bel = {} \<and>
        A = el_ranges ael \<union> M \<and> B = el_ranges bel \<union> M \<and> el_ranges avail = V \<union> M))"

definition pair_overlaps :: "wt_ext option \<Rightarrow> wt_ext option \<Rightarrow> bool" where
  "pair_overlaps ap bp = (case (ap, bp) of
     (Some a, Some b) \<Rightarrow> \<not> ext_off a + ext_size a \<le> ext_off b \<and> \<not> ext_off b + ext_size b \<le> ext_off a
   | _ \<Rightarrow> False)"

definition walk_measure :: "overlap_state \<Rightarrow> nat" where
  "walk_measure s = (case s of (ael, ap, bel, bp, avail, g) \<Rightarrow>
     2 * (card (rest_of ael ap) + card (rest_of bel bp)) + (if pair_overlaps ap bp then 1 else 0))"

lemma finite_rest_of [simp]: "finite (rest_of el p)"
  by (auto simp: rest_of_def split: option.split)

lemma rest_of_next:
  assumes "extlist_ok el" "e \<in> set (el_off el)"
  shows "rest_of el (ext_next el e) = rest_of el (Some e) - {e}"
    and "card (rest_of el (Some e)) = Suc (card (rest_of el (ext_next el e)))"
    and "pointer_ok el (ext_next el e)"
proof -
  show eq: "rest_of el (ext_next el e) = rest_of el (Some e) - {e}"
  proof (cases "ext_next el e")
    case None
    then have "\<forall>x\<in>set (el_off el). ext_off x \<le> ext_off e"
      using ext_next_correct [OF assms(1), of e] by simp
    then show ?thesis using None extlist_okD(4) [OF assms(1) _ assms(2)] by (force simp: rest_of_def)
  next
    case (Some n)
    then have n: "n \<in> set (el_off el)" "ext_off e < ext_off n"
      "\<And>x. x \<in> set (el_off el) \<Longrightarrow> ext_off e < ext_off x \<Longrightarrow> ext_off n \<le> ext_off x"
      using ext_next_correct [OF assms(1), of e] by auto
    have "ext_off n \<le> ext_off x \<longleftrightarrow> ext_off e \<le> ext_off x \<and> x \<noteq> e" if "x \<in> set (el_off el)" for x
      using n(2) n(3) [OF that] extlist_okD(4) [OF assms(1) that assms(2)]
      by (cases "ext_off e < ext_off x") auto
    then show ?thesis using Some by (auto simp: rest_of_def)
  qed
  have "e \<in> rest_of el (Some e)" using assms(2) by (simp add: rest_of_def)
  then show "card (rest_of el (Some e)) = Suc (card (rest_of el (ext_next el e)))"
    unfolding eq by (metis card_Suc_Diff1 finite_rest_of)
  show "pointer_ok el (ext_next el e)"
    using ext_next_correct [OF assms(1), of e] by (auto simp: pointer_ok_def split: option.splits)
qed

lemma behind_next:
  assumes "extlist_ok el" "e \<in> set (el_off el)" "S \<subseteq> el_ranges el - ext_range e" "\<forall>x\<in>S. ext_off e \<le> x"
  shows "at_or_behind (ext_next el e) S"
proof -
  have behind: "\<exists>m\<in>set (el_off el). ext_off e < ext_off m \<and> ext_off m \<le> x" if x: "x \<in> S" for x
  proof -
    obtain m where m: "m \<in> set (el_off el)" "ext_off m \<le> x" "x < ext_off m + ext_size m"
      using x assms(3) by (auto simp: el_ranges_def ext_range_def)
    have "x \<notin> ext_range e" "ext_off e \<le> x" using x assms(3,4) by auto
    then have "m \<noteq> e" using m by (auto simp: ext_range_def)
    then have "ext_off e < ext_off m"
      using extlist_other_gap [OF assms(1,2), of m] m \<open>ext_off e \<le> x\<close> extlist_okD(6) [OF assms(1,2)] by auto
    then show ?thesis using m by blast
  qed
  show ?thesis
  proof (cases "ext_next el e")
    case None
    then have "\<forall>m\<in>set (el_off el). ext_off m \<le> ext_off e" using ext_next_correct [OF assms(1), of e] by simp
    then have "S = {}" using behind by fastforce
    then show ?thesis using None by (simp add: at_or_behind_def)
  next
    case (Some n)
    then have "\<forall>m\<in>set (el_off el). ext_off e < ext_off m \<longrightarrow> ext_off n \<le> ext_off m"
      using ext_next_correct [OF assms(1), of e] by simp
    then show ?thesis using Some behind by (fastforce simp: at_or_behind_def)
  qed
qed

lemma drop_next:
  assumes "extlist_ok el" "e \<in> set (el_off el)"
  obtains el' where "block_off_remove el (ext_off e) = Inr (e, el')" "extlist_ok el'"
    "el_ranges el' = el_ranges el - ext_range e" "pointer_ok el' (ext_next el e)"
    "card (rest_of el (Some e)) = Suc (card (rest_of el' (ext_next el e)))"
    "\<And>S. S \<subseteq> el_ranges el' \<Longrightarrow> \<forall>x\<in>S. ext_off e \<le> x \<Longrightarrow> at_or_behind (ext_next el e) S"
proof -
  obtain el' where el': "block_off_remove el (ext_off e) = Inr (e, el')" "extlist_ok el'"
    "set (el_off el') = set (el_off el) - {e}" "el_ranges el' = el_ranges el - ext_range e"
    using extlist_remove [OF assms] by metis
  note nx = rest_of_next [OF assms]
  have "rest_of el' (ext_next el e) = rest_of el (ext_next el e)"
    using nx(1) el'(3) by (auto simp: rest_of_def split: option.splits)
  moreover have "pointer_ok el' (ext_next el e)"
    using ext_next_correct [OF assms(1), of e] el'(3) by (auto simp: pointer_ok_def split: option.splits)
  ultimately show thesis
    using that [OF el'(1,2,4)] nx(2) behind_next [OF assms] el'(4) by simp
qed

lemma shrink:
  assumes "extlist_ok el" "e \<in> set (el_off el)" "0 < len"
    and "ext_off e \<le> off" "off + len \<le> ext_off e + ext_size e"
  defines "e' \<equiv> e\<lparr>ext_off := off, ext_size := len\<rparr>"
  obtains el1 where "block_off_remove el (ext_off e) = Inr (e, el1)" "extlist_ok (block_ext_insert el1 e')"
    "el_ranges (block_ext_insert el1 e') = (el_ranges el - ext_range e) \<union> {off ..< off + len}"
    "set (el_off (block_ext_insert el1 e')) = insert e' (set (el_off el) - {e})"
    "card (rest_of (block_ext_insert el1 e') (Some e')) \<le> card (rest_of el (Some e))"
proof -
  obtain el1 where el1: "block_off_remove el (ext_off e) = Inr (e, el1)" "extlist_ok el1"
    "set (el_off el1) = set (el_off el) - {e}" "el_ranges el1 = el_ranges el - ext_range e"
    using extlist_remove [OF assms(1,2)] by metis
  have gap: "ext_off m + ext_size m < ext_off e' \<or> ext_off e' + ext_size e' < ext_off m"
    if "m \<in> set (el_off el1)" for m
  proof -
    have "m \<in> set (el_off el) - {e}" using that el1(3) by simp
    from extlist_other_gap [OF assms(1,2) this] show ?thesis
    proof
      assume "ext_off m + ext_size m < ext_off e"
      then show ?thesis using assms(4) by (simp add: e'_def)
    next
      assume "ext_off e + ext_size e < ext_off m"
      then show ?thesis using assms(5) by (simp add: e'_def)
    qed
  qed
  have e': "0 < ext_depth e'" "ext_depth e' \<le> WT_SKIP_MAXDEPTH" "0 < ext_size e'"
    using extlist_okD(5) [OF assms(1,2)] assms(3) by (simp_all add: e'_def)
  have ins: "extlist_ok (block_ext_insert el1 e')"
    "el_ranges (block_ext_insert el1 e') = ext_range e' \<union> el_ranges el1"
    "set (el_off (block_ext_insert el1 e')) = insert e' (set (el_off el1))"
    by (rule extlist_grow [OF el1(2) e' gap]; assumption)+
  have "ext_off e \<le> ext_off e'" using assms(4) by (simp add: e'_def)
  then have "rest_of (block_ext_insert el1 e') (Some e') \<subseteq> insert e' (rest_of el (Some e) - {e})"
    using ins(3) el1(3) by (auto simp: rest_of_def)
  then have "card (rest_of (block_ext_insert el1 e') (Some e')) \<le> card (insert e' (rest_of el (Some e) - {e}))"
    by (intro card_mono) auto
  also have "\<dots> \<le> Suc (card (rest_of el (Some e) - {e}))" by (simp add: card_insert_if)
  also have "\<dots> = card (rest_of el (Some e))"
  proof (rule card_Suc_Diff1)
    show "e \<in> rest_of el (Some e)" using assms(2) by (simp add: rest_of_def)
  qed simp
  finally have card: "card (rest_of (block_ext_insert el1 e') (Some e')) \<le> card (rest_of el (Some e))" .
  have "el_ranges (block_ext_insert el1 e') = (el_ranges el - ext_range e) \<union> {off ..< off + len}"
    unfolding ins(2) el1(4) by (auto simp: ext_range_def e'_def)
  then show thesis using that [OF el1(1) ins(1) _ _ card] ins(3) el1(3) by simp
qed

lemma merge_isolated:
  assumes "extlist_ok el" "0 < len"
    and gap: "\<forall>m\<in>set (el_off el). ext_off m + ext_size m < off \<or> off + len < ext_off m"
  obtains el' g' e where "block_merge g el off len = Inr (el', g')" "extlist_ok el'"
    "el_ranges el' = el_ranges el \<union> {off ..< off + len}" "ext_off e = off"
    "set (el_off el') = insert e (set (el_off el))"
proof -
  have pos: "\<And>m. m \<in> set (el_off el) \<Longrightarrow> 0 < ext_size m" by (rule extlist_okD(6) [OF assms(1)])
  have lo: "ext_off m + ext_size m < off" if "m \<in> set (el_off el)" "ext_off m < off" for m
    using bspec [OF gap that(1)] that(2) assms(2) by auto
  have hi: "off + len < ext_off m" if "m \<in> set (el_off el)" "off \<le> ext_off m" for m
    using bspec [OF gap that(1)] pos [OF that(1)] that(2) by auto
  have "{off ..< off + len} \<inter> ext_range m = {}" if "m \<in> set (el_off el)" for m
    using bspec [OF gap that] by (auto simp: ext_range_def)
  then have disj: "{off ..< off + len} \<inter> el_ranges el = {}" by (auto simp: el_ranges_def)
  have "merge_before el off = None"
    using merge_before_cases [OF assms(1) disj assms(2)] lo by (force split: option.splits)
  moreover have "merge_after el off len = None"
    using merge_after_cases [OF assms(1) disj assms(2)] hi assms(2) by (force split: option.splits)
  ultimately have "block_merge g el off len = Inr (block_off_insert g el off len)"
    using block_merge_unfold [OF assms(1) disj assms(2), of g] by simp
  moreover obtain el' g' e where "block_off_insert g el off len = (el', g')" "extlist_ok el'"
    "el_ranges el' = {off ..< off + len} \<union> el_ranges el" "ext_off e = off"
    "set (el_off el') = insert e (set (el_off el))"
    using block_off_insert_ok [OF assms(1,2) lo hi, of g] by blast
  ultimately show thesis using that [of el' g' e] by (simp add: Un_commute)
qed

text \<open>
  What one reconciliation does to the walk: the bytes of both current extents move to the third
  list, the two pointers stay on their lists and do not pass a common byte, and the
  measure of the walk goes down.
\<close>

definition overlap_effect ::
  "wt_extlist \<Rightarrow> wt_ext \<Rightarrow> wt_extlist \<Rightarrow> wt_ext \<Rightarrow> wt_extlist \<Rightarrow> overlap_state \<Rightarrow> bool" where
  "overlap_effect ael a bel b avail s = (case s of (ael', ap, bel', bp, avail', g) \<Rightarrow>
     extlist_ok ael' \<and> extlist_ok bel' \<and> extlist_ok avail' \<and>
     el_ranges ael' = el_ranges ael - ext_range a \<inter> ext_range b \<and>
     el_ranges bel' = el_ranges bel - ext_range a \<inter> ext_range b \<and>
     el_ranges avail' = el_ranges avail \<union> ext_range a \<inter> ext_range b \<and>
     pointer_ok ael' ap \<and> pointer_ok bel' bp \<and>
     (\<forall>S. S \<subseteq> el_ranges ael' \<longrightarrow> S \<subseteq> el_ranges bel' \<longrightarrow>
        (\<forall>x\<in>S. ext_off a \<le> x \<and> ext_off b \<le> x) \<longrightarrow> at_or_behind ap S \<and> at_or_behind bp S) \<and>
     walk_measure s < walk_measure (ael, Some a, bel, Some b, avail, g))"

definition overlapping_pair ::
  "wt_extlist \<Rightarrow> wt_ext \<Rightarrow> wt_extlist \<Rightarrow> wt_ext \<Rightarrow> wt_extlist \<Rightarrow> bool" where
  "overlapping_pair ael a bel b avail \<longleftrightarrow>
     extlist_ok ael \<and> a \<in> set (el_off ael) \<and> extlist_ok bel \<and> b \<in> set (el_off bel) \<and>
     extlist_ok avail \<and> ext_range a \<inter> ext_range b \<inter> el_ranges avail = {} \<and>
     ext_off a \<le> ext_off b \<and> ext_off b < ext_off a + ext_size a"

lemma overlapping_pairD:
  assumes "overlapping_pair ael a bel b avail"
  shows "extlist_ok ael" "a \<in> set (el_off ael)" "extlist_ok bel" "b \<in> set (el_off bel)"
    "extlist_ok avail" "ext_range a \<inter> ext_range b \<inter> el_ranges avail = {}"
    "ext_off a \<le> ext_off b" "ext_off b < ext_off a + ext_size a"
    "0 < ext_size a" "0 < ext_size b" "ext_range a \<subseteq> el_ranges ael" "ext_range b \<subseteq> el_ranges bel"
  using assms extlist_okD(6) unfolding overlapping_pair_def el_ranges_def by blast+

lemma merge_overlap:
  assumes "overlapping_pair ael a bel b avail" "0 < len" "{off ..< off + len} = ext_range a \<inter> ext_range b"
  obtains av g' where "block_merge g avail off len = Inr (av, g')" "extlist_ok av"
    "el_ranges av = el_ranges avail \<union> ext_range a \<inter> ext_range b"
  using merge_obtain [OF overlapping_pairD(5) [OF assms(1)] assms(2), of off g]
    overlapping_pairD(6) [OF assms(1)] assms(3) by metis

lemma measure_pair:
  assumes "overlapping_pair ael a bel b avail"
  shows "walk_measure (ael, Some a, bel, Some b, avail, g) =
     2 * (card (rest_of ael (Some a)) + card (rest_of bel (Some b))) + 1"
  using overlapping_pairD(7-10) [OF assms] by (auto simp: walk_measure_def pair_overlaps_def)

text \<open>The cases of the source, by its numbers.\<close>

lemma overlap_case_1:
  assumes p: "overlapping_pair ael a bel b avail"
    and "ext_off a = ext_off b" "ext_size a = ext_size b"
  shows "\<exists>s. ext_overlap_ordered g ael a bel b avail = Inr s \<and> overlap_effect ael a bel b avail s"
proof -
  note pD = overlapping_pairD [OF p]
  have eq: "ext_range a = ext_range b" using assms(2,3) by (simp add: ext_range_def)
  then have "{ext_off b ..< ext_off b + ext_size b} = ext_range a \<inter> ext_range b"
    by (simp add: ext_range_def)
  then obtain av g' where av: "block_merge g avail (ext_off b) (ext_size b) = Inr (av, g')" "extlist_ok av"
    "el_ranges av = el_ranges avail \<union> ext_range a \<inter> ext_range b"
    using merge_overlap [OF p pD(10)] by metis
  obtain ael' where a': "block_off_remove ael (ext_off a) = Inr (a, ael')" "extlist_ok ael'"
    "el_ranges ael' = el_ranges ael - ext_range a" "pointer_ok ael' (ext_next ael a)"
    "card (rest_of ael (Some a)) = Suc (card (rest_of ael' (ext_next ael a)))"
    "\<And>S. S \<subseteq> el_ranges ael' \<Longrightarrow> \<forall>x\<in>S. ext_off a \<le> x \<Longrightarrow> at_or_behind (ext_next ael a) S"
    using drop_next [OF pD(1,2)] by blast
  obtain bel' where b': "block_off_remove bel (ext_off b) = Inr (b, bel')" "extlist_ok bel'"
    "el_ranges bel' = el_ranges bel - ext_range b" "pointer_ok bel' (ext_next bel b)"
    "card (rest_of bel (Some b)) = Suc (card (rest_of bel' (ext_next bel b)))"
    "\<And>S. S \<subseteq> el_ranges bel' \<Longrightarrow> \<forall>x\<in>S. ext_off b \<le> x \<Longrightarrow> at_or_behind (ext_next bel b) S"
    using drop_next [OF pD(3,4)] by blast
  let ?s = "(ael', ext_next ael a, bel', ext_next bel b, av, g')"
  have "ext_overlap_ordered g ael a bel b avail = Inr ?s"
    using assms(2,3) av(1) a'(1) b'(1) by (simp add: ext_overlap_ordered_def Let_def)
  moreover have "walk_measure ?s < walk_measure (ael, Some a, bel, Some b, avail, g')"
    unfolding measure_pair [OF p] a'(5) b'(5) by (simp add: walk_measure_def)
  then have "overlap_effect ael a bel b avail ?s"
    using a'(2-4,6) b'(2-4,6) av(2,3) eq by (simp add: overlap_effect_def)
  ultimately show ?thesis by blast
qed

text \<open>Cases 4 and 6: \<open>b\<close> is a prefix or a suffix of \<open>a\<close>, what is left of \<open>a\<close> is one extent.\<close>

lemma overlap_shrink_drop:
  assumes p: "overlapping_pair ael a bel b avail"
    and inside: "ext_range b \<subseteq> ext_range a"
    and part: "ext_off a \<le> off" "off + len \<le> ext_off a + ext_size a" "0 < len"
      "{off ..< off + len} = ext_range a - ext_range b"
    and start: "off = ext_off a \<or> off = ext_off b + ext_size b"
  obtains ael1 av g' bel' where "block_off_remove ael (ext_off a) = Inr (a, ael1)"
    "block_merge g avail (ext_off b) (ext_size b) = Inr (av, g')"
    "block_off_remove bel (ext_off b) = Inr (b, bel')"
    "overlap_effect ael a bel b avail
      (block_ext_insert ael1 (a\<lparr>ext_off := off, ext_size := len\<rparr>),
       Some (a\<lparr>ext_off := off, ext_size := len\<rparr>), bel', ext_next bel b, av, g')"
proof -
  note pD = overlapping_pairD [OF p]
  let ?a = "a\<lparr>ext_off := off, ext_size := len\<rparr>"
  have ab: "ext_range a \<inter> ext_range b = ext_range b" using inside by blast
  obtain av g' where av: "block_merge g avail (ext_off b) (ext_size b) = Inr (av, g')" "extlist_ok av"
    "el_ranges av = el_ranges avail \<union> ext_range b"
    using merge_overlap [OF p pD(10), of "ext_off b" g] unfolding ab by (metis ext_range_def)
  obtain ael1 where a': "block_off_remove ael (ext_off a) = Inr (a, ael1)"
    "extlist_ok (block_ext_insert ael1 ?a)"
    "el_ranges (block_ext_insert ael1 ?a) = (el_ranges ael - ext_range a) \<union> {off ..< off + len}"
    "set (el_off (block_ext_insert ael1 ?a)) = insert ?a (set (el_off ael) - {a})"
    "card (rest_of (block_ext_insert ael1 ?a) (Some ?a)) \<le> card (rest_of ael (Some a))"
    using shrink [OF pD(1,2) part(3,1,2)] by blast
  obtain bel' where b': "block_off_remove bel (ext_off b) = Inr (b, bel')" "extlist_ok bel'"
    "el_ranges bel' = el_ranges bel - ext_range b" "pointer_ok bel' (ext_next bel b)"
    "card (rest_of bel (Some b)) = Suc (card (rest_of bel' (ext_next bel b)))"
    "\<And>S. S \<subseteq> el_ranges bel' \<Longrightarrow> \<forall>x\<in>S. ext_off b \<le> x \<Longrightarrow> at_or_behind (ext_next bel b) S"
    using drop_next [OF pD(3,4)] by blast
  have ranges: "el_ranges (block_ext_insert ael1 ?a) = el_ranges ael - ext_range b"
    unfolding a'(3) part(4) using pD(11) inside by blast
  have "at_or_behind (Some ?a) S"
    if "S \<subseteq> el_ranges ael - ext_range b" "\<forall>x\<in>S. ext_off a \<le> x \<and> ext_off b \<le> x" for S
    using that start pD(7) by (fastforce simp: at_or_behind_def ext_range_def)
  moreover have "walk_measure (block_ext_insert ael1 ?a, Some ?a, bel', ext_next bel b, av, g') <
      walk_measure (ael, Some a, bel, Some b, avail, g')"
    unfolding measure_pair [OF p] b'(5) using a'(5) by (simp add: walk_measure_def)
  moreover have "pointer_ok (block_ext_insert ael1 ?a) (Some ?a)" using a'(4) by (simp add: pointer_ok_def)
  ultimately show thesis
    using that [OF a'(1) av(1) b'(1)] a'(2) b'(2-4,6) av(2,3) ranges ab by (simp add: overlap_effect_def)
qed

lemma walk_measure_swap:
  "walk_measure (ael, ap, bel, bp, avail, g) = walk_measure (bel, bp, ael, ap, avail, g)"
  by (auto simp: walk_measure_def pair_overlaps_def split: option.split)

lemma overlap_effect_swap:
  "overlap_effect bel b ael a avail (bel', bp, ael', ap, av, g) \<Longrightarrow>
     overlap_effect ael a bel b avail (ael', ap, bel', bp, av, g)"
  unfolding overlap_effect_def prod.case
  using walk_measure_swap [of ael "Some a" bel "Some b" avail g] walk_measure_swap [of ael' ap bel' bp av g]
  by (metis Int_commute)

lemma overlap_case_4:
  assumes p: "overlapping_pair ael a bel b avail"
    and "ext_off a = ext_off b" "ext_size b < ext_size a"
  shows "\<exists>s. ext_overlap_ordered g ael a bel b avail = Inr s \<and> overlap_effect ael a bel b avail s"
proof -
  note pD = overlapping_pairD [OF p]
  have r: "ext_range b \<subseteq> ext_range a"
    "{ext_off a + ext_size b ..< ext_off a + ext_size b + (ext_size a - ext_size b)} = ext_range a - ext_range b"
    using assms(2,3) pD(10) by (auto simp: ext_range_def)
  have "ext_off a \<le> ext_off a + ext_size b" "0 < ext_size a - ext_size b"
    "ext_off a + ext_size b + (ext_size a - ext_size b) \<le> ext_off a + ext_size a"
    "ext_off a + ext_size b = ext_off a \<or> ext_off a + ext_size b = ext_off b + ext_size b"
    using assms(2,3) pD(10) by auto
  then obtain ael1 av g' bel' where "block_off_remove ael (ext_off a) = Inr (a, ael1)"
    "block_merge g avail (ext_off b) (ext_size b) = Inr (av, g')"
    "block_off_remove bel (ext_off b) = Inr (b, bel')"
    "overlap_effect ael a bel b avail
      (block_ext_insert ael1 (a\<lparr>ext_off := ext_off a + ext_size b, ext_size := ext_size a - ext_size b\<rparr>),
       Some (a\<lparr>ext_off := ext_off a + ext_size b, ext_size := ext_size a - ext_size b\<rparr>),
       bel', ext_next bel b, av, g')"
    using overlap_shrink_drop [OF p r(1) _ _ _ r(2)] by metis
  then show ?thesis using assms(2,3) by (simp add: ext_overlap_ordered_def Let_def)
qed

lemma overlap_case_9:
  assumes p: "overlapping_pair ael a bel b avail"
    and "ext_off a = ext_off b" "ext_size a < ext_size b"
  shows "\<exists>s. ext_overlap_ordered g ael a bel b avail = Inr s \<and> overlap_effect ael a bel b avail s"
proof -
  note pD = overlapping_pairD [OF p]
  have q: "overlapping_pair bel b ael a avail"
    using p assms(2,3) pD(9) unfolding overlapping_pair_def by (auto simp: Int_commute)
  have r: "ext_range a \<subseteq> ext_range b"
    "{ext_off b + ext_size a ..< ext_off b + ext_size a + (ext_size b - ext_size a)} = ext_range b - ext_range a"
    using assms(2,3) pD(9) by (auto simp: ext_range_def)
  have "ext_off b \<le> ext_off b + ext_size a" "0 < ext_size b - ext_size a"
    "ext_off b + ext_size a + (ext_size b - ext_size a) \<le> ext_off b + ext_size b"
    "ext_off b + ext_size a = ext_off b \<or> ext_off b + ext_size a = ext_off a + ext_size a"
    using assms(2,3) pD(9) by auto
  then obtain bel1 av g' ael' where s: "block_off_remove bel (ext_off b) = Inr (b, bel1)"
    "block_merge g avail (ext_off a) (ext_size a) = Inr (av, g')"
    "block_off_remove ael (ext_off a) = Inr (a, ael')"
    "overlap_effect bel b ael a avail
      (block_ext_insert bel1 (b\<lparr>ext_off := ext_off b + ext_size a, ext_size := ext_size b - ext_size a\<rparr>),
       Some (b\<lparr>ext_off := ext_off b + ext_size a, ext_size := ext_size b - ext_size a\<rparr>),
       ael', ext_next ael a, av, g')"
    using overlap_shrink_drop [OF q r(1) _ _ _ r(2)] by metis
  then show ?thesis
    using assms(2,3) overlap_effect_swap [OF s(4)] by (simp add: ext_overlap_ordered_def Let_def)
qed

lemma overlap_case_6:
  assumes p: "overlapping_pair ael a bel b avail"
    and "ext_off a \<noteq> ext_off b" "ext_off a + ext_size a = ext_off b + ext_size b"
  shows "\<exists>s. ext_overlap_ordered g ael a bel b avail = Inr s \<and> overlap_effect ael a bel b avail s"
proof -
  note pD = overlapping_pairD [OF p]
  have r: "ext_range b \<subseteq> ext_range a"
    "{ext_off a ..< ext_off a + (ext_size a - ext_size b)} = ext_range a - ext_range b"
    using assms(2,3) pD(7,10) by (auto simp: ext_range_def)
  have "ext_off a \<le> ext_off a" "0 < ext_size a - ext_size b"
    "ext_off a + (ext_size a - ext_size b) \<le> ext_off a + ext_size a"
    "ext_off a = ext_off a \<or> ext_off a = ext_off b + ext_size b"
    using assms(2,3) pD(7,10) by auto
  then obtain ael1 av g' bel' where "block_off_remove ael (ext_off a) = Inr (a, ael1)"
    "block_merge g avail (ext_off b) (ext_size b) = Inr (av, g')"
    "block_off_remove bel (ext_off b) = Inr (b, bel')"
    "overlap_effect ael a bel b avail
      (block_ext_insert ael1 (a\<lparr>ext_off := ext_off a, ext_size := ext_size a - ext_size b\<rparr>),
       Some (a\<lparr>ext_off := ext_off a, ext_size := ext_size a - ext_size b\<rparr>), bel', ext_next bel b, av, g')"
    using overlap_shrink_drop [OF p r(1) _ _ _ r(2)] by metis
  then show ?thesis using assms(2,3) by (simp add: ext_overlap_ordered_def Let_def)
qed

lemma overlap_case_3:
  assumes p: "overlapping_pair ael a bel b avail"
    and "ext_off a \<noteq> ext_off b" "ext_off a + ext_size a < ext_off b + ext_size b"
  shows "\<exists>s. ext_overlap_ordered g ael a bel b avail = Inr s \<and> overlap_effect ael a bel b avail s"
proof -
  note pD = overlapping_pairD [OF p]
  let ?n = "ext_off a + ext_size a - ext_off b"
  let ?a = "a\<lparr>ext_off := ext_off a, ext_size := ext_size a - ?n\<rparr>"
  let ?b = "b\<lparr>ext_off := ext_off b + ?n, ext_size := ext_size b - ?n\<rparr>"
  have n: "0 < ?n" "{ext_off b ..< ext_off b + ?n} = ext_range a \<inter> ext_range b"
    using assms(2,3) pD(7-10) by (auto simp: ext_range_def)
  obtain av g' where av: "block_merge g avail (ext_off b) ?n = Inr (av, g')" "extlist_ok av"
    "el_ranges av = el_ranges avail \<union> ext_range a \<inter> ext_range b"
    using merge_overlap [OF p n] by metis
  have parts: "0 < ext_size a - ?n" "ext_off a + (ext_size a - ?n) \<le> ext_off a + ext_size a"
    "0 < ext_size b - ?n" "ext_off b \<le> ext_off b + ?n"
    "ext_off b + ?n + (ext_size b - ?n) \<le> ext_off b + ext_size b"
    using assms(2,3) pD(7-10) n(1) by auto
  obtain ael1 where a': "block_off_remove ael (ext_off a) = Inr (a, ael1)"
    "extlist_ok (block_ext_insert ael1 ?a)"
    "el_ranges (block_ext_insert ael1 ?a) = (el_ranges ael - ext_range a) \<union> {ext_off a ..< ext_off a + (ext_size a - ?n)}"
    "set (el_off (block_ext_insert ael1 ?a)) = insert ?a (set (el_off ael) - {a})"
    "card (rest_of (block_ext_insert ael1 ?a) (Some ?a)) \<le> card (rest_of ael (Some a))"
    using shrink [OF pD(1,2) parts(1) order.refl parts(2)] by blast
  obtain bel1 where b': "block_off_remove bel (ext_off b) = Inr (b, bel1)"
    "extlist_ok (block_ext_insert bel1 ?b)"
    "el_ranges (block_ext_insert bel1 ?b) = (el_ranges bel - ext_range b) \<union> {ext_off b + ?n ..< ext_off b + ?n + (ext_size b - ?n)}"
    "set (el_off (block_ext_insert bel1 ?b)) = insert ?b (set (el_off bel) - {b})"
    "card (rest_of (block_ext_insert bel1 ?b) (Some ?b)) \<le> card (rest_of bel (Some b))"
    using shrink [OF pD(3,4) parts(3-5)] by blast
  have "{ext_off a ..< ext_off a + (ext_size a - ?n)} = ext_range a - ext_range a \<inter> ext_range b"
    "{ext_off b + ?n ..< ext_off b + ?n + (ext_size b - ?n)} = ext_range b - ext_range a \<inter> ext_range b"
    using assms(2,3) pD(7-10) by (auto simp: ext_range_def)
  then have ranges: "el_ranges (block_ext_insert ael1 ?a) = el_ranges ael - ext_range a \<inter> ext_range b"
    "el_ranges (block_ext_insert bel1 ?b) = el_ranges bel - ext_range a \<inter> ext_range b"
    unfolding a'(3) b'(3) using pD(11,12) by blast+
  let ?s = "(block_ext_insert ael1 ?a, Some ?a, block_ext_insert bel1 ?b, Some ?b, av, g')"
  have "ext_overlap_ordered g ael a bel b avail = Inr ?s"
    using assms(2,3) av(1) a'(1) b'(1) by (simp add: ext_overlap_ordered_def Let_def)
  moreover have "walk_measure ?s < walk_measure (ael, Some a, bel, Some b, avail, g')"
    unfolding measure_pair [OF p] using a'(5) b'(5) pD(8) by (simp add: walk_measure_def pair_overlaps_def)
  moreover have "at_or_behind (Some ?a) S \<and> at_or_behind (Some ?b) S"
    if "S \<subseteq> el_ranges ael - ext_range a \<inter> ext_range b" "S \<subseteq> el_ranges bel - ext_range a \<inter> ext_range b"
      "\<forall>x\<in>S. ext_off a \<le> x \<and> ext_off b \<le> x" for S
    using that assms(3) unfolding n(2) [symmetric] by (fastforce simp: at_or_behind_def)
  ultimately show ?thesis
    using a'(2,4) b'(2,4) av(2,3) ranges by (auto simp: overlap_effect_def pointer_ok_def)
qed

text \<open>Case 5: \<open>b\<close> is in the middle of \<open>a\<close>, which is split in two.\<close>

lemma shrink_split:
  assumes "extlist_ok el" "e \<in> set (el_off el)" "ext_off e < off" "0 < len"
    and "off + len < ext_off e + ext_size e"
  defines "e' \<equiv> e\<lparr>ext_off := ext_off e, ext_size := off - ext_off e\<rparr>"
  obtains el1 el2 g' where "block_off_remove el (ext_off e) = Inr (e, el1)"
    "block_merge g (block_ext_insert el1 e') (off + len) (ext_off e + ext_size e - (off + len)) = Inr (el2, g')"
    "extlist_ok el2" "el_ranges el2 = el_ranges el - {off ..< off + len}" "e' \<in> set (el_off el2)"
    "card (rest_of el2 (Some e')) \<le> Suc (card (rest_of el (Some e)))"
proof -
  have part: "0 < off - ext_off e" "ext_off e + (off - ext_off e) \<le> ext_off e + ext_size e"
    using assms(3-5) by auto
  obtain el1 where el1: "block_off_remove el (ext_off e) = Inr (e, el1)" "extlist_ok (block_ext_insert el1 e')"
    "el_ranges (block_ext_insert el1 e') = (el_ranges el - ext_range e) \<union> {ext_off e ..< ext_off e + (off - ext_off e)}"
    "set (el_off (block_ext_insert el1 e')) = insert e' (set (el_off el) - {e})"
    "card (rest_of (block_ext_insert el1 e') (Some e')) \<le> card (rest_of el (Some e))"
    using shrink [OF assms(1,2) part(1) order.refl part(2)] unfolding e'_def by blast
  let ?t = "ext_off e + ext_size e - (off + len)"
  have gap: "\<forall>m\<in>set (el_off (block_ext_insert el1 e')).
      ext_off m + ext_size m < off + len \<or> off + len + ?t < ext_off m"
  proof
    fix m assume m: "m \<in> set (el_off (block_ext_insert el1 e'))"
    show "ext_off m + ext_size m < off + len \<or> off + len + ?t < ext_off m"
    proof (cases "m = e'")
      case True
      then show ?thesis using assms(4) by (simp add: e'_def)
    next
      case False
      then have "m \<in> set (el_off el) - {e}" using m el1(4) by simp
      from extlist_other_gap [OF assms(1,2) this] show ?thesis using assms(3,4) by linarith
    qed
  qed
  have t: "0 < ?t" using assms(5) by simp
  obtain el2 g' tl where el2: "block_merge g (block_ext_insert el1 e') (off + len) ?t = Inr (el2, g')" "extlist_ok el2"
    "el_ranges el2 = el_ranges (block_ext_insert el1 e') \<union> {off + len ..< off + len + ?t}"
    "set (el_off el2) = insert tl (set (el_off (block_ext_insert el1 e')))"
    using merge_isolated [OF el1(2) t gap, of g] by metis
  have "ext_range e \<subseteq> el_ranges el" using assms(2) by (auto simp: el_ranges_def)
  moreover have "{ext_off e ..< ext_off e + (off - ext_off e)} \<union> {off + len ..< off + len + ?t} =
      ext_range e - {off ..< off + len}" "{off ..< off + len} \<subseteq> ext_range e"
    using assms(3-5) by (auto simp: ext_range_def)
  ultimately have "el_ranges el2 = el_ranges el - {off ..< off + len}"
    unfolding el2(3) el1(3) by blast
  moreover have "rest_of el2 (Some e') \<subseteq> insert tl (rest_of (block_ext_insert el1 e') (Some e'))"
    using el2(4) by (auto simp: rest_of_def)
  then have "card (rest_of el2 (Some e')) \<le> card (insert tl (rest_of (block_ext_insert el1 e') (Some e')))"
    by (intro card_mono) auto
  then have "card (rest_of el2 (Some e')) \<le> Suc (card (rest_of el (Some e)))"
    using el1(5) card_insert_if [OF finite_rest_of, of tl "block_ext_insert el1 e'" "Some e'"]
    by (auto split: if_splits)
  ultimately show thesis using that [OF el1(1) el2(1,2)] el1(4) el2(4) by simp
qed

lemma overlap_case_5:
  assumes p: "overlapping_pair ael a bel b avail"
    and "ext_off a \<noteq> ext_off b" "ext_off b + ext_size b < ext_off a + ext_size a"
  shows "\<exists>s. ext_overlap_ordered g ael a bel b avail = Inr s \<and> overlap_effect ael a bel b avail s"
proof -
  note pD = overlapping_pairD [OF p]
  let ?a = "a\<lparr>ext_off := ext_off a, ext_size := ext_off b - ext_off a\<rparr>"
  have lt: "ext_off a < ext_off b" using assms(2) pD(7) by simp
  have ab: "ext_range a \<inter> ext_range b = ext_range b" using lt assms(3) by (auto simp: ext_range_def)
  obtain ael1 ael2 g1 where a': "block_off_remove ael (ext_off a) = Inr (a, ael1)"
    "block_merge g (block_ext_insert ael1 ?a) (ext_off b + ext_size b)
      (ext_off a + ext_size a - (ext_off b + ext_size b)) = Inr (ael2, g1)"
    "extlist_ok ael2" "el_ranges ael2 = el_ranges ael - {ext_off b ..< ext_off b + ext_size b}"
    "?a \<in> set (el_off ael2)" "card (rest_of ael2 (Some ?a)) \<le> Suc (card (rest_of ael (Some a)))"
    using shrink_split [OF pD(1,2) lt pD(10) assms(3)] by blast
  obtain av g' where av: "block_merge g1 avail (ext_off b) (ext_size b) = Inr (av, g')" "extlist_ok av"
    "el_ranges av = el_ranges avail \<union> ext_range b"
    using merge_overlap [OF p pD(10), of "ext_off b" g1] unfolding ab by (metis ext_range_def)
  obtain bel' where b': "block_off_remove bel (ext_off b) = Inr (b, bel')" "extlist_ok bel'"
    "el_ranges bel' = el_ranges bel - ext_range b" "pointer_ok bel' (ext_next bel b)"
    "card (rest_of bel (Some b)) = Suc (card (rest_of bel' (ext_next bel b)))"
    "\<And>S. S \<subseteq> el_ranges bel' \<Longrightarrow> \<forall>x\<in>S. ext_off b \<le> x \<Longrightarrow> at_or_behind (ext_next bel b) S"
    using drop_next [OF pD(3,4)] by blast
  let ?s = "(ael2, Some ?a, bel', ext_next bel b, av, g')"
  have "ext_overlap_ordered g ael a bel b avail = Inr ?s"
    using assms(2,3) a'(1,2) av(1) b'(1) by (simp add: ext_overlap_ordered_def Let_def)
  moreover have "\<not> pair_overlaps (Some ?a) (ext_next bel b)"
    using ext_next_correct [OF pD(3), of b] by (auto simp: pair_overlaps_def split: option.splits)
  then have "walk_measure ?s < walk_measure (ael, Some a, bel, Some b, avail, g')"
    unfolding measure_pair [OF p] b'(5) using a'(6) by (simp add: walk_measure_def)
  moreover have "at_or_behind (Some ?a) S" if "\<forall>x\<in>S. ext_off a \<le> x \<and> ext_off b \<le> x" for S
    using that by (simp add: at_or_behind_def)
  moreover have "pointer_ok ael2 (Some ?a)" using a'(5) by (simp add: pointer_ok_def)
  moreover have "el_ranges ael2 = el_ranges ael - ext_range b" using a'(4) by (simp add: ext_range_def)
  ultimately show ?thesis
    using a'(3) b'(2-4,6) av(2,3) ab by (simp add: overlap_effect_def)
qed

lemma ext_overlap_ordered_ok:
  assumes p: "overlapping_pair ael a bel b avail"
  shows "\<exists>s. ext_overlap_ordered g ael a bel b avail = Inr s \<and> overlap_effect ael a bel b avail s"
proof -
  consider "ext_off a = ext_off b" "ext_size a = ext_size b"
    | "ext_off a = ext_off b" "ext_size b < ext_size a"
    | "ext_off a = ext_off b" "ext_size a < ext_size b"
    | "ext_off a \<noteq> ext_off b" "ext_off a + ext_size a = ext_off b + ext_size b"
    | "ext_off a \<noteq> ext_off b" "ext_off a + ext_size a < ext_off b + ext_size b"
    | "ext_off a \<noteq> ext_off b" "ext_off b + ext_size b < ext_off a + ext_size a" by linarith
  then show ?thesis
    by cases (blast intro: overlap_case_1 [OF p] overlap_case_4 [OF p] overlap_case_9 [OF p]
        overlap_case_6 [OF p] overlap_case_3 [OF p] overlap_case_5 [OF p])+
qed

lemma block_ext_overlap_ok:
  assumes "extlist_ok ael" "a \<in> set (el_off ael)" "extlist_ok bel" "b \<in> set (el_off bel)"
    and "extlist_ok avail" "ext_range a \<inter> ext_range b \<inter> el_ranges avail = {}"
    and "\<not> ext_off a + ext_size a \<le> ext_off b" "\<not> ext_off b + ext_size b \<le> ext_off a"
  shows "\<exists>s. block_ext_overlap g ael a bel b avail = Inr s \<and> overlap_effect ael a bel b avail s"
proof (cases "ext_off b < ext_off a")
  case True
  have "overlapping_pair bel b ael a avail"
    using assms True by (simp add: overlapping_pair_def Int_commute)
  then obtain bel' bp ael' ap av g' where "ext_overlap_ordered g bel b ael a avail = Inr (bel', bp, ael', ap, av, g')"
    "overlap_effect bel b ael a avail (bel', bp, ael', ap, av, g')"
    using ext_overlap_ordered_ok [of bel b ael a avail g] by (metis prod_cases6)
  then show ?thesis using True overlap_effect_swap by (simp add: block_ext_overlap_def)
next
  case False
  have "overlapping_pair ael a bel b avail" using assms False by (simp add: overlapping_pair_def)
  then show ?thesis using ext_overlap_ordered_ok False by (simp add: block_ext_overlap_def)
qed

lemma walk_okD:
  assumes "walk_ok A B V (ael, ap, bel, bp, avail, g)"
  shows "extlist_ok ael" "extlist_ok bel" "extlist_ok avail" "pointer_ok ael ap" "pointer_ok bel bp"
    "at_or_behind ap (el_ranges ael \<inter> el_ranges bel)" "at_or_behind bp (el_ranges ael \<inter> el_ranges bel)"
    "\<exists>M. M \<inter> V = {} \<and> M \<inter> el_ranges ael = {} \<and> M \<inter> el_ranges bel = {} \<and>
        A = el_ranges ael \<union> M \<and> B = el_ranges bel \<union> M \<and> el_ranges avail = V \<union> M"
  using assms by (auto simp: walk_ok_def)

lemma walk_advance:
  assumes w: "walk_ok A B V (ael, Some a, bel, Some b, avail, g)"
    and "ext_off a + ext_size a \<le> ext_off b"
  shows "walk_ok A B V (ael, ext_next ael a, bel, Some b, avail, g)"
    and "walk_measure (ael, ext_next ael a, bel, Some b, avail, g) <
      walk_measure (ael, Some a, bel, Some b, avail, g)"
proof -
  note wD = walk_okD [OF w]
  have a: "a \<in> set (el_off ael)" using wD(4) by (simp add: pointer_ok_def)
  note nx = rest_of_next [OF wD(1) a]
  have "ext_off b \<le> x" if "x \<in> el_ranges ael \<inter> el_ranges bel" for x
    using wD(7) that by (simp add: at_or_behind_def)
  then have past: "ext_off a + ext_size a \<le> x" if "x \<in> el_ranges ael \<inter> el_ranges bel" for x
    using assms(2) that by fastforce
  have "at_or_behind (ext_next ael a) (el_ranges ael \<inter> el_ranges bel)"
  proof (rule behind_next [OF wD(1) a])
    show "el_ranges ael \<inter> el_ranges bel \<subseteq> el_ranges ael - ext_range a"
    proof
      fix x assume x: "x \<in> el_ranges ael \<inter> el_ranges bel"
      then show "x \<in> el_ranges ael - ext_range a" using past [OF x] by (simp add: ext_range_def)
    qed
    show "\<forall>x\<in>el_ranges ael \<inter> el_ranges bel. ext_off a \<le> x"
      using past extlist_okD(6) [OF wD(1) a] by fastforce
  qed
  then show "walk_ok A B V (ael, ext_next ael a, bel, Some b, avail, g)"
    using wD nx(3) by (simp add: walk_ok_def)
  show "walk_measure (ael, ext_next ael a, bel, Some b, avail, g) <
      walk_measure (ael, Some a, bel, Some b, avail, g)"
    using nx(2) by (simp add: walk_measure_def)
qed

lemma walk_ok_swap: "walk_ok A B V (ael, ap, bel, bp, avail, g) \<Longrightarrow> walk_ok B A V (bel, bp, ael, ap, avail, g)"
  unfolding walk_ok_def prod.case by (metis Int_commute)

lemma walk_overlap:
  assumes w: "walk_ok A B V (ael, Some a, bel, Some b, avail, g)" and V: "A \<inter> B \<inter> V = {}"
    and "\<not> ext_off a + ext_size a \<le> ext_off b" "\<not> ext_off b + ext_size b \<le> ext_off a"
  obtains s where "block_ext_overlap g ael a bel b avail = Inr s" "walk_ok A B V s"
    "walk_measure s < walk_measure (ael, Some a, bel, Some b, avail, g)"
proof -
  note wD = walk_okD [OF w]
  have ab: "a \<in> set (el_off ael)" "b \<in> set (el_off bel)" using wD(4,5) by (simp_all add: pointer_ok_def)
  then have sub: "ext_range a \<subseteq> el_ranges ael" "ext_range b \<subseteq> el_ranges bel" by (auto simp: el_ranges_def)
  obtain M where M: "M \<inter> V = {}" "M \<inter> el_ranges ael = {}" "M \<inter> el_ranges bel = {}"
    "A = el_ranges ael \<union> M" "B = el_ranges bel \<union> M" "el_ranges avail = V \<union> M" using wD(8) by blast
  let ?O = "ext_range a \<inter> ext_range b"
  have O: "?O \<inter> el_ranges avail = {}" using sub V M by blast
  obtain ael' ap bel' bp av g' where s: "block_ext_overlap g ael a bel b avail = Inr (ael', ap, bel', bp, av, g')"
    "overlap_effect ael a bel b avail (ael', ap, bel', bp, av, g')"
    using block_ext_overlap_ok [OF wD(1) ab(1) wD(2) ab(2) wD(3) O assms(3,4), of g] by (metis prod_cases6)
  have e: "extlist_ok ael'" "extlist_ok bel'" "extlist_ok av" "el_ranges ael' = el_ranges ael - ?O"
    "el_ranges bel' = el_ranges bel - ?O" "el_ranges av = el_ranges avail \<union> ?O" "pointer_ok ael' ap"
    "pointer_ok bel' bp" "walk_measure (ael', ap, bel', bp, av, g') < walk_measure (ael, Some a, bel, Some b, avail, g')"
    using s(2) unfolding overlap_effect_def prod.case by blast+
  have behind: "\<And>S. S \<subseteq> el_ranges ael' \<Longrightarrow> S \<subseteq> el_ranges bel' \<Longrightarrow>
      \<forall>x\<in>S. ext_off a \<le> x \<and> ext_off b \<le> x \<Longrightarrow> at_or_behind ap S \<and> at_or_behind bp S"
    using s(2) unfolding overlap_effect_def prod.case by blast
  have "\<forall>x\<in>el_ranges ael \<inter> el_ranges bel. ext_off a \<le> x \<and> ext_off b \<le> x"
    using wD(6,7) by (simp add: at_or_behind_def)
  then have "at_or_behind ap (el_ranges ael' \<inter> el_ranges bel') \<and> at_or_behind bp (el_ranges ael' \<inter> el_ranges bel')"
    using e(4,5) by (intro behind) blast+
  moreover have "(M \<union> ?O) \<inter> V = {}" "(M \<union> ?O) \<inter> el_ranges ael' = {}" "(M \<union> ?O) \<inter> el_ranges bel' = {}"
    "A = el_ranges ael' \<union> (M \<union> ?O)" "B = el_ranges bel' \<union> (M \<union> ?O)" "el_ranges av = V \<union> (M \<union> ?O)"
    using M e(4-6) sub O by blast+
  ultimately have "walk_ok A B V (ael', ap, bel', bp, av, g')"
    unfolding walk_ok_def prod.case using e(1-3,7,8) by blast
  moreover have "walk_measure (ael, Some a, bel, Some b, avail, g') = walk_measure (ael, Some a, bel, Some b, avail, g)"
    by (simp add: walk_measure_def)
  ultimately show thesis using that [OF s(1)] e(9) by simp
qed

lemma extlist_overlap_loop_ok:
  assumes "walk_ok A B V s" "A \<inter> B \<inter> V = {}" "walk_measure s < fuel"
  shows "\<exists>ael bel avail g. extlist_overlap_loop fuel s = Some (Inr (ael, bel, avail, g)) \<and>
    extlist_ok ael \<and> extlist_ok bel \<and> extlist_ok avail \<and>
    el_ranges ael = A - B \<and> el_ranges bel = B - A \<and> el_ranges avail = V \<union> (A \<inter> B)"
  using assms(1,3)
proof (induction fuel arbitrary: s)
  case (Suc n)
  obtain ael ap bel bp avail g where s: "s = (ael, ap, bel, bp, avail, g)" by (metis prod_cases6)
  note wD = walk_okD [OF Suc.prems(1) [unfolded s]]
  show ?case
  proof (cases "ap = None \<or> bp = None")
    case True
    then have "el_ranges ael \<inter> el_ranges bel = {}" using wD(6,7) by (auto simp: at_or_behind_def)
    then have "el_ranges ael = A - B \<and> el_ranges bel = B - A \<and> el_ranges avail = V \<union> (A \<inter> B)"
      using wD(8) by blast
    then show ?thesis using True wD(1-3) by (cases ap; cases bp) (auto simp: s)
  next
    case False
    then obtain a b where ab: "ap = Some a" "bp = Some b" by (cases ap; cases bp) auto
    note w = Suc.prems(1) [unfolded s ab]
    consider "ext_off a + ext_size a \<le> ext_off b"
      | "\<not> ext_off a + ext_size a \<le> ext_off b" "ext_off b + ext_size b \<le> ext_off a"
      | "\<not> ext_off a + ext_size a \<le> ext_off b" "\<not> ext_off b + ext_size b \<le> ext_off a" by blast
    then show ?thesis
    proof cases
      case 1
      note adv = walk_advance [OF w 1]
      have "walk_measure (ael, ext_next ael a, bel, Some b, avail, g) < n"
        using adv(2) Suc.prems(2) by (simp add: s ab)
      then show ?thesis using Suc.IH [OF adv(1)] 1 by (simp add: s ab)
    next
      case 2
      note adv = walk_advance [OF walk_ok_swap [OF w] 2(2)]
      have "walk_measure (ael, Some a, bel, ext_next bel b, avail, g) < n"
        using adv(2) Suc.prems(2) walk_measure_swap by (simp add: s ab)
      then show ?thesis using Suc.IH [OF walk_ok_swap [OF adv(1)]] 2 by (simp add: s ab)
    next
      case 3
      obtain s' where s': "block_ext_overlap g ael a bel b avail = Inr s'" "walk_ok A B V s'"
        "walk_measure s' < walk_measure (ael, Some a, bel, Some b, avail, g)"
        using walk_overlap [OF w assms(2) 3] by blast
      then have "walk_measure s' < n" using Suc.prems(2) by (simp add: s ab)
      then show ?thesis using Suc.IH [OF s'(2)] 3 s'(1) by (simp add: s ab)
    qed
  qed
qed simp

lemma extlist_overlap_ok:
  assumes "extlist_ok alloc" "extlist_ok discard" "extlist_ok av"
    and "el_ranges alloc \<inter> el_ranges discard \<inter> el_ranges av = {}"
  shows "\<exists>alloc' discard' av' g'.
    wt_block_extlist_overlap g alloc discard av = Some (Inr (alloc', discard', av', g')) \<and>
    extlist_ok alloc' \<and> extlist_ok discard' \<and> extlist_ok av' \<and>
    el_ranges alloc' = el_ranges alloc - el_ranges discard \<and>
    el_ranges discard' = el_ranges discard - el_ranges alloc \<and>
    el_ranges av' = el_ranges av \<union> (el_ranges alloc \<inter> el_ranges discard)"
proof -
  let ?s = "(alloc, extlist_first alloc, discard, extlist_first discard, av, g)"
  have first: "pointer_ok el (extlist_first el)" "at_or_behind (extlist_first el) (el_ranges el \<inter> S)"
    "card (rest_of el (extlist_first el)) \<le> length (el_off el)" if el: "extlist_ok el" for el S
  proof -
    show "pointer_ok el (extlist_first el)"
      by (auto simp: pointer_ok_def extlist_first_def split: list.splits)
    show "at_or_behind (extlist_first el) (el_ranges el \<inter> S)"
      using extlist_okD(2) [OF el]
      by (fastforce simp: at_or_behind_def extlist_first_def el_ranges_def ext_range_def skip_sorted_def
          split: list.splits)
    have "rest_of el (extlist_first el) \<subseteq> set (el_off el)" by (auto simp: rest_of_def split: option.splits)
    then show "card (rest_of el (extlist_first el)) \<le> length (el_off el)"
      using card_length [of "el_off el"] card_mono [of "set (el_off el)"] by (meson List.finite_set order_trans)
  qed
  have "walk_ok (el_ranges alloc) (el_ranges discard) (el_ranges av) ?s"
    using first [OF assms(1)] first [OF assms(2)] assms(1-3)
    by (auto simp: walk_ok_def Int_commute intro: exI [of _ "{}"])
  moreover have "walk_measure ?s \<le> 2 * (length (el_off alloc) + length (el_off discard)) + 1"
    using first(3) [OF assms(1)] first(3) [OF assms(2)] by (simp add: walk_measure_def)
  then have "walk_measure ?s < overlap_fuel alloc discard"
    by (simp add: overlap_fuel_def)
  ultimately show ?thesis
    using extlist_overlap_loop_ok [OF _ assms(4)] by (simp add: wt_block_extlist_overlap_def)
qed

section \<open>Properties of the allocator\<close>

definition sample_block :: wt_block where
  "sample_block = \<lparr>blk_file_size = 8192, blk_allocsize = 512, blk_checksum = True,
     blk_live = ckpt_zero\<lparr>ck_avail := sample_extlist\<rparr>, blk_live_load = True, blk_rng = rng_init\<rparr>"

lemma sample_block_ok: "block_ok sample_block"
  using sample_extlist_ok extlist_zero_ok
  by (simp add: sample_block_def ckpt_zero_def block_ok_def lists_ok_def sample_extlist_ranges
      extlist_zero_ranges WT_BLOCK_DESC_SECTOR_def INT64_MAX_def)

text \<open>
  C14: allocation is best fit, then lowest offset. If some available extent is large enough, the
  block is the front of the extent of the smallest sufficient size with the lowest offset
  and leaves the available list; otherwise the file grows at its end, unless it would
  exceed the largest file size. In both cases exactly the new block is added to the allocated
  list, nothing else changes, and the lists stay well formed, disjoint and inside the file.
\<close>

theorem block_alloc_spec:
  assumes "block_ok block" "0 < len" "len mod uint (blk_allocsize block) = 0"
  shows "(\<exists>e block'. best_fit (set (el_off (ck_avail (blk_live block)))) len e \<and>
      wt_block_alloc block len = Inr (ext_off e, block') \<and> block_ok block' \<and>
      alloc_of block' = alloc_of block \<union> {ext_off e ..< ext_off e + len} \<and>
      avail_of block' = avail_of block - {ext_off e ..< ext_off e + len} \<and>
      discard_of block' = discard_of block \<and> blk_file_size block' = blk_file_size block) \<or>
    (\<forall>x\<in>set (el_off (ck_avail (blk_live block))). ext_size x < len) \<and>
    (if INT64_MAX - len < blk_file_size block then wt_block_alloc block len = Inl WT_ERROR
     else \<exists>block'. wt_block_alloc block len = Inr (blk_file_size block, block') \<and> block_ok block' \<and>
      alloc_of block' = alloc_of block \<union> {blk_file_size block ..< blk_file_size block + len} \<and>
      avail_of block' = avail_of block \<and> discard_of block' = discard_of block \<and>
      blk_file_size block' = blk_file_size block + len)"
proof (cases rule: alloc_cases [OF assms])
  case (2 block')
  then have "blk_file_size block' \<le> INT64_MAX" using block_okD(13) by blast
  then show ?thesis using 2 by auto
qed (auto simp: Ball_def)

theorem block_alloc_spec_witness:
  "\<exists>block'. wt_block_alloc sample_block 512 = Inr (4096, block') \<and> block_ok block' \<and>
     avail_of block' = {512 ..< 1536} \<and> alloc_of block' = {4096 ..< 4608}"
proof -
  have avail: "el_off (ck_avail (blk_live sample_block)) =
      [\<lparr>ext_off = 512, ext_size = 1024, ext_depth = 1\<rparr>, \<lparr>ext_off = 4096, ext_size = 512, ext_depth = 2\<rparr>]"
    by (simp add: sample_block_def sample_extlist_def Let_def)
  have sets: "alloc_of sample_block = {}" "avail_of sample_block = {512 ..< 1536} \<union> {4096 ..< 4608}"
    by (simp_all add: sample_block_def ckpt_zero_def extlist_zero_ranges sample_extlist_ranges)
  have "{512 ..< 1536} \<union> {4096 ..< 4608} - {4096 ..< 4608} = ({512 ..< 1536} :: int set)" by auto
  moreover have "512 mod uint (blk_allocsize sample_block) = 0" by (simp add: sample_block_def)
  note block_alloc_spec [OF sample_block_ok _ this]
  then obtain e block' where e: "best_fit (set (el_off (ck_avail (blk_live sample_block)))) 512 e"
    "wt_block_alloc sample_block 512 = Inr (ext_off e, block')" "block_ok block'"
    "alloc_of block' = alloc_of sample_block \<union> {ext_off e ..< ext_off e + 512}"
    "avail_of block' = avail_of sample_block - {ext_off e ..< ext_off e + 512}"
    unfolding avail by auto
  moreover have "ext_off e = 4096" using e(1) unfolding avail by (auto simp: best_fit_def)
  ultimately show ?thesis using sets by simp
qed

text \<open>
  C15: freeing a block that its owner holds succeeds. If it was allocated since the last checkpoint
  it leaves the allocated list and is available at once; otherwise it goes to the discard
  list and the available list does not change. The lists stay well formed, disjoint and
  inside the file.
\<close>

theorem block_off_free_spec:
  assumes "block_ok block" "freeable block off len"
  shows "\<exists>block'. wt_block_off_free block off len = Inr block' \<and> block_ok block' \<and>
    (if {off ..< off + len} \<subseteq> alloc_of block
     then alloc_of block' = alloc_of block - {off ..< off + len} \<and>
       avail_of block' = avail_of block \<union> {off ..< off + len} \<and> discard_of block' = discard_of block
     else alloc_of block' = alloc_of block \<and> avail_of block' = avail_of block \<and>
       discard_of block' = discard_of block \<union> {off ..< off + len})"
proof (cases rule: off_free_cases [OF assms])
  case (2 block')
  have "off \<in> {off ..< off + len}" using assms(2) by (simp add: freeable_def)
  then have "\<not> {off ..< off + len} \<subseteq> alloc_of block" using 2(3) by blast
  then show ?thesis using 2 by auto
qed auto

theorem block_off_free_spec_witness:
  "\<exists>block'. wt_block_off_free sample_block 2048 512 = Inr block' \<and> block_ok block' \<and>
     discard_of block' = {2048 ..< 2560}"
proof -
  have sets: "alloc_of sample_block = {}" "avail_of sample_block = {512 ..< 1536} \<union> {4096 ..< 4608}"
    "discard_of sample_block = {}" "ckpt_avail_of sample_block = {}" "blk_file_size sample_block = 8192"
    by (simp_all add: sample_block_def ckpt_zero_def extlist_zero_ranges sample_extlist_ranges)
  have "freeable sample_block 2048 512"
    unfolding freeable_def sets WT_BLOCK_DESC_SECTOR_def by auto
  from block_off_free_spec [OF sample_block_ok this] show ?thesis unfolding sets by auto
qed

text \<open>
  C3: in every sequence of allocations and frees of held blocks, starting from a consistent
  allocator, two blocks that are held at the same time never share a byte, no held block
  has a byte on the available or discard list, every held block lies inside the file, and
  the next free of a held block succeeds.
\<close>

theorem alloc_run_safe:
  assumes "alloc_run block0 held0 block held" "held_ok block0 held0"
  shows "block_ok block \<and>
    (\<forall>h\<in>held. range_of h \<inter> (avail_of block \<union> discard_of block) = {} \<and> range_of h \<subseteq> file_of block \<and>
       (\<exists>block'. wt_block_off_free block (fst h) (snd h) = Inr block')) \<and>
    (\<forall>h\<in>held. \<forall>h'\<in>held. h \<noteq> h' \<longrightarrow> range_of h \<inter> range_of h' = {})"
proof -
  have ok: "held_ok block held" by (rule alloc_run_held_ok [OF assms])
  have "range_of h \<inter> (avail_of block \<union> discard_of block) = {} \<and> range_of h \<subseteq> file_of block \<and>
      (\<exists>block'. wt_block_off_free block (fst h) (snd h) = Inr block')" if "h \<in> held" for h
  proof -
    have "(fst h, snd h) \<in> held" using that by simp
    then have "\<exists>block'. wt_block_off_free block (fst h) (snd h) = Inr block'"
      using held_ok_free [OF ok] by metis
    then show ?thesis using held_okD(2,3) [OF ok that] by blast
  qed
  then show ?thesis using ok unfolding held_ok_def by blast
qed

theorem alloc_run_safe_witness:
  "\<exists>block1 block2 off1 off2.
     wt_block_alloc sample_block 512 = Inr (off1, block1) \<and> wt_block_alloc block1 1024 = Inr (off2, block2) \<and>
     range_of (off1, 512) \<inter> range_of (off2, 1024) = {} \<and>
     (\<exists>block3. wt_block_off_free block2 off1 512 = Inr block3)"
proof -
  have a: "blk_allocsize sample_block = 512" "blk_file_size sample_block = 8192" by (simp_all add: sample_block_def)
  obtain off1 block1 where 1: "wt_block_alloc sample_block 512 = Inr (off1, block1)" "block_ok block1"
    "blk_allocsize block1 = 512" "blk_file_size block1 \<le> 8704"
    by (rule alloc_cases [OF sample_block_ok, of 512]) (auto simp: a INT64_MAX_def)
  obtain off2 block2 where 2: "wt_block_alloc block1 1024 = Inr (off2, block2)"
    by (rule alloc_cases [OF 1(2), of 1024]) (use 1(3,4) in \<open>auto simp: INT64_MAX_def\<close>)
  have "alloc_run sample_block {} block1 {(off1, 512)}"
    using run_alloc [OF run_start, of 512 sample_block off1 block1 "{}"] 1(1) by simp
  then have "alloc_run sample_block {} block2 {(off2, 1024), (off1, 512)}"
    using run_alloc [of sample_block "{}" block1 "{(off1, 512)}" 1024 off2 block2] 2 by simp
  moreover have "held_ok sample_block {}" using sample_block_ok by (simp add: held_ok_def)
  ultimately show ?thesis using alloc_run_safe 1(1) 2 by fastforce
qed

text \<open>
  C17: reconciling the alloc and discard lists of a checkpoint terminates within the fuel given,
  and moves exactly the bytes on both lists to the checkpoint-available list: afterwards the
  two lists are disjoint, and all three are well formed.
\<close>

theorem block_extlist_overlap_spec:
  assumes "extlist_ok alloc" "extlist_ok discard" "extlist_ok av"
    and "el_ranges alloc \<inter> el_ranges discard \<inter> el_ranges av = {}"
  shows "\<exists>alloc' discard' av' g'.
    wt_block_extlist_overlap g alloc discard av = Some (Inr (alloc', discard', av', g')) \<and>
    extlist_ok alloc' \<and> extlist_ok discard' \<and> extlist_ok av' \<and>
    el_ranges alloc' = el_ranges alloc - el_ranges discard \<and>
    el_ranges discard' = el_ranges discard - el_ranges alloc \<and>
    el_ranges av' = el_ranges av \<union> (el_ranges alloc \<inter> el_ranges discard)"
  by (rule extlist_overlap_ok [OF assms])

theorem block_extlist_overlap_spec_witness:
  "\<exists>alloc' discard' av' g'.
     wt_block_extlist_overlap rng_init sample_extlist sample_extlist extlist_zero =
       Some (Inr (alloc', discard', av', g')) \<and>
     el_ranges alloc' = {} \<and> el_ranges discard' = {} \<and>
     el_ranges av' = {512 ..< 1536} \<union> {4096 ..< 4608}"
  using block_extlist_overlap_spec [OF sample_extlist_ok sample_extlist_ok extlist_zero_ok, of rng_init]
  by (auto simp: extlist_zero_ranges sample_extlist_ranges)

text \<open>
  The diagnostic check complains about a block exactly when one of its bytes is on the live
  available list or the live discard list.
\<close>

theorem block_misplaced_spec:
  assumes "lists_ok block" "len \<noteq> 0"
  shows "wt_block_misplaced block offset len =
    (if {offset ..< offset + uint len} \<inter> (avail_of block \<union> discard_of block) = {} then Inr () else Inl WT_ERROR)"
proof -
  have len: "0 < uint len" using assms(2) by (simp add: word_neq_0_conv word_less_def)
  show ?thesis
    using block_off_match_iff [OF _ len] assms(1)
    by (simp add: wt_block_misplaced_def lists_ok_def Int_Un_distrib)
qed

theorem block_misplaced_spec_witness:
  "wt_block_misplaced sample_block 1024 512 = Inl WT_ERROR \<and> wt_block_misplaced sample_block 2048 512 = Inr ()"
proof -
  have ok: "lists_ok sample_block" using sample_block_ok by (simp add: block_ok_def)
  have sets: "avail_of sample_block = {512 ..< 1536} \<union> {4096 ..< 4608}" "discard_of sample_block = {}"
    by (simp_all add: sample_block_def ckpt_zero_def extlist_zero_ranges sample_extlist_ranges)
  have "1024 \<in> {1024 ..< 1536} \<inter> ({512 ..< 1536} \<union> {4096 ..< 4608} :: int set)" by auto
  then have "{1024 ..< 1536} \<inter> ({512 ..< 1536} \<union> {4096 ..< 4608}) \<noteq> ({} :: int set)" by blast
  moreover have "{2048 ..< 2560} \<inter> ({512 ..< 1536} \<union> {4096 ..< 4608}) = ({} :: int set)" by auto
  ultimately show ?thesis
    using block_misplaced_spec [OF ok, of 512 1024] block_misplaced_spec [OF ok, of 512 2048] by (simp add: sets)
qed

end
