(* ===== verification/Wt_Block_IO.thy ===== *)
theory Wt_Block_IO
  imports Wt_Bytes Wt_Cksum Wt_Block
begin

text \<open>
  Reading and writing blocks (\<open>src/src/block/block_write.c\<close>, \<open>src/src/block/block_read.c\<close>,
  \<open>src/src/os_posix/os_rw.c\<close>) and the on-disk form of the extent lists
  (\<open>src/src/block/block_ext.c\<close>): the page and block headers, alignment, compression, checksums,
  and the file. A page image is a list of bytes. The functions are those of a build without
  \<open>HAVE_DIAGNOSTIC\<close>.
\<close>

section \<open>The environment\<close>

text \<open>
  The compressor is an extension that is loaded at run time, and \<open>pread\<close> and \<open>pwrite\<close> are system
  calls: both are parameters. \<open>comp_compress src n\<close> gives the compressed bytes, for a
  destination of \<open>n\<close> bytes, and the flag \<open>compression_failed\<close>. \<open>io_pwrite\<close> gives the file and the
  count it returns, \<open>io_pread\<close> the bytes that it read, and \<open>io_errno\<close> what \<open>__wt_errno\<close> reports
  after a failed call; \<open>io_ftruncate\<close> gives the file or the error.
\<close>

record wt_compressor =
  comp_pre_size :: "(bytes \<Rightarrow> nat result) option"
  comp_compress :: "bytes \<Rightarrow> nat \<Rightarrow> (bytes \<times> bool) result"
  comp_decompress :: "bytes \<Rightarrow> nat \<Rightarrow> bytes result"

record wt_io =
  io_be :: bool
  io_compressor :: "wt_compressor option"
  io_pwrite :: "bytes \<Rightarrow> int \<Rightarrow> bytes \<Rightarrow> bytes \<times> int"
  io_pread :: "bytes \<Rightarrow> int \<Rightarrow> nat \<Rightarrow> bytes"
  io_errno :: wt_error
  io_ftruncate :: "bytes \<Rightarrow> int \<Rightarrow> bytes result"

definition wt_read :: "wt_io \<Rightarrow> bytes \<Rightarrow> int \<Rightarrow> u32 \<Rightarrow> bytes result" where
  "wt_read io file offset n =
     (let bs = io_pread io file offset (unat n) in
      if length bs = unat n then Inr bs else Inl (io_errno io))"

definition wt_write :: "wt_io \<Rightarrow> bytes \<Rightarrow> int \<Rightarrow> bytes \<Rightarrow> bytes \<times> unit result" where
  "wt_write io file offset buf =
     (case io_pwrite io file offset buf of
        (file, n) \<Rightarrow> (file, if n = int (length buf) then Inr () else Inl (io_errno io)))"

section \<open>Headers\<close>

definition WT_PAGE_HEADER_SIZE :: nat where "WT_PAGE_HEADER_SIZE = 20"
definition WT_BLOCK_HEADER_SIZE :: nat where "WT_BLOCK_HEADER_SIZE = 16"

definition WT_BLOCK_HEADER_BYTE_SIZE :: nat where
  "WT_BLOCK_HEADER_BYTE_SIZE = WT_PAGE_HEADER_SIZE + WT_BLOCK_HEADER_SIZE"

definition WT_BLOCK_COMPRESS_SKIP :: nat where "WT_BLOCK_COMPRESS_SKIP = 64"
definition WT_BLOCK_CHECKSUM_NOT_SET :: u32 where "WT_BLOCK_CHECKSUM_NOT_SET = 0xA5C35A3C"
definition WT_PAGE_BLOCK_MANAGER :: u8 where "WT_PAGE_BLOCK_MANAGER = 1"

definition WT_ALIGN :: "u32 \<Rightarrow> u32 \<Rightarrow> u32" where
  "WT_ALIGN n v = ucast ((ucast n + ucast (v - 1) :: u64) AND NOT (ucast v - 1))"

text \<open>The fields \<open>size\<close> of \<open>WT_PAGE_HEADER\<close> and \<open>write_gen\<close>, \<open>disk_size\<close>, \<open>cksum\<close> of \<open>WT_BLOCK_HEADER\<close>.\<close>

definition dsk_size :: "bool \<Rightarrow> bytes \<Rightarrow> u32" where
  "dsk_size be img = from_bytes be (get_at 8 4 img)"

definition set_dsk_size :: "bool \<Rightarrow> u32 \<Rightarrow> bytes \<Rightarrow> bytes" where
  "set_dsk_size be v img = put_at 8 (to_bytes be 4 v) img"

definition blk_disk_size :: "bool \<Rightarrow> bytes \<Rightarrow> u32" where
  "blk_disk_size be img = from_bytes be (get_at (WT_PAGE_HEADER_SIZE + 8) 4 img)"

definition blk_cksum :: "bool \<Rightarrow> bytes \<Rightarrow> u32" where
  "blk_cksum be img = from_bytes be (get_at (WT_PAGE_HEADER_SIZE + 12) 4 img)"

definition set_write_gen :: "bool \<Rightarrow> u64 \<Rightarrow> bytes \<Rightarrow> bytes" where
  "set_write_gen be v img = put_at WT_PAGE_HEADER_SIZE (to_bytes be 8 v) img"

definition set_disk_size :: "bool \<Rightarrow> u32 \<Rightarrow> bytes \<Rightarrow> bytes" where
  "set_disk_size be v img = put_at (WT_PAGE_HEADER_SIZE + 8) (to_bytes be 4 v) img"

definition set_cksum :: "bool \<Rightarrow> u32 \<Rightarrow> bytes \<Rightarrow> bytes" where
  "set_cksum be v img = put_at (WT_PAGE_HEADER_SIZE + 12) (to_bytes be 4 v) img"

text \<open>
  The checksum of an image with a cleared checksum field, moved away from the value that
  means no checksum. \<open>mem\<close> is the address of the image.
\<close>

definition image_cksum :: "bool \<Rightarrow> u64 \<Rightarrow> bytes \<Rightarrow> u32" where
  "image_cksum be mem img =
     (let c = wt_cksum be mem (set_cksum be 0 img)
      in if c = WT_BLOCK_CHECKSUM_NOT_SET then c + 1 else c)"

section \<open>Writing a block\<close>

definition wt_block_header :: nat where
  "wt_block_header = WT_BLOCK_HEADER_SIZE"

definition wt_block_write_size :: "wt_block \<Rightarrow> u32 \<Rightarrow> u32" where
  "wt_block_write_size block n = WT_ALIGN (n + of_nat WT_BLOCK_HEADER_BYTE_SIZE) (blk_allocsize block)"

text \<open>The image to write, if compression is worth it; \<open>None\<close> is the label \<open>not_compressed\<close>.\<close>

definition block_compress :: "wt_io \<Rightarrow> u32 \<Rightarrow> bytes \<Rightarrow> u32 \<Rightarrow> (bytes \<times> u32) option result" where
  "block_compress io allocsize buf align_size =
     (case io_compressor io of
        None \<Rightarrow> Inr None
      | Some c \<Rightarrow>
          if align_size = allocsize then Inr None
          else
            (let src = drop WT_BLOCK_COMPRESS_SKIP buf in
             wt_ret (case comp_pre_size c of None \<Rightarrow> Inr (length src) | Some f \<Rightarrow> f src) (\<lambda>len.
             wt_ret (comp_compress c src len) (\<lambda>(out, compression_failed).
               if compression_failed then Inr None
               else
                 (let tmp_size = of_nat (length out) + of_nat WT_BLOCK_COMPRESS_SKIP :: u32;
                      sz = WT_ALIGN tmp_size allocsize
                  in if align_size \<le> sz then Inr None
                     else Inr (Some (take WT_BLOCK_COMPRESS_SKIP buf @ out @
                            replicate (unat (sz - tmp_size)) 0, sz)))))))"

text \<open>The header fields of the image: write generation, size on disk, checksum.\<close>

definition block_seal :: "wt_io \<Rightarrow> u64 \<Rightarrow> wt_block \<Rightarrow> u32 \<Rightarrow> bytes \<Rightarrow> bytes" where
  "block_seal io mem block align_size img =
     (let be = io_be io;
          img = set_write_gen be (ck_write_gen (blk_live block)) img;
          img = set_disk_size be align_size img
      in set_cksum be (if blk_checksum block then image_cksum be mem img else WT_BLOCK_CHECKSUM_NOT_SET) img)"

text \<open>
  \<open>buf\<close> is the first \<open>buf->size\<close> bytes of the caller's buffer, and \<open>memsize\<close> the size of its memory.
  The result is the block, the file and the buffer afterwards, and the error or the offset, size
  and checksum. If the allocation fails nothing is written; if the write fails the space is
  freed again, and an error of that is ignored.
\<close>

definition wt_block_write_off ::
  "wt_io \<Rightarrow> u64 \<Rightarrow> wt_block \<Rightarrow> bytes \<Rightarrow> bytes \<Rightarrow> nat \<Rightarrow>
     wt_block \<times> bytes \<times> bytes \<times> (int \<times> u32 \<times> u32) result" where
  "wt_block_write_off io mem block file buf memsize =
     (let be = io_be io;
          buf = set_dsk_size be (of_nat (length buf)) buf;
          align_size = WT_ALIGN (of_nat (length buf)) (blk_allocsize block)
      in if memsize < unat align_size then (block, file, buf, Inl EINVAL)
      else case block_compress io (blk_allocsize block) buf align_size of
        Inl e \<Rightarrow> (block, file, buf, Inl e)
      | Inr compressed \<Rightarrow>
          (let (img, align_size) = (case compressed of
                        None \<Rightarrow> (buf @ replicate (unat (align_size - of_nat (length buf))) 0, align_size)
                      | Some c \<Rightarrow> c);
               block = block\<lparr>blk_live := (blk_live block)\<lparr>ck_write_gen := ck_write_gen (blk_live block) + 1\<rparr>\<rparr>;
               img = block_seal io mem block align_size img;
               buf = (if compressed = None then img else buf)
           in case wt_block_alloc block (uint align_size) of
                Inl e \<Rightarrow> (block, file, buf, Inl e)
              | Inr (offset, block) \<Rightarrow>
                  (case wt_write io file offset img of
                     (file, Inr _) \<Rightarrow> (block, file, buf, Inr (offset, align_size, blk_cksum be img))
                   | (file, Inl e) \<Rightarrow>
                       (case wt_block_off_free block offset (uint align_size) of
                          Inl _ \<Rightarrow> (block, file, buf, Inl e)
                        | Inr block \<Rightarrow> (block, file, buf, Inl e)))))"

definition wt_block_write ::
  "wt_io \<Rightarrow> u64 \<Rightarrow> wt_block \<Rightarrow> bytes \<Rightarrow> bytes \<Rightarrow> nat \<Rightarrow> wt_block \<times> bytes \<times> bytes \<times> bytes result" where
  "wt_block_write io mem block file buf memsize =
     (case wt_block_write_off io mem block file buf memsize of
        (block, file, buf, r) \<Rightarrow>
          (block, file, buf, wt_ret r (\<lambda>(offset, len, cksum).
             wt_block_addr_to_buffer (blk_allocsize block) offset len cksum)))"

section \<open>Reading a block\<close>

text \<open>The bytes of the buffer; reading more than was read from the file is out of bounds.\<close>

definition wt_block_read_off ::
  "wt_io \<Rightarrow> u64 \<Rightarrow> wt_block \<Rightarrow> bytes \<Rightarrow> int \<Rightarrow> u32 \<Rightarrow> u32 \<Rightarrow> bytes result" where
  "wt_block_read_off io mem block file offset len cksum =
     (let be = io_be io in
      wt_ret (wt_read io file offset len) (\<lambda>dsk.
      wt_ret (if blk_checksum block \<and> cksum \<noteq> WT_BLOCK_CHECKSUM_NOT_SET \<and>
                 blk_cksum be dsk \<noteq> WT_BLOCK_CHECKSUM_NOT_SET
              then (if cksum \<noteq> image_cksum be mem dsk then Inl WT_ERROR
                    else Inr (set_cksum be 0 dsk))
              else Inr dsk) (\<lambda>dsk.
        if blk_disk_size be dsk < dsk_size be dsk then
          (case io_compressor io of
             None \<Rightarrow> Inl WT_ERROR
           | Some c \<Rightarrow>
               (let n = unat (dsk_size be dsk - of_nat WT_BLOCK_COMPRESS_SKIP) in
                if unat (dsk_size be dsk) < WT_BLOCK_COMPRESS_SKIP \<or> length dsk < WT_BLOCK_COMPRESS_SKIP
                then Inl OUT_OF_BOUNDS
                else wt_ret (comp_decompress c (drop WT_BLOCK_COMPRESS_SKIP dsk) n) (\<lambda>out.
                  if length out \<noteq> n then Inl WT_ERROR
                  else Inr (take WT_BLOCK_COMPRESS_SKIP dsk @ out))))
        else if length dsk < unat (dsk_size be dsk) then Inl OUT_OF_BOUNDS
        else Inr (take (unat (dsk_size be dsk)) dsk))))"

text \<open>\<open>verify\<close> is \<open>__wt_block_verify\<close> while a verification runs, and succeeds otherwise.\<close>

definition wt_block_read ::
  "wt_io \<Rightarrow> u64 \<Rightarrow> (int \<Rightarrow> u32 \<Rightarrow> bytes \<Rightarrow> unit result) \<Rightarrow> wt_block \<Rightarrow> bytes \<Rightarrow> bytes \<Rightarrow> bytes result" where
  "wt_block_read io mem verify block file addr =
     wt_ret (wt_block_buffer_to_addr (blk_allocsize block) addr) (\<lambda>(offset, len, cksum).
     wt_ret (wt_block_read_off io mem block file offset len cksum) (\<lambda>buf.
     wt_ret (verify offset len buf) (\<lambda>_. Inr buf)))"

section \<open>Alignment\<close>

lemma unat_ucast_u32_u64 [simp]: "unat (ucast (x :: u32) :: u64) = unat x"
  by transfer simp

lemma and_not_mask_div: "unat (x AND NOT (mask k)) = unat x div 2 ^ k * 2 ^ k" for x :: "'a::len word"
proof -
  have "x AND NOT (mask k) = push_bit k (drop_bit k x)"
    by (rule bit_word_eqI) (auto simp: bit_simps)
  moreover have "unat (push_bit k (drop_bit k x)) = unat x div 2 ^ k * 2 ^ k"
  proof -
    have "unat x div 2 ^ k * 2 ^ k \<le> unat x" by simp
    also have "unat x < 2 ^ LENGTH('a)" by (rule unsigned_less)
    finally have "unat x div 2 ^ k * 2 ^ k < 2 ^ LENGTH('a)" .
    then show ?thesis
      unfolding unsigned_push_bit_eq unsigned_drop_bit_eq by (simp add: push_bit_eq_mult drop_bit_eq_div take_bit_eq_mod)
  qed
  ultimately show ?thesis by simp
qed

lemma unat_WT_ALIGN:
  assumes v: "unat v = 2 ^ k" and b: "unat n + unat v \<le> 2 ^ 32"
  shows "unat (WT_ALIGN n v) = (unat n + unat v - 1) div unat v * unat v"
proof -
  have v1: "unat (v - 1) = unat v - 1" using v by (metis unat_1 unat_eq_zero unat_minus_one power_not_zero zero_neq_numeral)
  have "(ucast v :: u64) = of_nat (unat v)" by simp
  then have m: "(ucast v - 1 :: u64) = mask k" unfolding v by (simp add: mask_eq_exp_minus_1)
  have "unat (ucast n + ucast (v - 1) :: u64) = unat n + (unat v - 1)"
    using b v1 by (subst unat_add_lem [THEN iffD1]) auto
  then have "unat ((ucast n + ucast (v - 1) :: u64) AND NOT (mask k)) = (unat n + (unat v - 1)) div 2 ^ k * 2 ^ k"
    by (simp add: and_not_mask_div)
  moreover have "(unat n + (unat v - 1)) div 2 ^ k * 2 ^ k < 2 ^ 32"
  proof -
    have "(unat n + (unat v - 1)) div 2 ^ k * 2 ^ k \<le> unat n + (unat v - 1)" by simp
    also have "\<dots> < 2 ^ 32" using b v zero_less_power [of "2::nat" k] by simp
    finally show ?thesis .
  qed
  ultimately show ?thesis unfolding WT_ALIGN_def m using v
    by (simp add: unsigned_ucast_eq take_bit_eq_mod)
qed

lemma WT_ALIGN_props:
  assumes "unat v = 2 ^ k" "unat n + unat v \<le> 2 ^ 32"
  shows "unat n \<le> unat (WT_ALIGN n v)" "unat (WT_ALIGN n v) < unat n + unat v"
    "unat v dvd unat (WT_ALIGN n v)"
proof -
  have v: "0 < unat v" using assms(1) by simp
  have e: "unat (WT_ALIGN n v) + (unat n + unat v - 1) mod unat v = unat n + unat v - 1"
    using unat_WT_ALIGN [OF assms] by simp
  have "(unat n + unat v - 1) mod unat v < unat v" using v by simp
  then show "unat n \<le> unat (WT_ALIGN n v)" using e by linarith
  show "unat (WT_ALIGN n v) < unat n + unat v" using e v by linarith
  show "unat v dvd unat (WT_ALIGN n v)" using unat_WT_ALIGN [OF assms] by simp
qed

section \<open>Header fields\<close>

lemmas header_consts = WT_PAGE_HEADER_SIZE_def WT_BLOCK_HEADER_SIZE_def WT_BLOCK_HEADER_BYTE_SIZE_def
  WT_BLOCK_COMPRESS_SKIP_def

lemmas header_fields = dsk_size_def set_dsk_size_def blk_disk_size_def blk_cksum_def set_write_gen_def
  set_disk_size_def set_cksum_def WT_PAGE_HEADER_SIZE_def

lemma length_set_fields [simp]:
  assumes "36 \<le> length img"
  shows "length (set_dsk_size be v img) = length img" "length (set_disk_size be v img) = length img"
    "length (set_cksum be v img) = length img" "length (set_write_gen be g img) = length img"
  using assms by (simp_all add: header_fields)

lemma get_set_fields [simp]:
  assumes "36 \<le> length img"
  shows "dsk_size be (set_dsk_size be v img) = v" "dsk_size be (set_disk_size be v img) = dsk_size be img"
    "dsk_size be (set_cksum be v img) = dsk_size be img" "dsk_size be (set_write_gen be g img) = dsk_size be img"
    "blk_disk_size be (set_disk_size be v img) = v" "blk_disk_size be (set_cksum be v img) = blk_disk_size be img"
    "blk_cksum be (set_cksum be v img) = v"
  using assms by (simp_all add: header_fields get_put_other get_put_same_width)

lemma set_cksum_twice: "36 \<le> length img \<Longrightarrow> set_cksum be u (set_cksum be v img) = set_cksum be u img"
  by (simp add: header_fields put_put_same)

lemma set_fields_append:
  assumes "36 \<le> length img"
  shows "set_dsk_size be v (img @ r) = set_dsk_size be v img @ r"
    "set_disk_size be v (img @ r) = set_disk_size be v img @ r"
    "set_cksum be v (img @ r) = set_cksum be v img @ r" "set_write_gen be g (img @ r) = set_write_gen be g img @ r"
  using assms by (simp_all add: header_fields put_at_append)

section \<open>What is written is read\<close>

text \<open>The documented behaviour of a compressor: its output is smaller, and it ignores what follows its output.\<close>

definition compressor_ok :: "wt_compressor \<Rightarrow> bool" where
  "compressor_ok c \<longleftrightarrow> (\<forall>src n out. comp_compress c src n = Inr (out, False) \<longrightarrow>
     length out < length src \<and> (\<forall>k. comp_decompress c (out @ replicate k 0) (length src) = Inr src))"

definition page_ok :: "wt_block \<Rightarrow> bytes \<Rightarrow> bool" where
  "page_ok block buf \<longleftrightarrow> WT_BLOCK_HEADER_BYTE_SIZE \<le> length buf \<and> length buf + unat (blk_allocsize block) \<le> 2 ^ 32 \<and>
     WT_BLOCK_COMPRESS_SKIP \<le> unat (blk_allocsize block) \<and> (\<exists>k. unat (blk_allocsize block) = 2 ^ k)"

text \<open>The page as it is read: the block manager owns the size and the block header.\<close>

definition same_page :: "bool \<Rightarrow> bytes \<Rightarrow> bytes \<Rightarrow> bool" where
  "same_page be buf page \<longleftrightarrow> length page = length buf \<and> take 8 page = take 8 buf \<and>
     dsk_size be page = of_nat (length buf) \<and> get_at 12 8 page = get_at 12 8 buf \<and>
     drop WT_BLOCK_HEADER_BYTE_SIZE page = drop WT_BLOCK_HEADER_BYTE_SIZE buf"

definition stamp :: "bool \<Rightarrow> u32 \<Rightarrow> u32 \<Rightarrow> u64 \<Rightarrow> bytes \<Rightarrow> bytes" where
  "stamp be v a g img = set_cksum be v (set_disk_size be a (set_write_gen be g img))"

lemma length_stamp [simp]: "36 \<le> length img \<Longrightarrow> length (stamp be v a g img) = length img"
  by (simp add: stamp_def)

lemma stamp_fields [simp]:
  assumes "36 \<le> length img"
  shows "dsk_size be (stamp be v a g img) = dsk_size be img" "blk_disk_size be (stamp be v a g img) = a"
    "blk_cksum be (stamp be v a g img) = v"
  using assms by (simp_all add: stamp_def)

lemma stamp_append: "36 \<le> length img \<Longrightarrow> stamp be v a g (img @ r) = stamp be v a g img @ r"
  by (simp add: stamp_def set_fields_append)

lemma set_cksum_stamp: "36 \<le> length img \<Longrightarrow> set_cksum be u (stamp be v a g img) = stamp be u a g img"
  by (simp add: stamp_def set_cksum_twice)

lemma same_page_stamp:
  assumes "36 \<le> length buf"
  shows "same_page be buf (stamp be v a g (set_dsk_size be (of_nat (length buf)) buf))"
  using assms by (simp add: same_page_def stamp_def header_consts set_cksum_def set_disk_size_def set_write_gen_def
    set_dsk_size_def take_put_at drop_put_at get_put_other dsk_size_def get_put_same_width)

lemma image_cksum_stamp:
  assumes "36 \<le> length img"
  shows "image_cksum be mem (stamp be v a g img) = image_cksum be mem' (stamp be u a g img)"
  using assms by (simp add: image_cksum_def set_cksum_stamp wt_cksum_crc32c)

lemma image_cksum_set: "image_cksum be mem img \<noteq> WT_BLOCK_CHECKSUM_NOT_SET"
  by (simp add: image_cksum_def Let_def WT_BLOCK_CHECKSUM_NOT_SET_def)

lemma block_seal_stamp:
  assumes "36 \<le> length img"
  shows "block_seal io mem block a img =
    stamp (io_be io) (if blk_checksum block
      then image_cksum (io_be io) mem (stamp (io_be io) 0 a (ck_write_gen (blk_live block)) img)
      else WT_BLOCK_CHECKSUM_NOT_SET) a (ck_write_gen (blk_live block)) img"
proof -
  have "image_cksum be mem (set_disk_size be a (set_write_gen be g img)) = image_cksum be mem (stamp be 0 a g img)" for be g
    using assms by (simp add: image_cksum_def stamp_def set_cksum_twice)
  then show ?thesis by (simp add: block_seal_def Let_def stamp_def)
qed

text \<open>The image that is written, and how a reader gets the page back from it.\<close>

definition write_image :: "bytes \<Rightarrow> u32 \<Rightarrow> (bytes \<times> u32) option \<Rightarrow> bytes \<times> u32" where
  "write_image buf align_size c = (case c of
     None \<Rightarrow> (buf @ replicate (unat (align_size - of_nat (length buf))) 0, align_size) | Some c \<Rightarrow> c)"

lemma block_compress_cases:
  assumes "block_compress io allocsize buf align_size = Inr c"
  obtains "c = None"
  | cm out n where "io_compressor io = Some cm" "align_size \<noteq> allocsize" "comp_compress cm (drop 64 buf) n = Inr (out, False)"
      "WT_ALIGN (of_nat (length out) + 64) allocsize < align_size"
      "c = Some (take 64 buf @ out @ replicate (unat (WT_ALIGN (of_nat (length out) + 64) allocsize - (of_nat (length out) + 64))) 0,
             WT_ALIGN (of_nat (length out) + 64) allocsize)"
  using assms
  by (auto simp: block_compress_def Let_def wt_ret_Inr_iff WT_BLOCK_COMPRESS_SKIP_def not_le split: option.splits if_splits prod.splits)


lemma page_okD:
  assumes "page_ok block buf"
  shows "36 \<le> length buf" "length buf + unat (blk_allocsize block) \<le> 2 ^ 32" "64 \<le> unat (blk_allocsize block)"
    "\<exists>k. unat (blk_allocsize block) = 2 ^ k" "unat (of_nat (length buf) :: u32) = length buf"
proof -
  show "36 \<le> length buf" and b: "length buf + unat (blk_allocsize block) \<le> 2 ^ 32" and v: "64 \<le> unat (blk_allocsize block)"
    and "\<exists>k. unat (blk_allocsize block) = 2 ^ k"
    using assms by (simp_all add: page_ok_def header_consts)
  have "length buf < 2 ^ 32" using b v by linarith
  then show "unat (of_nat (length buf) :: u32) = length buf" by (simp add: unsigned_of_nat take_bit_nat_eq_self_iff)
qed

lemma unat_diff_u32: "unat b \<le> unat a \<Longrightarrow> unat (a - b) = unat a - unat b" for a b :: u32
  by (simp add: unat_sub word_le_nat_alt)

lemma align_page:
  assumes "page_ok block buf"
  defines "al \<equiv> WT_ALIGN (of_nat (length buf)) (blk_allocsize block)"
  shows "length buf \<le> unat al" "unat al < length buf + unat (blk_allocsize block)" "unat (blk_allocsize block) dvd unat al"
    "al \<noteq> blk_allocsize block \<Longrightarrow> unat (blk_allocsize block) < length buf"
proof -
  note p = page_okD [OF assms(1)]
  obtain k where k: "unat (blk_allocsize block) = 2 ^ k" using p(4) by blast
  have "unat (of_nat (length buf) :: u32) + unat (blk_allocsize block) \<le> 2 ^ 32" using p(2,5) by simp
  note A = WT_ALIGN_props [OF k this, unfolded p(5), folded al_def]
  show "length buf \<le> unat al" "unat al < length buf + unat (blk_allocsize block)" "unat (blk_allocsize block) dvd unat al"
    using A by simp_all
  assume "al \<noteq> blk_allocsize block"
  then have "unat al \<noteq> unat (blk_allocsize block)" by (simp add: word_unat_eq_iff)
  moreover have "0 < unat al" using A(1) p(1) by linarith
  ultimately have big: "unat (blk_allocsize block) < unat al" using A(3) by (metis dvd_imp_le order_le_less)
  have "unat (blk_allocsize block) dvd unat al - unat (blk_allocsize block)" using A(3) by simp
  then have "unat (blk_allocsize block) \<le> unat al - unat (blk_allocsize block)" using big by (meson dvd_imp_le zero_less_diff)
  then show "unat (blk_allocsize block) < length buf" using A(2) big by linarith
qed

lemma image_compressed:
  assumes page: "page_ok block buf" and len: "length buf1 = length buf"
    and comp: "compressor_ok cm" "comp_compress cm (drop 64 buf1) n = Inr (out, False)"
    and al: "WT_ALIGN (of_nat (length buf)) (blk_allocsize block) \<noteq> blk_allocsize block"
  defines "t \<equiv> of_nat (length out) + 64 :: u32"
  defines "a \<equiv> WT_ALIGN t (blk_allocsize block)"
  assumes less: "a < WT_ALIGN (of_nat (length buf)) (blk_allocsize block)"
  shows "length (take 64 buf1 @ out @ replicate (unat (a - t)) 0) = unat a" "64 \<le> unat a" "unat (blk_allocsize block) dvd unat a"
    "64 \<le> length buf" "unat a < length buf"
    "comp_decompress cm (out @ replicate k 0) (length buf - 64) = Inr (drop 64 buf1)"
proof -
  note p = page_okD [OF page] and A = align_page [OF page]
  obtain e where e: "unat (blk_allocsize block) = 2 ^ e" using p(4) by blast
  show l64: "64 \<le> length buf" using A(4) [OF al] p(3) by linarith
  have o: "length out < length buf - 64" using comp len unfolding compressor_ok_def by fastforce
  show "comp_decompress cm (out @ replicate k 0) (length buf - 64) = Inr (drop 64 buf1)"
    using comp len unfolding compressor_ok_def by fastforce
  have t: "unat t = length out + 64"
  proof -
    have "length out + 64 < 2 ^ 32" using o p(2,3) by linarith
    then have "unat (of_nat (length out + 64) :: u32) = length out + 64"
      by (simp only: unsigned_of_nat) (simp add: take_bit_nat_eq_self_iff)
    then show ?thesis by (simp add: t_def)
  qed
  have "unat t + unat (blk_allocsize block) \<le> 2 ^ 32" using t o p(2) l64 by linarith
  note B = WT_ALIGN_props [OF e this, folded a_def, unfolded t]
  show "64 \<le> unat a" "unat (blk_allocsize block) dvd unat a" using B by simp_all
  have "unat (a - t) = unat a - (length out + 64)" using B(1) t by (simp add: unat_diff_u32)
  then show "length (take 64 buf1 @ out @ replicate (unat (a - t)) 0) = unat a" using B(1) len l64 by simp
  let ?al = "WT_ALIGN (of_nat (length buf)) (blk_allocsize block)"
  have lt: "unat a < unat ?al" using less by (simp add: word_less_nat_alt)
  have "unat (blk_allocsize block) dvd unat ?al - unat a" using A(3) B(3) by (rule dvd_diff_nat)
  then have "unat (blk_allocsize block) \<le> unat ?al - unat a" using lt by (meson dvd_imp_le zero_less_diff)
  then show "unat a < length buf" using A(2) lt by linarith
qed

text \<open>Both forms of the image: padded, or compressed behind the first 64 bytes.\<close>

lemma write_image_cases:
  assumes page: "page_ok block buf" and len: "length buf1 = length buf"
    and c: "block_compress io (blk_allocsize block) buf1 (WT_ALIGN (of_nat (length buf)) (blk_allocsize block)) = Inr c"
    and comp: "\<forall>cm. io_compressor io = Some cm \<longrightarrow> compressor_ok cm"
    and img: "write_image buf1 (WT_ALIGN (of_nat (length buf)) (blk_allocsize block)) c = (img, a)"
  obtains (plain) "img = buf1 @ replicate (unat a - length buf) 0" "length img = unat a" "36 \<le> length img"
      "unat (blk_allocsize block) dvd unat a" "length buf \<le> unat a"
  | (compressed) cm out k where "io_compressor io = Some cm" "img = take 64 buf1 @ out @ replicate k 0" "length img = unat a"
      "36 \<le> length img" "unat (blk_allocsize block) dvd unat a" "64 \<le> length buf" "unat a < length buf"
      "comp_decompress cm (out @ replicate k 0) (length buf - 64) = Inr (drop 64 buf1)"
proof (cases rule: block_compress_cases [OF c])
  case 1
  note p = page_okD [OF page] and A = align_page [OF page]
  have "unat (WT_ALIGN (of_nat (length buf)) (blk_allocsize block) - of_nat (length buf)) =
      unat (WT_ALIGN (of_nat (length buf)) (blk_allocsize block)) - length buf"
    using A(1) p(5) by (simp add: unat_diff_u32)
  then have "img = buf1 @ replicate (unat a - length buf) 0" "a = WT_ALIGN (of_nat (length buf)) (blk_allocsize block)"
    using img 1 len by (auto simp: write_image_def)
  then show ?thesis using plain A(1,3) len p(1) by simp
next
  case (2 cm out n)
  have i: "img = take 64 buf1 @ out @ replicate (unat (a - (of_nat (length out) + 64))) 0"
      "a = WT_ALIGN (of_nat (length out) + 64) (blk_allocsize block)"
    using img 2(5) by (auto simp: write_image_def)
  note C = image_compressed [OF page len comp [rule_format, OF 2(1)] 2(3,2,4), folded i(2), folded i(1)]
  have "36 \<le> length img" using C(1,2) by linarith
  then show ?thesis using compressed [OF 2(1) i(1)] C by blast
qed

lemma read_image:
  assumes page: "page_ok block buf" and len: "length buf1 = length buf" and dsk: "dsk_size (io_be io) buf1 = of_nat (length buf)"
    and c: "block_compress io (blk_allocsize block) buf1 (WT_ALIGN (of_nat (length buf)) (blk_allocsize block)) = Inr c"
    and comp: "\<forall>cm. io_compressor io = Some cm \<longrightarrow> compressor_ok cm"
    and img: "write_image buf1 (WT_ALIGN (of_nat (length buf)) (blk_allocsize block)) c = (img, a)"
    and ck: "blk_checksum block' = blk_checksum block"
    and rd: "wt_read io file off a = Inr (block_seal io mem block a img)"
  shows "\<exists>v. wt_block_read_off io mem' block' file off a (blk_cksum (io_be io) (block_seal io mem block a img)) =
    Inr (stamp (io_be io) v a (ck_write_gen (blk_live block)) buf1)"
proof -
  let ?be = "io_be io" and ?g = "ck_write_gen (blk_live block)"
  note p = page_okD [OF page]
  have l: "36 \<le> length img" "length img = unat a"
    by (rule write_image_cases [OF page len c comp img]; simp)+
  let ?v = "if blk_checksum block then image_cksum ?be mem (stamp ?be 0 a ?g img) else WT_BLOCK_CHECKSUM_NOT_SET"
  let ?u = "if blk_checksum block then 0 else WT_BLOCK_CHECKSUM_NOT_SET"
  have s: "block_seal io mem block a img = stamp ?be ?v a ?g img" by (rule block_seal_stamp [OF l(1)])
  have eq: "image_cksum ?be mem' (stamp ?be ?v a ?g img) = image_cksum ?be mem (stamp ?be 0 a ?g img)"
    by (rule image_cksum_stamp [OF l(1)])
  have "wt_block_read_off io mem' block' file off a (blk_cksum ?be (block_seal io mem block a img)) =
      Inr (stamp ?be ?u a ?g buf1)"
  proof (cases rule: write_image_cases [OF page len c comp img])
    case plain: 1
    have "\<not> a < of_nat (length buf)" using plain(5) p(5) by (simp add: word_less_nat_alt)
    moreover have "take (length buf) (stamp ?be ?u a ?g img) = stamp ?be ?u a ?g buf1"
      unfolding plain(1) using p(1) len by (simp add: stamp_append)
    moreover have "dsk_size ?be img = of_nat (length buf)"
      unfolding plain(1) using dsk p(1) len by (simp add: dsk_size_def get_at_append)
    ultimately show ?thesis
      unfolding s wt_block_read_off_def Let_def rd [unfolded s]
      using l p(5) ck plain(5) eq image_cksum_set by (auto simp: set_cksum_stamp)
  next
    case compressed: (2 cm out k)
    have i: "img = (take 64 buf1) @ (out @ replicate k 0)" using compressed(2) by simp
    have st: "stamp ?be ?u a ?g img = stamp ?be ?u a ?g (take 64 buf1) @ (out @ replicate k 0)"
      unfolding i using compressed(6) len by (subst stamp_append) simp_all
    have l64: "length (take 64 buf1) = 64" using compressed(6) len by simp
    have parts: "take 64 (stamp ?be ?u a ?g img) = stamp ?be ?u a ?g (take 64 buf1)"
        "drop 64 (stamp ?be ?u a ?g img) = out @ replicate k 0"
      unfolding st using l64 by simp_all
    have "stamp ?be ?u a ?g (take 64 buf1) @ drop 64 buf1 = stamp ?be ?u a ?g buf1"
      using stamp_append [of "take 64 buf1" ?be ?u a ?g "drop 64 buf1"] l64 by simp
    moreover have "a < of_nat (length buf)" using compressed(7) p(5) by (simp add: word_less_nat_alt)
    moreover have "dsk_size ?be img = of_nat (length buf)"
    proof -
      have "get_at 8 4 img = get_at 8 4 buf1" unfolding i
        using get_at_append [of 8 4 "take 64 buf1" "drop 64 buf1"] get_at_append [of 8 4 "take 64 buf1" "out @ replicate k 0"] l64
        by simp
      then show ?thesis using dsk by (simp add: dsk_size_def)
    qed
    moreover have "unat (of_nat (length buf) - 64 :: u32) = length buf - 64"
      using compressed(6) p(5) by (subst unat_diff_u32) simp_all
    moreover have "64 \<le> unat a" using l compressed(2) l64 by (metis le_add1 length_append)
    ultimately show ?thesis
      unfolding s wt_block_read_off_def Let_def rd [unfolded s]
      using l p(5) ck compressed(1,6,8) len eq image_cksum_set parts
      by (auto simp: set_cksum_stamp WT_BLOCK_COMPRESS_SKIP_def)
  qed
  then show ?thesis by blast
qed

end
