(* ===== verification/Wt_Durable.thy ===== *)
theory Wt_Durable
  imports Wt_Block_IO
begin

text \<open>
  Properties of reading and writing blocks: histories of a file and the durability of the blocks in
  use, the state after a failed write, and the detection of corruption.
\<close>


section \<open>Durability\<close>

text \<open>
  The documented behaviour of \<open>pwrite\<close> and \<open>pread\<close> on a file: a write changes no byte outside its
  range, does not shorten the file, and stores all bytes when it returns their number,
  extending the file if they end behind it; a read inside the file returns its bytes. A write may fail.
\<close>

definition io_ok :: "wt_io \<Rightarrow> bool" where
  "io_ok io \<longleftrightarrow>
     (\<forall>file off buf file' n. 0 \<le> off \<longrightarrow> io_pwrite io file off buf = (file', n) \<longrightarrow>
        length file \<le> length file' \<and>
        (\<forall>i<length file. int i < off \<or> off + int (length buf) \<le> int i \<longrightarrow> file' ! i = file ! i) \<and>
        (n = int (length buf) \<longrightarrow> length file' = max (length file) (nat off + length buf) \<and>
           get_at (nat off) (length buf) file' = buf)) \<and>
     (\<forall>file off n. 0 \<le> off \<and> nat off + n \<le> length file \<longrightarrow> io_pread io file off n = get_at (nat off) n file) \<and>
     (\<forall>c. io_compressor io = Some c \<longrightarrow> compressor_ok c)"

lemma io_okD:
  assumes "io_ok io"
  shows "0 \<le> off \<Longrightarrow> io_pwrite io file off buf = (file', n) \<Longrightarrow> length file \<le> length file'"
    "0 \<le> off \<Longrightarrow> io_pwrite io file off buf = (file', n) \<Longrightarrow> i < length file \<Longrightarrow>
       int i < off \<or> off + int (length buf) \<le> int i \<Longrightarrow> file' ! i = file ! i"
    "0 \<le> off \<Longrightarrow> io_pwrite io file off buf = (file', int (length buf)) \<Longrightarrow>
       length file' = max (length file) (nat off + length buf) \<and> get_at (nat off) (length buf) file' = buf"
    "0 \<le> off \<Longrightarrow> nat off + k \<le> length file \<Longrightarrow> io_pread io file off k = get_at (nat off) k file"
    "\<forall>c. io_compressor io = Some c \<longrightarrow> compressor_ok c"
  using assms unfolding io_ok_def by blast+

abbreviation next_gen :: "wt_block \<Rightarrow> wt_block" where
  "next_gen block \<equiv> block\<lparr>blk_live := (blk_live block)\<lparr>ck_write_gen := ck_write_gen (blk_live block) + 1\<rparr>\<rparr>"

abbreviation align_of :: "wt_block \<Rightarrow> bytes \<Rightarrow> u32" where
  "align_of block buf \<equiv> WT_ALIGN (of_nat (length buf)) (blk_allocsize block)"

abbreviation sized :: "wt_io \<Rightarrow> bytes \<Rightarrow> bytes" where
  "sized io buf \<equiv> set_dsk_size (io_be io) (of_nat (length buf)) buf"

lemma block_ok_next_gen [simp]: "block_ok (next_gen block) = block_ok block"
  by (simp add: block_ok_def lists_ok_def)

lemma held_ok_next_gen [simp]: "held_ok (next_gen block) held = held_ok block held"
  by (simp add: held_ok_def freeable_def)

lemma alloc_keeps:
  assumes "wt_block_alloc block len = Inr (off, block')"
  shows "blk_checksum block' = blk_checksum block" "blk_allocsize block' = blk_allocsize block"
proof -
  have 1: "blk_checksum b = blk_checksum block \<and> blk_allocsize b = blk_allocsize block"
    if "block_alloc_offset block len = Inr (x, b)" for x b
    using that by (auto simp: block_alloc_offset_def wt_block_extend_def Let_def wt_ret_Inr_iff split: list.splits if_splits)
  show "blk_checksum block' = blk_checksum block" "blk_allocsize block' = blk_allocsize block"
    using assms by (auto simp: wt_block_alloc_def wt_ret_Inr_iff dest!: 1 split: if_splits)
qed

lemma off_free_keeps:
  assumes "wt_block_off_free block off len = Inr block'"
  shows "blk_checksum block' = blk_checksum block" "blk_allocsize block' = blk_allocsize block"
  using assms by (auto simp: wt_block_off_free_def Let_def wt_ret_Inr_iff split: sum.splits if_splits)

text \<open>The function without its local names.\<close>

lemma write_off_eq:
  assumes "page_ok block buf"
  shows "wt_block_write_off io mem block file buf memsize =
    (if memsize < unat (align_of block buf) then (block, file, sized io buf, Inl EINVAL)
     else case block_compress io (blk_allocsize block) (sized io buf) (align_of block buf) of
       Inl e \<Rightarrow> (block, file, sized io buf, Inl e)
     | Inr c \<Rightarrow>
         (case write_image (sized io buf) (align_of block buf) c of (img, len) \<Rightarrow>
            (let img = block_seal io mem (next_gen block) len img; buf' = (if c = None then img else sized io buf)
             in case wt_block_alloc (next_gen block) (uint len) of
                  Inl e \<Rightarrow> (next_gen block, file, buf', Inl e)
                | Inr (off, block2) \<Rightarrow>
                    (case io_pwrite io file off img of (file', n) \<Rightarrow>
                       if n = int (length img) then (block2, file', buf', Inr (off, len, blk_cksum (io_be io) img))
                       else (case wt_block_off_free block2 off (uint len) of Inl _ \<Rightarrow> block2 | Inr block3 \<Rightarrow> block3,
                             file', buf', Inl (io_errno io))))))"
proof -
  have l: "length (sized io buf) = length buf" using page_okD(1) [OF assms] by simp
  show ?thesis unfolding wt_block_write_off_def Let_def l wt_write_def write_image_def
    by (intro if_cong refl sum.case_cong option.case_cong prod.case_cong) (auto split: sum.splits prod.splits)
qed

lemma write_off_success:
  assumes page: "page_ok block buf"
    and w: "wt_block_write_off io mem block file buf memsize = (block', file', buf', Inr (off, len, ck))"
  obtains c img where
    "block_compress io (blk_allocsize block) (sized io buf) (align_of block buf) = Inr c"
    "write_image (sized io buf) (align_of block buf) c = (img, len)"
    "wt_block_alloc (next_gen block) (uint len) = Inr (off, block')"
    "io_pwrite io file off (block_seal io mem (next_gen block) len img) =
       (file', int (length (block_seal io mem (next_gen block) len img)))"
    "ck = blk_cksum (io_be io) (block_seal io mem (next_gen block) len img)"
proof -
  have l: "length (sized io buf) = length buf" using page_okD(1) [OF page] by simp
  show thesis
    using w that unfolding wt_block_write_off_def Let_def l wt_write_def write_image_def
    by (auto split: if_splits sum.splits option.splits prod.splits)
qed

lemma write_off_failure:
  assumes page: "page_ok block buf"
    and w: "wt_block_write_off io mem block file buf memsize = (block', file', buf', Inl e)"
  obtains (early) "file' = file" "block' = block \<or> block' = next_gen block"
  | (late) c img len off block2 n where
    "block_compress io (blk_allocsize block) (sized io buf) (align_of block buf) = Inr c"
    "write_image (sized io buf) (align_of block buf) c = (img, len)"
    "wt_block_alloc (next_gen block) (uint len) = Inr (off, block2)"
    "io_pwrite io file off (block_seal io mem (next_gen block) len img) = (file', n)"
    "block' = (case wt_block_off_free block2 off (uint len) of Inl _ \<Rightarrow> block2 | Inr block3 \<Rightarrow> block3)"
proof (cases "block_compress io (blk_allocsize block) (sized io buf) (align_of block buf)")
  case (Inl x)
  then show thesis using w early unfolding write_off_eq [OF page] by (simp split: if_splits)
next
  case (Inr c)
  obtain img len where i: "write_image (sized io buf) (align_of block buf) c = (img, len)" by fastforce
  show thesis
  proof (cases "memsize < unat (align_of block buf)")
    case True
    then show thesis using w early unfolding write_off_eq [OF page] by simp
  next
    case False
    show thesis
    proof (cases "wt_block_alloc (next_gen block) (uint len)")
      case (Inl x)
      then show thesis using w early False Inr i unfolding write_off_eq [OF page] by simp
    next
      case alloc: (Inr r)
      obtain off block2 where r: "r = (off, block2)" by fastforce
      obtain f n where pw: "io_pwrite io file off (block_seal io mem (next_gen block) len img) = (f, n)" by fastforce
      show thesis
        using w False alloc pw unfolding write_off_eq [OF page] Inr sum.case i prod.case r Let_def
        by (intro late [OF Inr i alloc [unfolded r]]) (simp_all split: if_splits)
    qed
  qed
qed


text \<open>A reader of the bytes \<open>bs\<close> at this address gets the page \<open>buf\<close>.\<close>

definition reads_as :: "wt_io \<Rightarrow> bool \<Rightarrow> int \<Rightarrow> u32 \<Rightarrow> u32 \<Rightarrow> bytes \<Rightarrow> bytes \<Rightarrow> bool" where
  "reads_as io checksum off len ck bs buf \<longleftrightarrow>
     (\<forall>mem block file. wt_read io file off len = Inr bs \<longrightarrow> blk_checksum block = checksum \<longrightarrow>
        (\<exists>page. wt_block_read_off io mem block file off len ck = Inr page \<and> same_page (io_be io) buf page))"

lemma write_reads_as:
  assumes page: "page_ok block buf" and comp: "\<forall>cm. io_compressor io = Some cm \<longrightarrow> compressor_ok cm"
    and c: "block_compress io (blk_allocsize block) (sized io buf) (align_of block buf) = Inr c"
    and img: "write_image (sized io buf) (align_of block buf) c = (img, len)"
    and dsk_def: "dsk = block_seal io mem (next_gen block) len img"
  shows "reads_as io (blk_checksum block) off len (blk_cksum (io_be io) dsk) dsk buf"
    "length dsk = unat len" "unat (blk_allocsize block) dvd unat len" "0 < unat len"
proof -
  have p: "36 \<le> length buf" using page_okD(1) [OF page] .
  then have l: "length (sized io buf) = length buf" by simp
  have d: "dsk_size (io_be io) (sized io buf) = of_nat (length buf)" using p by simp
  have i: "length img = unat len" "36 \<le> length img" "unat (blk_allocsize block) dvd unat len"
    by (rule write_image_cases [OF page l c comp img]; simp)+
  show "length dsk = unat len" unfolding dsk_def using i(1,2) by (simp add: block_seal_stamp)
  show "unat (blk_allocsize block) dvd unat len" "0 < unat len" using i by simp_all
  have page': "page_ok (next_gen block) buf" using page by (simp add: page_ok_def)
  show "reads_as io (blk_checksum block) off len (blk_cksum (io_be io) dsk) dsk buf"
    unfolding reads_as_def dsk_def
  proof (intro allI impI)
    fix mem' and block' :: wt_block and f :: bytes
    assume r: "wt_read io f off len = Inr (block_seal io mem (next_gen block) len img)"
      and k: "blk_checksum block' = blk_checksum block"
    have "\<exists>v. wt_block_read_off io mem' block' f off len
        (blk_cksum (io_be io) (block_seal io mem (next_gen block) len img)) =
        Inr (stamp (io_be io) v len (ck_write_gen (blk_live (next_gen block))) (sized io buf))"
      by (rule read_image [OF page' l d _ comp]) (use c img k r in simp_all)
    then show "\<exists>page. wt_block_read_off io mem' block' f off len
        (blk_cksum (io_be io) (block_seal io mem (next_gen block) len img)) = Inr page \<and> same_page (io_be io) buf page"
      using same_page_stamp [OF p] by blast
  qed
qed

text \<open>
  Histories of a file: blocks are written and freed, and writes may fail. \<open>held\<close> maps the address
  of a block that is in use to its checksum and the page that was written.
\<close>

type_synonym held_map = "int \<times> int \<rightharpoonup> u32 \<times> bytes"

inductive io_run :: "wt_io \<Rightarrow> wt_block \<Rightarrow> bytes \<Rightarrow> held_map \<Rightarrow> wt_block \<Rightarrow> bytes \<Rightarrow> held_map \<Rightarrow> bool"
  for io block0 file0 held0 where
  io_start: "io_run io block0 file0 held0 block0 file0 held0"
| io_write: "io_run io block0 file0 held0 block file held \<Longrightarrow> page_ok block buf \<Longrightarrow>
    wt_block_write_off io mem block file buf memsize = (block', file', buf', Inr (off, len, ck)) \<Longrightarrow>
    io_run io block0 file0 held0 block' file' (held((off, uint len) \<mapsto> (ck, buf)))"
| io_write_fails: "io_run io block0 file0 held0 block file held \<Longrightarrow> page_ok block buf \<Longrightarrow>
    wt_block_write_off io mem block file buf memsize = (block', file', buf', Inl e) \<Longrightarrow>
    io_run io block0 file0 held0 block' file' held"
| io_free: "io_run io block0 file0 held0 block file held \<Longrightarrow> held (off, len) = Some r \<Longrightarrow>
    wt_block_off_free block off len = Inr block' \<Longrightarrow>
    io_run io block0 file0 held0 block' file (held((off, len) := None))"

definition stored :: "wt_io \<Rightarrow> bool \<Rightarrow> bytes \<Rightarrow> int \<times> int \<Rightarrow> u32 \<times> bytes \<Rightarrow> bool" where
  "stored io checksum file h r \<longleftrightarrow> (case h of (off, len) \<Rightarrow> case r of (ck, buf) \<Rightarrow>
     0 \<le> off \<and> 0 \<le> len \<and> len < 2 ^ 32 \<and> nat off + nat len \<le> length file \<and>
     reads_as io checksum off (of_int len) ck (get_at (nat off) (nat len) file) buf)"

definition io_inv :: "wt_io \<Rightarrow> bool \<Rightarrow> wt_block \<Rightarrow> bytes \<Rightarrow> held_map \<Rightarrow> bool" where
  "io_inv io checksum block file held \<longleftrightarrow> held_ok block (dom held) \<and> blk_checksum block = checksum \<and>
     (\<forall>h r. held h = Some r \<longrightarrow> stored io checksum file h r)"

lemma io_invD:
  assumes "io_inv io checksum block file held"
  shows "held_ok block (dom held)" "blk_checksum block = checksum" "held h = Some r \<Longrightarrow> stored io checksum file h r"
  using assms unfolding io_inv_def by blast+

lemma io_invI:
  assumes "held_ok block (dom held)" "blk_checksum block = checksum" "\<And>h r. held h = Some r \<Longrightarrow> stored io checksum file h r"
  shows "io_inv io checksum block file held"
  using assms unfolding io_inv_def by blast

text \<open>A write to a range that is disjoint from a stored block leaves it stored.\<close>

lemma stored_pwrite:
  assumes io: "io_ok io" and pw: "io_pwrite io file off buf = (file', n)" and off: "0 \<le> off"
    and st: "stored io checksum file h r" and dj: "range_of h \<inter> {off ..< off + int (length buf)} = {}"
  shows "stored io checksum file' h r"
proof -
  obtain o' l' ck b where hr: "h = (o', l')" "r = (ck, b)" by (cases h, cases r) auto
  have s: "0 \<le> o'" "0 \<le> l'" "nat o' + nat l' \<le> length file" using st by (simp_all add: stored_def hr)
  have len: "length file \<le> length file'" by (rule io_okD(1) [OF io off pw])
  have "get_at (nat o') (nat l') file' = get_at (nat o') (nat l') file"
  proof (rule nth_equalityI)
    show l: "length (get_at (nat o') (nat l') file') = length (get_at (nat o') (nat l') file)"
      using s len by (simp add: get_at_def)
    fix i
    assume "i < length (get_at (nat o') (nat l') file')"
    then have i: "i < nat l'" using s len by (simp add: get_at_def)
    then have "int (nat o' + i) \<in> range_of h" using s by (simp add: hr range_of_def)
    then have "int (nat o' + i) < off \<or> off + int (length buf) \<le> int (nat o' + i)" using dj by fastforce
    then have "file' ! (nat o' + i) = file ! (nat o' + i)"
      by (intro io_okD(2) [OF io off pw]) (use i s in simp_all)
    then show "get_at (nat o') (nat l') file' ! i = get_at (nat o') (nat l') file ! i"
      using i s len by (simp add: get_at_def)
  qed
  then show ?thesis using st len by (simp add: stored_def hr)
qed


lemma file_offset:
  assumes "held_ok block held" "(off, len) \<in> held"
  shows "0 \<le> off" "0 < len"
proof -
  show len: "0 < len" using held_okD(5) [OF assms] by simp
  have "off \<in> range_of (off, len)" using len by (simp add: range_of_def)
  then show "0 \<le> off" using held_okD(2) [OF assms] by (auto simp: WT_BLOCK_DESC_SECTOR_def)
qed

text \<open>The part that a successful and a failed write share: the new range is disjoint from all held ones.\<close>

lemma write_alloc:
  assumes io: "io_ok io" and inv: "io_inv io checksum block file held"
    and al: "wt_block_alloc (next_gen block) (uint len) = Inr (off, block2)" "0 < unat len"
    and dsk: "length dsk = unat len" and pw: "io_pwrite io file off dsk = (file', n)"
  shows "held_ok block2 (insert (off, uint len) (dom held))" "0 \<le> off"
    "\<And>h r. held h = Some r \<Longrightarrow> h \<noteq> (off, uint len) \<Longrightarrow> stored io checksum file' h r"
    "blk_checksum block2 = checksum" "(off, uint len) \<notin> dom held"
proof -
  have ok: "held_ok (next_gen block) (dom held)" using inv by (simp add: io_inv_def)
  have len: "0 < uint len" using al(2) by (metis of_nat_0_less_iff uint_nat)
  show new: "held_ok block2 (insert (off, uint len) (dom held))" by (rule held_ok_alloc [OF ok len al(1)])
  show off: "0 \<le> off" using file_offset [OF new] by blast
  show "blk_checksum block2 = checksum" using alloc_keeps(1) [OF al(1)] inv by (simp add: io_inv_def)
  have dj: "range_of h \<inter> range_of (off, uint len) = {}" if "h \<in> dom held" for h
    using held_ok_alloc(2) [OF ok len al(1) that] by blast
  have int_len: "int (length dsk) = uint len" using dsk by simp
  show "stored io checksum file' h r" if "held h = Some r" "h \<noteq> (off, uint len)" for h r
  proof (rule stored_pwrite [OF io pw off])
    show "stored io checksum file h r" by (rule io_invD(3) [OF inv that(1)])
    show "range_of h \<inter> {off ..< off + int (length dsk)} = {}"
      using dj [of h] that unfolding int_len by (auto simp: range_of_def)
  qed
  have "off \<in> range_of (off, uint len)" using len by (simp add: range_of_def)
  then show "(off, uint len) \<notin> dom held" using dj by blast
qed

lemma io_write_inv:
  assumes io: "io_ok io" and inv: "io_inv io checksum block file held" and page: "page_ok block buf"
    and w: "wt_block_write_off io mem block file buf memsize = (block', file', buf', Inr (off, len, ck))"
  shows "io_inv io checksum block' file' (held((off, uint len) \<mapsto> (ck, buf)))"
proof (rule write_off_success [OF page w])
  fix c img
  let ?dsk = "block_seal io mem (next_gen block) len img"
  assume c: "block_compress io (blk_allocsize block) (sized io buf) (align_of block buf) = Inr c"
    and img: "write_image (sized io buf) (align_of block buf) c = (img, len)"
    and al: "wt_block_alloc (next_gen block) (uint len) = Inr (off, block')"
    and pw: "io_pwrite io file off ?dsk = (file', int (length ?dsk))" and ck: "ck = blk_cksum (io_be io) ?dsk"
  note W = write_reads_as [OF page io_okD(5) [OF io] c img refl]
  note A = write_alloc [OF io inv al W(4,2) pw]
  have "get_at (nat off) (unat len) file' = ?dsk" "nat off + unat len \<le> length file'"
    using io_okD(3) [OF io A(2) pw] W(2) by simp_all
  then have "stored io checksum file' (off, uint len) (ck, buf)"
    using A(2) W(1) inv unsigned_less [of len] by (simp add: stored_def ck io_inv_def)
  then show "io_inv io checksum block' file' (held((off, uint len) \<mapsto> (ck, buf)))"
  proof (intro io_invI)
    fix h r
    assume "(held((off, uint len) \<mapsto> (ck, buf))) h = Some r"
    then show "stored io checksum file' h r"
      using \<open>stored io checksum file' (off, uint len) (ck, buf)\<close> A(3) [of h r] by (cases "h = (off, uint len)") simp_all
  qed (use A(1,4) in simp_all)
qed


lemma io_write_fails_inv:
  assumes io: "io_ok io" and inv: "io_inv io checksum block file held" and page: "page_ok block buf"
    and w: "wt_block_write_off io mem block file buf memsize = (block', file', buf', Inl e)"
  shows "io_inv io checksum block' file' held"
proof (rule write_off_failure [OF page w])
  assume "file' = file" "block' = block \<or> block' = next_gen block"
  then show ?thesis using inv by (auto simp: io_inv_def)
next
  fix c img len off block2 n
  assume c: "block_compress io (blk_allocsize block) (sized io buf) (align_of block buf) = Inr c"
    and img: "write_image (sized io buf) (align_of block buf) c = (img, len)"
    and al: "wt_block_alloc (next_gen block) (uint len) = Inr (off, block2)"
    and pw: "io_pwrite io file off (block_seal io mem (next_gen block) len img) = (file', n)"
    and b: "block' = (case wt_block_off_free block2 off (uint len) of Inl _ \<Rightarrow> block2 | Inr block3 \<Rightarrow> block3)"
  note W = write_reads_as [OF page io_okD(5) [OF io] c img refl]
  note A = write_alloc [OF io inv al W(4,2) pw]
  obtain block3 where f: "wt_block_off_free block2 off (uint len) = Inr block3"
    "held_ok block3 (insert (off, uint len) (dom held) - {(off, uint len)})"
    using held_ok_free [OF A(1), of off "uint len"] by blast
  have "insert (off, uint len) (dom held) - {(off, uint len)} = dom held" using A(5) by blast
  then have "held_ok block' (dom held)" using f b by simp
  moreover have "blk_checksum block' = checksum" using off_free_keeps(1) [OF f(1)] A(4) b f(1) by simp
  moreover have "stored io checksum file' h r" if "held h = Some r" for h r
    using A(3) [OF that] A(5) that by blast
  ultimately show ?thesis by (intro io_invI)
qed

lemma io_run_inv:
  assumes "io_run io block0 file0 held0 block file held" "io_ok io" "io_inv io checksum block0 file0 held0"
  shows "io_inv io checksum block file held"
  using assms
proof (induction rule: io_run.induct)
  case io_start
  then show ?case by blast
next
  case (io_write block f held buf mem memsize block' f' buf' off len ck)
  then show ?case using io_write_inv by blast
next
  case (io_write_fails block f held buf mem memsize block' f' buf' e)
  then show ?case using io_write_fails_inv by blast
next
  case (io_free block f held off len r block')
  then have inv: "io_inv io checksum block f held" by blast
  then have ok: "held_ok block (dom held)" by (simp add: io_inv_def)
  have "(off, len) \<in> dom held" using io_free.hyps(2) by blast
  then have "held_ok block' (dom held - {(off, len)})"
    using held_ok_free [OF ok] io_free.hyps(3) by (metis sum.inject(2))
  then have d: "held_ok block' (dom (held((off, len) := None)))" by (simp only: dom_fun_upd) simp
  show ?case
    using io_invD(2,3) [OF inv] off_free_keeps(1) [OF io_free.hyps(3)]
    by (intro io_invI [OF d]) (simp_all split: if_splits)
qed


lemma write_off_succeeds:
  assumes "page_ok block buf" "unat (align_of block buf) \<le> memsize"
    "block_compress io (blk_allocsize block) (sized io buf) (align_of block buf) = Inr c"
    "write_image (sized io buf) (align_of block buf) c = (img, len)"
    "wt_block_alloc (next_gen block) (uint len) = Inr (off, block2)"
    "\<And>bs. \<exists>file'. io_pwrite io file off bs = (file', int (length bs))"
  shows "\<exists>file' buf' ck. wt_block_write_off io mem block file buf memsize = (block2, file', buf', Inr (off, len, ck))"
  using assms(6) [of "block_seal io mem (next_gen block) len img"] assms(2-5)
  by (auto simp: write_off_eq [OF assms(1)] Let_def)

lemma stored_read:
  assumes io: "io_ok io" and st: "stored io checksum file (off, len) (ck, buf)" and ck: "blk_checksum block = checksum"
  shows "\<exists>page. wt_block_read_off io mem block file off (of_int len) ck = Inr page \<and> same_page (io_be io) buf page"
proof -
  have s: "0 \<le> off" "nat off + nat len \<le> length file" "unat (of_int len :: u32) = nat len"
    using st by (simp_all add: stored_def unsigned_of_int take_bit_int_eq_self nat_take_bit_eq)
  have "wt_read io file off (of_int len) = Inr (get_at (nat off) (nat len) file)"
    using io_okD(4) [OF io s(1,2)] s by (simp add: wt_read_def get_at_def)
  then show ?thesis using st ck by (simp add: stored_def reads_as_def)
qed

text \<open>
  Blocks of a checkpoint are on neither the available nor the allocated list: allocation does not
  take them, and freeing them puts them on the discard list.
\<close>

definition protected :: "wt_block \<Rightarrow> int \<times> int \<Rightarrow> bool" where
  "protected block h \<longleftrightarrow> range_of h \<inter> (avail_of block \<union> alloc_of block) = {} \<and> range_of h \<subseteq> file_of block"

lemma alloc_protected:
  assumes "block_ok block" "0 < len" "wt_block_alloc block len = Inr (off, block')" "protected block h"
  shows "protected block' h" "range_of h \<inter> {off ..< off + len} = {}"
proof -
  note E = alloc_effect [OF assms(1-3)]
  show d: "range_of h \<inter> {off ..< off + len} = {}" using E(2) assms(4) unfolding protected_def by blast
  show "protected block' h" using E(3,4,7) d assms(4) unfolding protected_def by blast
qed

lemma free_protected:
  assumes "block_ok block" "freeable block off len" "wt_block_off_free block off len = Inr block'" "protected block h"
  shows "protected block' h"
proof (cases rule: off_free_cases [OF assms(1,2)])
  case (1 b)
  then have "block' = b" using assms(3) by simp
  then show ?thesis using 1(3-5,8) assms(4) unfolding protected_def by auto
next
  case (2 b)
  then have "block' = b" using assms(3) by simp
  then show ?thesis using 2(4,5,8) assms(4) unfolding protected_def by auto
qed

lemma protected_next_gen [simp]: "protected (next_gen block) h = protected block h"
  by (simp add: protected_def)

text \<open>One write keeps what is stored in a protected block, whether it succeeds or not.\<close>

lemma write_protected:
  assumes io: "io_ok io" and ok: "block_ok block" and page: "page_ok block buf"
    and w: "wt_block_write_off io mem block file buf memsize = (block', file', buf', r)"
    and h: "protected block h" "stored io checksum file h x"
  shows "protected block' h" "stored io checksum file' h x"
proof -
  have ok': "block_ok (next_gen block)" "protected (next_gen block) h" using ok h(1) by simp_all
  have step: "protected block2 h \<and> stored io checksum file' h x \<and> block_ok block2 \<and> freeable block2 off (uint len)"
    if c: "block_compress io (blk_allocsize block) (sized io buf) (align_of block buf) = Inr c"
      "write_image (sized io buf) (align_of block buf) c = (img, len)"
      and al: "wt_block_alloc (next_gen block) (uint len) = Inr (off, block2)"
      and pw: "io_pwrite io file off (block_seal io mem (next_gen block) len img) = (file', n)"
    for c img len off block2 n
  proof -
    note W = write_reads_as [OF page io_okD(5) [OF io] c refl]
    have len: "0 < uint len" using W(4) by (metis of_nat_0_less_iff uint_nat)
    have new: "held_ok block2 {(off, uint len)}"
      using held_ok_alloc(1) [OF _ len al, of "{}"] ok' by (simp add: held_ok_def)
    have off: "0 \<le> off" using file_offset(1) [OF new] by blast
    have "int (length (block_seal io mem (next_gen block) len img)) = uint len" using W(2) by simp
    then have "stored io checksum file' h x"
      using alloc_protected(2) [OF ok'(1) len al ok'(2)] by (intro stored_pwrite [OF io pw off h(2)]) simp
    then show ?thesis
      using alloc_protected(1) [OF ok'(1) len al ok'(2)] held_okD(1) [OF new] new by (simp add: held_ok_def)
  qed
  have "protected block' h \<and> stored io checksum file' h x"
  proof (cases r)
    case (Inl e)
    show ?thesis
    proof (rule write_off_failure [OF page w [unfolded Inl]])
      assume "file' = file" "block' = block \<or> block' = next_gen block"
      then show ?thesis using h by auto
    next
      fix c img len off block2 n
      assume a: "block_compress io (blk_allocsize block) (sized io buf) (align_of block buf) = Inr c"
        "write_image (sized io buf) (align_of block buf) c = (img, len)"
        "wt_block_alloc (next_gen block) (uint len) = Inr (off, block2)"
        "io_pwrite io file off (block_seal io mem (next_gen block) len img) = (file', n)"
        and b: "block' = (case wt_block_off_free block2 off (uint len) of Inl _ \<Rightarrow> block2 | Inr block3 \<Rightarrow> block3)"
      from step [OF a] show ?thesis using b free_protected by (auto split: sum.splits)
    qed
  next
    case (Inr q)
    obtain off len ck where q: "q = (off, len, ck)" by (cases q) auto
    show ?thesis by (rule write_off_success [OF page w [unfolded Inr q]]) (use step in blast)
  qed
  then show "protected block' h" "stored io checksum file' h x" by simp_all
qed

lemma io_inv_new: "block_ok block \<Longrightarrow> io_inv io (blk_checksum block) block file Map.empty"
  by (simp add: io_inv_def held_ok_def)

section \<open>Properties of reading and writing\<close>

text \<open>A file that never fails, and a compressor of pages of zeros.\<close>

definition zero_compressor :: wt_compressor where
  "zero_compressor = \<lparr>comp_pre_size = None,
     comp_compress = (\<lambda>src n. Inr (if src \<noteq> [] \<and> list_all (\<lambda>b. b = 0) src then ([], False) else (src, True))),
     comp_decompress = (\<lambda>bs n. Inr (replicate n 0))\<rparr>"

definition file_put :: "bytes \<Rightarrow> int \<Rightarrow> bytes \<Rightarrow> bytes" where
  "file_put file off buf =
     take (nat off) file @ replicate (nat off - length file) 0 @ buf @ drop (nat off + length buf) file"

definition sample_io :: wt_io where
  "sample_io = \<lparr>io_be = False, io_compressor = Some zero_compressor,
     io_pwrite = (\<lambda>file off buf. (file_put file off buf, int (length buf))),
     io_pread = (\<lambda>file off n. get_at (nat off) n file), io_errno = WT_ERROR,
     io_ftruncate = (\<lambda>file n. Inr (take (nat n) file @ replicate (nat n - length file) 0))\<rparr>"

lemma zeros_replicate: "list_all (\<lambda>b. b = 0) xs \<Longrightarrow> replicate (length xs) 0 = xs"
  by (induction xs) auto

lemma sample_io_ok: "io_ok sample_io"
proof -
  have "compressor_ok zero_compressor"
    by (auto simp: compressor_ok_def zero_compressor_def zeros_replicate split: if_splits)
  moreover have "get_at (nat off) (length buf) (file_put f off buf) = buf" for f off buf
    by (auto simp: get_at_def file_put_def min_def)
  moreover have "file_put f off buf ! i = f ! i"
    if "0 \<le> off" "i < length f" "int i < off \<or> off + int (length buf) \<le> int i" for f off buf i
    using that by (auto simp: file_put_def nth_append min_def not_less)
  moreover have "length (file_put f off buf) = max (length f) (nat off + length buf)" for f off buf
    by (auto simp: file_put_def)
  ultimately show ?thesis by (auto simp: io_ok_def sample_io_def)
qed

text \<open>
  C2: durability. In every history of writes, failed writes and frees of a file, each block that
  is in use reads back as the page that was written, wherever the buffers are in memory,
  with or without checksums, and whether or not the block was compressed.
\<close>

theorem io_run_durable:
  assumes "io_ok io" "io_inv io checksum block0 file0 held0" "io_run io block0 file0 held0 block file held"
    "held (off, len) = Some (ck, buf)"
  shows "\<exists>page. wt_block_read_off io mem block file off (of_int len) ck = Inr page \<and> same_page (io_be io) buf page"
proof -
  note inv = io_run_inv [OF assms(3,1,2)]
  show ?thesis by (rule stored_read [OF assms(1) io_invD(3) [OF inv assms(4)] io_invD(2) [OF inv]])
qed

lemma sample_write:
  obtains block' file' buf' off ck where
    "wt_block_write_off sample_io 0 sample_block [] (replicate 600 0) 1024 = (block', file', buf', Inr (off, 512, ck))"
    "page_ok sample_block (replicate 600 0)"
proof -
  let ?buf = "replicate 600 (0 :: u8)"
  have sz: "blk_allocsize sample_block = 512" by (simp add: sample_block_def)
  have page: "page_ok sample_block ?buf"
    by (simp add: page_ok_def header_consts sz) (rule exI [of _ 9], simp)
  have al: "align_of sample_block ?buf = 1024" by (simp add: sz WT_ALIGN_def)
  have "drop 64 (sized sample_io ?buf) = replicate 536 0"
    by (simp add: set_dsk_size_def drop_put_at)
  then have c: "block_compress sample_io 512 (sized sample_io ?buf) 1024 =
      Inr (Some (take 64 (sized sample_io ?buf) @ replicate 448 0, 512))"
    by (simp add: block_compress_def sample_io_def zero_compressor_def WT_BLOCK_COMPRESS_SKIP_def WT_ALIGN_def list_all_length)
  obtain off block2 where a: "wt_block_alloc (next_gen sample_block) 512 = Inr (off, block2)"
    by (rule alloc_cases [of "next_gen sample_block" 512]) (simp_all add: sample_block_ok sz, simp add: sample_block_def INT64_MAX_def)
  have "\<exists>f buf' ck. wt_block_write_off sample_io 0 sample_block [] ?buf 1024 = (block2, f, buf', Inr (off, 512, ck))"
  proof (rule write_off_succeeds [OF page])
    show "block_compress sample_io (blk_allocsize sample_block) (sized sample_io ?buf) (align_of sample_block ?buf) =
        Inr (Some (take 64 (sized sample_io ?buf) @ replicate 448 0, 512))"
      by (subst al, subst sz) (rule c)
  qed (use al a in \<open>simp_all add: write_image_def sample_io_def\<close>)
  then show thesis using that page by blast
qed

theorem io_run_durable_witness:
  "\<exists>block file buf' off ck page.
     wt_block_write_off sample_io 0 sample_block [] (replicate 600 0) 1024 = (block, file, buf', Inr (off, 512, ck)) \<and>
     wt_block_read_off sample_io 3 block file off 512 ck = Inr page \<and> same_page False (replicate 600 0) page"
proof (rule sample_write)
  fix block and f :: bytes and buf' off ck
  assume w: "wt_block_write_off sample_io 0 sample_block [] (replicate 600 0) 1024 = (block, f, buf', Inr (off, 512, ck))"
    and "page_ok sample_block (replicate 600 0)"
  then have "io_run sample_io sample_block [] Map.empty block f (Map.empty((off, uint (512 :: u32)) \<mapsto> (ck, replicate 600 0)))"
    using io_write [OF io_start] by blast
  from io_run_durable [OF sample_io_ok io_inv_new [OF sample_block_ok] this, of off 512 ck "replicate 600 0" 3]
  show ?thesis using w by (auto simp: sample_io_def)
qed


lemma alloc_then_free:
  assumes ok: "block_ok block" and len: "0 < len" and al: "wt_block_alloc block len = Inr (off, block2)"
  obtains block3 where "wt_block_off_free block2 off len = Inr block3" "block_ok block3"
    "alloc_of block3 = alloc_of block" "discard_of block3 = discard_of block"
    "avail_of block3 = avail_of block \<union> {blk_file_size block ..< blk_file_size block3}"
proof -
  let ?r = "{off ..< off + len}"
  have new: "held_ok block2 {(off, len)}" using held_ok_alloc(1) [OF _ len al, of "{}"] ok by (simp add: held_ok_def)
  have f: "freeable block2 off len" using held_okD(1) [OF new] by simp
  note E = alloc_effect [OF ok len al]
  have mod: "len mod uint (blk_allocsize block) = 0" using al by (auto simp: wt_block_alloc_def split: if_splits)
  have dj: "alloc_of block \<inter> ?r = {}" using E(2) block_okD(5,11) [OF ok] by blast
  show thesis
  proof (cases rule: off_free_cases [OF E(1) f])
    case (1 block3)
    have "avail_of block2 \<union> ?r = avail_of block \<union> {blk_file_size block ..< blk_file_size block2}"
    proof (cases rule: alloc_cases [OF ok len mod])
      case (1 e b)
      then show ?thesis using al by auto
    next
      case (2 b)
      then show ?thesis using al by auto
    qed (use al in simp)
    moreover have "alloc_of block2 - ?r = alloc_of block" using E(3) dj by blast
    ultimately show thesis using that [of block3] 1 E(5) by simp
  next
    case (2 block3)
    have "off \<in> ?r" using len by simp
    then show thesis using 2(3) E(3) by blast
  qed
qed

text \<open>
  C13: a write that fails leaks no space and damages nothing: the lists are consistent, the blocks
  in use are the same, what was available still is, and only space that a failed write added
  at the end of the file became available; no byte of the file outside the available
  space has changed.
\<close>

theorem write_failure_clean:
  assumes "io_ok io" "block_ok block" "page_ok block buf"
    "wt_block_write_off io mem block file buf memsize = (block', file', buf', Inl e)"
  shows "block_ok block' \<and> alloc_of block' = alloc_of block \<and> discard_of block' = discard_of block \<and>
    avail_of block' = avail_of block \<union> {blk_file_size block ..< blk_file_size block'} \<and>
    (\<forall>i<length file. int i < blk_file_size block \<and> int i \<notin> avail_of block \<longrightarrow> file' ! i = file ! i)"
proof (rule write_off_failure [OF assms(3,4)])
  assume "file' = file" "block' = block \<or> block' = next_gen block"
  then show ?thesis using assms(2) by (elim disjE) (simp_all del: block_ok_next_gen add: block_ok_next_gen)
next
  fix c img len off block2 n
  assume c: "block_compress io (blk_allocsize block) (sized io buf) (align_of block buf) = Inr c"
    and img: "write_image (sized io buf) (align_of block buf) c = (img, len)"
    and al: "wt_block_alloc (next_gen block) (uint len) = Inr (off, block2)"
    and pw: "io_pwrite io file off (block_seal io mem (next_gen block) len img) = (file', n)"
    and b: "block' = (case wt_block_off_free block2 off (uint len) of Inl _ \<Rightarrow> block2 | Inr block3 \<Rightarrow> block3)"
  note W = write_reads_as [OF assms(3) io_okD(5) [OF assms(1)] c img refl]
  have len: "0 < uint len" using W(4) by (metis of_nat_0_less_iff uint_nat)
  have ok: "block_ok (next_gen block)" using assms(2) by simp
  obtain block3 where f: "wt_block_off_free block2 off (uint len) = Inr block3" "block_ok block3"
    "alloc_of block3 = alloc_of block" "discard_of block3 = discard_of block"
    "avail_of block3 = avail_of block \<union> {blk_file_size block ..< blk_file_size block3}"
    using alloc_then_free [OF ok len al] by auto
  have r: "{off ..< off + uint len} \<subseteq> avail_of block \<or> {off ..< off + uint len} \<inter> file_of block = {}"
    using alloc_effect(2) [OF ok len al] by simp
  have new: "held_ok block2 {(off, uint len)}" using held_ok_alloc(1) [OF _ len al, of "{}"] ok by (simp add: held_ok_def)
  have off: "0 \<le> off" "WT_BLOCK_DESC_SECTOR \<le> off"
    using file_offset(1) [OF new] held_okD(2) [OF new] len by (force simp: range_of_def)+
  have "file' ! i = file ! i" if i: "i < length file" "int i < blk_file_size block" "int i \<notin> avail_of block" for i
  proof (rule io_okD(2) [OF assms(1) off(1) pw i(1)])
    have "int i \<notin> {off ..< off + uint len}" using r i off(2) by fastforce
    then show "int i < off \<or> off + int (length (block_seal io mem (next_gen block) len img)) \<le> int i"
      using W(2) by auto
  qed
  then show ?thesis using f b by simp
qed

theorem write_failure_clean_witness:
  "\<exists>block' file' buf'. wt_block_write_off (sample_io\<lparr>io_pwrite := (\<lambda>f off bs. (f, - 1))\<rparr>) 0 sample_block [] (replicate 600 0) 1024 =
     (block', file', buf', Inl WT_ERROR) \<and> block_ok block' \<and> alloc_of block' = {}"
proof (rule sample_write)
  let ?io = "sample_io\<lparr>io_pwrite := (\<lambda>f off bs. (f, - 1))\<rparr>"
  fix block and f :: bytes and buf' off ck
  assume "wt_block_write_off sample_io 0 sample_block [] (replicate 600 0) 1024 = (block, f, buf', Inr (off, 512, ck))"
    and page: "page_ok sample_block (replicate 600 0)"
  then obtain block' f' buf'' where w: "wt_block_write_off ?io 0 sample_block [] (replicate 600 0) 1024 = (block', f', buf'', Inl WT_ERROR)"
    by (auto simp: write_off_eq [OF page] block_compress_def sample_io_def Let_def split: if_splits sum.splits prod.splits)
  have "io_ok ?io" using sample_io_ok by (simp add: io_ok_def sample_io_def)
  from write_failure_clean [OF this sample_block_ok page w] w show ?thesis
    by (auto simp: sample_block_def ckpt_zero_def extlist_zero_ranges)
qed


lemma crc32c_update:
  assumes "p < length bs" "bs ! p \<noteq> x"
  shows "crc32c (bs[p := x]) \<noteq> crc32c bs"
  using crc32c_change_byte [of x "bs ! p" "take p bs" "drop (Suc p) bs"] assms
  by (metis id_take_nth_drop upd_conv_take_nth_drop)

lemma put_at_update:
  assumes "k + length v \<le> length img" "p < length img" "p < k \<or> k + length v \<le> p"
  shows "put_at k v (img[p := x]) = (put_at k v img)[p := x]"
  using assms by (intro nth_equalityI) (auto simp: nth_put_at nth_list_update)

text \<open>
  C12: a change of any one byte of a checksummed block on disk, outside the stored checksum, is
  detected when the block is read: the read fails. The one exception is that the checksums of the
  two images are the value that is reserved for "not set" and its successor, to which the
  reserved value is moved.
\<close>

theorem corruption_detected:
  assumes "blk_checksum block" "36 \<le> length img" "length img = unat len" "dsk = block_seal io mem block len img"
    "p < length dsk" "p < 32 \<or> 36 \<le> p" "x \<noteq> dsk ! p" "wt_read io file off len = Inr (dsk[p := x])"
  shows "wt_block_read_off io mem' block file off len (blk_cksum (io_be io) dsk) = Inl WT_ERROR \<or>
    {crc32c (set_cksum (io_be io) 0 dsk), crc32c (set_cksum (io_be io) 0 (dsk[p := x]))} =
      {WT_BLOCK_CHECKSUM_NOT_SET, WT_BLOCK_CHECKSUM_NOT_SET + 1}"
proof -
  let ?be = "io_be io" and ?g = "ck_write_gen (blk_live block)"
  let ?v = "image_cksum ?be mem (stamp ?be 0 len ?g img)"
  have s: "dsk = stamp ?be ?v len ?g img" using assms(1,4) by (simp add: block_seal_stamp [OF assms(2)])
  have l: "length dsk = length img" using s assms(2) by simp
  have upd: "put_at 32 v (dsk[p := x]) = (put_at 32 v dsk)[p := x]" if "length v = 4" for v
    using put_at_update [of 32 v dsk p x] that assms(2,5,6) l by auto
  have ck: "blk_cksum ?be dsk = ?v" using s assms(2) by simp
  have "get_at 32 4 (dsk[p := x]) = get_at 32 4 dsk"
    using assms(5,6) l by (intro nth_equalityI) (auto simp: get_at_def nth_list_update)
  then have ck': "blk_cksum ?be (dsk[p := x]) = ?v" using ck by (simp add: blk_cksum_def WT_PAGE_HEADER_SIZE_def)
  have z: "set_cksum ?be 0 (dsk[p := x]) = (set_cksum ?be 0 dsk)[p := x]"
    using upd by (simp add: set_cksum_def WT_PAGE_HEADER_SIZE_def)
  have "set_cksum ?be 0 dsk ! p = dsk ! p"
    using assms(2,5,6) l by (auto simp: set_cksum_def nth_put_at WT_PAGE_HEADER_SIZE_def)
  then have ne: "crc32c (set_cksum ?be 0 (dsk[p := x])) \<noteq> crc32c (set_cksum ?be 0 dsk)"
    unfolding z using assms(2,5,7) l by (intro crc32c_update) auto
  have v: "?v = image_cksum ?be mem' dsk" using image_cksum_stamp [OF assms(2)] s by metis
  show ?thesis
  proof (cases "?v = image_cksum ?be mem' (dsk[p := x])")
    case True
    then have "{crc32c (set_cksum ?be 0 dsk), crc32c (set_cksum ?be 0 (dsk[p := x]))} =
        {WT_BLOCK_CHECKSUM_NOT_SET, WT_BLOCK_CHECKSUM_NOT_SET + 1}"
      using v ne unfolding image_cksum_def wt_cksum_crc32c Let_def by (auto split: if_splits)
    then show ?thesis by blast
  next
    case False
    then show ?thesis
      using assms(1,8) ck ck' image_cksum_set by (simp add: wt_block_read_off_def)
  qed
qed

theorem corruption_detected_witness:
  "let dsk = block_seal sample_io 0 sample_block 512 (replicate 512 0);
       io = sample_io\<lparr>io_pread := (\<lambda>f off n. dsk[100 := 1])\<rparr>
   in wt_block_read_off io 0 sample_block [] 4096 512 (blk_cksum False dsk) = Inl WT_ERROR \<or>
     {crc32c (set_cksum False 0 dsk), crc32c (set_cksum False 0 (dsk[100 := 1]))} =
       {WT_BLOCK_CHECKSUM_NOT_SET, WT_BLOCK_CHECKSUM_NOT_SET + 1}"
proof -
  define dsk where "dsk = block_seal sample_io 0 sample_block 512 (replicate 512 0)"
  define io where "io = sample_io\<lparr>io_pread := (\<lambda>f off n. dsk[100 := 1])\<rparr>"
  have dsk: "dsk = block_seal io 0 sample_block 512 (replicate 512 0)" by (simp add: dsk_def io_def block_seal_def)
  have ck: "blk_checksum sample_block" by (simp add: sample_block_def)
  have l: "length dsk = 512" by (simp add: dsk_def block_seal_stamp)
  have "dsk ! 100 = 0"
    by (simp add: dsk_def block_seal_stamp stamp_def set_cksum_def set_disk_size_def set_write_gen_def nth_put_at WT_PAGE_HEADER_SIZE_def)
  moreover have "wt_read io [] 4096 512 = Inr (dsk[100 := 1])" by (simp add: wt_read_def io_def l)
  ultimately have "wt_block_read_off io 0 sample_block [] 4096 512 (blk_cksum (io_be io) dsk) = Inl WT_ERROR \<or>
     {crc32c (set_cksum (io_be io) 0 dsk), crc32c (set_cksum (io_be io) 0 (dsk[100 := 1]))} =
       {WT_BLOCK_CHECKSUM_NOT_SET, WT_BLOCK_CHECKSUM_NOT_SET + 1}"
    by (intro corruption_detected [OF ck _ _ dsk]) (simp_all add: l)
  then show ?thesis unfolding Let_def dsk_def [symmetric] io_def [symmetric] by (simp add: io_def sample_io_def)
qed


text \<open>
  C5: crash consistency. A block that is on neither the available nor the allocated list, as every
  block of a completed checkpoint is, still reads back as the page that was written after any
  history of writes, failed writes and frees, even when it was freed in between.
\<close>

theorem checkpoint_blocks_survive:
  assumes "io_ok io" "io_inv io checksum block0 file0 held0" "io_run io block0 file0 held0 block file held"
    "held0 (off, len) = Some (ck, buf)" "protected block0 (off, len)" "blk_checksum reader = checksum"
  shows "\<exists>page. wt_block_read_off io mem reader file off (of_int len) ck = Inr page \<and> same_page (io_be io) buf page"
proof -
  from assms(3) have "protected block (off, len) \<and> stored io checksum file (off, len) (ck, buf)"
  proof (induction rule: io_run.induct)
    case io_start
    then show ?case using assms(5) io_invD(3) [OF assms(2,4)] by blast
  next
    case (io_write block f held buf mem memsize block' f' buf' off len ck)
    then show ?case
      using write_protected [OF assms(1) _ io_write.hyps(2,3)] io_invD(1) [OF io_run_inv [OF io_write.hyps(1) assms(1,2)]]
      by (auto simp: held_ok_def)
  next
    case (io_write_fails block f held buf mem memsize block' f' buf' e)
    then show ?case
      using write_protected [OF assms(1) _ io_write_fails.hyps(2,3)] io_invD(1) [OF io_run_inv [OF io_write_fails.hyps(1) assms(1,2)]]
      by (auto simp: held_ok_def)
  next
    case (io_free block f held off' len' r block')
    note ok = io_invD(1) [OF io_run_inv [OF io_free.hyps(1) assms(1,2)]]
    have "freeable block off' len'" using held_okD(1) [OF ok, of "(off', len')"] io_free.hyps(2) by auto
    then show ?case using free_protected [OF _ _ io_free.hyps(3)] ok io_free.IH by (auto simp: held_ok_def)
  qed
  then show ?thesis using stored_read [OF assms(1) _ assms(6)] by blast
qed

text \<open>The end of a checkpoint: the allocated and discard lists start again empty.\<close>

lemma held_ok_clear:
  assumes "held_ok block held" "extlist_ok alloc" "el_ranges alloc = {}" "extlist_ok discard" "el_ranges discard = {}"
  shows "held_ok (block\<lparr>blk_live := (blk_live block)\<lparr>ck_alloc := alloc, ck_discard := discard\<rparr>\<rparr>) held"
    (is "held_ok ?b held")
proof (rule held_okI)
  have ok: "block_ok block" using assms(1) by (simp add: held_ok_def)
  show "block_ok ?b" using block_okD [OF ok] assms(2-5) by (simp add: block_ok_def lists_ok_def)
  fix h assume h: "h \<in> held"
  show "0 < snd h" "range_of h \<subseteq> file_of ?b" using held_okD(2,5) [OF assms(1) h] by simp_all
  show "range_of h \<inter> (avail_of ?b \<union> discard_of ?b \<union> ckpt_avail_of ?b) = {}"
    using held_okD(3) [OF assms(1) h] assms(5) by auto
  show "range_of h \<subseteq> alloc_of ?b \<or> range_of h \<inter> alloc_of ?b = {}" using assms(3) by simp
next
  fix h h' assume "h \<in> held" "h' \<in> held" "h \<noteq> h'"
  then show "range_of h \<inter> range_of h' = {}" using assms(1) unfolding held_ok_def by blast
qed

theorem checkpoint_blocks_survive_witness:
  "\<exists>block file buf' off ck block1 block2 page.
     wt_block_write_off sample_io 0 sample_block [] (replicate 600 0) 1024 = (block, file, buf', Inr (off, 512, ck)) \<and>
     block1 = block\<lparr>blk_live := (blk_live block)\<lparr>ck_alloc := extlist_zero, ck_discard := extlist_zero\<rparr>\<rparr> \<and>
     wt_block_off_free block1 off 512 = Inr block2 \<and>
     wt_block_read_off sample_io 3 block2 file off 512 ck = Inr page \<and> same_page False (replicate 600 0) page"
proof (rule sample_write)
  fix block and f :: bytes and buf' off ck
  assume w: "wt_block_write_off sample_io 0 sample_block [] (replicate 600 0) 1024 = (block, f, buf', Inr (off, 512, ck))"
    and "page_ok sample_block (replicate 600 0)"
  let ?held = "Map.empty((off, uint (512 :: u32)) \<mapsto> (ck, replicate 600 (0 :: u8)))"
  let ?b = "block\<lparr>blk_live := (blk_live block)\<lparr>ck_alloc := extlist_zero, ck_discard := extlist_zero\<rparr>\<rparr>"
  have inv: "io_inv sample_io (blk_checksum sample_block) block f ?held"
    by (rule io_write_inv [OF sample_io_ok io_inv_new [OF sample_block_ok] _ w]) fact
  have ok: "held_ok ?b (dom ?held)"
  proof -
    have a: "held_ok block (dom ?held)" by (rule io_invD(1) [OF inv])
    show ?thesis by (rule held_ok_clear [OF a extlist_zero_ok extlist_zero_ranges extlist_zero_ok extlist_zero_ranges])
  qed
  have inv': "io_inv sample_io (blk_checksum sample_block) ?b f ?held"
    using io_invD(2,3) [OF inv] by (intro io_invI [OF ok]) simp_all
  obtain block2 where free: "wt_block_off_free ?b off 512 = Inr block2" using held_ok_free [OF ok, of off 512] by auto
  have run: "io_run sample_io ?b f ?held block2 f (?held((off, 512) := None))"
    by (rule io_free [OF io_start _ free]) simp
  have "range_of (off, 512) \<inter> avail_of block = {}" "range_of (off, 512) \<subseteq> file_of block"
    using held_okD(2,3) [OF io_invD(1) [OF inv], of "(off, 512)"] by auto
  then have prot: "protected ?b (off, 512)" by (simp add: protected_def extlist_zero_ranges)
  have "blk_checksum block2 = blk_checksum sample_block"
    using off_free_keeps(1) [OF free] io_invD(2) [OF inv] by simp
  from checkpoint_blocks_survive [OF sample_io_ok inv' run _ prot this, of ck "replicate 600 0" 3] free w
  show ?thesis by (auto simp: sample_io_def)
qed

end
