(* ===== verification/Wt_Extlist_IO.thy ===== *)
theory Wt_Extlist_IO
  imports Wt_Durable
begin

text \<open>
  The on-disk form of the extent lists (\<open>src/src/block/block_ext.c\<close>): a block-manager page that
  holds pairs of offset and size between a magic pair and an end pair, written with the block
  writer and merged into a list when it is read; and the truncation of the file.
\<close>

section \<open>The page\<close>

definition off_bytes :: "bool \<Rightarrow> int \<Rightarrow> bytes" where
  "off_bytes be v = to_bytes be 8 (of_int v :: u64)"

definition off_value :: "bool \<Rightarrow> bytes \<Rightarrow> int" where
  "off_value be bs = sint (from_bytes be bs :: u64)"

definition pair_bytes :: "bool \<Rightarrow> int \<times> int \<Rightarrow> bytes" where
  "pair_bytes be p = off_bytes be (fst p) @ off_bytes be (snd p)"

abbreviation ext_pairs :: "wt_extlist \<Rightarrow> (int \<times> int) list" where
  "ext_pairs el \<equiv> map (\<lambda>e. (ext_off e, ext_size e)) (el_off el)"

definition extlist_header :: "bool \<Rightarrow> u32 \<Rightarrow> bytes" where
  "extlist_header be datasize =
     put_at 16 [WT_PAGE_BLOCK_MANAGER]
       (put_at 12 (to_bytes be 4 datasize) (replicate WT_BLOCK_HEADER_BYTE_SIZE 0))"

definition extlist_data :: "bool \<Rightarrow> (int \<times> int) list \<Rightarrow> bytes" where
  "extlist_data be ps =
     concat (map (pair_bytes be) ([(WT_BLOCK_EXTLIST_MAGIC, 0)] @ ps @ [(WT_BLOCK_INVALID_OFFSET, 0)]))"

section \<open>Writing\<close>

text \<open>
  The list \<open>el\<close> can be one of the live lists, which the block writer changes when it allocates
  the block; its entries are read before that, and the address is stored in it after that, by
  the caller of this function. \<open>additional\<close> is the second list, if there is one.
\<close>

definition wt_block_extlist_write ::
  "wt_io \<Rightarrow> u64 \<Rightarrow> wt_block \<Rightarrow> bytes \<Rightarrow> wt_extlist \<Rightarrow> wt_extlist option \<Rightarrow>
     wt_block \<times> bytes \<times> (int \<times> u32 \<times> u32) result" where
  "wt_block_extlist_write io mem block file el additional =
     (let entries = el_entries el + (case additional of None \<Rightarrow> 0 | Some a \<Rightarrow> el_entries a) in
      if entries = 0 then (block, file, Inr (WT_BLOCK_INVALID_OFFSET, 0, 0))
      else
        (let datasize = (entries + 2) * 16;
             memsize = wt_block_write_size block datasize;
             page = extlist_header (io_be io) datasize @
               extlist_data (io_be io) (ext_pairs el @ (case additional of None \<Rightarrow> [] | Some a \<Rightarrow> ext_pairs a))
         in if length page \<noteq> unat (of_nat WT_BLOCK_HEADER_BYTE_SIZE + datasize) then (block, file, Inl OUT_OF_BOUNDS)
            else case wt_block_write_off io mem block file page (unat memsize) of
              (block, file, _, r) \<Rightarrow> (block, file, r)))"

section \<open>Reading\<close>

text \<open>The pairs behind the magic pair.\<close>

function extlist_read_loop ::
  "bool \<Rightarrow> u32 \<Rightarrow> int \<Rightarrow> bytes \<Rightarrow> wt_extlist \<Rightarrow> rng \<Rightarrow> (wt_extlist \<times> rng) result" where
  "extlist_read_loop be allocsize file_size p el g =
     (if length p < 16 then Inl OUT_OF_BOUNDS
      else
        (let off = off_value be (take 8 p); sz = off_value be (take 8 (drop 8 p)) in
         if off = WT_BLOCK_INVALID_OFFSET then Inr (el, g)
         else if off < WT_BLOCK_DESC_SECTOR \<or> (off - WT_BLOCK_DESC_SECTOR) mod uint allocsize \<noteq> 0 \<or>
           sz mod uint allocsize \<noteq> 0 \<or> file_size < off + sz then Inl WT_ERROR
         else wt_ret (block_merge g el off sz) (\<lambda>(el, g).
           extlist_read_loop be allocsize file_size (drop 16 p) el g)))"
  by pat_completeness auto
termination
  by (relation "measure (\<lambda>(be, allocsize, file_size, p, el, g). length p)") auto

declare extlist_read_loop.simps [simp del]

text \<open>The list and the block, of which only the generator changes.\<close>

definition wt_block_extlist_read ::
  "wt_io \<Rightarrow> u64 \<Rightarrow> wt_block \<Rightarrow> bytes \<Rightarrow> wt_extlist \<Rightarrow> (wt_extlist \<times> wt_block) result" where
  "wt_block_extlist_read io mem block file el =
     (if el_offset el = WT_BLOCK_INVALID_OFFSET then Inr (el, block)
      else
        wt_ret (wt_block_read_off io mem block file (el_offset el) (el_size el) (el_cksum el)) (\<lambda>tmp.
          let p = drop WT_BLOCK_HEADER_BYTE_SIZE tmp in
          if length p < 16 then Inl OUT_OF_BOUNDS
          else if off_value (io_be io) (take 8 p) \<noteq> WT_BLOCK_EXTLIST_MAGIC \<or>
            off_value (io_be io) (take 8 (drop 8 p)) \<noteq> 0 then Inl WT_ERROR
          else
            wt_ret (extlist_read_loop (io_be io) (blk_allocsize block) (blk_file_size block) (drop 16 p) el (blk_rng block))
              (\<lambda>(el, g). Inr (el, block\<lparr>blk_rng := g\<rparr>))))"

definition wt_block_extlist_read_avail ::
  "wt_io \<Rightarrow> u64 \<Rightarrow> wt_block \<Rightarrow> bytes \<Rightarrow> wt_extlist \<Rightarrow> (wt_extlist \<times> wt_block) result" where
  "wt_block_extlist_read_avail io mem block file el =
     (if el_offset el = WT_BLOCK_INVALID_OFFSET then Inr (el, block)
      else
        wt_ret (wt_block_extlist_read io mem block file el) (\<lambda>(el, block).
          case wt_block_off_remove_overlap (blk_rng block) el (el_offset el) (uint (el_size el)) of
            Inr (el, g) \<Rightarrow> Inr (el, block\<lparr>blk_rng := g\<rparr>)
          | Inl e \<Rightarrow> if e = WT_NOTFOUND then Inr (el, block) else Inl e))"

section \<open>Truncation\<close>

text \<open>\<open>__wt_ftruncate\<close> with the cached size of the file.\<close>

definition wt_ftruncate :: "wt_io \<Rightarrow> wt_block \<Rightarrow> bytes \<Rightarrow> int \<Rightarrow> (wt_block \<times> bytes) result" where
  "wt_ftruncate io block file len =
     wt_ret (io_ftruncate io file len) (\<lambda>file. Inr (block\<lparr>blk_file_size := len\<rparr>, file))"

definition wt_block_extlist_truncate ::
  "wt_io \<Rightarrow> wt_block \<Rightarrow> bytes \<Rightarrow> wt_extlist \<Rightarrow> (wt_block \<times> bytes \<times> wt_extlist) result" where
  "wt_block_extlist_truncate io block file el =
     (case block_extlist_last (el_off el) of
        None \<Rightarrow> Inr (block, file, el)
      | Some ext \<Rightarrow>
          if ext_off ext + ext_size ext \<noteq> blk_file_size block then Inr (block, file, el)
          else
            wt_ret (wt_ftruncate io block file (ext_off ext)) (\<lambda>(block, file).
            wt_ret (block_off_remove el (ext_off ext)) (\<lambda>(_, el).
              Inr (block\<lparr>blk_file_size := ext_off ext\<rparr>, file, el))))"

section \<open>Alignment of the lists\<close>

text \<open>
  A set of bytes is aligned if it is made of whole allocation units, which are counted from the
  end of the description sector.
\<close>

definition unit_of :: "int \<Rightarrow> int \<Rightarrow> int" where
  "unit_of a x = x - (x - WT_BLOCK_DESC_SECTOR) mod a"

definition aligned :: "int \<Rightarrow> int set \<Rightarrow> bool" where
  "aligned a R \<longleftrightarrow> (\<forall>x\<in>R. {unit_of a x ..< unit_of a x + a} \<subseteq> R)"

lemma unit_of_mem: "0 < a \<Longrightarrow> x \<in> {unit_of a x ..< unit_of a x + a}"
  using pos_mod_bound [of a] by (simp add: unit_of_def)

lemma unit_of_mult: "unit_of a x = WT_BLOCK_DESC_SECTOR + a * ((x - WT_BLOCK_DESC_SECTOR) div a)"
  using div_mult_mod_eq [of "x - WT_BLOCK_DESC_SECTOR" a] by (simp add: unit_of_def algebra_simps)

lemma unit_of_same:
  assumes "0 < a" "y \<in> {unit_of a x ..< unit_of a x + a}"
  shows "unit_of a y = unit_of a x"
proof -
  let ?q = "(x - WT_BLOCK_DESC_SECTOR) div a"
  obtain r where r: "y - WT_BLOCK_DESC_SECTOR = a * ?q + r" "0 \<le> r" "r < a"
    using assms(2) by (intro that [of "y - unit_of a x"]) (simp_all add: unit_of_mult)
  then have "(y - WT_BLOCK_DESC_SECTOR) div a = ?q" using assms(1) by simp
  then show ?thesis by (simp add: unit_of_mult)
qed

lemma aligned_Un: "aligned a R \<Longrightarrow> aligned a S \<Longrightarrow> aligned a (R \<union> S)"
  unfolding aligned_def by blast

lemma aligned_empty [simp]: "aligned a {}"
  by (simp add: aligned_def)

lemma aligned_Diff:
  assumes "0 < a" "aligned a R" "aligned a S"
  shows "aligned a (R - S)"
  unfolding aligned_def
proof
  fix x assume x: "x \<in> R - S"
  have "y \<notin> S" if y: "y \<in> {unit_of a x ..< unit_of a x + a}" for y
  proof
    assume "y \<in> S"
    then have "{unit_of a y ..< unit_of a y + a} \<subseteq> S" using assms(3) by (simp add: aligned_def)
    then show False using unit_of_same [OF assms(1) y] unit_of_mem [OF assms(1), of x] x by auto
  qed
  then show "{unit_of a x ..< unit_of a x + a} \<subseteq> R - S" using assms(2) x unfolding aligned_def by blast
qed

lemma aligned_range:
  assumes "0 < a" "(off - WT_BLOCK_DESC_SECTOR) mod a = 0" "len mod a = 0"
  shows "aligned a {off ..< off + len}"
  unfolding aligned_def
proof
  fix x assume x: "x \<in> {off ..< off + len}"
  obtain m n where m: "off = WT_BLOCK_DESC_SECTOR + a * m" "len = a * n"
    using assms(2,3) by (metis add.commute diff_add_cancel mod_0_imp_dvd dvdE)
  let ?q = "(x - WT_BLOCK_DESC_SECTOR) div a"
  note u = unit_of_mult [of a x]
  have "a * m \<le> x - WT_BLOCK_DESC_SECTOR" using x m by simp
  then have "m \<le> ?q" using assms(1) by (metis div_mult_self1_is_m nonzero_mult_div_cancel_left order_less_irrefl zdiv_mono1)
  moreover have "x - WT_BLOCK_DESC_SECTOR < a * (m + n)" using x m by (simp add: distrib_left)
  then have "?q < m + n" using assms(1)
    by (metis minus_mod_eq_mult_div mult_less_cancel_left_pos le_less_trans diff_le_self pos_mod_sign diff_ge_0_iff_ge le_add_same_cancel2 add.commute diff_add_cancel)
  ultimately have "a * m \<le> a * ?q" "a * (?q + 1) \<le> a * (m + n)" using assms(1) by simp_all
  then show "{unit_of a x ..< unit_of a x + a} \<subseteq> {off ..< off + len}" unfolding u m by (auto simp: distrib_left)
qed

lemma extent_edges:
  assumes "extlist_ok el" "e \<in> set (el_off el)"
  shows "ext_off e - 1 \<notin> el_ranges el" "ext_off e + ext_size e \<notin> el_ranges el" "ext_range e \<subseteq> el_ranges el"
    "ext_off e \<in> el_ranges el" "ext_off e + ext_size e - 1 \<in> el_ranges el"
proof -
  note gap = extlist_okD(4,7) [OF assms(1)] and pos = extlist_okD(6) [OF assms(1)]
  show sub: "ext_range e \<subseteq> el_ranges el" using assms(2) by (auto simp: el_ranges_def)
  show "ext_off e \<in> el_ranges el" "ext_off e + ext_size e - 1 \<in> el_ranges el"
    using sub pos [OF assms(2)] by (auto simp: ext_range_def)
  have "ext_off e - 1 \<notin> ext_range x \<and> ext_off e + ext_size e \<notin> ext_range x" if x: "x \<in> set (el_off el)" for x
  proof -
    consider "x = e" | "ext_off x < ext_off e" | "ext_off e < ext_off x" using gap(1) [OF x assms(2)] by linarith
    then show ?thesis
      using gap(2) [OF x assms(2)] gap(2) [OF assms(2) x] pos [OF assms(2)] by cases (auto simp: ext_range_def)
  qed
  then show "ext_off e - 1 \<notin> el_ranges el" "ext_off e + ext_size e \<notin> el_ranges el" by (auto simp: el_ranges_def)
qed

lemma unit_of_0: "unit_of a x = x \<Longrightarrow> (x - WT_BLOCK_DESC_SECTOR) mod a = 0"
  by (simp add: unit_of_def)

lemma extent_aligned:
  assumes ok: "extlist_ok el" and e: "e \<in> set (el_off el)" and a: "0 < a" "aligned a (el_ranges el)"
  shows "(ext_off e - WT_BLOCK_DESC_SECTOR) mod a = 0" "ext_size e mod a = 0"
proof -
  note E = extent_edges [OF ok e]
  have u: "unit_of a (ext_off e) = ext_off e"
  proof (rule ccontr)
    assume "unit_of a (ext_off e) \<noteq> ext_off e"
    then have "ext_off e - 1 \<in> {unit_of a (ext_off e) ..< unit_of a (ext_off e) + a}"
      using unit_of_mem [OF a(1), of "ext_off e"] by auto
    then show False using a(2) E(1,4) unfolding aligned_def by blast
  qed
  show o: "(ext_off e - WT_BLOCK_DESC_SECTOR) mod a = 0" by (rule unit_of_0 [OF u])
  let ?x = "ext_off e + ext_size e - 1"
  have "unit_of a ?x + a = ext_off e + ext_size e"
  proof (rule ccontr)
    assume "unit_of a ?x + a \<noteq> ext_off e + ext_size e"
    then have "ext_off e + ext_size e \<in> {unit_of a ?x ..< unit_of a ?x + a}"
      using unit_of_mem [OF a(1), of ?x] by auto
    then show False using a(2) E(2,5) unfolding aligned_def by blast
  qed
  then have "ext_size e = unit_of a ?x + a - ext_off e" by simp
  also have "\<dots> = a * ((?x - WT_BLOCK_DESC_SECTOR) div a + 1 - (ext_off e - WT_BLOCK_DESC_SECTOR) div a)"
    by (subst u [symmetric]) (simp add: unit_of_mult algebra_simps)
  finally have "a dvd ext_size e" by (metis dvd_triv_left)
  then show "ext_size e mod a = 0" by simp
qed

section \<open>Reading back a list\<close>

lemma off_value_bytes [simp]: "0 \<le> v \<Longrightarrow> v < 2 ^ 63 \<Longrightarrow> off_value be (off_bytes be v) = v"
  by (simp add: off_value_def off_bytes_def file_size_roundtrip)

lemma length_off_bytes [simp]: "length (off_bytes be v) = 8"
  by (simp add: off_bytes_def)

lemma length_pair_bytes [simp]: "length (pair_bytes be p) = 16"
  by (simp add: pair_bytes_def)

lemma take_pair_bytes [simp]:
  "take 8 (pair_bytes be p @ r) = off_bytes be (fst p)" "take 8 (drop 8 (pair_bytes be p @ r)) = off_bytes be (snd p)"
  "drop 16 (pair_bytes be p @ r) = r" "take 8 (pair_bytes be p) = off_bytes be (fst p)"
  "drop 8 (pair_bytes be p) = off_bytes be (snd p)"
  by (simp_all add: pair_bytes_def)

lemma merge_range_pair: "merge_range off len (el, g) = block_merge g el off len"
  by (simp add: merge_range_def)

definition pair_ok :: "u32 \<Rightarrow> int \<Rightarrow> int \<times> int \<Rightarrow> bool" where
  "pair_ok allocsize file_size p \<longleftrightarrow> WT_BLOCK_DESC_SECTOR \<le> fst p \<and> 0 < snd p \<and>
     (fst p - WT_BLOCK_DESC_SECTOR) mod uint allocsize = 0 \<and> snd p mod uint allocsize = 0 \<and> fst p + snd p \<le> file_size"

lemma extlist_read_loop_pairs:
  assumes "file_size < 2 ^ 63" "\<forall>p\<in>set ps. pair_ok allocsize file_size p"
  shows "extlist_read_loop be allocsize file_size
      (concat (map (pair_bytes be) (ps @ [(WT_BLOCK_INVALID_OFFSET, 0)])) @ rest) el g =
    add_all merge_range ps (el, g)"
  using assms(2)
proof (induction ps arbitrary: el g)
  case Nil
  show ?case by (subst extlist_read_loop.simps) (simp add: WT_BLOCK_INVALID_OFFSET_def Let_def)
next
  case (Cons p ps)
  obtain off len where p: "p = (off, len)" by (cases p)
  have ok: "512 \<le> off" "0 < len" "(off - 512) mod uint allocsize = 0" "len mod uint allocsize = 0" "off + len \<le> file_size"
    using Cons.prems by (simp_all add: pair_ok_def p WT_BLOCK_DESC_SECTOR_def)
  then have v: "off_value be (off_bytes be off) = off" "off_value be (off_bytes be len) = len" using assms(1) by simp_all
  show ?case
    using ok v Cons.IH Cons.prems
    by (subst extlist_read_loop.simps)
      (auto simp: p merge_range_pair WT_BLOCK_INVALID_OFFSET_def WT_BLOCK_DESC_SECTOR_def Let_def intro!: wt_ret_cong split: prod.split)
qed

lemma merge_all_meta:
  assumes "extlist_ok el" "\<forall>p\<in>set ps. 0 < snd p" "fresh_ranges (el_ranges el) ps" "add_all merge_range ps (el, g) = Inr (el', g')"
  shows "el_meta el' = el_meta el"
  using assms
proof (induction ps arbitrary: el g)
  case (Cons p ps)
  obtain off len where p: "p = (off, len)" by (cases p)
  obtain el1 g1 where m: "block_merge g el off len = Inr (el1, g1)" "extlist_ok el1"
      "el_ranges el1 = el_ranges el \<union> {off ..< off + len}" "el_meta el1 = el_meta el"
    by (rule merge_obtain [OF Cons.prems(1), of len off g]) (use Cons.prems(2,3) in \<open>auto simp: p range_of_def\<close>)
  have "fresh_ranges (el_ranges el1) ps" using Cons.prems(3) by (simp add: m(3) p range_of_def)
  then show ?case using Cons.IH [OF m(2), of g1] Cons.prems(2,4) m(1,4) by (simp add: p merge_range_pair)
qed simp

lemma stored_extlist_read:
  assumes io: "io_ok io" and st: "stored io checksum file (el_offset el0, uint (el_size el0))
      (el_cksum el0, hdr @ extlist_data (io_be io) ps)" and hdr: "length hdr = 36"
    and el0: "el_offset el0 \<noteq> WT_BLOCK_INVALID_OFFSET" "extlist_ok el0" "fresh_ranges (el_ranges el0) ps"
    and block: "blk_checksum block = checksum" "blk_file_size block < 2 ^ 63"
    and ps: "\<forall>p\<in>set ps. pair_ok (blk_allocsize block) (blk_file_size block) p"
  shows "\<exists>el g. wt_block_extlist_read io mem block file el0 = Inr (el, block\<lparr>blk_rng := g\<rparr>) \<and> extlist_ok el \<and>
    el_ranges el = el_ranges el0 \<union> (\<Union>p\<in>set ps. range_of p) \<and> el_meta el = el_meta el0"
proof -
  let ?be = "io_be io"
  obtain page where page: "wt_block_read_off io mem block file (el_offset el0) (el_size el0) (el_cksum el0) = Inr page"
      "same_page ?be (hdr @ extlist_data ?be ps) page"
    using stored_read [OF io st block(1), of mem] by auto
  then have d: "drop WT_BLOCK_HEADER_BYTE_SIZE page = extlist_data ?be ps"
    using hdr by (simp add: same_page_def header_consts)
  have data: "extlist_data ?be ps = pair_bytes ?be (WT_BLOCK_EXTLIST_MAGIC, 0) @
      concat (map (pair_bytes ?be) (ps @ [(WT_BLOCK_INVALID_OFFSET, 0)])) @ []"
    by (simp add: extlist_data_def)
  have pos: "\<forall>p\<in>set ps. 0 < snd p" using ps by (auto simp: pair_ok_def)
  obtain s where s: "add_all merge_range ps (el0, blk_rng block) = Inr s" "extlist_ok (fst s)"
      "el_ranges (fst s) = el_ranges el0 \<union> (\<Union>p\<in>set ps. range_of p)"
    using extents.add_all_fresh [of "(el0, blk_rng block)" ps] el0(2,3) pos by auto
  have "wt_block_extlist_read io mem block file el0 = Inr (fst s, block\<lparr>blk_rng := snd s\<rparr>)"
    unfolding wt_block_extlist_read_def page(1) wt_ret_simps Let_def d data take_pair_bytes extlist_read_loop_pairs [OF block(2) ps] s(1)
    using el0(1) by (simp add: WT_BLOCK_EXTLIST_MAGIC_def split: prod.split)
  moreover have "el_meta (fst s) = el_meta el0"
    using merge_all_meta [OF el0(2) pos el0(3), of "blk_rng block" "fst s" "snd s"] s(1) by simp
  ultimately show ?thesis using s(2,3) by blast
qed

section \<open>Writing a list\<close>

definition list_fits :: "wt_block \<Rightarrow> nat \<Rightarrow> bool" where
  "list_fits block n \<longleftrightarrow> 36 + 16 * (n + 2) + unat (blk_allocsize block) \<le> 2 ^ 32 \<and>
     64 \<le> unat (blk_allocsize block) \<and> (\<exists>k. unat (blk_allocsize block) = 2 ^ k)"

lemma length_extlist_header [simp]: "length (extlist_header be n) = 36"
  by (simp add: extlist_header_def header_consts)

lemma length_extlist_data: "length (extlist_data be ps) = 16 * (length ps + 2)"
  by (simp add: extlist_data_def length_concat comp_def sum_list_triv)

text \<open>The lists that are written, with the second one if there is one.\<close>

definition list_pairs :: "wt_extlist \<Rightarrow> wt_extlist option \<Rightarrow> (int \<times> int) list" where
  "list_pairs el add = ext_pairs el @ (case add of None \<Rightarrow> [] | Some a \<Rightarrow> ext_pairs a)"

lemma unat_of_nat_u32: "n < 2 ^ 32 \<Longrightarrow> unat (of_nat n :: u32) = n"
  by (simp add: unsigned_of_nat take_bit_nat_eq_self_iff)

lemma list_size_word:
  assumes "36 + 16 * (n + 2) < (2 :: nat) ^ 32"
  shows "unat (of_nat WT_BLOCK_HEADER_BYTE_SIZE + (of_nat n + 2) * 16 :: u32) = 36 + 16 * (n + 2)"
    "(of_nat n :: u32) = 0 \<longleftrightarrow> n = 0"
proof -
  have "(of_nat (36 + 16 * (n + 2)) :: u32) = of_nat 36 + 16 * (of_nat n + 2)" by (simp only: of_nat_add of_nat_mult of_nat_numeral)
  then have "of_nat WT_BLOCK_HEADER_BYTE_SIZE + (of_nat n + 2) * 16 = (of_nat (36 + 16 * (n + 2)) :: u32)"
    by (simp only: mult.commute header_consts numeral_plus_numeral semiring_norm)
  then show "unat (of_nat WT_BLOCK_HEADER_BYTE_SIZE + (of_nat n + 2) * 16 :: u32) = 36 + 16 * (n + 2)"
    using unat_of_nat_u32 [OF assms] by (simp only:)
  have "n \<le> 36 + 16 * (n + 2)" by simp
  then have "n < 2 ^ 32" using assms by (rule le_less_trans)
  then show "(of_nat n :: u32) = 0 \<longleftrightarrow> n = 0" using unat_of_nat_u32 [of n] by (auto simp: word_unat_eq_iff)
qed

lemma extlist_write_unfold:
  assumes ok: "extlist_ok el" "\<forall>a. add = Some a \<longrightarrow> extlist_ok a" and fits: "list_fits block (length (list_pairs el add))"
  shows "list_pairs el add = [] \<and> wt_block_extlist_write io mem block file el add = (block, file, Inr (WT_BLOCK_INVALID_OFFSET, 0, 0)) \<or>
    (\<exists>hdr memsize. length hdr = 36 \<and> list_pairs el add \<noteq> [] \<and> page_ok block (hdr @ extlist_data (io_be io) (list_pairs el add)) \<and>
      memsize = unat (align_of block (hdr @ extlist_data (io_be io) (list_pairs el add))) \<and>
      wt_block_extlist_write io mem block file el add =
        (case wt_block_write_off io mem block file (hdr @ extlist_data (io_be io) (list_pairs el add)) memsize of
           (block, file, _, r) \<Rightarrow> (block, file, r)))"
proof -
  let ?n = "length (list_pairs el add)"
  have bound: "36 + 16 * (?n + 2) + unat (blk_allocsize block) \<le> 2 ^ 32" "64 \<le> unat (blk_allocsize block)"
      "\<exists>k. unat (blk_allocsize block) = 2 ^ k" using fits by (simp_all add: list_fits_def)
  have e: "el_entries el + (case add of None \<Rightarrow> 0 | Some a \<Rightarrow> el_entries a) = of_nat ?n"
    using ok extlist_okD(1) by (auto simp: list_pairs_def idx_ok_def split: option.split)
  have "36 + 16 * (?n + 2) < 2 ^ 32" using bound(1,2) by linarith
  note sz = list_size_word [OF this]
  show ?thesis
  proof (cases "list_pairs el add = []")
    case True
    then show ?thesis using e by (simp add: wt_block_extlist_write_def)
  next
    case False
    let ?hdr = "extlist_header (io_be io) ((of_nat ?n + 2) * 16)"
    have "page_ok block (?hdr @ extlist_data (io_be io) (list_pairs el add))"
      using bound by (simp add: page_ok_def header_consts length_extlist_data)
    moreover have "wt_block_extlist_write io mem block file el add =
        (case wt_block_write_off io mem block file (?hdr @ extlist_data (io_be io) (list_pairs el add))
             (unat (wt_block_write_size block ((of_nat ?n + 2) * 16))) of (block, file, _, r) \<Rightarrow> (block, file, r))"
      using False sz(2) unfolding wt_block_extlist_write_def list_pairs_def [symmetric] Let_def e sz(1) length_append
        length_extlist_data length_extlist_header
      by (simp only: length_0_conv if_False not_not simp_thms)
    moreover have "wt_block_write_size block ((of_nat ?n + 2) * 16) = align_of block (?hdr @ extlist_data (io_be io) (list_pairs el add))"
      by (simp add: wt_block_write_size_def length_extlist_data header_consts algebra_simps)
    ultimately show ?thesis using False by (metis length_extlist_header)
  qed
qed

end
