(* ===== verification/Wt_Ckpt.thy ===== *)
theory Wt_Ckpt
  imports Wt_Extlist_IO
begin

text \<open>
  Checkpoints of a file (\<open>src/src/block/block_ckpt.c\<close>): loading and unloading, writing a new
  checkpoint, deleting old ones by rolling their lists into the next one, and resolving. The
  caller's array of \<open>WT_CKPT\<close> structures is a list; the entry behind its last one, with no
  name, is its end. \<open>block->verify\<close> is off. An error leaves the state as it was when the failing
  call was made; a failed load leaves the live structure cleared.
\<close>

section \<open>Structures\<close>

record wt_ckpt =
  ckpt_name :: string
  ckpt_raw :: bytes
  ckpt_bytes :: u64
  ckpt_bpriv :: "wt_block_ckpt option"
  WT_CKPT_ADD :: bool
  WT_CKPT_DELETE :: bool
  WT_CKPT_FAKE :: bool
  WT_CKPT_UPDATE :: bool

text \<open>A block, the bytes of its file, and the array of checkpoints.\<close>

record ck_state =
  cs_block :: wt_block
  cs_file :: bytes
  cs_ckpts :: "wt_ckpt list"

text \<open>Calls that change the state and may fail.\<close>

definition ck_then :: "ck_state \<times> unit result \<Rightarrow> (ck_state \<Rightarrow> ck_state \<times> unit result) \<Rightarrow> ck_state \<times> unit result" where
  "ck_then r k = (case r of (s, Inl e) \<Rightarrow> (s, Inl e) | (s, Inr _) \<Rightarrow> k s)"

fun ck_each :: "('a \<Rightarrow> ck_state \<Rightarrow> ck_state \<times> unit result) \<Rightarrow> 'a list \<Rightarrow> ck_state \<Rightarrow> ck_state \<times> unit result" where
  "ck_each f [] s = (s, Inr ())"
| "ck_each f (x # xs) s = ck_then (f x s) (ck_each f xs)"

section \<open>Loading and unloading\<close>

definition ckpt_clear :: "string \<Rightarrow> wt_block_ckpt" where
  "ckpt_clear name = ckpt_zero\<lparr>root_offset := WT_BLOCK_INVALID_OFFSET,
     ck_alloc := wt_block_extlist_init extlist_zero (Some name) (Some ''alloc''),
     ck_avail := wt_block_extlist_init extlist_zero (Some name) (Some ''avail''),
     ck_discard := wt_block_extlist_init extlist_zero (Some name) (Some ''discard''),
     ck_file_size := WT_BLOCK_DESC_SECTOR,
     ck_ckpt_avail := wt_block_extlist_init extlist_zero (Some name) (Some ''ckpt_avail'')\<rparr>"

definition wt_block_ckpt_init_live :: "wt_block \<Rightarrow> wt_block result" where
  "wt_block_ckpt_init_live block =
     (if blk_live_load block then Inl EINVAL
      else Inr (block\<lparr>blk_live_load := True, blk_live := ckpt_clear ''live''\<rparr>))"

definition wt_block_ckpt_destroy :: "wt_block_ckpt \<Rightarrow> wt_block_ckpt" where
  "wt_block_ckpt_destroy ci = ci\<lparr>ck_alloc := wt_block_extlist_free (ck_alloc ci),
     ck_avail := wt_block_extlist_free (ck_avail ci), ck_discard := wt_block_extlist_free (ck_discard ci),
     ck_ckpt_avail := wt_block_extlist_free (ck_ckpt_avail ci)\<rparr>"

definition wt_block_checkpoint_unload :: "wt_block \<Rightarrow> wt_block" where
  "wt_block_checkpoint_unload block =
     block\<lparr>blk_live := wt_block_ckpt_destroy (blk_live block), blk_live_load := False\<rparr>"

text \<open>The part of the load behind the cookie: the root page, the avail list and the truncation.\<close>

definition checkpoint_load_from ::
  "wt_io \<Rightarrow> u64 \<Rightarrow> wt_block \<Rightarrow> bytes \<Rightarrow> bytes \<Rightarrow> bool \<Rightarrow> (wt_block \<times> bytes \<times> bytes) result" where
  "checkpoint_load_from io mem block file addr readonly =
     wt_ret (wt_block_buffer_to_ckpt (blk_allocsize block) addr (blk_live block)) (\<lambda>ci.
     wt_ret (if root_offset ci \<noteq> WT_BLOCK_INVALID_OFFSET
             then wt_block_read_off io mem block file (root_offset ci) (root_size ci) (root_cksum ci)
             else Inr []) (\<lambda>dsk.
     if readonly then Inr (block\<lparr>blk_live := ci\<rparr>, file, dsk)
     else
       wt_ret (wt_block_extlist_read_avail io mem block file (ck_avail ci)) (\<lambda>(avail, block).
       wt_ret (wt_ftruncate io (block\<lparr>blk_live := ci\<lparr>ck_avail := avail\<rparr>\<rparr>) file (ck_file_size ci))
         (\<lambda>(block, file). Inr (block, file, dsk)))))"

text \<open>The result is the root page, empty if there is none.\<close>

definition wt_block_checkpoint_load ::
  "wt_io \<Rightarrow> u64 \<Rightarrow> wt_block \<Rightarrow> bytes \<Rightarrow> bytes \<Rightarrow> bool \<Rightarrow> wt_block \<times> bytes \<times> bytes result" where
  "wt_block_checkpoint_load io mem block file addr readonly =
     (case wt_block_ckpt_init_live block of
        Inl e \<Rightarrow> (block, file, Inl e)
      | Inr block \<Rightarrow>
          if addr = [] then (block, file, Inr [])
          else case checkpoint_load_from io mem block file addr readonly of
            Inl e \<Rightarrow> (wt_block_checkpoint_unload block, file, Inl e)
          | Inr (block, file, dsk) \<Rightarrow> (block, file, Inr dsk))"


section \<open>Writing the lists of a checkpoint\<close>

datatype ckpt_list = Alloc_List | Avail_List | Discard_List

fun get_list :: "ckpt_list \<Rightarrow> wt_block_ckpt \<Rightarrow> wt_extlist" where
  "get_list Alloc_List ci = ck_alloc ci"
| "get_list Avail_List ci = ck_avail ci"
| "get_list Discard_List ci = ck_discard ci"

fun upd_list :: "ckpt_list \<Rightarrow> (wt_extlist \<Rightarrow> wt_extlist) \<Rightarrow> wt_block_ckpt \<Rightarrow> wt_block_ckpt" where
  "upd_list Alloc_List f ci = ci\<lparr>ck_alloc := f (ck_alloc ci)\<rparr>"
| "upd_list Avail_List f ci = ci\<lparr>ck_avail := f (ck_avail ci)\<rparr>"
| "upd_list Discard_List f ci = ci\<lparr>ck_discard := f (ck_discard ci)\<rparr>"

text \<open>A checkpoint structure: the live system (\<open>None\<close>), or that of entry \<open>i\<close> of the array.\<close>

definition get_ci :: "nat option \<Rightarrow> ck_state \<Rightarrow> wt_block_ckpt" where
  "get_ci w s = (case w of None \<Rightarrow> blk_live (cs_block s)
     | Some i \<Rightarrow> (case ckpt_bpriv (cs_ckpts s ! i) of None \<Rightarrow> ckpt_zero | Some ci \<Rightarrow> ci))"

definition upd_ci :: "nat option \<Rightarrow> (wt_block_ckpt \<Rightarrow> wt_block_ckpt) \<Rightarrow> ck_state \<Rightarrow> ck_state" where
  "upd_ci w f s = (case w of
       None \<Rightarrow> s\<lparr>cs_block := (cs_block s)\<lparr>blk_live := f (blk_live (cs_block s))\<rparr>\<rparr>
     | Some i \<Rightarrow> s\<lparr>cs_ckpts := (cs_ckpts s)[i := (cs_ckpts s ! i)\<lparr>ckpt_bpriv := Some (f (get_ci w s))\<rparr>]\<rparr>)"

definition set_rng :: "rng \<Rightarrow> ck_state \<Rightarrow> ck_state" where
  "set_rng g s = s\<lparr>cs_block := (cs_block s)\<lparr>blk_rng := g\<rparr>\<rparr>"

definition set_addr :: "int \<Rightarrow> u32 \<Rightarrow> u32 \<Rightarrow> wt_extlist \<Rightarrow> wt_extlist" where
  "set_addr off len ck el = el\<lparr>el_offset := off, el_size := len, el_cksum := ck\<rparr>"

text \<open>
  \<open>__wt_block_extlist_write\<close> of one list and the removal of its block from the live alloc list.
\<close>

definition ckpt_write_list ::
  "wt_io \<Rightarrow> u64 \<Rightarrow> nat option \<Rightarrow> ckpt_list \<Rightarrow> bool \<Rightarrow> ck_state \<Rightarrow> ck_state \<times> unit result" where
  "ckpt_write_list io mem w which with_ckpt_avail s =
     (case wt_block_extlist_write io mem (cs_block s) (cs_file s) (get_list which (get_ci w s))
             (if with_ckpt_avail then Some (ck_ckpt_avail (get_ci w s)) else None) of
        (block, file, r) \<Rightarrow>
          (let s = s\<lparr>cs_block := block, cs_file := file\<rparr> in
           case r of
             Inl e \<Rightarrow> (s, Inl e)
           | Inr (off, len, ck) \<Rightarrow>
               (let s = upd_ci w (upd_list which (set_addr off len ck)) s in
                if off = WT_BLOCK_INVALID_OFFSET then (s, Inr ())
                else case wt_block_off_remove_overlap (blk_rng (cs_block s)) (ck_alloc (blk_live (cs_block s))) off (uint len) of
                  Inl e \<Rightarrow> (s, Inl e)
                | Inr (alloc, g) \<Rightarrow> (set_rng g (upd_ci None (\<lambda>ci. ci\<lparr>ck_alloc := alloc\<rparr>) s), Inr ()))))"

text \<open>The end of \<open>__ckpt_update\<close>: the file size, the checkpoint size and the cookie.\<close>

definition ckpt_cookie :: "nat \<Rightarrow> nat option \<Rightarrow> u64 \<Rightarrow> ck_state \<Rightarrow> ck_state \<times> unit result" where
  "ckpt_cookie i w ckpt_sz s =
     (let s = (if w = None
               then upd_ci w (\<lambda>ci. ci\<lparr>ck_file_size := int (length (cs_file s)), ck_ckpt_size := ckpt_sz\<rparr>) s else s)
      in case wt_block_ckpt_to_buffer (blk_allocsize (cs_block s)) (get_ci w s) of
           Inl e \<Rightarrow> (s, Inl e)
         | Inr raw \<Rightarrow> (s\<lparr>cs_ckpts := (cs_ckpts s)[i := (cs_ckpts s ! i)\<lparr>ckpt_raw := raw\<rparr>]\<rparr>, Inr ()))"

definition ckpt_update :: "wt_io \<Rightarrow> u64 \<Rightarrow> nat \<Rightarrow> nat option \<Rightarrow> u64 \<Rightarrow> ck_state \<Rightarrow> ck_state \<times> unit result" where
  "ckpt_update io mem i w ckpt_sz s =
     ck_then (ckpt_write_list io mem w Alloc_List False s) (\<lambda>s.
     ck_then (ckpt_write_list io mem w Discard_List False s) (\<lambda>s.
     ck_then (if w = None then ckpt_write_list io mem w Avail_List True s else (s, Inr ())) (\<lambda>s.
       ckpt_cookie i w ckpt_sz s)))"

section \<open>Deleting checkpoints\<close>

definition ckpt_extlist_read :: "wt_io \<Rightarrow> u64 \<Rightarrow> nat \<Rightarrow> ck_state \<Rightarrow> ck_state \<times> unit result" where
  "ckpt_extlist_read io mem i s =
     (let ckpt = cs_ckpts s ! i in
      case wt_ret (wt_block_buffer_to_ckpt (blk_allocsize (cs_block s)) (ckpt_raw ckpt) (ckpt_clear (ckpt_name ckpt))) (\<lambda>ci.
           wt_ret (wt_block_extlist_read io mem (cs_block s) (cs_file s) (ck_alloc ci)) (\<lambda>(alloc, block).
           wt_ret (wt_block_extlist_read io mem block (cs_file s) (ck_discard ci)) (\<lambda>(discard, block).
             Inr (ci\<lparr>ck_alloc := alloc, ck_discard := discard\<rparr>, block)))) of
        Inl e \<Rightarrow> (s, Inl e)
      | Inr (ci, block) \<Rightarrow>
          (s\<lparr>cs_block := block, cs_ckpts := (cs_ckpts s)[i := ckpt\<lparr>ckpt_bpriv := Some ci\<rparr>]\<rparr>, Inr ()))"

definition ckpt_extlist_fblocks :: "wt_extlist \<Rightarrow> ck_state \<Rightarrow> ck_state \<times> unit result" where
  "ckpt_extlist_fblocks el s =
     (if el_offset el = WT_BLOCK_INVALID_OFFSET then (s, Inr ())
      else case wt_block_insert_ext (blk_rng (cs_block s)) (ck_ckpt_avail (blk_live (cs_block s))) (el_offset el) (uint (el_size el)) of
        Inl e \<Rightarrow> (s, Inl e)
      | Inr (avail, g) \<Rightarrow> (set_rng g (upd_ci None (\<lambda>ci. ci\<lparr>ck_ckpt_avail := avail\<rparr>) s), Inr ()))"

text \<open>The next entry that is not fake; there is one, the checkpoint that is being added.\<close>

definition next_ckpt :: "wt_ckpt list \<Rightarrow> nat \<Rightarrow> nat option" where
  "next_ckpt ckpts i = (case filter (\<lambda>j. \<not> WT_CKPT_FAKE (ckpts ! j)) [Suc i..<length ckpts] of [] \<Rightarrow> None | j # _ \<Rightarrow> Some j)"

abbreviation deletes :: "wt_ckpt \<Rightarrow> bool" where
  "deletes c \<equiv> \<not> WT_CKPT_FAKE c \<and> WT_CKPT_DELETE c"

text \<open>The first loop of \<open>__ckpt_process\<close> reads the lists that the second one needs.\<close>

definition ckpt_read_step :: "wt_io \<Rightarrow> u64 \<Rightarrow> nat \<Rightarrow> ck_state \<Rightarrow> ck_state \<times> unit result" where
  "ckpt_read_step io mem i s =
     (if \<not> deletes (cs_ckpts s ! i) then (s, Inr ())
      else ck_then (if ckpt_bpriv (cs_ckpts s ! i) = None then ckpt_extlist_read io mem i s else (s, Inr ())) (\<lambda>s.
        case next_ckpt (cs_ckpts s) i of
          None \<Rightarrow> (s, Inl OUT_OF_BOUNDS)
        | Some j \<Rightarrow>
            if ckpt_bpriv (cs_ckpts s ! j) = None \<and> \<not> WT_CKPT_ADD (cs_ckpts s ! j)
            then ckpt_extlist_read io mem j s else (s, Inr ())))"

text \<open>\<open>__wt_block_extlist_merge\<close> of a list of \<open>a\<close> into the same list of \<open>b\<close>.\<close>

definition ckpt_roll :: "ckpt_list \<Rightarrow> nat option \<Rightarrow> nat option \<Rightarrow> ck_state \<Rightarrow> ck_state \<times> unit result" where
  "ckpt_roll which a b s =
     (if el_entries (get_list which (get_ci a s)) = 0 then (s, Inr ())
      else case wt_block_extlist_merge (blk_rng (cs_block s)) (get_list which (get_ci a s)) (get_list which (get_ci b s)) of
        Inl e \<Rightarrow> (s, Inl e)
      | Inr (el, g) \<Rightarrow> (set_rng g (upd_ci b (upd_list which (\<lambda>_. el)) s), Inr ()))"

definition ckpt_overlap :: "nat option \<Rightarrow> ck_state \<Rightarrow> ck_state \<times> unit result" where
  "ckpt_overlap b s =
     (case wt_block_extlist_overlap (blk_rng (cs_block s)) (ck_alloc (get_ci b s)) (ck_discard (get_ci b s))
             (ck_ckpt_avail (blk_live (cs_block s))) of
        None \<Rightarrow> (s, Inl OUT_OF_BOUNDS)
      | Some (Inl e) \<Rightarrow> (s, Inl e)
      | Some (Inr (alloc, discard, avail, g)) \<Rightarrow>
          (set_rng g (upd_ci None (\<lambda>ci. ci\<lparr>ck_ckpt_avail := avail\<rparr>)
             (upd_ci b (\<lambda>ci. ci\<lparr>ck_alloc := alloc, ck_discard := discard\<rparr>) s)), Inr ()))"

text \<open>The body of the second loop: checkpoint \<open>a\<close> is rolled into \<open>b\<close>.\<close>

definition ckpt_delete_into :: "nat \<Rightarrow> nat \<Rightarrow> ck_state \<Rightarrow> ck_state \<times> unit result" where
  "ckpt_delete_into i j s =
     (let a = Some i; b = (if WT_CKPT_ADD (cs_ckpts s ! j) then None else Some j) in
      ck_then (if root_offset (get_ci a s) = WT_BLOCK_INVALID_OFFSET then (s, Inr ())
               else case wt_block_insert_ext (blk_rng (cs_block s)) (ck_discard (get_ci a s))
                           (root_offset (get_ci a s)) (uint (root_size (get_ci a s))) of
                 Inl e \<Rightarrow> (s, Inl e)
               | Inr (discard, g) \<Rightarrow> (set_rng g (upd_ci a (\<lambda>ci. ci\<lparr>ck_discard := discard\<rparr>) s), Inr ())) (\<lambda>s.
      ck_then (ckpt_extlist_fblocks (ck_alloc (get_ci a s)) s) (\<lambda>s.
      ck_then (ckpt_extlist_fblocks (ck_avail (get_ci a s)) s) (\<lambda>s.
      ck_then (ckpt_extlist_fblocks (ck_discard (get_ci a s)) s) (\<lambda>s.
      ck_then (ckpt_roll Alloc_List a b s) (\<lambda>s.
      ck_then (ckpt_roll Discard_List a b s) (\<lambda>s.
      if WT_CKPT_DELETE (cs_ckpts s ! j) then (s, Inr ())
      else
        ck_then (ckpt_overlap b s) (\<lambda>s.
        if WT_CKPT_ADD (cs_ckpts s ! j) then (s, Inr ())
        else
          ck_then (ckpt_extlist_fblocks (ck_alloc (get_ci b s)) s) (\<lambda>s.
          ck_then (ckpt_extlist_fblocks (ck_discard (get_ci b s)) s) (\<lambda>s.
            (s\<lparr>cs_ckpts := (cs_ckpts s)[j := (cs_ckpts s ! j)\<lparr>WT_CKPT_UPDATE := True\<rparr>]\<rparr>, Inr ())))))))))))"

definition ckpt_delete_step :: "nat \<Rightarrow> ck_state \<Rightarrow> ck_state \<times> unit result" where
  "ckpt_delete_step i s =
     (if \<not> deletes (cs_ckpts s ! i) then (s, Inr ())
      else case next_ckpt (cs_ckpts s) i of
        None \<Rightarrow> (s, Inl OUT_OF_BOUNDS)
      | Some j \<Rightarrow> ckpt_delete_into i j s)"

section \<open>Creating and resolving a checkpoint\<close>

definition ckpt_truncate :: "wt_io \<Rightarrow> ck_state \<Rightarrow> ck_state \<times> unit result" where
  "ckpt_truncate io s =
     (case wt_block_extlist_truncate io (cs_block s) (cs_file s) (ck_avail (blk_live (cs_block s))) of
        Inl e \<Rightarrow> (s, Inl e)
      | Inr (block, file, avail) \<Rightarrow>
          (upd_ci None (\<lambda>ci. ci\<lparr>ck_avail := avail\<rparr>) (s\<lparr>cs_block := block, cs_file := file\<rparr>), Inr ()))"

definition ckpt_add_step :: "wt_io \<Rightarrow> u64 \<Rightarrow> u64 \<Rightarrow> nat \<Rightarrow> ck_state \<Rightarrow> ck_state \<times> unit result" where
  "ckpt_add_step io mem ckpt_sz i s =
     (if \<not> WT_CKPT_ADD (cs_ckpts s ! i) then (s, Inr ())
      else ck_then (ckpt_update io mem i None ckpt_sz s) (\<lambda>s.
        (s\<lparr>cs_ckpts := (cs_ckpts s)[i := (cs_ckpts s ! i)\<lparr>ckpt_bytes := ck_ckpt_size (blk_live (cs_block s))\<rparr>]\<rparr>, Inr ())))"

definition ckpt_update_step :: "wt_io \<Rightarrow> u64 \<Rightarrow> nat \<Rightarrow> ck_state \<Rightarrow> ck_state \<times> unit result" where
  "ckpt_update_step io mem i s =
     (if WT_CKPT_UPDATE (cs_ckpts s ! i) then ckpt_update io mem i (Some i) 0 s else (s, Inr ()))"

definition ckpt_live_update :: "wt_io \<Rightarrow> u64 \<Rightarrow> u64 \<Rightarrow> ck_state \<Rightarrow> ck_state \<times> unit result" where
  "ckpt_live_update io mem ckpt_sz s =
     ck_then (ckpt_truncate io s) (\<lambda>s.
     ck_then (ck_each (ckpt_add_step io mem ckpt_sz) [0..<length (cs_ckpts s)] s) (\<lambda>s.
       (upd_ci None (\<lambda>ci. ci\<lparr>
          ck_alloc := wt_block_extlist_init (wt_block_extlist_free (ck_alloc ci)) (Some ''live'') (Some ''alloc''),
          ck_discard := wt_block_extlist_init (wt_block_extlist_free (ck_discard ci)) (Some ''live'') (Some ''discard'')\<rparr>) s,
        Inr ())))"

definition ckpt_process :: "wt_io \<Rightarrow> u64 \<Rightarrow> ck_state \<Rightarrow> ck_state \<times> unit result" where
  "ckpt_process io mem s =
     (let live = blk_live (cs_block s);
          ckpt_sz = ck_ckpt_size live + el_bytes (ck_alloc live) - el_bytes (ck_discard live);
          s = upd_ci None (\<lambda>ci. ci\<lparr>ck_ckpt_avail :=
            wt_block_extlist_init (wt_block_extlist_free (ck_ckpt_avail ci)) (Some ''live'') (Some ''ckpt_avail'')\<rparr>) s;
          all = [0..<length (cs_ckpts s)];
          r = ck_then (ck_each (ckpt_read_step io mem) all s) (\<lambda>s.
              ck_then (if list_ex deletes (cs_ckpts s)
                       then ck_then (ck_each ckpt_delete_step all s) (ck_each (ckpt_update_step io mem) all)
                       else (s, Inr ())) (\<lambda>s.
                ckpt_live_update io mem ckpt_sz s))
      in case r of (s, e) \<Rightarrow>
        (s\<lparr>cs_ckpts := map (\<lambda>c. c\<lparr>ckpt_bpriv := map_option wt_block_ckpt_destroy (ckpt_bpriv c)\<rparr>) (cs_ckpts s)\<rparr>, e))"

text \<open>\<open>buf\<close> is the root page and the size of its memory; the file is flushed by the caller's system call.\<close>

definition wt_block_checkpoint ::
  "wt_io \<Rightarrow> u64 \<Rightarrow> (bytes \<times> nat) option \<Rightarrow> ck_state \<Rightarrow> ck_state \<times> unit result" where
  "wt_block_checkpoint io mem buf s =
     (let s = upd_ci None (\<lambda>ci. ci\<lparr>ck_version := WT_BM_CHECKPOINT_VERSION\<rparr>) s in
      ck_then (case buf of
          None \<Rightarrow> (upd_ci None (\<lambda>ci. ci\<lparr>root_offset := WT_BLOCK_INVALID_OFFSET, root_size := 0, root_cksum := 0\<rparr>) s, Inr ())
        | Some (page, memsize) \<Rightarrow>
            (case wt_block_write_off io mem (cs_block s) (cs_file s) page memsize of
               (block, file, _, r) \<Rightarrow>
                 (let s = s\<lparr>cs_block := block, cs_file := file\<rparr> in
                  case r of
                    Inl e \<Rightarrow> (s, Inl e)
                  | Inr (off, len, ck) \<Rightarrow>
                      (upd_ci None (\<lambda>ci. ci\<lparr>root_offset := off, root_size := len, root_cksum := ck\<rparr>) s, Inr ()))))
        (ckpt_process io mem))"

definition wt_block_checkpoint_resolve :: "wt_block \<Rightarrow> wt_block \<times> unit result" where
  "wt_block_checkpoint_resolve block =
     (let live = blk_live block in
      case wt_block_extlist_merge (blk_rng block) (ck_ckpt_avail live) (ck_avail live) of
        Inl e \<Rightarrow> (block\<lparr>blk_live := live\<lparr>ck_ckpt_avail := wt_block_extlist_free (ck_ckpt_avail live)\<rparr>\<rparr>, Inl e)
      | Inr (avail, g) \<Rightarrow>
          (block\<lparr>blk_live := live\<lparr>ck_avail := avail, ck_ckpt_avail := wt_block_extlist_free (ck_ckpt_avail live)\<rparr>,
             blk_rng := g\<rparr>, Inr ()))"

section \<open>What the operations keep of the live structure\<close>

lemma block_off_remove_meta: "block_off_remove el off = Inr (e, el') \<Longrightarrow> el_meta el' = el_meta el"
  by (auto simp: block_off_remove_def Let_def el_meta_def split: if_splits)

lemma block_off_insert_meta: "block_off_insert g el off len = (el', g') \<Longrightarrow> el_meta el' = el_meta el"
  by (auto simp: block_off_insert_def Let_def split: prod.splits)

lemma block_merge_meta:
  assumes "block_merge g el off len = Inr (el', g')"
  shows "el_meta el' = el_meta el"
proof -
  obtain before after where p: "block_off_srch_pair el off = (before, after)" by fastforce
  show ?thesis using assms unfolding block_merge_def p Let_def prod.case
    by (auto simp: wt_ret_Inr_iff block_off_insert_meta dest!: block_off_remove_meta split: option.splits if_splits)
qed

text \<open>The part of a checkpoint structure that goes into its cookie, but for the sizes and the write generation.\<close>

definition live_part :: "wt_block_ckpt \<Rightarrow> u8 \<times> (int \<times> u32 \<times> u32) \<times> (string \<times> int \<times> u32 \<times> u32) list" where
  "live_part ci = (ck_version ci, (root_offset ci, root_size ci, root_cksum ci),
     map el_meta [ck_alloc ci, ck_avail ci, ck_discard ci])"

lemma alloc_offset_live:
  assumes "block_alloc_offset block len = Inr (off, block')"
  shows "live_part (blk_live block') = live_part (blk_live block)" "ck_discard (blk_live block') = ck_discard (blk_live block)"
    "ck_ckpt_avail (blk_live block') = ck_ckpt_avail (blk_live block)"
  using assms
  by (auto simp: block_alloc_offset_def wt_block_extend_def Let_def wt_ret_Inr_iff live_part_def
      dest!: block_off_remove_meta split: list.splits if_splits)

lemma alloc_live:
  assumes "wt_block_alloc block len = Inr (off, block')"
  shows "live_part (blk_live block') = live_part (blk_live block)" "ck_discard (blk_live block') = ck_discard (blk_live block)"
    "ck_ckpt_avail (blk_live block') = ck_ckpt_avail (blk_live block)"
proof -
  obtain b alloc g where b: "block_alloc_offset block len = Inr (off, b)"
      "block_merge (blk_rng b) (ck_alloc (blk_live b)) off len = Inr (alloc, g)"
      "block' = b\<lparr>blk_live := (blk_live b)\<lparr>ck_alloc := alloc\<rparr>, blk_rng := g\<rparr>"
    using assms by (auto simp: wt_block_alloc_def wt_ret_Inr_iff split: if_splits)
  note A = alloc_offset_live [OF b(1)]
  show "live_part (blk_live block') = live_part (blk_live block)" "ck_discard (blk_live block') = ck_discard (blk_live block)"
    "ck_ckpt_avail (blk_live block') = ck_ckpt_avail (blk_live block)"
    using A block_merge_meta [OF b(2)] by (simp_all add: b(3) live_part_def)
qed

section \<open>Space\<close>

text \<open>The lists are made of allocation units, and the cached file size is the size of the file.\<close>

definition space_ok :: "wt_block \<Rightarrow> bytes \<Rightarrow> bool" where
  "space_ok block file \<longleftrightarrow> 0 < uint (blk_allocsize block) \<and> aligned (uint (blk_allocsize block)) (avail_of block) \<and>
     aligned (uint (blk_allocsize block)) (alloc_of block) \<and> aligned (uint (blk_allocsize block)) (discard_of block) \<and>
     aligned (uint (blk_allocsize block)) (ckpt_avail_of block) \<and>
     (blk_file_size block - WT_BLOCK_DESC_SECTOR) mod uint (blk_allocsize block) = 0 \<and>
     int (length file) = blk_file_size block"

lemma space_okD:
  assumes "space_ok block file"
  shows "0 < uint (blk_allocsize block)" "aligned (uint (blk_allocsize block)) (avail_of block)"
    "(blk_file_size block - WT_BLOCK_DESC_SECTOR) mod uint (blk_allocsize block) = 0"
    "int (length file) = blk_file_size block" "aligned (uint (blk_allocsize block)) (alloc_of block)"
    "aligned (uint (blk_allocsize block)) (discard_of block)" "aligned (uint (blk_allocsize block)) (ckpt_avail_of block)"
  using assms by (simp_all add: space_ok_def)

lemma alloc_space:
  assumes ok: "block_ok block" and sp: "space_ok block file" and len: "0 < len" "len mod uint (blk_allocsize block) = 0"
    and al: "wt_block_alloc block len = Inr (off, block')"
    and file': "length file' = max (length file) (nat off + nat len)"
  shows "space_ok block' file'" "(off - WT_BLOCK_DESC_SECTOR) mod uint (blk_allocsize block) = 0"
    "WT_BLOCK_DESC_SECTOR \<le> off" "off < 2 ^ 63"
proof -
  note S = space_okD [OF sp] and ok' = block_okD [OF ok]
  have "space_ok block' file' \<and> (off - WT_BLOCK_DESC_SECTOR) mod uint (blk_allocsize block) = 0 \<and>
    WT_BLOCK_DESC_SECTOR \<le> off \<and> off < 2 ^ 63"
  proof (cases rule: alloc_cases [OF ok len])
    case (1 e b)
    then have b: "b = block'" "off = ext_off e" using al by simp_all
    have e: "e \<in> set (el_off (ck_avail (blk_live block)))" using 1(3) by (simp add: best_fit_def)
    note A = extent_aligned [OF ok'(1) e S(1,2)]
    have "{off ..< off + len} \<subseteq> file_of block" using 1(4) ok'(11) b(2) by blast
    moreover have "off \<in> {off ..< off + len}" "off + len - 1 \<in> {off ..< off + len}" using len(1) by simp_all
    ultimately have "off \<in> file_of block" "off + len - 1 \<in> file_of block" by blast+
    then have r: "512 \<le> off" "off + len \<le> blk_file_size block" by (auto simp: WT_BLOCK_DESC_SECTOR_def)
    have "length file' = length file" using file' S(4) r len(1) by (simp add: nat_add_distrib [symmetric] nat_le_iff)
    moreover have "aligned (uint (blk_allocsize block)) {off ..< off + len}"
      using aligned_range [OF S(1)] A(1) len(2) b(2) by simp
    ultimately have "space_ok block' file'"
      using 1(5-10) S b aligned_Diff [OF S(1,2)] aligned_Un by (simp add: space_ok_def)
    then show ?thesis using A(1) r b(2) ok'(13) len(1) by (simp add: WT_BLOCK_DESC_SECTOR_def INT64_MAX_def)
  next
    case (2 b)
    then have b: "b = block'" "off = blk_file_size block" using al by simp_all
    have fs: "512 \<le> off" using ok'(12) b(2) by (simp add: WT_BLOCK_DESC_SECTOR_def)
    have "(off + len - WT_BLOCK_DESC_SECTOR) mod uint (blk_allocsize block) = 0"
    proof -
      have "(off + len - WT_BLOCK_DESC_SECTOR) = (off - WT_BLOCK_DESC_SECTOR) + len" by simp
      then show ?thesis using S(3) len(2) b(2) by (metis add_cancel_right_right mod_add_eq mod_0)
    qed
    moreover have "int (length file') = off + len" using file' S(4) b(2) len(1) fs by simp
    moreover have "aligned (uint (blk_allocsize block)) {off ..< off + len}"
      using aligned_range [OF S(1)] S(3) len(2) b(2) by simp
    ultimately have "space_ok block' file'" using 2(4-9) S b aligned_Un by (simp add: space_ok_def)
    then show ?thesis using S(3) b(2) fs ok'(13) by (simp add: WT_BLOCK_DESC_SECTOR_def INT64_MAX_def)
  next
    case 3
    then show ?thesis using al by simp
  qed
  then show "space_ok block' file'" "(off - WT_BLOCK_DESC_SECTOR) mod uint (blk_allocsize block) = 0"
    "WT_BLOCK_DESC_SECTOR \<le> off" "off < 2 ^ 63" by blast+
qed

text \<open>The largest file that the system can write.\<close>

definition file_limit :: "wt_io \<Rightarrow> int \<Rightarrow> bool" where
  "file_limit io n \<longleftrightarrow> (\<forall>file off buf file'. io_pwrite io file off buf = (file', int (length buf)) \<longrightarrow> off + int (length buf) \<le> n)"

lemma ck_write:
  assumes io: "io_ok io" and inv: "io_inv io checksum block file held" and sp: "space_ok block file"
    and page: "page_ok block buf" and w: "wt_block_write_off io mem block file buf memsize = (block', file', buf', Inr (off, len, ck))"
  defines "r \<equiv> {off ..< off + uint len}"
  shows "io_inv io checksum block' file' (held((off, uint len) \<mapsto> (ck, buf)))" "space_ok block' file'"
    "addr_ok (blk_allocsize block) off len ck" "len \<noteq> 0" "off \<noteq> WT_BLOCK_INVALID_OFFSET"
    "live_part (blk_live block') = live_part (blk_live block)" "ck_discard (blk_live block') = ck_discard (blk_live block)"
    "ck_ckpt_avail (blk_live block') = ck_ckpt_avail (blk_live block)" "blk_allocsize block' = blk_allocsize block"
    "alloc_of block' = alloc_of block \<union> r" "avail_of block' = avail_of block - r"
    "r \<subseteq> avail_of block \<or> r \<inter> file_of block = {}" "(off, uint len) \<notin> dom held"
    "length file \<le> length file'" "file_limit io n \<Longrightarrow> int (length file) \<le> n \<Longrightarrow> int (length file') \<le> n"
proof -
  obtain c img where c: "block_compress io (blk_allocsize block) (sized io buf) (align_of block buf) = Inr c"
      "write_image (sized io buf) (align_of block buf) c = (img, len)"
      and al: "wt_block_alloc (next_gen block) (uint len) = Inr (off, block')"
      and pw: "io_pwrite io file off (block_seal io mem (next_gen block) len img) =
        (file', int (length (block_seal io mem (next_gen block) len img)))"
    using write_off_success [OF page w] by blast
  note W = write_reads_as [OF page io_okD(5) [OF io] c refl]
  have ok: "block_ok (next_gen block)" using io_invD(1) [OF inv] by (simp add: held_ok_def)
  have len: "0 < uint len" using W(4) by (metis of_nat_0_less_iff uint_nat)
  then show "len \<noteq> 0" by auto
  have md: "uint len mod uint (blk_allocsize (next_gen block)) = 0"
  proof -
    have "int (unat (blk_allocsize block)) dvd int (unat len)" using W(3) by (simp only: int_dvd_int_iff)
    then show ?thesis by (simp add: dvd_eq_mod_eq_0)
  qed
  note A = write_alloc [OF io inv al W(4,2) pw]
  have flen: "length file' = max (length file) (nat off + nat (uint len))" using io_okD(3) [OF io A(2) pw] W(2) by simp
  have sp': "space_ok (next_gen block) file" using sp by (simp add: space_ok_def)
  note S = alloc_space [OF ok sp' len md al flen]
  show "space_ok block' file'" by (rule S(1))
  show "off \<noteq> WT_BLOCK_INVALID_OFFSET" using S(3) by (simp add: WT_BLOCK_DESC_SECTOR_def WT_BLOCK_INVALID_OFFSET_def)
  show "addr_ok (blk_allocsize block) off len ck" using S(2-4) md \<open>len \<noteq> 0\<close> by (simp add: addr_ok_def)
  show "io_inv io checksum block' file' (held((off, uint len) \<mapsto> (ck, buf)))" by (rule io_write_inv [OF io inv page w])
  have "live_part (blk_live (next_gen block)) = live_part (blk_live block)" by (simp add: live_part_def)
  then show "live_part (blk_live block') = live_part (blk_live block)" "ck_discard (blk_live block') = ck_discard (blk_live block)"
      "ck_ckpt_avail (blk_live block') = ck_ckpt_avail (blk_live block)" using alloc_live [OF al] by simp_all
  show "blk_allocsize block' = blk_allocsize block" using alloc_keeps(2) [OF al] by simp
  show "alloc_of block' = alloc_of block \<union> r" "avail_of block' = avail_of block - r"
      "r \<subseteq> avail_of block \<or> r \<inter> file_of block = {}"
    using alloc_effect(2-4) [OF ok len al] by (simp_all add: r_def)
  show "(off, uint len) \<notin> dom held" by (rule A(5))
  show "length file \<le> length file'" using flen by simp
  assume lim: "file_limit io n" "int (length file) \<le> n"
  have "off + uint len \<le> n" using lim(1) pw W(2) unfolding file_limit_def by fastforce
  moreover have "int (nat off + nat (uint len)) = off + uint len" using S(3) len by (simp add: WT_BLOCK_DESC_SECTOR_def)
  ultimately show "int (length file') \<le> n" using lim(2) unfolding flen by linarith
qed

text \<open>The block of a written list leaves the live alloc list.\<close>

lemma io_inv_unalloc:
  assumes inv: "io_inv io checksum block file held" and h: "(off, len) \<in> dom held"
    and sub: "{off ..< off + len} \<subseteq> alloc_of block"
    and rm: "wt_block_off_remove_overlap g (ck_alloc (blk_live block)) off len = Inr (alloc, g')"
  shows "io_inv io checksum (block\<lparr>blk_live := (blk_live block)\<lparr>ck_alloc := alloc\<rparr>, blk_rng := g'\<rparr>) file held" (is "io_inv io checksum ?b file held")
    "el_meta alloc = el_meta (ck_alloc (blk_live block))"
proof -
  note ok = io_invD(1) [OF inv]
  have bok: "block_ok block" using ok by (simp add: held_ok_def)
  have len: "0 < len" by (rule file_offset(2) [OF ok h])
  have a: "extlist_ok alloc" "el_ranges alloc = alloc_of block - {off ..< off + len}" "el_meta alloc = el_meta (ck_alloc (blk_live block))"
    using remove_obtain [OF block_okD(2) [OF bok] len sub, of g] rm by auto
  show "el_meta alloc = el_meta (ck_alloc (blk_live block))" by (rule a(3))
  have "held_ok ?b (dom held)"
  proof (rule held_okI)
    have "alloc_of block - {off ..< off + len} \<subseteq> alloc_of block" by blast
    then show "block_ok ?b" using block_okD [OF bok] a(1,2) unfolding block_ok_def lists_ok_def by (simp, blast)
    fix x assume x: "x \<in> dom held"
    show "0 < snd x" "range_of x \<subseteq> file_of ?b" "range_of x \<inter> (avail_of ?b \<union> discard_of ?b \<union> ckpt_avail_of ?b) = {}"
      using held_okD(2,3,5) [OF ok x] by simp_all
    have "x = (off, len) \<or> range_of x \<inter> range_of (off, len) = {}" using ok x h unfolding held_ok_def by blast
    then show "range_of x \<subseteq> alloc_of ?b \<or> range_of x \<inter> alloc_of ?b = {}"
      using held_okD(4) [OF ok x] a(2) by (auto simp: range_of_def)
  next
    fix x x' assume "x \<in> dom held" "x' \<in> dom held" "x \<noteq> x'"
    then show "range_of x \<inter> range_of x' = {}" using ok unfolding held_ok_def by blast
  qed
  then show "io_inv io checksum ?b file held" using io_invD(2,3) [OF inv] by (intro io_invI) simp_all
qed

text \<open>Changing only the addresses and names of the live lists keeps everything.\<close>

lemma io_inv_same_lists:
  assumes "io_inv io checksum block file held" "blk_checksum block' = blk_checksum block" "blk_file_size block' = blk_file_size block"
    "lists_ok block'" "avail_of block' = avail_of block" "alloc_of block' = alloc_of block" "discard_of block' = discard_of block"
    "ckpt_avail_of block' = ckpt_avail_of block"
  shows "io_inv io checksum block' file held"
  using assms unfolding io_inv_def held_ok_def block_ok_def freeable_def by simp

section \<open>The size of the lists\<close>

lemma list_count:
  assumes ok: "extlist_ok el" and a: "0 < a" "aligned a (el_ranges el)" and sub: "el_ranges el \<subseteq> {WT_BLOCK_DESC_SECTOR ..< fs}"
  shows "length (el_off el) \<le> nat ((fs - WT_BLOCK_DESC_SECTOR) div a)"
proof -
  let ?q = "\<lambda>e. (ext_off e - WT_BLOCK_DESC_SECTOR) div a"
  have q: "ext_off e = WT_BLOCK_DESC_SECTOR + a * ?q e" if "e \<in> set (el_off el)" for e
    using extent_aligned(1) [OF ok that a] mult_div_mod_eq [of a "ext_off e - WT_BLOCK_DESC_SECTOR"] by linarith
  have d: "distinct (map ext_off (el_off el))" by (rule idx_okD(5) [OF extlist_okD(1) [OF ok]])
  have "inj_on ?q (set (el_off el))"
  proof (rule inj_onI)
    fix x y assume "x \<in> set (el_off el)" "y \<in> set (el_off el)" "?q x = ?q y"
    then show "x = y" using q extlist_okD(4) [OF ok] by metis
  qed
  moreover have "distinct (el_off el)" using d by (simp add: distinct_map)
  ultimately have "length (el_off el) = card (?q ` set (el_off el))" by (simp add: card_image distinct_card)
  also have "?q ` set (el_off el) \<subseteq> {0 ..< (fs - WT_BLOCK_DESC_SECTOR) div a}"
  proof
    fix z assume "z \<in> ?q ` set (el_off el)"
    then obtain e where e: "e \<in> set (el_off el)" "z = ?q e" by blast
    note E = extent_edges [OF ok e(1)]
    have "ext_off e \<in> {WT_BLOCK_DESC_SECTOR ..< fs}" "ext_off e + ext_size e - 1 \<in> {WT_BLOCK_DESC_SECTOR ..< fs}"
      using E(4,5) sub by blast+
    moreover have "a \<le> ext_size e"
      using extent_aligned(2) [OF ok e(1) a] extlist_okD(6) [OF ok e(1)] by (meson dvd_eq_mod_eq_0 zdvd_imp_le)
    ultimately have "0 \<le> ext_off e - WT_BLOCK_DESC_SECTOR" "ext_off e - WT_BLOCK_DESC_SECTOR + a \<le> fs - WT_BLOCK_DESC_SECTOR" by auto
    then have "0 \<le> z" "(ext_off e - WT_BLOCK_DESC_SECTOR + a) div a \<le> (fs - WT_BLOCK_DESC_SECTOR) div a"
      using a(1) by (simp_all add: e(2) pos_imp_zdiv_nonneg_iff zdiv_mono1)
    moreover have "(ext_off e - WT_BLOCK_DESC_SECTOR + a) div a = z + 1" using a(1) by (subst e(2), subst div_add_self2) simp_all
    ultimately show "z \<in> {0 ..< (fs - WT_BLOCK_DESC_SECTOR) div a}" by simp
  qed
  then have "card (?q ` set (el_off el)) \<le> card {0 ..< (fs - WT_BLOCK_DESC_SECTOR) div a}" by (intro card_mono) simp
  finally show ?thesis by simp
qed

text \<open>
  Files of at most \<open>2 ^ 26\<close> allocation units, with the documented limits of the allocation size:
  their lists fit into a page whose size is a 32-bit number.
\<close>

definition file_fits :: "wt_block \<Rightarrow> bool" where
  "file_fits block \<longleftrightarrow> blk_file_size block \<le> 2 ^ 26 * uint (blk_allocsize block) \<and>
     64 \<le> unat (blk_allocsize block) \<and> unat (blk_allocsize block) \<le> 2 ^ 27 \<and> (\<exists>k. unat (blk_allocsize block) = 2 ^ k)"

lemma live_list_fits:
  assumes ok: "block_ok block" and sp: "space_ok block file" and fits: "file_fits block"
  shows "list_fits block (length (list_pairs (get_list which (blk_live block)) (if wa then Some (ck_ckpt_avail (blk_live block)) else None)))"
proof -
  note B = block_okD [OF ok] and S = space_okD [OF sp]
  have "(blk_file_size block - WT_BLOCK_DESC_SECTOR) div uint (blk_allocsize block) \<le> 2 ^ 26"
  proof -
    have "blk_file_size block - WT_BLOCK_DESC_SECTOR \<le> 2 ^ 26 * uint (blk_allocsize block)"
      using fits by (simp add: file_fits_def WT_BLOCK_DESC_SECTOR_def)
    then have "(blk_file_size block - WT_BLOCK_DESC_SECTOR) div uint (blk_allocsize block) \<le>
        2 ^ 26 * uint (blk_allocsize block) div uint (blk_allocsize block)" using S(1) by (rule zdiv_mono1)
    then show ?thesis using S(1) by simp
  qed
  then have n: "nat ((blk_file_size block - WT_BLOCK_DESC_SECTOR) div uint (blk_allocsize block)) \<le> 2 ^ 26" by simp
  have c: "length (el_off el) \<le> 2 ^ 26" if "extlist_ok el" "aligned (uint (blk_allocsize block)) (el_ranges el)" "el_ranges el \<subseteq> file_of block" for el
    using list_count [OF that(1) S(1) that(2,3)] n by linarith
  have "length (el_off (get_list which (blk_live block))) \<le> 2 ^ 26"
    using c B S by (cases which) auto
  moreover have "length (el_off (ck_ckpt_avail (blk_live block))) \<le> 2 ^ 26" using c B S by auto
  ultimately show ?thesis using fits by (auto simp: list_fits_def file_fits_def list_pairs_def)
qed

section \<open>Writing the live lists\<close>

definition list_addr :: "wt_extlist \<Rightarrow> int \<times> u32 \<times> u32" where
  "list_addr el = (el_offset el, el_size el, el_cksum el)"

definition other_part :: "ckpt_list \<Rightarrow> wt_block_ckpt \<Rightarrow> (u8 \<times> (int \<times> u32 \<times> u32)) \<times> (ckpt_list \<Rightarrow> int \<times> u32 \<times> u32)" where
  "other_part which ci = ((ck_version ci, (root_offset ci, root_size ci, root_cksum ci)),
     (\<lambda>k. if k = which then (0, 0, 0) else list_addr (get_list k ci)))"

lemma other_part_live: "live_part ci = live_part ci' \<Longrightarrow> other_part which ci = other_part which ci'"
proof -
  assume "live_part ci = live_part ci'"
  then have "list_addr (get_list k ci) = list_addr (get_list k ci')" for k
    by (cases k) (simp_all add: live_part_def list_addr_def el_meta_def)
  then show ?thesis using \<open>live_part ci = live_part ci'\<close> by (auto simp: other_part_def live_part_def)
qed

text \<open>What one written list leaves behind, as an abstract step from \<open>s\<close> to \<open>s'\<close>.\<close>

definition list_written ::
  "wt_io \<Rightarrow> bool \<Rightarrow> ckpt_list \<Rightarrow> (int \<times> int) list \<Rightarrow> ck_state \<Rightarrow> held_map \<Rightarrow> ck_state \<Rightarrow> held_map \<Rightarrow> bool" where
  "list_written io checksum which ps s held s' held' \<longleftrightarrow>
     io_inv io checksum (cs_block s') (cs_file s') held' \<and> space_ok (cs_block s') (cs_file s') \<and> held \<subseteq>\<^sub>m held' \<and>
     cs_ckpts s' = cs_ckpts s \<and> blk_allocsize (cs_block s') = blk_allocsize (cs_block s) \<and>
     ck_ckpt_avail (blk_live (cs_block s')) = ck_ckpt_avail (blk_live (cs_block s)) \<and>
     other_part which (blk_live (cs_block s')) = other_part which (blk_live (cs_block s)) \<and>
     length (cs_file s) \<le> length (cs_file s') \<and>
     (\<forall>n. file_limit io n \<longrightarrow> int (length (cs_file s)) \<le> n \<longrightarrow> int (length (cs_file s')) \<le> n) \<and>
     (case list_addr (get_list which (blk_live (cs_block s'))) of (off, len, ck) \<Rightarrow>
        addr_ok (blk_allocsize (cs_block s)) off len ck \<and>
        (if ps = [] then off = WT_BLOCK_INVALID_OFFSET \<and> avail_of (cs_block s') = avail_of (cs_block s)
         else off \<noteq> WT_BLOCK_INVALID_OFFSET \<and> avail_of (cs_block s') = avail_of (cs_block s) - {off ..< off + uint len} \<and>
           ({off ..< off + uint len} \<subseteq> avail_of (cs_block s) \<or> {off ..< off + uint len} \<inter> file_of (cs_block s) = {}) \<and> len \<noteq> 0 \<and>
           (\<exists>hdr. length hdr = 36 \<and> held' (off, uint len) = Some (ck, hdr @ extlist_data (io_be io) ps))))"

lemma upd_ci_None [simp]:
  "cs_block (upd_ci None f s) = (cs_block s)\<lparr>blk_live := f (blk_live (cs_block s))\<rparr>" "cs_file (upd_ci None f s) = cs_file s"
  "cs_ckpts (upd_ci None f s) = cs_ckpts s" "get_ci None s = blk_live (cs_block s)"
  by (simp_all add: upd_ci_def get_ci_def)

lemma set_rng_sel [simp]:
  "cs_block (set_rng g s) = (cs_block s)\<lparr>blk_rng := g\<rparr>" "cs_file (set_rng g s) = cs_file s" "cs_ckpts (set_rng g s) = cs_ckpts s"
  by (simp_all add: set_rng_def)

lemma upd_list_addr:
  assumes a_def: "a = set_addr off len ck"
  shows "list_addr (get_list which (upd_list which a ci)) = (off, len, ck)"
    "other_part which (upd_list which a ci) = other_part which ci"
    "el_ranges (ck_alloc (upd_list which a ci)) = el_ranges (ck_alloc ci)" "el_ranges (ck_avail (upd_list which a ci)) = el_ranges (ck_avail ci)"
    "el_ranges (ck_discard (upd_list which a ci)) = el_ranges (ck_discard ci)" "ck_ckpt_avail (upd_list which a ci) = ck_ckpt_avail ci"
    "extlist_ok (ck_alloc (upd_list which a ci)) = extlist_ok (ck_alloc ci)" "extlist_ok (ck_avail (upd_list which a ci)) = extlist_ok (ck_avail ci)"
    "extlist_ok (ck_discard (upd_list which a ci)) = extlist_ok (ck_discard ci)"
proof -
  show "list_addr (get_list which (upd_list which a ci)) = (off, len, ck)"
    by (cases which) (simp_all add: list_addr_def a_def set_addr_def)
  show "other_part which (upd_list which a ci) = other_part which ci"
  proof -
    have "list_addr (get_list k (upd_list which a ci)) = list_addr (get_list k ci)" if "k \<noteq> which" for k
      using that by (cases k; cases which) simp_all
    moreover have "ck_version (upd_list which a ci) = ck_version ci" "root_offset (upd_list which a ci) = root_offset ci"
        "root_size (upd_list which a ci) = root_size ci" "root_cksum (upd_list which a ci) = root_cksum ci"
      by (cases which; simp)+
    ultimately show ?thesis by (auto simp: other_part_def)
  qed
  show "el_ranges (ck_alloc (upd_list which a ci)) = el_ranges (ck_alloc ci)" "el_ranges (ck_avail (upd_list which a ci)) = el_ranges (ck_avail ci)"
    "el_ranges (ck_discard (upd_list which a ci)) = el_ranges (ck_discard ci)" "ck_ckpt_avail (upd_list which a ci) = ck_ckpt_avail ci"
    "extlist_ok (ck_alloc (upd_list which a ci)) = extlist_ok (ck_alloc ci)" "extlist_ok (ck_avail (upd_list which a ci)) = extlist_ok (ck_avail ci)"
    "extlist_ok (ck_discard (upd_list which a ci)) = extlist_ok (ck_discard ci)"
    by (cases which; simp add: a_def set_addr_def el_ranges_def extlist_ok_def idx_ok_def depths_ok_def)+
qed

lemma live_write_cases:
  assumes bok: "block_ok block" and sp: "space_ok block file" and fits: "file_fits block"
  defines "el which \<equiv> get_list which (blk_live block)"
  defines "add wa \<equiv> if wa then Some (ck_ckpt_avail (blk_live block)) else None"
  obtains (empty) "list_pairs (el which) (add wa) = []"
      "wt_block_extlist_write io mem block f (el which) (add wa) = (block, f, Inr (WT_BLOCK_INVALID_OFFSET, 0, 0))"
    | (page) hdr where "length hdr = 36" "list_pairs (el which) (add wa) \<noteq> []" "page_ok block (hdr @ extlist_data (io_be io) (list_pairs (el which) (add wa)))"
      "wt_block_extlist_write io mem block f (el which) (add wa) =
        (case wt_block_write_off io mem block f (hdr @ extlist_data (io_be io) (list_pairs (el which) (add wa)))
             (unat (align_of block (hdr @ extlist_data (io_be io) (list_pairs (el which) (add wa))))) of (block, file, _, r) \<Rightarrow> (block, file, r))"
proof -
  have elok: "extlist_ok (el which)" "\<forall>a. add wa = Some a \<longrightarrow> extlist_ok a"
    using block_okD(1-4) [OF bok] unfolding el_def add_def by (cases which, simp_all split: if_splits)
  from extlist_write_unfold [OF elok live_list_fits [OF bok sp fits, of which wa, folded el_def add_def], of io mem f]
  show thesis
  proof (elim disjE exE conjE)
    assume "list_pairs (el which) (add wa) = []"
      "wt_block_extlist_write io mem block f (el which) (add wa) = (block, f, Inr (WT_BLOCK_INVALID_OFFSET, 0, 0))"
    then show thesis by (rule empty)
  next
    fix hdr memsize
    assume a: "length hdr = 36" "list_pairs (el which) (add wa) \<noteq> []" "page_ok block (hdr @ extlist_data (io_be io) (list_pairs (el which) (add wa)))"
      "memsize = unat (align_of block (hdr @ extlist_data (io_be io) (list_pairs (el which) (add wa))))"
      "wt_block_extlist_write io mem block f (el which) (add wa) =
        (case wt_block_write_off io mem block f (hdr @ extlist_data (io_be io) (list_pairs (el which) (add wa))) memsize of
           (block, file, _, r) \<Rightarrow> (block, file, r))"
    show thesis by (rule page [OF a(1-3) a(5) [unfolded a(4)]])
  qed
qed

lemma write_list_live:
  assumes io: "io_ok io" and inv: "io_inv io checksum (cs_block s) (cs_file s) held" and sp: "space_ok (cs_block s) (cs_file s)"
    and fits: "file_fits (cs_block s)" and w: "ckpt_write_list io mem None which wa s = (s', Inr ())"
  defines "ps \<equiv> list_pairs (get_list which (blk_live (cs_block s))) (if wa then Some (ck_ckpt_avail (blk_live (cs_block s))) else None)"
  shows "\<exists>held'. list_written io checksum which ps s held s' held'"
proof -
  let ?b = "cs_block s" and ?f = "cs_file s" and ?el = "get_list which (blk_live (cs_block s))"
  let ?add = "if wa then Some (ck_ckpt_avail (blk_live ?b)) else None"
  have bok: "block_ok ?b" using io_invD(1) [OF inv] by (simp add: held_ok_def)
  note B = block_okD [OF bok]
  show ?thesis
  proof (cases rule: live_write_cases [OF bok sp fits, where which = which and wa = wa and io = io and mem = mem and f = ?f])
    case 1
    note empty = 1 [folded ps_def]
    note U = upd_list_addr [OF refl, of which WT_BLOCK_INVALID_OFFSET 0 0 "blk_live ?b"]
    have s': "s' = upd_ci None (upd_list which (set_addr WT_BLOCK_INVALID_OFFSET 0 0)) s"
      using w unfolding ckpt_write_list_def upd_ci_None(4) empty(2) by (simp add: upd_ci_def)
    have "io_inv io checksum (cs_block s') (cs_file s') held"
      using io_inv_same_lists [OF inv, of "cs_block s'"] B(1-4) U by (simp add: s' lists_ok_def)
    moreover have "space_ok (cs_block s') (cs_file s')" using sp U by (simp add: s' space_ok_def)
    ultimately show ?thesis using U empty(1)
      by (intro exI [of _ held]) (simp add: list_written_def s' map_le_def addr_ok_def WT_BLOCK_INVALID_OFFSET_def)
  next
    case (2 hdr)
    let ?mem = "unat (align_of ?b (hdr @ extlist_data (io_be io) ps))"
    note page = 2 [folded ps_def]
    obtain block2 file2 buf2 r where w2: "wt_block_write_off io mem ?b ?f (hdr @ extlist_data (io_be io) ps) ?mem = (block2, file2, buf2, r)"
      by (metis prod_cases4)
    then obtain off len ck where r: "r = Inr (off, len, ck)"
      using w unfolding ckpt_write_list_def upd_ci_None(4) page(4) by (cases r) auto
    note W = ck_write [OF io inv sp page(3) w2 [unfolded r]]
    let ?held = "held((off, uint len) \<mapsto> (ck, hdr @ extlist_data (io_be io) ps))"
    let ?live = "upd_list which (set_addr off len ck) (blk_live block2)"
    note U = upd_list_addr [OF refl, of which off len ck "blk_live block2"]
    have b2: "block_ok block2" using io_invD(1) [OF W(1)] by (simp add: held_ok_def)
    obtain alloc g where rm: "wt_block_off_remove_overlap (blk_rng block2) (ck_alloc ?live) off (uint len) = Inr (alloc, g)"
      and s': "s' = set_rng g (upd_ci None (\<lambda>ci. ci\<lparr>ck_alloc := alloc\<rparr>) (upd_ci None (upd_list which (set_addr off len ck)) (s\<lparr>cs_block := block2, cs_file := file2\<rparr>)))"
      using w W(5) unfolding ckpt_write_list_def upd_ci_None(4) page(4) w2 r by (auto simp: Let_def split: sum.splits)
    let ?b3 = "block2\<lparr>blk_live := ?live\<rparr>"
    have inv3: "io_inv io checksum ?b3 file2 ?held"
      using io_inv_same_lists [OF W(1), of ?b3] block_okD(1-4) [OF b2] U by (simp add: lists_ok_def)
    have sub: "{off ..< off + uint len} \<subseteq> alloc_of ?b3" using W(10) U by simp
    have rm3: "wt_block_off_remove_overlap (blk_rng block2) (ck_alloc (blk_live ?b3)) off (uint len) = Inr (alloc, g)" using rm by simp
    have h: "(off, uint len) \<in> dom ?held" by simp
    note V = io_inv_unalloc [OF inv3 h sub rm3]
    have pos: "0 < uint len" using W(4) by (simp add: word_neq_0_conv word_less_def)
    have r2: "{off ..< off + uint len} \<subseteq> el_ranges (ck_alloc ?live)" using sub by simp
    have ranges: "el_ranges alloc = alloc_of block2 - {off ..< off + uint len}"
      by (rule remove_obtain [OF _ pos r2, of "blk_rng block2"]) (use block_okD(2) [OF b2] U rm in auto)
    let ?b' = "cs_block s'"
    have b': "?b' = ?b3\<lparr>blk_live := (blk_live ?b3)\<lparr>ck_alloc := alloc\<rparr>, blk_rng := g\<rparr>" by (simp add: s')
    have inv': "io_inv io checksum ?b' (cs_file s') ?held" using V(1) unfolding b' by (simp add: s')
    note S2 = space_okD [OF W(2)]
    have ral: "aligned (uint (blk_allocsize block2)) {off ..< off + uint len}"
      using aligned_range [OF S2(1)] W(3,4,9) by (simp add: addr_ok_def)
    have sp': "space_ok ?b' (cs_file s')"
      using S2 U aligned_Diff [OF S2(1) S2(5) ral] by (simp add: b' s' space_ok_def ranges)
    have same: "get_list k ((blk_live ?b3)\<lparr>ck_alloc := alloc\<rparr>) = get_list k (blk_live ?b3) \<or> k = Alloc_List" for k by (cases k) simp_all
    have addr: "list_addr (get_list k (blk_live ?b')) = list_addr (get_list k ?live)" for k
      using same [of k] V(2) by (cases k) (simp_all add: b' list_addr_def el_meta_def)
    have "other_part which (blk_live ?b') = other_part which ?live" unfolding other_part_def addr by (simp add: b')
    then have oth: "other_part which (blk_live ?b') = other_part which (blk_live ?b)"
      using U(2) other_part_live [OF W(6)] by simp
    have map: "held \<subseteq>\<^sub>m ?held" using W(13) by (auto simp: map_le_def)
    have avail: "avail_of ?b' = avail_of ?b - {off ..< off + uint len}" using W(11) U by (simp add: b')
    have "list_written io checksum which ps s held s' ?held"
      unfolding list_written_def addr U(1) prod.case
      using inv' sp' map oth avail W(3-5,8,9,12,14,15) page(1,2) U by (simp add: b' s')
    then show ?thesis by blast
  qed
qed

section \<open>Truncating the file\<close>

text \<open>The truncation of a file to a smaller size, as the system call documents it.\<close>

definition trunc_ok :: "wt_io \<Rightarrow> bool" where
  "trunc_ok io \<longleftrightarrow> (\<forall>file n file'. 0 \<le> n \<longrightarrow> n \<le> int (length file) \<longrightarrow> io_ftruncate io file n = Inr file' \<longrightarrow> file' = take (nat n) file)"

lemma stored_take:
  assumes "stored io checksum file h r" "range_of h \<subseteq> {0 ..< n}" "0 < snd h"
  shows "stored io checksum (take (nat n) file) h r"
proof -
  obtain off len ck buf where hr: "h = (off, len)" "r = (ck, buf)" by (cases h, cases r) auto
  have s: "0 \<le> off" "0 < len" "nat off + nat len \<le> length file" using assms(1,3) by (simp_all add: stored_def hr)
  have "off + len - 1 \<in> range_of h" using s by (simp add: hr range_of_def)
  then have "off + len \<le> n" using assms(2) by auto
  then have "nat off + nat len \<le> nat n" using s by linarith
  then have "get_at (nat off) (nat len) (take (nat n) file) = get_at (nat off) (nat len) file"
    by (simp add: get_at_def drop_take min_def)
  then show ?thesis using assms(1) \<open>nat off + nat len \<le> nat n\<close> by (simp add: stored_def hr)
qed

lemma truncate_cases:
  assumes ok: "extlist_ok (ck_avail (blk_live block))" and tr: "trunc_ok io" and len: "int (length file) = blk_file_size block"
    and fo: "avail_of block \<subseteq> file_of block"
    and t: "wt_block_extlist_truncate io block file (ck_avail (blk_live block)) = Inr (block', file', avail)"
  obtains (keep) "block' = block" "file' = file" "avail = ck_avail (blk_live block)"
  | (cut) e where "e \<in> set (el_off (ck_avail (blk_live block)))" "ext_off e + ext_size e = blk_file_size block"
      "block' = block\<lparr>blk_file_size := ext_off e\<rparr>" "file' = take (nat (ext_off e)) file" "extlist_ok avail"
      "el_ranges avail = avail_of block - {ext_off e ..< blk_file_size block}" "el_meta avail = el_meta (ck_avail (blk_live block))"
proof -
  let ?el = "ck_avail (blk_live block)"
  note L = block_extlist_last_correct [OF extlist_okD(2) [OF ok]]
  show thesis
  proof (cases "el_off ?el = [] \<or> ext_off (last (el_off ?el)) + ext_size (last (el_off ?el)) \<noteq> blk_file_size block")
    case True
    then have "wt_block_extlist_truncate io block file ?el = Inr (block, file, ?el)"
      unfolding wt_block_extlist_truncate_def L by auto
    then show thesis using t by (intro keep) simp_all
  next
    case False
    let ?e = "last (el_off ?el)"
    have e: "?e \<in> set (el_off ?el)" "ext_off ?e + ext_size ?e = blk_file_size block" using False by simp_all
    obtain el' where el': "block_off_remove ?el (ext_off ?e) = Inr (?e, el')" "extlist_ok el'"
        "el_ranges el' = el_ranges ?el - ext_range ?e" "el_meta el' = el_meta ?el"
      using extlist_remove [OF ok e(1)] block_off_remove_meta by metis
    obtain f2 where f2: "io_ftruncate io file (ext_off ?e) = Inr f2"
        and b: "block' = block\<lparr>blk_file_size := ext_off ?e\<rparr>" "file' = f2" "avail = el'"
      using t False el'(1) unfolding wt_block_extlist_truncate_def L by (auto simp: wt_ftruncate_def wt_ret_Inr_iff)
    have "ext_off ?e \<in> file_of block" using fo extent_edges(4) [OF ok e(1)] by blast
    then have "f2 = take (nat (ext_off ?e)) file" using tr f2 len unfolding trunc_ok_def by (auto simp: WT_BLOCK_DESC_SECTOR_def)
    then show thesis using e b el'(2-4) by (intro cut [of ?e]) (simp_all add: ext_range_def)
  qed
qed

lemma truncate_live:
  assumes io: "io_ok io" and tr: "trunc_ok io" and inv: "io_inv io checksum (cs_block s) (cs_file s) held"
    and sp: "space_ok (cs_block s) (cs_file s)" and t: "ckpt_truncate io s = (s', Inr ())"
  shows "io_inv io checksum (cs_block s') (cs_file s') held" "space_ok (cs_block s') (cs_file s')"
    "cs_ckpts s' = cs_ckpts s" "blk_allocsize (cs_block s') = blk_allocsize (cs_block s)"
    "live_part (blk_live (cs_block s')) = live_part (blk_live (cs_block s))"
    "ck_ckpt_avail (blk_live (cs_block s')) = ck_ckpt_avail (blk_live (cs_block s))" "length (cs_file s') \<le> length (cs_file s)"
proof -
  let ?b = "cs_block s"
  have bok: "block_ok ?b" using io_invD(1) [OF inv] by (simp add: held_ok_def)
  note B = block_okD [OF bok] and S = space_okD [OF sp]
  obtain block f2 avail where w: "wt_block_extlist_truncate io ?b (cs_file s) (ck_avail (blk_live ?b)) = Inr (block, f2, avail)"
      and s': "s' = upd_ci None (\<lambda>ci. ci\<lparr>ck_avail := avail\<rparr>) (s\<lparr>cs_block := block, cs_file := f2\<rparr>)"
    using t by (auto simp: ckpt_truncate_def split: sum.splits)
  have sub: "avail_of ?b \<subseteq> file_of ?b" using B(11) by blast
  have "io_inv io checksum (cs_block s') (cs_file s') held \<and> space_ok (cs_block s') (cs_file s') \<and>
    blk_allocsize (cs_block s') = blk_allocsize ?b \<and> live_part (blk_live (cs_block s')) = live_part (blk_live ?b) \<and>
    ck_ckpt_avail (blk_live (cs_block s')) = ck_ckpt_avail (blk_live ?b)"
  proof (cases rule: truncate_cases [OF B(1) tr S(4) sub w])
    case 1
    then have "cs_block s' = ?b" "cs_file s' = cs_file s" by (simp_all add: s')
    then show ?thesis using inv sp by simp
  next
    case (2 e)
    let ?b' = "cs_block s'"
    have b': "?b' = ?b\<lparr>blk_file_size := ext_off e, blk_live := (blk_live ?b)\<lparr>ck_avail := avail\<rparr>\<rparr>" by (simp add: s' 2)
    have r: "{ext_off e ..< blk_file_size ?b} \<subseteq> avail_of ?b" using extent_edges(3) [OF B(1) 2(1)] 2(2) by (simp add: ext_range_def)
    have lo: "WT_BLOCK_DESC_SECTOR \<le> ext_off e" "ext_off e \<le> blk_file_size ?b" using extent_edges(4) [OF B(1) 2(1)] sub by auto
    have cut: "X \<subseteq> {WT_BLOCK_DESC_SECTOR ..< ext_off e}" if "X \<subseteq> file_of ?b" "X \<inter> avail_of ?b = {}" for X
      using that r by (meson atLeastLessThan_iff disjoint_iff not_le subset_iff)
    have sub4: "alloc_of ?b \<subseteq> file_of ?b" "discard_of ?b \<subseteq> file_of ?b" "ckpt_avail_of ?b \<subseteq> file_of ?b"
      using B(11) by simp_all
    have dj: "alloc_of ?b \<inter> avail_of ?b = {}" "discard_of ?b \<inter> avail_of ?b = {}" "ckpt_avail_of ?b \<inter> avail_of ?b = {}"
      using B(5-7) by (simp_all add: Int_commute)
    have av: "avail_of ?b - {ext_off e ..< blk_file_size ?b} \<subseteq> {WT_BLOCK_DESC_SECTOR ..< ext_off e}" using sub by fastforce
    have dj2: "(avail_of ?b - {ext_off e ..< blk_file_size ?b}) \<inter> X = {}" if "avail_of ?b \<inter> X = {}" for X using that by blast
    have bok': "block_ok ?b'"
      using B(2-10,13) lo 2(5) av cut [OF sub4(1) dj(1)] cut [OF sub4(2) dj(2)] cut [OF sub4(3) dj(3)] dj2
      by (simp add: b' block_ok_def lists_ok_def 2(6))
    have hb: "range_of h \<subseteq> {WT_BLOCK_DESC_SECTOR ..< ext_off e}" if "h \<in> dom held" for h
      using cut held_okD(2,3) [OF io_invD(1) [OF inv] that] by blast
    have "held_ok ?b' (dom held)"
    proof (rule held_okI)
      show "block_ok ?b'" by (rule bok')
    next
      fix h assume h: "h \<in> dom held"
      show "0 < snd h" "range_of h \<subseteq> file_of ?b'" "range_of h \<inter> (avail_of ?b' \<union> discard_of ?b' \<union> ckpt_avail_of ?b') = {}"
          "range_of h \<subseteq> alloc_of ?b' \<or> range_of h \<inter> alloc_of ?b' = {}"
        using held_okD(3-5) [OF io_invD(1) [OF inv] h] hb [OF h] unfolding b' by (simp_all add: 2(6), blast)
    next
      fix h h' assume "h \<in> dom held" "h' \<in> dom held" "h \<noteq> h'"
      then show "range_of h \<inter> range_of h' = {}" using io_invD(1) [OF inv] unfolding held_ok_def by blast
    qed
    then have "io_inv io checksum ?b' (cs_file s') held"
    proof (rule io_invI)
      show "blk_checksum ?b' = checksum" using io_invD(2) [OF inv] by (simp add: b')
      fix h r assume h: "held h = Some r"
      have "range_of h \<subseteq> {0 ..< ext_off e}" using hb [of h] h by (force simp: WT_BLOCK_DESC_SECTOR_def)
      moreover have "0 < snd h" using held_okD(5) [OF io_invD(1) [OF inv], of h] h by blast
      ultimately show "stored io checksum (cs_file s') h r" using stored_take [OF io_invD(3) [OF inv h]] by (simp add: s' 2)
    qed
    moreover have "space_ok ?b' (cs_file s')"
    proof -
      note A = extent_aligned [OF B(1) 2(1) S(1,2)]
      have "aligned (uint (blk_allocsize ?b)) {ext_off e ..< ext_off e + ext_size e}" using aligned_range [OF S(1) A] .
      then have "aligned (uint (blk_allocsize ?b)) (avail_of ?b - {ext_off e ..< blk_file_size ?b})"
        using aligned_Diff [OF S(1,2)] 2(2) by simp
      moreover have "int (length (cs_file s')) = ext_off e" using lo S(4) by (simp add: s' 2 WT_BLOCK_DESC_SECTOR_def)
      ultimately show ?thesis using S A by (simp add: space_ok_def b' 2(6))
    qed
    ultimately show ?thesis using 2(7) by (simp add: b' live_part_def)
  qed
  then show "io_inv io checksum (cs_block s') (cs_file s') held" "space_ok (cs_block s') (cs_file s')"
      "blk_allocsize (cs_block s') = blk_allocsize ?b" "live_part (blk_live (cs_block s')) = live_part (blk_live ?b)"
      "ck_ckpt_avail (blk_live (cs_block s')) = ck_ckpt_avail (blk_live ?b)" by blast+
  show "cs_ckpts s' = cs_ckpts s" by (simp add: s')
  show "length (cs_file s') \<le> length (cs_file s)"
    by (cases rule: truncate_cases [OF B(1) tr S(4) sub w]) (simp_all add: s')
qed

section \<open>Writing a checkpoint\<close>

text \<open>
  An avail list that was written as the block at its address: the list on disk was made before the
  block was allocated, so it may still hold that range, which the reader removes again.
\<close>

definition avail_stored :: "bool \<Rightarrow> held_map \<Rightarrow> int \<times> u32 \<times> u32 \<Rightarrow> u32 \<Rightarrow> int \<Rightarrow> int set \<Rightarrow> bool" where
  "avail_stored be held addr allocsize fs R \<longleftrightarrow> (case addr of (off, len, ck) \<Rightarrow>
     if off = WT_BLOCK_INVALID_OFFSET then R = {}
     else \<exists>hdr ps. length hdr = 36 \<and> held (off, uint len) = Some (ck, hdr @ extlist_data be ps) \<and> fresh_ranges {} ps \<and>
       len \<noteq> 0 \<and> (\<forall>p\<in>set ps. pair_ok allocsize fs p) \<and> R = (\<Union>p\<in>set ps. range_of p) - {off ..< off + uint len} \<and>
       ({off ..< off + uint len} \<subseteq> (\<Union>p\<in>set ps. range_of p) \<or> {off ..< off + uint len} \<inter> (\<Union>p\<in>set ps. range_of p) = {}))"

lemma avail_load:
  assumes io: "io_ok io" and st: "\<forall>h r. held h = Some r \<longrightarrow> stored io checksum file h r"
    and av: "avail_stored (io_be io) held (list_addr el) (blk_allocsize block) (blk_file_size block) R"
    and el: "extlist_ok el" "el_ranges el = {}" and block: "blk_checksum block = checksum" "blk_file_size block < 2 ^ 63"
  shows "\<exists>el' g. wt_block_extlist_read_avail io mem block file el = Inr (el', block\<lparr>blk_rng := g\<rparr>) \<and> extlist_ok el' \<and>
    el_ranges el' = R \<and> el_meta el' = el_meta el"
proof (cases "el_offset el = WT_BLOCK_INVALID_OFFSET")
  case True
  then have "R = {}" using av by (simp add: avail_stored_def list_addr_def)
  then show ?thesis using True el
    by (intro exI [of _ el] exI [of _ "blk_rng block"]) (simp add: wt_block_extlist_read_avail_def)
next
  case False
  let ?r = "{el_offset el ..< el_offset el + uint (el_size el)}"
  obtain hdr ps where p: "length hdr = 36" "held (el_offset el, uint (el_size el)) = Some (el_cksum el, hdr @ extlist_data (io_be io) ps)"
      "fresh_ranges {} ps" "\<forall>p\<in>set ps. pair_ok (blk_allocsize block) (blk_file_size block) p"
      "R = (\<Union>p\<in>set ps. range_of p) - ?r" "?r \<subseteq> (\<Union>p\<in>set ps. range_of p) \<or> ?r \<inter> (\<Union>p\<in>set ps. range_of p) = {}" "el_size el \<noteq> 0"
    using av False by (auto simp: avail_stored_def list_addr_def)
  have pos: "0 < uint (el_size el)" using p(7) by (simp add: word_neq_0_conv word_less_def)
  obtain el1 g where rd: "wt_block_extlist_read io mem block file el = Inr (el1, block\<lparr>blk_rng := g\<rparr>)" "extlist_ok el1"
      "el_ranges el1 = (\<Union>p\<in>set ps. range_of p)" "el_meta el1 = el_meta el"
    using stored_extlist_read [OF io st [rule_format, OF p(2)] p(1) False el(1) _ block p(4), of mem] p(3) el(2) by auto
  have m: "el_offset el1 = el_offset el" "el_size el1 = el_size el" using rd(4) by (simp_all add: el_meta_def)
  show ?thesis
  proof (cases "?r \<subseteq> (\<Union>p\<in>set ps. range_of p)")
    case True
    obtain el2 g2 where "wt_block_off_remove_overlap g el1 (el_offset el) (uint (el_size el)) = Inr (el2, g2)" "extlist_ok el2"
        "el_ranges el2 = el_ranges el1 - ?r" "el_meta el2 = el_meta el1"
      by (rule remove_obtain [OF rd(2) pos, of "el_offset el" g]) (use True rd(3) in auto)
    then show ?thesis using False rd p(5) by (intro exI [of _ el2] exI [of _ g2]) (simp add: wt_block_extlist_read_avail_def m)
  next
    case no: False
    then have "?r \<inter> el_ranges el1 = {}" using p(6) rd(3) by blast
    then have "wt_block_off_remove_overlap g el1 (el_offset el) (uint (el_size el)) = Inl WT_NOTFOUND"
      using remove_overlap_missing [OF rd(2) pos] by blast
    moreover have "R = el_ranges el1" using \<open>?r \<inter> el_ranges el1 = {}\<close> p(5) rd(3) by blast
    ultimately show ?thesis using False rd by (intro exI [of _ el1] exI [of _ g]) (simp add: wt_block_extlist_read_avail_def m)
  qed
qed

lemma list_writtenD:
  assumes "list_written io checksum which ps s held s' held'"
  shows "io_inv io checksum (cs_block s') (cs_file s') held'" "space_ok (cs_block s') (cs_file s')" "held \<subseteq>\<^sub>m held'"
    "cs_ckpts s' = cs_ckpts s" "blk_allocsize (cs_block s') = blk_allocsize (cs_block s)"
    "ck_ckpt_avail (blk_live (cs_block s')) = ck_ckpt_avail (blk_live (cs_block s))"
    "other_part which (blk_live (cs_block s')) = other_part which (blk_live (cs_block s))"
    "file_limit io n \<Longrightarrow> int (length (cs_file s)) \<le> n \<Longrightarrow> int (length (cs_file s')) \<le> n"
    "list_addr (get_list which (blk_live (cs_block s'))) = (off, len, ck) \<Longrightarrow> addr_ok (blk_allocsize (cs_block s)) off len ck"
    "length (cs_file s) \<le> length (cs_file s')"
  using assms unfolding list_written_def by (blast, blast, blast, blast, blast, blast, blast, blast, force, blast)

lemma other_partD:
  assumes "other_part which ci = other_part which ci'"
  shows "ck_version ci = ck_version ci'" "root_offset ci = root_offset ci'" "root_size ci = root_size ci'" "root_cksum ci = root_cksum ci'"
    "k \<noteq> which \<Longrightarrow> list_addr (get_list k ci) = list_addr (get_list k ci')"
  using assms by (auto simp: other_part_def dest!: fun_cong [of _ _ k])

lemma file_fits_limit:
  assumes "file_fits b0" "space_ok block file" "blk_allocsize block = blk_allocsize b0" "int (length file) \<le> 2 ^ 26 * uint (blk_allocsize b0)"
  shows "file_fits block"
  using assms space_okD(4) [OF assms(2)] by (simp add: file_fits_def)

lemma fresh_ranges_append: "fresh_ranges R (ps @ qs) \<longleftrightarrow> fresh_ranges R ps \<and> fresh_ranges (R \<union> (\<Union>p\<in>set ps. range_of p)) qs"
  by (induction ps arbitrary: R) (auto simp: Un_assoc)

text \<open>The pairs that are written for the avail list.\<close>

lemma live_pairs:
  assumes ok: "block_ok block" and sp: "space_ok block file"
  defines "ps \<equiv> list_pairs (ck_avail (blk_live block)) (Some (ck_ckpt_avail (blk_live block)))"
  shows "fresh_ranges {} ps" "\<forall>p\<in>set ps. pair_ok (blk_allocsize block) (blk_file_size block) p"
    "(\<Union>p\<in>set ps. range_of p) = avail_of block \<union> ckpt_avail_of block" "ps = [] \<Longrightarrow> avail_of block \<union> ckpt_avail_of block = {}"
proof -
  note B = block_okD [OF ok] and S = space_okD [OF sp]
  let ?a = "ck_avail (blk_live block)" and ?c = "ck_ckpt_avail (blk_live block)"
  have ps: "ps = map ext_pair (el_off ?a) @ map ext_pair (el_off ?c)" by (simp add: ps_def list_pairs_def ext_pair_def)
  show u: "(\<Union>p\<in>set ps. range_of p) = avail_of block \<union> ckpt_avail_of block" by (auto simp: ps el_ranges_def)
  then show "ps = [] \<Longrightarrow> avail_of block \<union> ckpt_avail_of block = {}" by auto
  show "fresh_ranges {} ps"
    unfolding ps fresh_ranges_append fresh_ranges_extlist [OF B(1)] fresh_ranges_extlist [OF B(4)] extlist_pairs(2) [OF B(1)]
    using B(7) by blast
  have "pair_ok (blk_allocsize block) (blk_file_size block) (ext_pair e)"
    if "e \<in> set (el_off el)" "extlist_ok el" "el_ranges el \<subseteq> file_of block" "aligned (uint (blk_allocsize block)) (el_ranges el)" for e el
  proof -
    note E = extent_edges [OF that(2,1)] and A = extent_aligned [OF that(2,1) S(1) that(4)]
    have "ext_off e \<in> file_of block" "ext_off e + ext_size e - 1 \<in> file_of block" using E(4,5) that(3) by blast+
    then show ?thesis using A extlist_okD(6) [OF that(2,1)] by (simp add: pair_ok_def ext_pair_def)
  qed
  then show "\<forall>p\<in>set ps. pair_ok (blk_allocsize block) (blk_file_size block) p"
    using B(1,4,11) S(2,7) unfolding ps by auto
qed

text \<open>A written checkpoint: everything in use is stored, and the live structure describes the file.\<close>

definition ckpt_written :: "wt_io \<Rightarrow> bool \<Rightarrow> ck_state \<Rightarrow> held_map \<Rightarrow> bool" where
  "ckpt_written io checksum s held \<longleftrightarrow> io_inv io checksum (cs_block s) (cs_file s) held \<and> space_ok (cs_block s) (cs_file s) \<and>
     (\<forall>k. case list_addr (get_list k (blk_live (cs_block s))) of (off, len, ck) \<Rightarrow> addr_ok (blk_allocsize (cs_block s)) off len ck) \<and>
     avail_stored (io_be io) held (list_addr (ck_avail (blk_live (cs_block s)))) (blk_allocsize (cs_block s)) (blk_file_size (cs_block s))
       (avail_of (cs_block s) \<union> ckpt_avail_of (cs_block s))"

lemma pair_ok_mono: "pair_ok a fs p \<Longrightarrow> fs \<le> fs' \<Longrightarrow> pair_ok a fs' p"
  by (auto simp: pair_ok_def)

lemma avail_written:
  assumes inv: "io_inv io checksum (cs_block s) (cs_file s) held" and sp: "space_ok (cs_block s) (cs_file s)"
    and lw: "list_written io checksum Avail_List (list_pairs (ck_avail (blk_live (cs_block s))) (Some (ck_ckpt_avail (blk_live (cs_block s))))) s held s' held'"
  shows "avail_stored (io_be io) held' (list_addr (ck_avail (blk_live (cs_block s')))) (blk_allocsize (cs_block s')) (blk_file_size (cs_block s'))
    (avail_of (cs_block s') \<union> ckpt_avail_of (cs_block s'))"
proof -
  let ?ps = "list_pairs (ck_avail (blk_live (cs_block s))) (Some (ck_ckpt_avail (blk_live (cs_block s))))"
  obtain off len ck where a: "list_addr (ck_avail (blk_live (cs_block s'))) = (off, len, ck)" by (metis prod_cases3)
  have ok: "block_ok (cs_block s)" using io_invD(1) [OF inv] by (simp add: held_ok_def)
  note P = live_pairs [OF ok sp] and D = list_writtenD(5,6) [OF lw] and B = block_okD [OF ok]
  have mono: "blk_file_size (cs_block s) \<le> blk_file_size (cs_block s')"
    using space_okD(4) [OF sp] space_okD(4) [OF list_writtenD(2) [OF lw]] list_writtenD(10) [OF lw] by linarith
  let ?r = "{off ..< off + uint len}"
  show ?thesis
  proof (cases "?ps = []")
    case True
    then have "off = WT_BLOCK_INVALID_OFFSET" "avail_of (cs_block s') = avail_of (cs_block s)"
      using lw a by (simp_all add: list_written_def)
    then show ?thesis using P(4) [OF True] D(2) a by (simp add: avail_stored_def)
  next
    case False
    then obtain hdr where h: "off \<noteq> WT_BLOCK_INVALID_OFFSET" "avail_of (cs_block s') = avail_of (cs_block s) - ?r" "len \<noteq> 0"
        "?r \<subseteq> avail_of (cs_block s) \<or> ?r \<inter> file_of (cs_block s) = {}" "length hdr = 36"
        "held' (off, uint len) = Some (ck, hdr @ extlist_data (io_be io) ?ps)"
      using lw a unfolding list_written_def by auto
    have rc: "?r \<inter> ckpt_avail_of (cs_block s) = {}" using h(4) B(7,11) by blast
    have "avail_of (cs_block s') \<union> ckpt_avail_of (cs_block s') = (\<Union>p\<in>set ?ps. range_of p) - ?r"
      unfolding P(3) h(2) D(2) using rc by blast
    moreover have "?r \<subseteq> (\<Union>p\<in>set ?ps. range_of p) \<or> ?r \<inter> (\<Union>p\<in>set ?ps. range_of p) = {}"
      unfolding P(3) using h(4) B(11) by blast
    moreover have "\<forall>p\<in>set ?ps. pair_ok (blk_allocsize (cs_block s')) (blk_file_size (cs_block s')) p"
      using P(2) D(1) pair_ok_mono [OF _ mono] by simp
    ultimately show ?thesis using P(1) h a unfolding avail_stored_def by auto
  qed
qed

lemma ck_then_Inr: "ck_then r k = (s', Inr ()) \<longleftrightarrow> (\<exists>s. r = (s, Inr ()) \<and> k s = (s', Inr ()))"
  by (auto simp: ck_then_def split: prod.splits sum.splits)

lemma ckpt_lists_written:
  assumes io: "io_ok io" and inv: "io_inv io checksum (cs_block s) (cs_file s) held" and sp: "space_ok (cs_block s) (cs_file s)"
    and fits: "file_fits (cs_block s)" "file_limit io (2 ^ 26 * uint (blk_allocsize (cs_block s)))"
    and w: "ckpt_write_list io mem None Alloc_List False s = (s1, Inr ())" "ckpt_write_list io mem None Discard_List False s1 = (s2, Inr ())"
      "ckpt_write_list io mem None Avail_List True s2 = (s3, Inr ())"
  shows "\<exists>held'. ckpt_written io checksum s3 held' \<and> held \<subseteq>\<^sub>m held' \<and> cs_ckpts s3 = cs_ckpts s \<and>
    blk_allocsize (cs_block s3) = blk_allocsize (cs_block s) \<and> ck_ckpt_avail (blk_live (cs_block s3)) = ck_ckpt_avail (blk_live (cs_block s)) \<and>
    ck_version (blk_live (cs_block s3)) = ck_version (blk_live (cs_block s)) \<and> root_offset (blk_live (cs_block s3)) = root_offset (blk_live (cs_block s)) \<and>
    root_size (blk_live (cs_block s3)) = root_size (blk_live (cs_block s)) \<and> root_cksum (blk_live (cs_block s3)) = root_cksum (blk_live (cs_block s))"
proof -
  let ?n = "2 ^ 26 * uint (blk_allocsize (cs_block s))"
  have len: "int (length (cs_file s)) \<le> ?n" using fits(1) space_okD(4) [OF sp] by (simp add: file_fits_def)
  obtain held1 where h1: "list_written io checksum Alloc_List (list_pairs (ck_alloc (blk_live (cs_block s))) None) s held s1 held1"
    using write_list_live [OF io inv sp fits(1) w(1)] by auto
  note L1 = list_writtenD [OF h1]
  have len1: "int (length (cs_file s1)) \<le> ?n" by (rule L1(8) [OF fits(2) len])
  have fits1: "file_fits (cs_block s1)" by (rule file_fits_limit [OF fits(1) L1(2,5) len1])
  obtain held2 where h2: "list_written io checksum Discard_List (list_pairs (ck_discard (blk_live (cs_block s1))) None) s1 held1 s2 held2"
    using write_list_live [OF io L1(1,2) fits1 w(2)] by auto
  note L2 = list_writtenD [OF h2]
  have fits2: "file_fits (cs_block s2)"
    by (rule file_fits_limit [OF fits(1) L2(2)]) (use L1(5) L2(5) L2(8) [OF fits(2) len1] in simp_all)
  obtain held3 where h3: "list_written io checksum Avail_List (list_pairs (ck_avail (blk_live (cs_block s2))) (Some (ck_ckpt_avail (blk_live (cs_block s2))))) s2 held2 s3 held3"
    using write_list_live [OF io L2(1,2) fits2 w(3)] by auto
  note L3 = list_writtenD [OF h3]
  note O = other_partD [OF L1(7)] other_partD [OF L2(7)] other_partD [OF L3(7)]
  have al: "list_addr (get_list Alloc_List (blk_live (cs_block s3))) = list_addr (get_list Alloc_List (blk_live (cs_block s1)))"
      "list_addr (get_list Discard_List (blk_live (cs_block s3))) = list_addr (get_list Discard_List (blk_live (cs_block s2)))"
    using other_partD(5) [OF L3(7), of Alloc_List] other_partD(5) [OF L2(7), of Alloc_List] other_partD(5) [OF L3(7), of Discard_List]
    by simp_all
  have "case list_addr (get_list k (blk_live (cs_block s3))) of (off, len, ck) \<Rightarrow> addr_ok (blk_allocsize (cs_block s3)) off len ck" for k
  proof (cases k)
    case Alloc_List
    then show ?thesis using al(1) L1(9) L1(5) L2(5) L3(5) by (simp split: prod.split)
  next
    case Discard_List
    then show ?thesis using al(2) L2(9) L1(5) L2(5) L3(5) by (simp split: prod.split)
  next
    case Avail_List
    then show ?thesis using L3(9) L1(5) L2(5) L3(5) by (simp split: prod.split)
  qed
  then have "ckpt_written io checksum s3 held3"
    using L3(1,2) avail_written [OF L2(1,2) h3] by (simp add: ckpt_written_def)
  moreover have "held \<subseteq>\<^sub>m held3" using L1(3) L2(3) L3(3) by (meson map_le_trans)
  ultimately show ?thesis
    using L1(4-6) L2(4-6) L3(4-6) O by (intro exI [of _ held3]) simp
qed

section \<open>Opening a checkpoint\<close>

lemma el_ranges_addr [simp]: "el_ranges (el\<lparr>el_offset := a, el_size := b, el_cksum := c\<rparr>) = el_ranges el"
  by (simp add: el_ranges_def)

lemma extlist_ok_addr [simp]: "extlist_ok (el\<lparr>el_offset := a, el_size := b, el_cksum := c\<rparr>) = extlist_ok el"
  by (simp add: extlist_ok_def idx_ok_def depths_ok_def)

lemma ckpt_clear_lists [simp]:
  "extlist_ok (ck_alloc (ckpt_clear name))" "extlist_ok (ck_avail (ckpt_clear name))" "extlist_ok (ck_discard (ckpt_clear name))"
  "extlist_ok (ck_ckpt_avail (ckpt_clear name))" "el_ranges (ck_alloc (ckpt_clear name)) = {}" "el_ranges (ck_avail (ckpt_clear name)) = {}"
  "el_ranges (ck_discard (ckpt_clear name)) = {}" "el_ranges (ck_ckpt_avail (ckpt_clear name)) = {}"
  by (simp_all add: ckpt_clear_def wt_block_extlist_init_def extlist_zero_def extlist_ok_def idx_ok_def depths_ok_def
      el_ranges_def sz_ok_def separated_def skip_sorted_iff)

lemma held_ok_reader:
  assumes ok: "held_ok block held" and lists: "lists_ok reader" "alloc_of reader = {}" "discard_of reader = {}" "ckpt_avail_of reader = {}"
    and av: "avail_of reader = avail_of block \<union> ckpt_avail_of block" and fs: "blk_file_size reader = blk_file_size block"
  shows "held_ok reader held"
proof (rule held_okI)
  have b: "block_ok block" using ok by (simp add: held_ok_def)
  show "block_ok reader" using block_okD(11-13) [OF b] lists av fs by (simp add: block_ok_def)
  fix h assume h: "h \<in> held"
  show "0 < snd h" "range_of h \<subseteq> file_of reader" "range_of h \<inter> (avail_of reader \<union> discard_of reader \<union> ckpt_avail_of reader) = {}"
      "range_of h \<subseteq> alloc_of reader \<or> range_of h \<inter> alloc_of reader = {}"
    using held_okD(2,3,5) [OF ok h] lists av fs by auto
next
  fix h h' assume "h \<in> held" "h' \<in> held" "h \<noteq> h'"
  then show "range_of h \<inter> range_of h' = {}" using ok unfolding held_ok_def by blast
qed

lemma load_eq:
  assumes "\<not> blk_live_load reader" "raw \<noteq> []" "b = reader\<lparr>blk_live_load := True, blk_live := ckpt_clear ''live''\<rparr>"
    "wt_block_buffer_to_ckpt (blk_allocsize reader) raw (ckpt_clear ''live'') = Inr ci" "root_offset ci \<noteq> WT_BLOCK_INVALID_OFFSET"
    "wt_block_read_off io mem b file (root_offset ci) (root_size ci) (root_cksum ci) = Inr dsk"
    "wt_block_extlist_read_avail io mem b file (ck_avail ci) = Inr (avail, b\<lparr>blk_rng := g\<rparr>)"
    "io_ftruncate io file (ck_file_size ci) = Inr file"
  shows "wt_block_checkpoint_load io mem reader file raw False =
    (b\<lparr>blk_rng := g, blk_live := ci\<lparr>ck_avail := avail\<rparr>, blk_file_size := ck_file_size ci\<rparr>, file, Inr dsk)"
proof -
  have "wt_block_ckpt_init_live reader = Inr b" "blk_allocsize b = blk_allocsize reader" "blk_live b = ckpt_clear ''live''"
    using assms(1,3) by (simp_all add: wt_block_ckpt_init_live_def)
  moreover from this have "checkpoint_load_from io mem b file raw False =
      Inr (b\<lparr>blk_rng := g, blk_live := ci\<lparr>ck_avail := avail\<rparr>, blk_file_size := ck_file_size ci\<rparr>, file, dsk)"
    using assms(4-8) by (simp add: checkpoint_load_from_def wt_ftruncate_def)
  ultimately show ?thesis using assms(2) by (simp add: wt_block_checkpoint_load_def)
qed

lemma load_written:
  assumes io: "io_ok io" and tr: "trunc_ok io" "\<exists>f. io_ftruncate io (cs_file s) (int (length (cs_file s))) = Inr f"
    and cw: "ckpt_written io checksum s held" and v: "ck_version (blk_live (cs_block s)) = WT_BM_CHECKPOINT_VERSION"
    and root: "held (root_offset (blk_live (cs_block s)), uint (root_size (blk_live (cs_block s)))) = Some (root_cksum (blk_live (cs_block s)), page)"
      "addr_ok (blk_allocsize (cs_block s)) (root_offset (blk_live (cs_block s))) (root_size (blk_live (cs_block s))) (root_cksum (blk_live (cs_block s)))"
      "root_offset (blk_live (cs_block s)) \<noteq> WT_BLOCK_INVALID_OFFSET"
    and raw: "wt_block_ckpt_to_buffer (blk_allocsize (cs_block s))
        ((blk_live (cs_block s))\<lparr>ck_file_size := int (length (cs_file s)), ck_ckpt_size := sz\<rparr>) = Inr raw"
    and reader: "\<not> blk_live_load reader" "blk_allocsize reader = blk_allocsize (cs_block s)" "blk_checksum reader = checksum"
      "blk_file_size reader = int (length (cs_file s))"
  shows "\<exists>reader' root. wt_block_checkpoint_load io mem reader (cs_file s) raw False = (reader', cs_file s, Inr root) \<and>
    same_page (io_be io) page root \<and> avail_of reader' = avail_of (cs_block s) \<union> ckpt_avail_of (cs_block s) \<and>
    alloc_of reader' = {} \<and> io_inv io checksum reader' (cs_file s) held"
proof -
  let ?live = "blk_live (cs_block s)" and ?f = "cs_file s" and ?a = "blk_allocsize (cs_block s)"
  let ?ci = "?live\<lparr>ck_file_size := int (length ?f), ck_ckpt_size := sz\<rparr>"
  have inv: "io_inv io checksum (cs_block s) ?f held" and sp: "space_ok (cs_block s) ?f" using cw by (simp_all add: ckpt_written_def)
  have addrs: "addr_ok ?a (el_offset (get_list k ?live)) (el_size (get_list k ?live)) (el_cksum (get_list k ?live))" for k
    using cw by (simp add: ckpt_written_def list_addr_def)
  note S = space_okD [OF sp]
  have ok: "block_ok (cs_block s)" using io_invD(1) [OF inv] by (simp add: held_ok_def)
  have fs: "blk_file_size (cs_block s) < 2 ^ 63" using block_okD(13) [OF ok] by (simp add: INT64_MAX_def)
  have a0: "?a \<noteq> 0" using S(1) by auto
  have ci: "ckpt_addrs_ok ?a ?ci" using addrs [of Alloc_List] addrs [of Avail_List] addrs [of Discard_List] root(2) fs S(4)
    by (simp add: ckpt_addrs_ok_def)
  have ver: "ck_version ?ci = WT_BM_CHECKPOINT_VERSION" using v by simp
  obtain ci' where ci': "wt_block_buffer_to_ckpt ?a raw (ckpt_clear ''live'') = Inr ci'" "ckpt_cookie_part ci' = ckpt_cookie_part ?ci"
      "ck_ckpt_avail ci' = ck_ckpt_avail (ckpt_clear ''live'')"
      "\<exists>x y z. ck_alloc ci' = (ck_alloc (ckpt_clear ''live''))\<lparr>el_offset := x, el_size := y, el_cksum := z\<rparr>"
      "ck_avail ci' = (ck_avail (ckpt_clear ''live''))\<lparr>el_offset := el_offset (ck_avail ?live), el_size := el_size (ck_avail ?live),
        el_cksum := el_cksum (ck_avail ?live)\<rparr>"
      "\<exists>x y z. ck_discard ci' = (ck_discard (ckpt_clear ''live''))\<lparr>el_offset := x, el_size := y, el_cksum := z\<rparr>"
    using ckpt_buffer_roundtrip [OF a0 ci ver, of "[]" "ckpt_clear ''live''"] raw by auto
  have r': "root_offset ci' = root_offset ?live" "root_size ci' = root_size ?live" "root_cksum ci' = root_cksum ?live"
      "ck_file_size ci' = int (length ?f)" using ci'(2) by (simp_all add: ckpt_cookie_part_def)
  let ?b = "reader\<lparr>blk_live_load := True, blk_live := ckpt_clear ''live''\<rparr>"
  obtain dsk where dsk: "wt_block_read_off io mem ?b ?f (root_offset ?live) (root_size ?live) (root_cksum ?live) = Inr dsk"
      "same_page (io_be io) page dsk"
    using stored_read [OF io io_invD(3) [OF inv root(1)], of ?b mem] reader(3) by auto
  have fs': "blk_file_size reader = blk_file_size (cs_block s)" using reader(4) S(4) by simp
  have av: "avail_stored (io_be io) held (list_addr (ck_avail ci')) (blk_allocsize ?b) (blk_file_size ?b) (avail_of (cs_block s) \<union> ckpt_avail_of (cs_block s))"
    using cw reader(2) fs' by (simp add: ckpt_written_def ci'(5) list_addr_def)
  have st: "\<forall>h r. held h = Some r \<longrightarrow> stored io checksum ?f h r" using io_invD(3) [OF inv] by blast
  obtain avail g where rd: "wt_block_extlist_read_avail io mem ?b ?f (ck_avail ci') = Inr (avail, ?b\<lparr>blk_rng := g\<rparr>)" "extlist_ok avail"
      "el_ranges avail = avail_of (cs_block s) \<union> ckpt_avail_of (cs_block s)"
  proof -
    have "extlist_ok (ck_avail ci')" "el_ranges (ck_avail ci') = {}" unfolding ci'(5) by simp_all
    moreover have "blk_checksum ?b = checksum" "blk_file_size ?b < 2 ^ 63" using reader(3) fs fs' by simp_all
    ultimately show thesis using that avail_load [OF io st av, of mem] by blast
  qed
  have tf: "io_ftruncate io ?f (int (length ?f)) = Inr ?f"
  proof -
    obtain f where f: "io_ftruncate io ?f (int (length ?f)) = Inr f" using tr(2) by blast
    have "f = take (nat (int (length ?f))) ?f" by (rule tr(1) [unfolded trunc_ok_def, rule_format, OF _ _ f]) simp_all
    then show ?thesis using f by simp
  qed
  have ne: "raw \<noteq> []" using raw v by (auto simp: wt_block_ckpt_to_buffer_def wt_ret_Inr_iff)
  let ?r = "?b\<lparr>blk_rng := g, blk_live := ci'\<lparr>ck_avail := avail\<rparr>, blk_file_size := ck_file_size ci'\<rparr>"
  have load: "wt_block_checkpoint_load io mem reader ?f raw False = (?r, ?f, Inr dsk)"
    by (rule load_eq [OF reader(1) ne refl]) (simp_all only: reader(2) ci'(1) dsk(1) rd(1) tf root(3) r' not_False_eq_True)
  have alloc: "extlist_ok (ck_alloc ci')" "el_ranges (ck_alloc ci') = {}" using ci'(4) by (elim exE, simp)+
  have discard: "extlist_ok (ck_discard ci')" "el_ranges (ck_discard ci') = {}" using ci'(6) by (elim exE, simp)+
  have "lists_ok ?r" "alloc_of ?r = {}" "discard_of ?r = {}" "ckpt_avail_of ?r = {}"
    using alloc discard rd(2) by (simp_all add: lists_ok_def ci'(3))
  then have "held_ok ?r (dom held)"
    by (rule held_ok_reader [OF io_invD(1) [OF inv]]) (simp_all add: rd(3) S(4) r'(4))
  then have "io_inv io checksum ?r ?f held" using io_invD(3) [OF inv] reader(3) by (intro io_invI) simp_all
  then show ?thesis using load dsk(2) rd(3) alloc(2) by (intro exI [of _ ?r] exI [of _ dsk]) simp
qed

end
