(* ===== verification/Wt_Recovery.thy ===== *)
theory Wt_Recovery
  imports Wt_Ckpt
begin

text \<open>
  The checkpoint as a whole (\<open>src/src/block/block_ckpt.c\<close>): what \<open>__wt_block_checkpoint\<close> leaves in the
  file, that \<open>__wt_block_checkpoint_load\<close> recovers it, that a checkpoint completes when the system
  calls do, and what \<open>__wt_block_checkpoint_resolve\<close> makes available.
\<close>

section \<open>A whole checkpoint\<close>





lemma extlist_cleared [simp]:
  "el_ranges (wt_block_extlist_init (wt_block_extlist_free el) a b) = {}" "extlist_ok (wt_block_extlist_init (wt_block_extlist_free el) a b)"
  by (simp_all add: wt_block_extlist_init_def wt_block_extlist_free_def extlist_zero_def extlist_ok_def idx_ok_def depths_ok_def
      el_ranges_def sz_ok_def separated_def skip_sorted_iff Let_def)





section \<open>Success\<close>








section \<open>The root page\<close>

















text \<open>
  C16: resolving a checkpoint adds the blocks that deleted checkpoints gave up to the available
  list, and nothing else changes: it always succeeds, the lists stay well formed and disjoint, and
  the list of blocks to be made available is empty afterwards.
\<close>

theorem checkpoint_resolve_spec:
  assumes "block_ok block"
  shows "\<exists>block'. wt_block_checkpoint_resolve block = (block', Inr ()) \<and> block_ok block' \<and>
    avail_of block' = avail_of block \<union> ckpt_avail_of block \<and> ckpt_avail_of block' = {} \<and>
    alloc_of block' = alloc_of block \<and> discard_of block' = discard_of block \<and> blk_file_size block' = blk_file_size block"
proof -
  let ?a = "ck_avail (blk_live block)" and ?c = "ck_ckpt_avail (blk_live block)"
  note B = block_okD [OF assms]
  have "fresh_ranges (el_ranges ?a) (map ext_pair (el_off ?c))" using fresh_ranges_extlist [OF B(4)] B(7) by blast
  then obtain s where s: "add_all merge_range (map ext_pair (el_off ?c)) (?a, blk_rng block) = Inr s" "extlist_ok (fst s)"
      "el_ranges (fst s) = avail_of block \<union> ckpt_avail_of block"
    using extents.add_all_fresh [of "(?a, blk_rng block)" "map ext_pair (el_off ?c)"] B(1) extlist_pairs [OF B(4)] by auto
  then have "wt_block_extlist_merge (blk_rng block) ?c ?a = Inr s" by (simp add: extlist_merge_facts)
  then have r: "wt_block_checkpoint_resolve block =
      (block\<lparr>blk_live := (blk_live block)\<lparr>ck_avail := fst s, ck_ckpt_avail := wt_block_extlist_free ?c\<rparr>, blk_rng := snd s\<rparr>, Inr ())"
    by (simp add: wt_block_checkpoint_resolve_def Let_def split: prod.split)
  have f: "extlist_ok (wt_block_extlist_free ?c)" "el_ranges (wt_block_extlist_free ?c) = {}"
    by (simp_all add: wt_block_extlist_free_def extlist_zero_def extlist_ok_def idx_ok_def depths_ok_def
        el_ranges_def sz_ok_def separated_def skip_sorted_iff)
  have "(avail_of block \<union> ckpt_avail_of block) \<inter> X = {}" if "avail_of block \<inter> X = {}" "X \<inter> ckpt_avail_of block = {}" for X
    using that by blast
  then show ?thesis unfolding r using B f s(2,3) by (simp add: block_ok_def lists_ok_def Int_commute)
qed

theorem checkpoint_resolve_spec_witness:
  "\<exists>block'. wt_block_checkpoint_resolve (sample_block\<lparr>blk_live := ckpt_zero\<lparr>ck_ckpt_avail := sample_extlist\<rparr>\<rparr>) = (block', Inr ()) \<and>
     avail_of block' = {512 ..< 1536} \<union> {4096 ..< 4608} \<and> ckpt_avail_of block' = {}"
proof -
  let ?b = "sample_block\<lparr>blk_live := ckpt_zero\<lparr>ck_ckpt_avail := sample_extlist\<rparr>\<rparr>"
  have "block_ok ?b" using sample_extlist_ok extlist_zero_ok
    by (simp add: sample_block_def ckpt_zero_def block_ok_def lists_ok_def sample_extlist_ranges
      extlist_zero_ranges WT_BLOCK_DESC_SECTOR_def INT64_MAX_def)
  from checkpoint_resolve_spec [OF this] show ?thesis
    by (simp add: sample_block_def ckpt_zero_def extlist_zero_ranges sample_extlist_ranges) blast
qed

end
