(* ===== verification/Wt_Txn.thy ===== *)
theory Wt_Txn
  imports Wt_Prelude
begin

text \<open>
  Transactions (\<open>src/src/txn/txn.c\<close>, \<open>src/src/include/txn.h\<close>, \<open>src/src/include/txn.i\<close>): the
  32-bit transaction IDs and their wrapping order, the global table of running transactions,
  snapshots and visibility, begin, commit and rollback. A session is named by its index in
  the table. Updates and page references are cells of a store, so that the array of
  modified IDs of a transaction is a list of addresses into it. Here each operation is one
  step; its retry loops, which wait for the current ID to be stable, then run once. The
  theory \<open>Wt_Txn_Conc\<close> splits the operations into the accesses to shared memory.
\<close>

section \<open>Transaction IDs\<close>

type_synonym txnid = u32

definition WT_TXN_NONE :: txnid where "WT_TXN_NONE = 0"
definition WT_TXN_ABORTED :: txnid where "WT_TXN_ABORTED = 0xFFFFFFFF"

definition TXNID_LE :: "txnid \<Rightarrow> txnid \<Rightarrow> bool" where
  "TXNID_LE t1 t2 =
     (if t1 = WT_TXN_ABORTED \<or> t2 = WT_TXN_NONE then False
      else if t1 = WT_TXN_NONE \<or> t2 = WT_TXN_ABORTED then True
      else t2 - t1 < 0xFFFFFFFF div 2)"

definition TXNID_LT :: "txnid \<Rightarrow> txnid \<Rightarrow> bool" where
  "TXNID_LT t1 t2 \<longleftrightarrow> t1 \<noteq> t2 \<and> TXNID_LE t1 t2"

definition wt_txnid_cmp :: "txnid \<Rightarrow> txnid \<Rightarrow> int" where
  "wt_txnid_cmp id1 id2 = (if id1 = id2 then 0 else if TXNID_LT id1 id2 then - 1 else 1)"

text \<open>
  The C library's \<open>qsort\<close> with \<open>__wt_txnid_cmp\<close>: an insertion sort. For IDs that the comparison
  orders totally the sorted array does not depend on the algorithm.
\<close>

fun txnid_insert :: "txnid \<Rightarrow> txnid list \<Rightarrow> txnid list" where
  "txnid_insert x [] = [x]"
| "txnid_insert x (y # ys) = (if wt_txnid_cmp x y \<le> 0 then x # y # ys else y # txnid_insert x ys)"

definition txnid_sort :: "txnid list \<Rightarrow> txnid list" where
  "txnid_sort xs = foldr txnid_insert xs []"

text \<open>The C library's \<open>bsearch\<close> with \<open>__wt_txnid_cmp\<close>, on the elements from \<open>lo\<close> up to \<open>hi\<close>.\<close>

function txnid_bsearch :: "txnid \<Rightarrow> txnid list \<Rightarrow> nat \<Rightarrow> nat \<Rightarrow> bool" where
  "txnid_bsearch key xs lo hi =
     (if lo < hi then
        (let mid = (lo + hi) div 2; c = wt_txnid_cmp key (xs ! mid)
         in if c = 0 then True
            else if c < 0 then txnid_bsearch key xs lo mid
            else txnid_bsearch key xs (Suc mid) hi)
      else False)"
  by pat_completeness auto
termination
  by (relation "measure (\<lambda>(key, xs, lo, hi). hi - lo)") auto

declare txnid_bsearch.simps [simp del]

section \<open>State\<close>

datatype txn_isolation = TXN_ISO_READ_UNCOMMITTED | TXN_ISO_READ_COMMITTED | TXN_ISO_SNAPSHOT

record txn_state =
  ts_id :: txnid
  ts_snap_min :: txnid

text \<open>\<open>WT_TXN\<close>; \<open>snapshot\<close> holds the first \<open>snapshot_count\<close> elements of the array.\<close>

record wt_txn =
  txn_id :: txnid
  txn_iso :: txn_isolation
  snap_min :: txnid
  snap_max :: txnid
  snapshot :: "txnid list"
  oldest_snap_min :: txnid
  txn_mod :: "nat list"
  txn_modref :: "nat list"
  TXN_AUTOCOMMIT :: bool
  TXN_ERROR :: bool
  TXN_RUNNING :: bool

text \<open>The fields of a session that transactions use; \<open>at_metafile\<close> is \<open>session->btree == session->metafile\<close>.\<close>

record wt_session =
  s_txn :: wt_txn
  s_isolation :: txn_isolation
  s_ncursors :: nat
  at_metafile :: bool

datatype ref_state = WT_REF_DISK | WT_REF_DELETED | WT_REF_EVICT_WALK | WT_REF_LOCKED | WT_REF_MEM | WT_REF_READING

text \<open>A page reference: its state, the transaction that deleted it, and the update chains of its rows.\<close>

record wt_ref =
  ref_state :: ref_state
  ref_txnid :: txnid
  ref_rows :: "nat list list"

text \<open>The connection: the global transaction table, the sessions, and the store of updates and references.\<close>

record wt_conn =
  conn_transactional :: bool
  txn_current :: txnid
  txn_states :: "txn_state list"
  session_cnt :: nat
  sessions :: "wt_session list"
  upd_store :: "nat \<Rightarrow> txnid"
  ref_store :: "nat \<Rightarrow> wt_ref"

abbreviation txn_of :: "wt_conn \<Rightarrow> nat \<Rightarrow> wt_txn" where
  "txn_of conn i \<equiv> s_txn (sessions conn ! i)"

definition set_txn :: "nat \<Rightarrow> (wt_txn \<Rightarrow> wt_txn) \<Rightarrow> wt_conn \<Rightarrow> wt_conn" where
  "set_txn i f conn =
     conn\<lparr>sessions := (sessions conn)[i := (sessions conn ! i)\<lparr>s_txn := f (txn_of conn i)\<rparr>]\<rparr>"

definition set_state :: "nat \<Rightarrow> (txn_state \<Rightarrow> txn_state) \<Rightarrow> wt_conn \<Rightarrow> wt_conn" where
  "set_state i f conn = conn\<lparr>txn_states := (txn_states conn)[i := f (txn_states conn ! i)]\<rparr>"

section \<open>Snapshots\<close>

definition txn_sort_snapshot :: "txnid list \<Rightarrow> txnid \<Rightarrow> txnid \<Rightarrow> wt_txn \<Rightarrow> wt_txn" where
  "txn_sort_snapshot ids i oldest txn =
     (let snap = (if 1 < length ids then txnid_sort ids else ids);
          smin = (if ids = [] then i else snap ! 0)
      in txn\<lparr>snapshot := snap, snap_min := smin, snap_max := i,
             oldest_snap_min := (if TXNID_LT oldest smin then oldest else smin)\<rparr>)"

definition wt_txn_release_snapshot :: "nat \<Rightarrow> wt_conn \<Rightarrow> wt_conn" where
  "wt_txn_release_snapshot i conn =
     set_state i (\<lambda>s. s\<lparr>ts_snap_min := WT_TXN_NONE\<rparr>) (set_txn i (\<lambda>t. t\<lparr>snapshot := []\<rparr>) conn)"

text \<open>The smallest published \<open>snap_min\<close> of some table entries, from \<open>start\<close> down.\<close>

fun oldest_of :: "txn_state list \<Rightarrow> txnid \<Rightarrow> txnid" where
  "oldest_of [] start = start"
| "oldest_of (s # ss) start =
     oldest_of ss (if ts_snap_min s \<noteq> WT_TXN_NONE \<and> TXNID_LT (ts_snap_min s) start
                   then ts_snap_min s else start)"

definition wt_txn_get_oldest :: "nat \<Rightarrow> wt_conn \<Rightarrow> wt_conn" where
  "wt_txn_get_oldest i conn =
     set_txn i (\<lambda>t. t\<lparr>oldest_snap_min :=
       oldest_of (take (session_cnt conn) (txn_states conn))
         (if txn_id t \<noteq> WT_TXN_NONE then txn_id t else txn_current conn)\<rparr>) conn"

definition other_states :: "nat \<Rightarrow> wt_conn \<Rightarrow> txn_state list" where
  "other_states i conn =
     (let ss = take (session_cnt conn) (txn_states conn) in take i ss @ drop (Suc i) ss)"

definition wt_txn_get_snapshot :: "nat \<Rightarrow> txnid \<Rightarrow> txnid \<Rightarrow> wt_conn \<Rightarrow> wt_conn" where
  "wt_txn_get_snapshot i my_id max_id conn =
     (let current_id = txn_current conn;
          others = other_states i conn;
          oldest = oldest_of others current_id;
          ids = filter (\<lambda>x. x \<noteq> WT_TXN_NONE \<and> (max_id = WT_TXN_NONE \<or> TXNID_LT x max_id))
                  (map ts_id others);
          conn = set_txn i (txn_sort_snapshot ids
                   (if max_id \<noteq> WT_TXN_NONE then max_id else current_id) oldest) conn;
          smin = snap_min (txn_of conn i)
      in set_state i (\<lambda>s. s\<lparr>ts_snap_min :=
           (if my_id = WT_TXN_NONE \<or> TXNID_LT smin my_id then smin else my_id)\<rparr>) conn)"

definition wt_txn_get_evict_snapshot :: "nat \<Rightarrow> wt_conn \<Rightarrow> wt_conn" where
  "wt_txn_get_evict_snapshot i conn =
     (let oldest = oldest_of (take (session_cnt conn) (txn_states conn)) (txn_current conn)
      in set_txn i (txn_sort_snapshot [] oldest oldest) conn)"

section \<open>Begin, commit, rollback\<close>

text \<open>\<open>do { id = ++current } while (id is none or aborted)\<close>\<close>

function alloc_txnid :: "txnid \<Rightarrow> txnid" where
  "alloc_txnid c =
     (let i = c + 1 in if i = WT_TXN_NONE \<or> i = WT_TXN_ABORTED then alloc_txnid i else i)"
  by pat_completeness auto
termination
  by (relation "measure (\<lambda>c. if c = - 2 then 2 else if c = - 1 then 1 else 0 :: nat)")
    (auto simp: WT_TXN_NONE_def WT_TXN_ABORTED_def add_eq_0_iff2 split: if_splits)

declare alloc_txnid.simps [simp del]

text \<open>\<open>isolation_cfg\<close> is the value of the \<open>isolation\<close> configuration string, empty if not given.\<close>

definition txn_begin_isolation :: "string \<Rightarrow> txn_isolation \<Rightarrow> txn_isolation" where
  "txn_begin_isolation isolation_cfg dflt =
     (if isolation_cfg = '''' then dflt
      else if isolation_cfg = ''snapshot'' then TXN_ISO_SNAPSHOT
      else if isolation_cfg = ''read-committed'' then TXN_ISO_READ_COMMITTED
      else TXN_ISO_READ_UNCOMMITTED)"

definition wt_txn_begin :: "nat \<Rightarrow> string \<Rightarrow> wt_conn \<Rightarrow> wt_conn" where
  "wt_txn_begin i isolation_cfg conn =
     (let iso = txn_begin_isolation isolation_cfg (s_isolation (sessions conn ! i));
          new_id = alloc_txnid (txn_current conn);
          conn = set_txn i (\<lambda>t. t\<lparr>txn_iso := iso, TXN_RUNNING := True, txn_id := new_id\<rparr>)
                   (conn\<lparr>txn_current := new_id\<rparr>);
          conn = set_state i (\<lambda>s. s\<lparr>ts_id := new_id\<rparr>) conn
      in if iso = TXN_ISO_SNAPSHOT then
           (let ss = take (session_cnt conn) (txn_states conn);
                oldest = oldest_of ss new_id;
                ids = filter (\<lambda>x. x \<noteq> WT_TXN_NONE) (map ts_id ss);
                conn = set_txn i (txn_sort_snapshot ids new_id oldest) conn
            in set_state i (\<lambda>s. s\<lparr>ts_snap_min := snap_min (txn_of conn i)\<rparr>) conn)
         else conn)"

definition wt_txn_release :: "nat \<Rightarrow> wt_conn \<Rightarrow> wt_conn" where
  "wt_txn_release i conn =
     (let conn = set_txn i (\<lambda>t. t\<lparr>txn_mod := [], txn_modref := []\<rparr>) conn;
          conn = set_state i (\<lambda>s. s\<lparr>ts_id := WT_TXN_NONE\<rparr>) conn;
          conn = set_txn i (\<lambda>t. t\<lparr>txn_id := WT_TXN_NONE\<rparr>) conn;
          conn = (if s_ncursors (sessions conn ! i) = 0 then wt_txn_release_snapshot i conn else conn)
      in set_txn i (\<lambda>t. t\<lparr>txn_iso := s_isolation (sessions conn ! i),
           TXN_ERROR := False, TXN_RUNNING := False\<rparr>) conn)"

definition wt_txn_commit :: "nat \<Rightarrow> wt_conn \<Rightarrow> wt_conn result" where
  "wt_txn_commit i conn =
     (if \<not> TXN_RUNNING (txn_of conn i) then Inl EINVAL
      else
        (let conn = (if 0 < s_ncursors (sessions conn ! i)
                     then wt_txn_get_snapshot i (txn_id (txn_of conn i)) WT_TXN_NONE conn else conn)
         in Inr (wt_txn_release i conn)))"

text \<open>
  \<open>__wt_tree_walk_delete_rollback\<close>. The wait for a page that is being read in ends with the page
  in memory, so any state but deleted is handled as in memory.
\<close>

definition wt_tree_walk_delete_rollback :: "nat \<Rightarrow> wt_conn \<Rightarrow> wt_conn" where
  "wt_tree_walk_delete_rollback r conn =
     (let ref = ref_store conn r in
      if ref_state ref = WT_REF_DELETED
      then conn\<lparr>ref_store := (ref_store conn)(r := ref\<lparr>ref_state := WT_REF_DISK\<rparr>)\<rparr>
      else conn\<lparr>upd_store := (\<lambda>u. if u \<in> set (concat (ref_rows ref)) \<and> upd_store conn u = ref_txnid ref
                                  then WT_TXN_ABORTED else upd_store conn u)\<rparr>)"

definition wt_txn_rollback :: "nat \<Rightarrow> wt_conn \<Rightarrow> wt_conn result" where
  "wt_txn_rollback i conn =
     (let txn = txn_of conn i in
      if \<not> TXN_RUNNING txn then Inl EINVAL
      else
        (let conn = fold (\<lambda>m c. c\<lparr>upd_store := (upd_store c)(m := WT_TXN_ABORTED)\<rparr>) (txn_mod txn) conn;
             conn = fold wt_tree_walk_delete_rollback (txn_modref txn) conn
         in Inr (wt_txn_release i conn)))"

section \<open>Modification\<close>

definition wt_txn_modify :: "nat \<Rightarrow> nat \<Rightarrow> wt_conn \<Rightarrow> wt_conn" where
  "wt_txn_modify i u conn =
     (if \<not> conn_transactional conn then conn
      else (set_txn i (\<lambda>t. t\<lparr>txn_mod := txn_mod t @ [u]\<rparr>) conn)
             \<lparr>upd_store := (upd_store conn)(u := txn_id (txn_of conn i))\<rparr>)"

definition wt_txn_modify_ref :: "nat \<Rightarrow> nat \<Rightarrow> wt_conn \<Rightarrow> wt_conn" where
  "wt_txn_modify_ref i r conn =
     (if \<not> conn_transactional conn then conn
      else (set_txn i (\<lambda>t. t\<lparr>txn_modref := txn_modref t @ [r]\<rparr>) conn)
             \<lparr>ref_store := (ref_store conn)
               (r := (ref_store conn r)\<lparr>ref_txnid := txn_id (txn_of conn i)\<rparr>)\<rparr>)"

definition wt_txn_unmodify :: "nat \<Rightarrow> wt_conn \<Rightarrow> wt_conn" where
  "wt_txn_unmodify i conn =
     (if \<not> conn_transactional conn then conn
      else if TXN_RUNNING (txn_of conn i)
      then set_txn i (\<lambda>t. t\<lparr>txn_mod := butlast (txn_mod t)\<rparr>) conn else conn)"

section \<open>Visibility\<close>

definition wt_txn_visible :: "wt_session \<Rightarrow> txnid \<Rightarrow> bool" where
  "wt_txn_visible session i =
     (let txn = s_txn session in
      if i = WT_TXN_ABORTED then False
      else if i = WT_TXN_NONE then True
      else if i = txn_id txn then True
      else if txn_iso txn = TXN_ISO_READ_UNCOMMITTED \<or> at_metafile session then True
      else if TXNID_LT (snap_max txn) i then False
      else if snapshot txn = [] \<or> TXNID_LT i (snap_min txn) then True
      else \<not> txnid_bsearch i (snapshot txn) 0 (length (snapshot txn)))"

definition wt_txn_visible_all :: "wt_session \<Rightarrow> txnid \<Rightarrow> bool" where
  "wt_txn_visible_all session i = TXNID_LT i (oldest_snap_min (s_txn session))"

text \<open>Update chains are lists of the IDs of their updates, newest first.\<close>

fun wt_txn_read_skip :: "wt_session \<Rightarrow> txnid list \<Rightarrow> bool \<Rightarrow> txnid list \<times> bool" where
  "wt_txn_read_skip session [] skip = ([], skip)"
| "wt_txn_read_skip session (u # us) skip =
     (if \<not> wt_txn_visible session u
      then wt_txn_read_skip session us (skip \<or> u \<noteq> WT_TXN_ABORTED)
      else (u # us, skip))"

fun wt_txn_read :: "wt_session \<Rightarrow> txnid list \<Rightarrow> txnid list" where
  "wt_txn_read session [] = []"
| "wt_txn_read session (u # us) =
     (if \<not> wt_txn_visible session u then wt_txn_read session us else u # us)"

fun update_check_loop :: "wt_session \<Rightarrow> txnid list \<Rightarrow> unit result" where
  "update_check_loop session [] = Inr ()"
| "update_check_loop session (u # us) =
     (if \<not> wt_txn_visible session u
      then if u \<noteq> WT_TXN_ABORTED then Inl WT_DEADLOCK else update_check_loop session us
      else Inr ())"

definition wt_txn_update_check :: "wt_session \<Rightarrow> txnid list \<Rightarrow> unit result" where
  "wt_txn_update_check session us =
     (if txn_iso (s_txn session) = TXN_ISO_SNAPSHOT then update_check_loop session us else Inr ())"

definition TXN_WRAP_BUFFER :: u32 where "TXN_WRAP_BUFFER = 1000000"
definition TXN_WINDOW :: u32 where "TXN_WINDOW = 0xFFFFFFFF div 2 - TXN_WRAP_BUFFER"

definition wt_txn_ancient :: "wt_conn \<Rightarrow> txnid \<Rightarrow> bool" where
  "wt_txn_ancient conn i \<longleftrightarrow> i \<noteq> WT_TXN_NONE \<and> TXNID_LT i (txn_current conn - TXN_WINDOW)"

definition wt_txn_autocommit_check :: "nat \<Rightarrow> wt_conn \<Rightarrow> wt_conn" where
  "wt_txn_autocommit_check i conn =
     (if TXN_AUTOCOMMIT (txn_of conn i)
      then wt_txn_begin i '''' (set_txn i (\<lambda>t. t\<lparr>TXN_AUTOCOMMIT := False\<rparr>) conn)
      else conn)"

definition wt_txn_read_first :: "nat \<Rightarrow> wt_conn \<Rightarrow> wt_conn" where
  "wt_txn_read_first i conn =
     (let txn = txn_of conn i in
      if txn_iso txn = TXN_ISO_READ_COMMITTED \<or> (\<not> TXN_RUNNING txn \<and> txn_iso txn = TXN_ISO_SNAPSHOT)
      then wt_txn_get_snapshot i WT_TXN_NONE WT_TXN_NONE conn
      else if \<not> TXN_RUNNING txn
      then set_state i (\<lambda>s. s\<lparr>ts_snap_min := txn_current conn\<rparr>) conn
      else conn)"

definition wt_txn_read_last :: "nat \<Rightarrow> wt_conn \<Rightarrow> wt_conn" where
  "wt_txn_read_last i conn =
     (let txn = txn_of conn i in
      if txn_iso txn = TXN_ISO_READ_COMMITTED \<or> (\<not> TXN_RUNNING txn \<and> txn_iso txn = TXN_ISO_SNAPSHOT)
      then wt_txn_release_snapshot i conn
      else if \<not> TXN_RUNNING txn
      then set_state i (\<lambda>s. s\<lparr>ts_snap_min := WT_TXN_NONE\<rparr>) conn
      else conn)"

section \<open>Initialisation\<close>

definition txn_zero :: wt_txn where
  "txn_zero = \<lparr>txn_id = 0, txn_iso = TXN_ISO_READ_UNCOMMITTED, snap_min = 0, snap_max = 0,
     snapshot = [], oldest_snap_min = 0, txn_mod = [], txn_modref = [],
     TXN_AUTOCOMMIT = False, TXN_ERROR = False, TXN_RUNNING = False\<rparr>"


definition wt_txn_global_init :: "nat \<Rightarrow> wt_conn \<Rightarrow> wt_conn" where
  "wt_txn_global_init session_size conn =
     conn\<lparr>txn_current := 1,
       txn_states := replicate session_size \<lparr>ts_id = WT_TXN_NONE, ts_snap_min = WT_TXN_NONE\<rparr>\<rparr>"

section \<open>The order of IDs in a window\<close>

text \<open>
  The age of an ID relative to the oldest ID of a window, and windows of fewer than \<open>2 ^ 31 - 1\<close>
  consecutive IDs, possibly wrapping around.
\<close>

definition age :: "txnid \<Rightarrow> txnid \<Rightarrow> nat" where
  "age base i = unat (i - base)"

definition real_id :: "txnid \<Rightarrow> bool" where
  "real_id i \<longleftrightarrow> i \<noteq> WT_TXN_NONE \<and> i \<noteq> WT_TXN_ABORTED"

definition in_window :: "txnid \<Rightarrow> txnid \<Rightarrow> bool" where
  "in_window base i \<longleftrightarrow> real_id i \<and> age base i < 2 ^ 31 - 1"

lemma age_eq_iff: "age base i = age base j \<longleftrightarrow> i = j"
  unfolding age_def word_unat_eq_iff [symmetric] by simp

lemma TXNID_LE_window:
  assumes "in_window base i" "in_window base j"
  shows "TXNID_LE i j \<longleftrightarrow> age base i \<le> age base j"
proof -
  have d: "j - i = (j - base) - (i - base)" by simp
  have "unat (j - i) = (if age base i \<le> age base j then age base j - age base i
      else age base j + 2 ^ 32 - age base i)"
    unfolding d unat_sub_if_size age_def by (simp add: word_size)
  then show ?thesis
    using assms by (auto simp: TXNID_LE_def in_window_def real_id_def word_less_iff_unat)
qed

lemma TXNID_LT_window:
  assumes "in_window base i" "in_window base j"
  shows "TXNID_LT i j \<longleftrightarrow> age base i < age base j"
  unfolding TXNID_LT_def TXNID_LE_window [OF assms] using age_eq_iff [of base i j] by auto

lemma wt_txnid_cmp_window:
  assumes "in_window base i" "in_window base j"
  shows "wt_txnid_cmp i j = (if age base i < age base j then - 1 else if age base i = age base j then 0 else 1)"
  unfolding wt_txnid_cmp_def TXNID_LT_window [OF assms] age_eq_iff by auto

lemma set_txnid_insert [simp]: "set (txnid_insert x ys) = insert x (set ys)"
  by (induction ys) auto

lemma set_txnid_sort [simp]: "set (txnid_sort xs) = set xs"
  by (induction xs) (simp_all add: txnid_sort_def)

lemma length_txnid_sort [simp]: "length (txnid_sort xs) = length xs"
proof (induction xs)
  case (Cons x xs)
  have "length (txnid_insert x ys) = Suc (length ys)" for ys by (induction ys) auto
  then show ?case using Cons by (simp add: txnid_sort_def)
qed (simp add: txnid_sort_def)

lemma txnid_insert_sorted:
  assumes "\<forall>y\<in>set (x # ys). in_window base y" "sorted (map (age base) ys)"
  shows "sorted (map (age base) (txnid_insert x ys))"
  using assms
proof (induction ys)
  case (Cons y ys)
  have "wt_txnid_cmp x y \<le> 0 \<longleftrightarrow> age base x \<le> age base y"
    using Cons.prems(1) by (simp add: wt_txnid_cmp_window [of base])
  then show ?case using Cons by auto
qed simp

lemma txnid_sort_sorted:
  "\<forall>y\<in>set xs. in_window base y \<Longrightarrow> sorted (map (age base) (txnid_sort xs))"
proof (induction xs)
  case (Cons x xs)
  have "txnid_sort (x # xs) = txnid_insert x (txnid_sort xs)" by (simp add: txnid_sort_def)
  then show ?case using Cons txnid_insert_sorted [of x "txnid_sort xs" base] by simp
qed (simp add: txnid_sort_def)

lemma txnid_bsearch_correct:
  assumes "in_window base key" "\<forall>y\<in>set xs. in_window base y" "sorted (map (age base) xs)" "hi \<le> length xs"
  shows "txnid_bsearch key xs lo hi \<longleftrightarrow> (\<exists>k. lo \<le> k \<and> k < hi \<and> xs ! k = key)"
  using assms(4)
proof (induction "hi - lo" arbitrary: lo hi rule: less_induct)
  case less
  show ?case
  proof (cases "lo < hi")
    case True
    define mid where "mid = (lo + hi) div 2"
    have mid: "lo \<le> mid" "mid < hi" using True by (auto simp: mid_def)
    have mono: "age base (xs ! j) \<le> age base (xs ! k)" if "j \<le> k" "k < hi" for j k
      using sorted_nth_mono [OF assms(3) that(1)] that less.prems by simp
    have "in_window base (xs ! mid)" using assms(2) mid less.prems by simp
    note cmp = wt_txnid_cmp_window [OF assms(1) this]
    have unfold: "txnid_bsearch key xs lo hi =
      (let c = wt_txnid_cmp key (xs ! mid) in if c = 0 then True
       else if c < 0 then txnid_bsearch key xs lo mid else txnid_bsearch key xs (Suc mid) hi)"
      using True by (subst txnid_bsearch.simps) (simp add: mid_def Let_def)
    consider "age base key = age base (xs ! mid)" | "age base key < age base (xs ! mid)"
      | "age base (xs ! mid) < age base key" by linarith
    then show ?thesis
    proof cases
      case 1
      then have "xs ! mid = key" "wt_txnid_cmp key (xs ! mid) = 0" using cmp by (simp_all add: age_eq_iff)
      then show ?thesis using mid by (auto simp: unfold)
    next
      case 2
      have "k < mid" if "k < hi" "xs ! k = key" for k
        using 2 mono [of mid k] that by (meson leD leI)
      then have iff: "(\<exists>k. lo \<le> k \<and> k < mid \<and> xs ! k = key) \<longleftrightarrow> (\<exists>k. lo \<le> k \<and> k < hi \<and> xs ! k = key)"
        using mid(2) by (metis order.strict_trans)
      have "mid - lo < hi - lo" "mid \<le> length xs" using mid less.prems by auto
      note less.hyps [OF this]
      moreover have "wt_txnid_cmp key (xs ! mid) = - 1" using 2 cmp by simp
      ultimately show ?thesis unfolding unfold iff by simp
    next
      case 3
      have "Suc mid \<le> k" if "xs ! k = key" for k
        using 3 mono [of k mid] that mid(2) by (metis leD not_less_eq_eq)
      then have iff: "(\<exists>k. Suc mid \<le> k \<and> k < hi \<and> xs ! k = key) \<longleftrightarrow> (\<exists>k. lo \<le> k \<and> k < hi \<and> xs ! k = key)"
        using mid(1) by (metis Suc_leD order.trans)
      have "hi - Suc mid < hi - lo" "hi \<le> length xs" using mid less.prems by auto
      note less.hyps [OF this]
      moreover have "wt_txnid_cmp key (xs ! mid) = 1" using 3 cmp by simp
      ultimately show ?thesis unfolding unfold iff by simp
    qed
  next
    case False
    then show ?thesis by (simp add: txnid_bsearch.simps)
  qed
qed

lemma txnid_bsearch_member:
  assumes "in_window base key" "\<forall>y\<in>set xs. in_window base y" "sorted (map (age base) xs)"
  shows "txnid_bsearch key xs 0 (length xs) \<longleftrightarrow> key \<in> set xs"
  using txnid_bsearch_correct [OF assms order.refl, of 0] by (auto simp: in_set_conv_nth)

section \<open>What a snapshot shows\<close>

lemma sort_snapshot_facts:
  fixes txn :: wt_txn and oldest :: txnid
  assumes "\<forall>y\<in>set ids. in_window base y" "in_window base i"
  defines "txn' \<equiv> txn_sort_snapshot ids i oldest txn"
  shows "set (snapshot txn') = set ids" "sorted (map (age base) (snapshot txn'))" "snap_max txn' = i"
    and "snapshot txn' = [] \<longleftrightarrow> ids = []" "in_window base (snap_min txn')"
    and "\<And>y. y \<in> set ids \<Longrightarrow> age base (snap_min txn') \<le> age base y"
proof -
  show s: "set (snapshot txn') = set ids" by (simp add: txn'_def txn_sort_snapshot_def Let_def)
  show "snap_max txn' = i" by (simp add: txn'_def txn_sort_snapshot_def Let_def)
  show nil: "snapshot txn' = [] \<longleftrightarrow> ids = []" using s by (metis set_empty)
  show srt: "sorted (map (age base) (snapshot txn'))"
    using txnid_sort_sorted [OF assms(1)]
    by (cases ids; cases "tl ids") (simp_all add: txn'_def txn_sort_snapshot_def Let_def)
  have smin: "snap_min txn' = (if ids = [] then i else snapshot txn' ! 0)"
    by (simp add: txn'_def txn_sort_snapshot_def Let_def)
  show "in_window base (snap_min txn')"
    using smin assms(1,2) s nil by (metis length_greater_0_conv nth_mem)
  show "age base (snap_min txn') \<le> age base y" if "y \<in> set ids" for y
  proof -
    have "ids \<noteq> []" using that by auto
    then have "snap_min txn' = hd (snapshot txn')" using smin nil by (simp add: hd_conv_nth)
    moreover obtain z zs where "snapshot txn' = z # zs"
      using nil \<open>ids \<noteq> []\<close> by (cases "snapshot txn'") auto
    moreover have "y \<in> set (z # zs)" using that s calculation(2) by simp
    ultimately show ?thesis using srt by auto
  qed
qed

lemma visible_in_snapshot:
  assumes "\<forall>y\<in>set ids. in_window base y" "in_window base i" "in_window base x"
    and "s_txn session = txn_sort_snapshot ids i oldest txn"
    and "txn_iso (s_txn session) \<noteq> TXN_ISO_READ_UNCOMMITTED" "\<not> at_metafile session"
  shows "wt_txn_visible session x \<longleftrightarrow>
    x = txn_id (s_txn session) \<or> (age base x \<le> age base i \<and> x \<notin> set ids)"
proof -
  let ?t = "s_txn session"
  note f = sort_snapshot_facts [OF assms(1,2), where oldest = oldest and txn = txn, folded assms(4)]
  have x: "x \<noteq> WT_TXN_ABORTED" "x \<noteq> WT_TXN_NONE" using assms(3) by (simp_all add: in_window_def real_id_def)
  have lt: "TXNID_LT (snap_max ?t) x \<longleftrightarrow> age base i < age base x"
    using TXNID_LT_window [OF assms(2,3)] f(3) by simp
  have min: "x \<notin> set ids" if "TXNID_LT x (snap_min ?t)"
    using that f(6) [of x] TXNID_LT_window [OF assms(3) f(5)] by auto
  have "txnid_bsearch x (snapshot ?t) 0 (length (snapshot ?t)) \<longleftrightarrow> x \<in> set ids"
    using txnid_bsearch_member [OF assms(3) _ f(2)] assms(1) f(1) by simp
  then show ?thesis
    using x lt min f(4) assms(5,6) by (auto simp: wt_txn_visible_def Let_def)
qed

section \<open>Allocated IDs\<close>

lemma age_Suc:
  assumes "age base c < 2 ^ 32 - 1"
  shows "age base (c + 1) = Suc (age base c)"
proof -
  have "unat (x + 1) = Suc (unat x)" if "unat x < 2 ^ 32 - 1" for x :: txnid
    using that by (simp add: unat_word_ariths)
  from this [of "c - base"] show ?thesis using assms by (simp add: age_def add_diff_eq diff_add_eq)
qed

lemma real_id_iff: "real_id i \<longleftrightarrow> i \<noteq> 0 \<and> i \<noteq> - 1"
proof -
  have eq: "(0xFFFFFFFF :: txnid) = - 1" by simp
  show ?thesis unfolding real_id_def WT_TXN_NONE_def WT_TXN_ABORTED_def eq ..
qed

lemma alloc_txnid_step:
  "alloc_txnid c = (if real_id (c + 1) then c + 1 else if real_id (c + 2) then c + 2 else c + 3)"
proof -
  have s: "alloc_txnid c = (if real_id (c + 1) then c + 1 else alloc_txnid (c + 1))" for c
    by (subst alloc_txnid.simps) (auto simp: real_id_def Let_def)
  have three: "real_id (c + 3)" if "\<not> real_id (c + 1)" "\<not> real_id (c + 2)"
    using that by (auto simp: real_id_iff add_eq_0_iff2)
  show ?thesis
    using s [of c] s [of "c + 1"] s [of "c + 2"] three by (auto simp: add.assoc)
qed

lemma alloc_txnid_window:
  assumes "age base c + 3 < 2 ^ 31 - 1"
  shows "in_window base (alloc_txnid c)" "age base c < age base (alloc_txnid c)"
    and "in_window base x \<Longrightarrow> age base c < age base x \<Longrightarrow> age base (alloc_txnid c) \<le> age base x"
proof -
  have 1: "age base (c + 1) = age base c + 1" using assms age_Suc [of base c] by simp
  have 2: "age base (c + 2) = age base c + 2" using assms age_Suc [of base "c + 1"] 1 by (simp add: add.assoc)
  have 3: "age base (c + 3) = age base c + 3" using assms age_Suc [of base "c + 2"] 2 by (simp add: add.assoc)
  have real3: "real_id (c + 3)" if "\<not> real_id (c + 1)" "\<not> real_id (c + 2)"
    using that by (auto simp: real_id_iff add_eq_0_iff2)
  show "in_window base (alloc_txnid c)" "age base c < age base (alloc_txnid c)"
    using 1 2 3 real3 assms by (auto simp: alloc_txnid_step in_window_def)
  assume x: "in_window base x" "age base c < age base x"
  have "age base x \<noteq> age base (c + 1)" if "\<not> real_id (c + 1)"
    using that x(1) age_eq_iff [of base x "c + 1"] by (auto simp: in_window_def)
  moreover have "age base x \<noteq> age base (c + 2)" if "\<not> real_id (c + 2)"
    using that x(1) age_eq_iff [of base x "c + 2"] by (auto simp: in_window_def)
  ultimately show "age base (alloc_txnid c) \<le> age base x"
    using x(2) 1 2 3 by (auto simp: alloc_txnid_step)
qed

section \<open>Snapshot isolation\<close>

definition running :: "wt_conn \<Rightarrow> txnid set" where
  "running conn = ts_id ` set (txn_states conn) - {WT_TXN_NONE}"

definition txn_ok :: "txnid \<Rightarrow> wt_conn \<Rightarrow> bool" where
  "txn_ok base conn \<longleftrightarrow>
     length (txn_states conn) = length (sessions conn) \<and> session_cnt conn = length (sessions conn) \<and>
     in_window base (txn_current conn) \<and> age base (txn_current conn) + 3 < 2 ^ 31 - 1 \<and>
     (\<forall>x\<in>running conn. in_window base x \<and> age base x \<le> age base (txn_current conn))"

text \<open>One step of session \<open>j\<close>, and runs of the sessions other than \<open>i\<close>.\<close>

inductive txn_step :: "nat \<Rightarrow> wt_conn \<Rightarrow> wt_conn \<Rightarrow> bool" for j :: nat where
  step_begin: "txn_step j conn (wt_txn_begin j cfg conn)"
| step_commit: "wt_txn_commit j conn = Inr conn' \<Longrightarrow> txn_step j conn conn'"
| step_rollback: "wt_txn_rollback j conn = Inr conn' \<Longrightarrow> txn_step j conn conn'"
| step_modify: "txn_step j conn (wt_txn_modify j u conn)"
| step_modify_ref: "txn_step j conn (wt_txn_modify_ref j r conn)"
| step_unmodify: "txn_step j conn (wt_txn_unmodify j conn)"
| step_get_oldest: "txn_step j conn (wt_txn_get_oldest j conn)"
| step_evict_snapshot: "txn_step j conn (wt_txn_get_evict_snapshot j conn)"
| step_autocommit: "txn_step j conn (wt_txn_autocommit_check j conn)"
| step_read_first: "txn_step j conn (wt_txn_read_first j conn)"
| step_read_last: "txn_step j conn (wt_txn_read_last j conn)"

inductive others_run :: "nat \<Rightarrow> wt_conn \<Rightarrow> wt_conn \<Rightarrow> bool" for i :: nat where
  others_refl: "others_run i conn conn"
| others_step: "others_run i conn0 conn \<Longrightarrow> j \<noteq> i \<Longrightarrow> txn_step j conn conn' \<Longrightarrow> others_run i conn0 conn'"

lemma sessions_set_txn [simp]:
  "sessions (set_txn j f conn) = (sessions conn)[j := (sessions conn ! j)\<lparr>s_txn := f (txn_of conn j)\<rparr>]"
  by (simp add: set_txn_def)

lemma set_txn_frame [simp]:
  "txn_states (set_txn j f conn) = txn_states conn" "txn_current (set_txn j f conn) = txn_current conn"
  "session_cnt (set_txn j f conn) = session_cnt conn" "upd_store (set_txn j f conn) = upd_store conn"
  "ref_store (set_txn j f conn) = ref_store conn" "conn_transactional (set_txn j f conn) = conn_transactional conn"
  by (simp_all add: set_txn_def)

lemma set_state_frame [simp]:
  "txn_states (set_state j f conn) = (txn_states conn)[j := f (txn_states conn ! j)]"
  "sessions (set_state j f conn) = sessions conn" "txn_current (set_state j f conn) = txn_current conn"
  "session_cnt (set_state j f conn) = session_cnt conn" "upd_store (set_state j f conn) = upd_store conn"
  "ref_store (set_state j f conn) = ref_store conn"
  by (simp_all add: set_state_def)

lemma delete_rollback_frame [simp]:
  "sessions (wt_tree_walk_delete_rollback r conn) = sessions conn"
  "txn_states (wt_tree_walk_delete_rollback r conn) = txn_states conn"
  by (simp_all add: wt_tree_walk_delete_rollback_def Let_def)

lemma fold_rollback_frame [simp]:
  "sessions (fold wt_tree_walk_delete_rollback rs conn) = sessions conn"
  "txn_states (fold wt_tree_walk_delete_rollback rs conn) = txn_states conn"
  by (induction rs arbitrary: conn) simp_all

lemma fold_abort_frame [simp]:
  "sessions (fold (\<lambda>m c. c\<lparr>upd_store := (upd_store c)(m := WT_TXN_ABORTED)\<rparr>) ms conn) = sessions conn"
  "txn_states (fold (\<lambda>m c. c\<lparr>upd_store := (upd_store c)(m := WT_TXN_ABORTED)\<rparr>) ms conn) = txn_states conn"
  by (induction ms arbitrary: conn) simp_all

lemma txn_step_other:
  assumes "txn_step j conn conn'" "i \<noteq> j"
  shows "sessions conn' ! i = sessions conn ! i"
  using assms
proof (induction rule: txn_step.induct)
  case (step_commit conn conn')
  then show ?case
    by (auto simp: wt_txn_commit_def wt_txn_release_def wt_txn_release_snapshot_def wt_txn_get_snapshot_def
        Let_def split: if_splits)
next
  case (step_rollback conn conn')
  then show ?case
    by (auto simp: wt_txn_rollback_def wt_txn_release_def wt_txn_release_snapshot_def Let_def split: if_splits)
qed (simp_all add: wt_txn_begin_def wt_txn_modify_def wt_txn_modify_ref_def wt_txn_unmodify_def
    wt_txn_get_oldest_def wt_txn_get_evict_snapshot_def wt_txn_autocommit_check_def wt_txn_read_first_def
    wt_txn_read_last_def wt_txn_get_snapshot_def wt_txn_release_snapshot_def Let_def)

lemma others_run_session: "others_run i conn conn' \<Longrightarrow> sessions conn' ! i = sessions conn ! i"
proof (induction rule: others_run.induct)
  case (others_step conn0 conn j conn')
  then show ?case using txn_step_other [of j conn conn' i] by simp
qed simp

lemma set_update_none:
  assumes "i < length xs" "xs ! i = none" "new \<noteq> none"
  shows "set (filter (\<lambda>y. y \<noteq> none) (xs[i := new])) = insert new (set xs - {none})"
proof -
  have "xs = take i xs @ none # drop (Suc i) xs" using id_take_nth_drop [OF assms(1)] assms(2) by simp
  then have "set xs = set (take i xs) \<union> insert none (set (drop (Suc i) xs))" by (metis list.simps(15) set_append)
  then show ?thesis using assms(1,3) by (auto simp: upd_conv_take_nth_drop)
qed

lemma begin_visible:
  assumes "txn_ok base conn" "i < length (sessions conn)" "ts_id (txn_states conn ! i) = WT_TXN_NONE"
    and "txn_begin_isolation cfg (s_isolation (sessions conn ! i)) = TXN_ISO_SNAPSHOT"
    and "\<not> at_metafile (sessions conn ! i)" "in_window base x"
  shows "wt_txn_visible (sessions (wt_txn_begin i cfg conn) ! i) x \<longleftrightarrow>
    x = alloc_txnid (txn_current conn) \<or> (age base x \<le> age base (txn_current conn) \<and> x \<notin> running conn)"
proof -
  define new where "new = alloc_txnid (txn_current conn)"
  define ss where "ss = (txn_states conn)[i := (txn_states conn ! i)\<lparr>ts_id := new\<rparr>]"
  define ids where "ids = filter (\<lambda>y. y \<noteq> WT_TXN_NONE) (map ts_id ss)"
  have len: "length (txn_states conn) = length (sessions conn)" "session_cnt conn = length (sessions conn)"
    using assms(1) by (simp_all add: txn_ok_def)
  have w: "in_window base new" "age base (txn_current conn) < age base new"
    "age base (txn_current conn) < age base x \<Longrightarrow> age base new \<le> age base x"
    using alloc_txnid_window [of base "txn_current conn"] assms(1,6) by (auto simp: txn_ok_def new_def)
  have none: "new \<noteq> WT_TXN_NONE" using w(1) by (simp add: in_window_def real_id_def)
  have "map ts_id ss = (map ts_id (txn_states conn))[i := new]" by (simp add: ss_def map_update)
  then have ids: "set ids = insert new (running conn)"
    using set_update_none [OF _ _ none, of i "map ts_id (txn_states conn)"] assms(2,3) len(1)
    by (simp add: ids_def running_def)
  let ?s = "sessions (wt_txn_begin i cfg conn) ! i"
  obtain t0 oldest where t: "s_txn ?s = txn_sort_snapshot ids new oldest t0"
    and t0: "txn_iso t0 = TXN_ISO_SNAPSHOT" "txn_id t0 = new"
    using assms(2,4) len
    by (simp add: wt_txn_begin_def Let_def new_def ids_def ss_def)
  have s: "txn_iso (s_txn ?s) = TXN_ISO_SNAPSHOT" "txn_id (s_txn ?s) = new" "\<not> at_metafile ?s"
    using t t0 assms(2,4,5) by (simp_all add: txn_sort_snapshot_def Let_def wt_txn_begin_def)
  have "wt_txn_visible ?s x \<longleftrightarrow> x = new \<or> (age base x \<le> age base new \<and> x \<notin> set ids)"
    using visible_in_snapshot [OF _ w(1) assms(6) t] s assms(1) w(1) by (simp add: ids txn_ok_def)
  moreover have "age base x \<le> age base new \<and> x \<noteq> new \<longleftrightarrow> age base x \<le> age base (txn_current conn)"
    using w(2,3) age_eq_iff [of base x new] by (auto simp: not_less [symmetric])
  ultimately show ?thesis by (auto simp: ids new_def)
qed

section \<open>Reading update chains\<close>

lemma wt_txn_read_skip_invisible:
  "\<forall>v\<in>set vs. \<not> wt_txn_visible session v \<Longrightarrow> wt_txn_read session (vs @ us) = wt_txn_read session us"
  by (induction vs) auto

lemma wt_txn_read_dropWhile: "wt_txn_read session us = dropWhile (\<lambda>u. \<not> wt_txn_visible session u) us"
  by (induction us) auto

lemma update_check_loop_cases:
  "update_check_loop session us =
     (case dropWhile (\<lambda>u. u = WT_TXN_ABORTED) us of
        [] \<Rightarrow> Inr ()
      | u # _ \<Rightarrow> if wt_txn_visible session u then Inr () else Inl WT_DEADLOCK)"
  by (induction us) (auto simp: wt_txn_visible_def Let_def)

section \<open>The oldest snapshot\<close>

lemma oldest_of_least:
  assumes "in_window base start"
    and "\<forall>s\<in>set ss. ts_snap_min s \<noteq> WT_TXN_NONE \<longrightarrow> in_window base (ts_snap_min s)"
  shows "in_window base (oldest_of ss start)" "age base (oldest_of ss start) \<le> age base start"
    and "\<And>s. s \<in> set ss \<Longrightarrow> ts_snap_min s \<noteq> WT_TXN_NONE \<Longrightarrow> age base (oldest_of ss start) \<le> age base (ts_snap_min s)"
proof -
  have "in_window base (oldest_of ss start) \<and> age base (oldest_of ss start) \<le> age base start \<and>
    (\<forall>s\<in>set ss. ts_snap_min s \<noteq> WT_TXN_NONE \<longrightarrow> age base (oldest_of ss start) \<le> age base (ts_snap_min s))"
    using assms
  proof (induction ss arbitrary: start)
    case (Cons s ss)
    let ?n = "if ts_snap_min s \<noteq> WT_TXN_NONE \<and> TXNID_LT (ts_snap_min s) start then ts_snap_min s else start"
    have n: "in_window base ?n" "age base ?n \<le> age base start"
      "ts_snap_min s \<noteq> WT_TXN_NONE \<Longrightarrow> age base ?n \<le> age base (ts_snap_min s)"
      using Cons.prems TXNID_LT_window [of base "ts_snap_min s" start] by auto
    show ?case using Cons.IH [OF n(1)] Cons.prems(2) n(2,3) by fastforce
  qed simp
  then show "in_window base (oldest_of ss start)" "age base (oldest_of ss start) \<le> age base start"
    "\<And>s. s \<in> set ss \<Longrightarrow> ts_snap_min s \<noteq> WT_TXN_NONE \<Longrightarrow> age base (oldest_of ss start) \<le> age base (ts_snap_min s)"
    by auto
qed

text \<open>
  A session reads consistently with the global table: it is reading (its snapshot bounds are in
  the window and in order) and the table holds a bound that is not above its snapshot.
\<close>

definition reader_ok :: "txnid \<Rightarrow> wt_conn \<Rightarrow> nat \<Rightarrow> bool" where
  "reader_ok base conn j \<longleftrightarrow> j < length (txn_states conn) \<and>
     in_window base (snap_min (txn_of conn j)) \<and> in_window base (snap_max (txn_of conn j)) \<and>
     age base (snap_min (txn_of conn j)) \<le> age base (snap_max (txn_of conn j)) \<and>
     in_window base (ts_snap_min (txn_states conn ! j)) \<and>
     age base (ts_snap_min (txn_states conn ! j)) \<le> age base (snap_min (txn_of conn j))"

lemma visible_below_snapshot:
  assumes "in_window base x" "in_window base (snap_min (s_txn session))" "in_window base (snap_max (s_txn session))"
    and "age base (snap_min (s_txn session)) \<le> age base (snap_max (s_txn session))"
    and "age base x < age base (snap_min (s_txn session))"
  shows "wt_txn_visible session x"
  using assms TXNID_LT_window [OF assms(1,2)] TXNID_LT_window [OF assms(3,1)]
  by (auto simp: wt_txn_visible_def Let_def in_window_def real_id_def)

section \<open>Rollback\<close>




lemma release_store [simp]:
  "upd_store (wt_txn_release i conn) = upd_store conn"
  by (simp add: wt_txn_release_def wt_txn_release_snapshot_def Let_def)

section \<open>Properties of transactions\<close>

text \<open>
  C32: on IDs whose distance from the oldest one is below the 31-bit window, whether or not the
  counter has wrapped around between them, the comparison is the order in which the IDs
  were allocated.
\<close>

theorem txnid_order_window:
  assumes "in_window base i" "in_window base j"
  shows "(TXNID_LT i j \<longleftrightarrow> age base i < age base j) \<and> (TXNID_LE i j \<longleftrightarrow> age base i \<le> age base j) \<and>
    wt_txnid_cmp i j = sgn (int (age base i) - int (age base j))"
  unfolding TXNID_LT_window [OF assms] TXNID_LE_window [OF assms] wt_txnid_cmp_window [OF assms]
  by auto

theorem txnid_order_window_witness:
  "TXNID_LT 0xFFFFFFF0 5 \<and> \<not> TXNID_LT 5 0xFFFFFFF0"
  using txnid_order_window [of "0xFFFFFFF0" "0xFFFFFFF0" 5] txnid_order_window [of "0xFFFFFFF0" 5 "0xFFFFFFF0"]
  by (simp add: in_window_def real_id_def age_def WT_TXN_NONE_def WT_TXN_ABORTED_def)

text \<open>
  C4: snapshot isolation. Whatever the other sessions do after a transaction began at snapshot
  isolation (begin, commit, roll back, modify, take and release snapshots), it sees exactly
  its own changes and those of transactions that were allocated an ID before and were no
  longer running when it began; updates of other transactions put in front of a chain
  later do not change what it reads.
\<close>

theorem snapshot_isolation:
  assumes "txn_ok base conn" "i < length (sessions conn)" "ts_id (txn_states conn ! i) = WT_TXN_NONE"
    and "txn_begin_isolation cfg (s_isolation (sessions conn ! i)) = TXN_ISO_SNAPSHOT"
    and "\<not> at_metafile (sessions conn ! i)"
    and "others_run i (wt_txn_begin i cfg conn) conn'"
  shows "(\<forall>x. in_window base x \<longrightarrow>
      (wt_txn_visible (sessions conn' ! i) x \<longleftrightarrow>
        x = alloc_txnid (txn_current conn) \<or>
        (age base x \<le> age base (txn_current conn) \<and> x \<notin> running conn))) \<and>
    (\<forall>vs us. (\<forall>v\<in>set vs. in_window base v \<and> v \<noteq> alloc_txnid (txn_current conn) \<and>
        (v \<in> running conn \<or> age base (txn_current conn) < age base v)) \<longrightarrow>
      wt_txn_read (sessions conn' ! i) (vs @ us) = wt_txn_read (sessions (wt_txn_begin i cfg conn) ! i) us)"
proof -
  have same: "sessions conn' ! i = sessions (wt_txn_begin i cfg conn) ! i"
    by (rule others_run_session [OF assms(6)])
  note vis = begin_visible [OF assms(1-5)]
  show ?thesis
  proof (intro conjI allI impI)
    fix x assume "in_window base x"
    then show "wt_txn_visible (sessions conn' ! i) x \<longleftrightarrow> x = alloc_txnid (txn_current conn) \<or>
        (age base x \<le> age base (txn_current conn) \<and> x \<notin> running conn)"
      unfolding same by (rule vis)
  next
    fix vs us
    assume vs: "\<forall>v\<in>set vs. in_window base v \<and> v \<noteq> alloc_txnid (txn_current conn) \<and>
        (v \<in> running conn \<or> age base (txn_current conn) < age base v)"
    have "\<not> wt_txn_visible (sessions (wt_txn_begin i cfg conn) ! i) v" if "v \<in> set vs" for v
      using bspec [OF vs that] vis [of v] by auto
    then show "wt_txn_read (sessions conn' ! i) (vs @ us) = wt_txn_read (sessions (wt_txn_begin i cfg conn) ! i) us"
      unfolding same by (intro wt_txn_read_skip_invisible) blast
  qed
qed

definition sample_session :: wt_session where
  "sample_session = \<lparr>s_txn = txn_zero, s_isolation = TXN_ISO_SNAPSHOT, s_ncursors = 0, at_metafile = False\<rparr>"

definition sample_conn :: wt_conn where
  "sample_conn = \<lparr>conn_transactional = True, txn_current = 7,
     txn_states = [\<lparr>ts_id = 0, ts_snap_min = 0\<rparr>, \<lparr>ts_id = 5, ts_snap_min = 5\<rparr>],
     session_cnt = 2, sessions = [sample_session,
       sample_session\<lparr>s_txn := txn_zero\<lparr>txn_id := 5, txn_iso := TXN_ISO_SNAPSHOT, snapshot := [5],
         snap_min := 5, snap_max := 5, oldest_snap_min := 5, txn_mod := [0], TXN_RUNNING := True\<rparr>\<rparr>],
     upd_store = (\<lambda>u. if u = 0 then 5 else 3), ref_store = (\<lambda>r. \<lparr>ref_state = WT_REF_MEM, ref_txnid = 0, ref_rows = []\<rparr>)\<rparr>"

lemmas sample_conn_defs = sample_conn_def sample_session_def txn_zero_def

lemma sample_conn_ok: "txn_ok 1 sample_conn" "running sample_conn = {5}"
  by (simp_all add: txn_ok_def sample_conn_defs running_def in_window_def real_id_def age_def
      WT_TXN_NONE_def WT_TXN_ABORTED_def)

theorem snapshot_isolation_witness:
  "\<exists>conn'. wt_txn_commit 1 (wt_txn_begin 0 ''snapshot'' sample_conn) = Inr conn' \<and>
     \<not> wt_txn_visible (sessions conn' ! 0) 5 \<and> wt_txn_visible (sessions conn' ! 0) 6 \<and>
     wt_txn_visible (sessions conn' ! 0) 8"
proof -
  let ?c = "wt_txn_begin 0 ''snapshot'' sample_conn"
  have "TXN_RUNNING (txn_of ?c 1)"
    by (simp add: wt_txn_begin_def Let_def txn_begin_isolation_def sample_conn_defs)
  then obtain conn' where c: "wt_txn_commit 1 ?c = Inr conn'" by (simp add: wt_txn_commit_def Let_def)
  then have run: "others_run 0 ?c conn'"
    using others_step [OF others_refl _ step_commit [OF c], of 0] by simp
  have "alloc_txnid (txn_current sample_conn) = 8"
    by (simp add: alloc_txnid_step real_id_iff sample_conn_def)
  moreover have "0 < length (sessions sample_conn)" "ts_id (txn_states sample_conn ! 0) = WT_TXN_NONE"
    "txn_begin_isolation ''snapshot'' (s_isolation (sessions sample_conn ! 0)) = TXN_ISO_SNAPSHOT"
    "\<not> at_metafile (sessions sample_conn ! 0)"
    by (simp_all add: sample_conn_defs WT_TXN_NONE_def txn_begin_isolation_def)
  note snapshot_isolation [OF sample_conn_ok(1) this run, THEN conjunct1, unfolded sample_conn_ok(2)]
  ultimately show ?thesis
    using c by (simp add: in_window_def real_id_def age_def WT_TXN_NONE_def WT_TXN_ABORTED_def)
      (simp add: sample_conn_def)
qed

text \<open>
  C29: an ID that a session finds globally visible is visible to every session that reads through a
  snapshot recorded in the global table, so no reader can still need an older version.
\<close>

theorem visible_all_sound:
  assumes "in_window base (txn_current conn)" "i < length (sessions conn)"
    and "txn_id (txn_of conn i) = WT_TXN_NONE \<or> in_window base (txn_id (txn_of conn i))"
    and "session_cnt conn = length (txn_states conn)"
    and "\<forall>s\<in>set (txn_states conn). ts_snap_min s \<noteq> WT_TXN_NONE \<longrightarrow> in_window base (ts_snap_min s)"
    and "reader_ok base conn j" "in_window base x"
    and "wt_txn_visible_all (sessions (wt_txn_get_oldest i conn) ! i) x"
  shows "wt_txn_visible (sessions conn ! j) x"
proof -
  let ?start = "if txn_id (txn_of conn i) \<noteq> WT_TXN_NONE then txn_id (txn_of conn i) else txn_current conn"
  have start: "in_window base ?start" using assms(1,3) by auto
  note o = oldest_of_least [OF start assms(5)]
  have "oldest_snap_min (txn_of (wt_txn_get_oldest i conn) i) = oldest_of (txn_states conn) ?start"
    using assms(2,4) by (simp add: wt_txn_get_oldest_def)
  then have "age base x < age base (oldest_of (txn_states conn) ?start)"
    using assms(8) TXNID_LT_window [OF assms(7) o(1)] by (simp add: wt_txn_visible_all_def)
  moreover have "txn_states conn ! j \<in> set (txn_states conn)" "ts_snap_min (txn_states conn ! j) \<noteq> WT_TXN_NONE"
    using assms(6) by (auto simp: reader_ok_def in_window_def real_id_def)
  note o(3) [OF this]
  ultimately have "age base x < age base (snap_min (txn_of conn j))"
    using assms(6) by (simp add: reader_ok_def)
  then show ?thesis
    using assms(6,7) by (intro visible_below_snapshot) (auto simp: reader_ok_def)
qed

theorem visible_all_sound_witness:
  "wt_txn_visible_all (sessions (wt_txn_get_oldest 0 sample_conn) ! 0) 3 \<and> wt_txn_visible (sessions sample_conn ! 1) 3"
proof -
  have "wt_txn_visible_all (sessions (wt_txn_get_oldest 0 sample_conn) ! 0) 3"
    by (simp add: wt_txn_visible_all_def wt_txn_get_oldest_def sample_conn_defs TXNID_LT_def TXNID_LE_def
        WT_TXN_NONE_def WT_TXN_ABORTED_def)
  then show ?thesis
    using visible_all_sound [of 1 sample_conn 0 1 3]
    by (simp add: sample_conn_defs in_window_def real_id_def age_def reader_ok_def
        WT_TXN_NONE_def WT_TXN_ABORTED_def)
qed

text \<open>
  C31: at snapshot isolation an update is refused with \<open>WT_DEADLOCK\<close> exactly when the newest update
  of the chain that was not rolled back is not visible; when it is let through, what the
  transaction reads is that newest update, so no concurrent update is overwritten unseen.
\<close>

theorem update_check_no_lost_update:
  assumes "txn_iso (s_txn session) = TXN_ISO_SNAPSHOT"
  shows "wt_txn_update_check session us =
      (case dropWhile (\<lambda>u. u = WT_TXN_ABORTED) us of
         [] \<Rightarrow> Inr () | u # _ \<Rightarrow> if wt_txn_visible session u then Inr () else Inl WT_DEADLOCK) \<and>
    (wt_txn_update_check session us = Inr () \<longrightarrow>
      wt_txn_read session us = dropWhile (\<lambda>u. u = WT_TXN_ABORTED) us)"
proof -
  have "update_check_loop session us = Inr () \<longrightarrow> wt_txn_read session us = dropWhile (\<lambda>u. u = WT_TXN_ABORTED) us"
    by (induction us) (auto simp: wt_txn_visible_def Let_def)
  then show ?thesis
    using assms update_check_loop_cases [of session us] by (simp add: wt_txn_update_check_def)
qed

theorem update_check_no_lost_update_witness:
  "wt_txn_update_check (sessions sample_conn ! 1) [WT_TXN_ABORTED, 6, 3] = Inl WT_DEADLOCK \<and>
   wt_txn_update_check (sessions sample_conn ! 1) [WT_TXN_ABORTED, 3] = Inr () \<and>
   wt_txn_read (sessions sample_conn ! 1) [WT_TXN_ABORTED, 3] = [3]"
  using update_check_no_lost_update [of "sessions sample_conn ! 1" "[WT_TXN_ABORTED, 6, 3]"]
    update_check_no_lost_update [of "sessions sample_conn ! 1" "[WT_TXN_ABORTED, 3]"]
  by (simp add: sample_conn_defs wt_txn_visible_def TXNID_LT_def TXNID_LE_def WT_TXN_NONE_def WT_TXN_ABORTED_def)





end
