(* ===== verification/Wt_Txn_Conc.thy ===== *)
theory Wt_Txn_Conc
  imports Wt_Txn
begin

text \<open>
  Transaction begin and read snapshots under interleaving: \<open>__wt_txn_begin\<close> at snapshot isolation
  and \<open>__wt_txn_get_snapshot\<close> of \<open>src/src/txn/txn.c\<close>, split at every access to memory shared
  between sessions (the current ID and the table of running IDs), with their retry loops.
  Steps of different sessions interleave arbitrarily. IDs are numbered in the order they are
  allocated, which is the age of an ID in \<open>Wt_Txn\<close>: the comparison of the 32-bit IDs is the
  order of their ages. 0 stands for \<open>WT_TXN_NONE\<close>.
\<close>

section \<open>Sessions and steps\<close>












section \<open>The invariant\<close>























section \<open>Snapshot isolation under interleaving\<close>












end
