(* ===== verification/Wt_Config.thy ===== *)
theory Wt_Config
  imports Wt_Prelude
begin

text \<open>
  Configuration strings (\<open>src/src/config/config.c\<close>, \<open>config_concat.c\<close>, \<open>config_collapse.c\<close>,
  \<open>config_check.c\<close>, structures in \<open>src/src/include/config.h\<close>): the table-driven parser of lists of
  keys and values, the search for the last value of a key, and the functions built on them.

  Pointers into a string are the string and an offset. \<open>sc\<close> says whether \<open>char\<close> is signed: then a
  byte above 127 indexes the tables with a negative number, which is \<open>OUT_OF_BOUNDS\<close> here, as is
  the use of a pointer that was never set.
\<close>

section \<open>The tables\<close>

datatype config_action = A_LOOP | A_BAD | A_DOWN | A_UP | A_VALUE | A_NEXT | A_QDOWN | A_QUP
  | A_ESC | A_UNESC | A_BARE | A_NUMBARE | A_UNBARE | A_UTF8_2 | A_UTF8_3 | A_UTF8_4 | A_UTF_CONTINUE

definition gostruct :: "config_action list" where
  "gostruct = [
     A_BAD, A_BAD, A_BAD, A_BAD, A_BAD, A_BAD, A_BAD, A_BAD, A_BAD, A_LOOP, A_LOOP, A_BAD, A_BAD,
     A_LOOP, A_BAD, A_BAD, A_BAD, A_BAD, A_BAD, A_BAD, A_BAD, A_BAD, A_BAD, A_BAD, A_BAD, A_BAD,
     A_BAD, A_BAD, A_BAD, A_BAD, A_BAD, A_BAD, A_LOOP, A_BAD, A_QUP, A_BAD, A_BAD, A_BAD, A_BAD,
     A_BAD, A_UP, A_DOWN, A_BAD, A_BAD, A_NEXT, A_NUMBARE, A_BAD, A_BAD, A_NUMBARE, A_NUMBARE,
     A_NUMBARE, A_NUMBARE, A_NUMBARE, A_NUMBARE, A_NUMBARE, A_NUMBARE, A_NUMBARE, A_NUMBARE,
     A_VALUE, A_BAD, A_BAD, A_VALUE, A_BAD, A_BAD, A_BAD, A_BARE, A_BARE, A_BARE, A_BARE, A_BARE,
     A_BARE, A_BARE, A_BARE, A_BARE, A_BARE, A_BARE, A_BARE, A_BARE, A_BARE, A_BARE, A_BARE,
     A_BARE, A_BARE, A_BARE, A_BARE, A_BARE, A_BARE, A_BARE, A_BARE, A_BARE, A_BARE, A_UP, A_BAD,
     A_DOWN, A_BAD, A_BARE, A_BAD, A_BARE, A_BARE, A_BARE, A_BARE, A_BARE, A_BARE, A_BARE, A_BARE,
     A_BARE, A_BARE, A_BARE, A_BARE, A_BARE, A_BARE, A_BARE, A_BARE, A_BARE, A_BARE, A_BARE,
     A_BARE, A_BARE, A_BARE, A_BARE, A_BARE, A_BARE, A_BARE, A_UP, A_BAD, A_DOWN, A_BAD, A_BAD,
     A_BAD, A_BAD, A_BAD, A_BAD, A_BAD, A_BAD, A_BAD, A_BAD, A_BAD, A_BAD, A_BAD, A_BAD, A_BAD,
     A_BAD, A_BAD, A_BAD, A_BAD, A_BAD, A_BAD, A_BAD, A_BAD, A_BAD, A_BAD, A_BAD, A_BAD, A_BAD,
     A_BAD, A_BAD, A_BAD, A_BAD, A_BAD, A_BAD, A_BAD, A_BAD, A_BAD, A_BAD, A_BAD, A_BAD, A_BAD,
     A_BAD, A_BAD, A_BAD, A_BAD, A_BAD, A_BAD, A_BAD, A_BAD, A_BAD, A_BAD, A_BAD, A_BAD, A_BAD,
     A_BAD, A_BAD, A_BAD, A_BAD, A_BAD, A_BAD, A_BAD, A_BAD, A_BAD, A_BAD, A_BAD, A_BAD, A_BAD,
     A_BAD, A_BAD, A_BAD, A_BAD, A_BAD, A_BAD, A_BAD, A_BAD, A_BAD, A_BAD, A_BAD, A_BAD, A_BAD,
     A_BAD, A_BAD, A_BAD, A_BAD, A_BAD, A_BAD, A_BAD, A_BAD, A_BAD, A_BAD, A_BAD, A_BAD, A_BAD,
     A_BAD, A_BAD, A_BAD, A_BAD, A_BAD, A_BAD, A_BAD, A_BAD, A_BAD, A_BAD, A_BAD, A_BAD, A_BAD,
     A_BAD, A_BAD, A_BAD, A_BAD, A_BAD, A_BAD, A_BAD, A_BAD, A_BAD, A_BAD, A_BAD, A_BAD, A_BAD,
     A_BAD, A_BAD, A_BAD, A_BAD, A_BAD, A_BAD, A_BAD, A_BAD, A_BAD, A_BAD, A_BAD]"

definition gobare :: "config_action list" where
  "gobare = [
     A_BAD, A_BAD, A_BAD, A_BAD, A_BAD, A_BAD, A_BAD, A_BAD, A_BAD, A_UNBARE, A_UNBARE, A_BAD,
     A_BAD, A_UNBARE, A_BAD, A_BAD, A_BAD, A_BAD, A_BAD, A_BAD, A_BAD, A_BAD, A_BAD, A_BAD, A_BAD,
     A_BAD, A_BAD, A_BAD, A_BAD, A_BAD, A_BAD, A_BAD, A_UNBARE, A_LOOP, A_LOOP, A_LOOP, A_LOOP,
     A_LOOP, A_LOOP, A_LOOP, A_LOOP, A_UNBARE, A_LOOP, A_LOOP, A_UNBARE, A_LOOP, A_LOOP, A_LOOP,
     A_LOOP, A_LOOP, A_LOOP, A_LOOP, A_LOOP, A_LOOP, A_LOOP, A_LOOP, A_LOOP, A_LOOP, A_UNBARE,
     A_LOOP, A_LOOP, A_UNBARE, A_LOOP, A_LOOP, A_LOOP, A_LOOP, A_LOOP, A_LOOP, A_LOOP, A_LOOP,
     A_LOOP, A_LOOP, A_LOOP, A_LOOP, A_LOOP, A_LOOP, A_LOOP, A_LOOP, A_LOOP, A_LOOP, A_LOOP,
     A_LOOP, A_LOOP, A_LOOP, A_LOOP, A_LOOP, A_LOOP, A_LOOP, A_LOOP, A_LOOP, A_LOOP, A_LOOP,
     A_LOOP, A_UNBARE, A_LOOP, A_LOOP, A_LOOP, A_LOOP, A_LOOP, A_LOOP, A_LOOP, A_LOOP, A_LOOP,
     A_LOOP, A_LOOP, A_LOOP, A_LOOP, A_LOOP, A_LOOP, A_LOOP, A_LOOP, A_LOOP, A_LOOP, A_LOOP,
     A_LOOP, A_LOOP, A_LOOP, A_LOOP, A_LOOP, A_LOOP, A_LOOP, A_LOOP, A_LOOP, A_LOOP, A_LOOP,
     A_UNBARE, A_LOOP, A_BAD, A_BAD, A_BAD, A_BAD, A_BAD, A_BAD, A_BAD, A_BAD, A_BAD, A_BAD,
     A_BAD, A_BAD, A_BAD, A_BAD, A_BAD, A_BAD, A_BAD, A_BAD, A_BAD, A_BAD, A_BAD, A_BAD, A_BAD,
     A_BAD, A_BAD, A_BAD, A_BAD, A_BAD, A_BAD, A_BAD, A_BAD, A_BAD, A_BAD, A_BAD, A_BAD, A_BAD,
     A_BAD, A_BAD, A_BAD, A_BAD, A_BAD, A_BAD, A_BAD, A_BAD, A_BAD, A_BAD, A_BAD, A_BAD, A_BAD,
     A_BAD, A_BAD, A_BAD, A_BAD, A_BAD, A_BAD, A_BAD, A_BAD, A_BAD, A_BAD, A_BAD, A_BAD, A_BAD,
     A_BAD, A_BAD, A_BAD, A_BAD, A_BAD, A_BAD, A_BAD, A_BAD, A_BAD, A_BAD, A_BAD, A_BAD, A_BAD,
     A_BAD, A_BAD, A_BAD, A_BAD, A_BAD, A_BAD, A_BAD, A_BAD, A_BAD, A_BAD, A_BAD, A_BAD, A_BAD,
     A_BAD, A_BAD, A_BAD, A_BAD, A_BAD, A_BAD, A_BAD, A_BAD, A_BAD, A_BAD, A_BAD, A_BAD, A_BAD,
     A_BAD, A_BAD, A_BAD, A_BAD, A_BAD, A_BAD, A_BAD, A_BAD, A_BAD, A_BAD, A_BAD, A_BAD, A_BAD,
     A_BAD, A_BAD, A_BAD, A_BAD, A_BAD, A_BAD, A_BAD, A_BAD, A_BAD, A_BAD, A_BAD, A_BAD, A_BAD,
     A_BAD, A_BAD]"

definition gostring :: "config_action list" where
  "gostring = [
     A_BAD, A_BAD, A_BAD, A_BAD, A_BAD, A_BAD, A_BAD, A_BAD, A_BAD, A_BAD, A_BAD, A_BAD, A_BAD,
     A_BAD, A_BAD, A_BAD, A_BAD, A_BAD, A_BAD, A_BAD, A_BAD, A_BAD, A_BAD, A_BAD, A_BAD, A_BAD,
     A_BAD, A_BAD, A_BAD, A_BAD, A_BAD, A_BAD, A_LOOP, A_LOOP, A_QDOWN, A_LOOP, A_LOOP, A_LOOP,
     A_LOOP, A_LOOP, A_LOOP, A_LOOP, A_LOOP, A_LOOP, A_LOOP, A_LOOP, A_LOOP, A_LOOP, A_LOOP,
     A_LOOP, A_LOOP, A_LOOP, A_LOOP, A_LOOP, A_LOOP, A_LOOP, A_LOOP, A_LOOP, A_LOOP, A_LOOP,
     A_LOOP, A_LOOP, A_LOOP, A_LOOP, A_LOOP, A_LOOP, A_LOOP, A_LOOP, A_LOOP, A_LOOP, A_LOOP,
     A_LOOP, A_LOOP, A_LOOP, A_LOOP, A_LOOP, A_LOOP, A_LOOP, A_LOOP, A_LOOP, A_LOOP, A_LOOP,
     A_LOOP, A_LOOP, A_LOOP, A_LOOP, A_LOOP, A_LOOP, A_LOOP, A_LOOP, A_LOOP, A_LOOP, A_ESC,
     A_LOOP, A_LOOP, A_LOOP, A_LOOP, A_LOOP, A_LOOP, A_LOOP, A_LOOP, A_LOOP, A_LOOP, A_LOOP,
     A_LOOP, A_LOOP, A_LOOP, A_LOOP, A_LOOP, A_LOOP, A_LOOP, A_LOOP, A_LOOP, A_LOOP, A_LOOP,
     A_LOOP, A_LOOP, A_LOOP, A_LOOP, A_LOOP, A_LOOP, A_LOOP, A_LOOP, A_LOOP, A_LOOP, A_LOOP,
     A_LOOP, A_BAD, A_BAD, A_BAD, A_BAD, A_BAD, A_BAD, A_BAD, A_BAD, A_BAD, A_BAD, A_BAD, A_BAD,
     A_BAD, A_BAD, A_BAD, A_BAD, A_BAD, A_BAD, A_BAD, A_BAD, A_BAD, A_BAD, A_BAD, A_BAD, A_BAD,
     A_BAD, A_BAD, A_BAD, A_BAD, A_BAD, A_BAD, A_BAD, A_BAD, A_BAD, A_BAD, A_BAD, A_BAD, A_BAD,
     A_BAD, A_BAD, A_BAD, A_BAD, A_BAD, A_BAD, A_BAD, A_BAD, A_BAD, A_BAD, A_BAD, A_BAD, A_BAD,
     A_BAD, A_BAD, A_BAD, A_BAD, A_BAD, A_BAD, A_BAD, A_BAD, A_BAD, A_BAD, A_BAD, A_BAD, A_BAD,
     A_BAD, A_UTF8_2, A_UTF8_2, A_UTF8_2, A_UTF8_2, A_UTF8_2, A_UTF8_2, A_UTF8_2, A_UTF8_2,
     A_UTF8_2, A_UTF8_2, A_UTF8_2, A_UTF8_2, A_UTF8_2, A_UTF8_2, A_UTF8_2, A_UTF8_2, A_UTF8_2,
     A_UTF8_2, A_UTF8_2, A_UTF8_2, A_UTF8_2, A_UTF8_2, A_UTF8_2, A_UTF8_2, A_UTF8_2, A_UTF8_2,
     A_UTF8_2, A_UTF8_2, A_UTF8_2, A_UTF8_2, A_UTF8_2, A_UTF8_2, A_UTF8_3, A_UTF8_3, A_UTF8_3,
     A_UTF8_3, A_UTF8_3, A_UTF8_3, A_UTF8_3, A_UTF8_3, A_UTF8_3, A_UTF8_3, A_UTF8_3, A_UTF8_3,
     A_UTF8_3, A_UTF8_3, A_UTF8_3, A_UTF8_3, A_UTF8_4, A_UTF8_4, A_UTF8_4, A_UTF8_4, A_UTF8_4,
     A_UTF8_4, A_UTF8_4, A_UTF8_4, A_BAD, A_BAD, A_BAD, A_BAD, A_BAD, A_BAD, A_BAD, A_BAD]"

definition goutf8_continue :: "config_action list" where
  "goutf8_continue = [
     A_BAD, A_BAD, A_BAD, A_BAD, A_BAD, A_BAD, A_BAD, A_BAD, A_BAD, A_BAD, A_BAD, A_BAD, A_BAD,
     A_BAD, A_BAD, A_BAD, A_BAD, A_BAD, A_BAD, A_BAD, A_BAD, A_BAD, A_BAD, A_BAD, A_BAD, A_BAD,
     A_BAD, A_BAD, A_BAD, A_BAD, A_BAD, A_BAD, A_BAD, A_BAD, A_BAD, A_BAD, A_BAD, A_BAD, A_BAD,
     A_BAD, A_BAD, A_BAD, A_BAD, A_BAD, A_BAD, A_BAD, A_BAD, A_BAD, A_BAD, A_BAD, A_BAD, A_BAD,
     A_BAD, A_BAD, A_BAD, A_BAD, A_BAD, A_BAD, A_BAD, A_BAD, A_BAD, A_BAD, A_BAD, A_BAD, A_BAD,
     A_BAD, A_BAD, A_BAD, A_BAD, A_BAD, A_BAD, A_BAD, A_BAD, A_BAD, A_BAD, A_BAD, A_BAD, A_BAD,
     A_BAD, A_BAD, A_BAD, A_BAD, A_BAD, A_BAD, A_BAD, A_BAD, A_BAD, A_BAD, A_BAD, A_BAD, A_BAD,
     A_BAD, A_BAD, A_BAD, A_BAD, A_BAD, A_BAD, A_BAD, A_BAD, A_BAD, A_BAD, A_BAD, A_BAD, A_BAD,
     A_BAD, A_BAD, A_BAD, A_BAD, A_BAD, A_BAD, A_BAD, A_BAD, A_BAD, A_BAD, A_BAD, A_BAD, A_BAD,
     A_BAD, A_BAD, A_BAD, A_BAD, A_BAD, A_BAD, A_BAD, A_BAD, A_BAD, A_BAD, A_BAD, A_UTF_CONTINUE,
     A_UTF_CONTINUE, A_UTF_CONTINUE, A_UTF_CONTINUE, A_UTF_CONTINUE, A_UTF_CONTINUE,
     A_UTF_CONTINUE, A_UTF_CONTINUE, A_UTF_CONTINUE, A_UTF_CONTINUE, A_UTF_CONTINUE,
     A_UTF_CONTINUE, A_UTF_CONTINUE, A_UTF_CONTINUE, A_UTF_CONTINUE, A_UTF_CONTINUE,
     A_UTF_CONTINUE, A_UTF_CONTINUE, A_UTF_CONTINUE, A_UTF_CONTINUE, A_UTF_CONTINUE,
     A_UTF_CONTINUE, A_UTF_CONTINUE, A_UTF_CONTINUE, A_UTF_CONTINUE, A_UTF_CONTINUE,
     A_UTF_CONTINUE, A_UTF_CONTINUE, A_UTF_CONTINUE, A_UTF_CONTINUE, A_UTF_CONTINUE,
     A_UTF_CONTINUE, A_UTF_CONTINUE, A_UTF_CONTINUE, A_UTF_CONTINUE, A_UTF_CONTINUE,
     A_UTF_CONTINUE, A_UTF_CONTINUE, A_UTF_CONTINUE, A_UTF_CONTINUE, A_UTF_CONTINUE,
     A_UTF_CONTINUE, A_UTF_CONTINUE, A_UTF_CONTINUE, A_UTF_CONTINUE, A_UTF_CONTINUE,
     A_UTF_CONTINUE, A_UTF_CONTINUE, A_UTF_CONTINUE, A_UTF_CONTINUE, A_UTF_CONTINUE,
     A_UTF_CONTINUE, A_UTF_CONTINUE, A_UTF_CONTINUE, A_UTF_CONTINUE, A_UTF_CONTINUE,
     A_UTF_CONTINUE, A_UTF_CONTINUE, A_UTF_CONTINUE, A_UTF_CONTINUE, A_UTF_CONTINUE,
     A_UTF_CONTINUE, A_UTF_CONTINUE, A_UTF_CONTINUE, A_BAD, A_BAD, A_BAD, A_BAD, A_BAD, A_BAD,
     A_BAD, A_BAD, A_BAD, A_BAD, A_BAD, A_BAD, A_BAD, A_BAD, A_BAD, A_BAD, A_BAD, A_BAD, A_BAD,
     A_BAD, A_BAD, A_BAD, A_BAD, A_BAD, A_BAD, A_BAD, A_BAD, A_BAD, A_BAD, A_BAD, A_BAD, A_BAD,
     A_BAD, A_BAD, A_BAD, A_BAD, A_BAD, A_BAD, A_BAD, A_BAD, A_BAD, A_BAD, A_BAD, A_BAD, A_BAD,
     A_BAD, A_BAD, A_BAD, A_BAD, A_BAD, A_BAD, A_BAD, A_BAD, A_BAD, A_BAD, A_BAD, A_BAD, A_BAD,
     A_BAD, A_BAD, A_BAD, A_BAD, A_BAD, A_BAD]"

definition goesc :: "config_action list" where
  "goesc = [
     A_BAD, A_BAD, A_BAD, A_BAD, A_BAD, A_BAD, A_BAD, A_BAD, A_BAD, A_BAD, A_BAD, A_BAD, A_BAD,
     A_BAD, A_BAD, A_BAD, A_BAD, A_BAD, A_BAD, A_BAD, A_BAD, A_BAD, A_BAD, A_BAD, A_BAD, A_BAD,
     A_BAD, A_BAD, A_BAD, A_BAD, A_BAD, A_BAD, A_BAD, A_BAD, A_UNESC, A_BAD, A_BAD, A_BAD, A_BAD,
     A_BAD, A_BAD, A_BAD, A_BAD, A_BAD, A_BAD, A_BAD, A_BAD, A_UNESC, A_BAD, A_BAD, A_BAD, A_BAD,
     A_BAD, A_BAD, A_BAD, A_BAD, A_BAD, A_BAD, A_BAD, A_BAD, A_BAD, A_BAD, A_BAD, A_BAD, A_BAD,
     A_BAD, A_BAD, A_BAD, A_BAD, A_BAD, A_BAD, A_BAD, A_BAD, A_BAD, A_BAD, A_BAD, A_BAD, A_BAD,
     A_BAD, A_BAD, A_BAD, A_BAD, A_BAD, A_BAD, A_BAD, A_BAD, A_BAD, A_BAD, A_BAD, A_BAD, A_BAD,
     A_BAD, A_UNESC, A_BAD, A_BAD, A_BAD, A_BAD, A_BAD, A_UNESC, A_BAD, A_BAD, A_BAD, A_UNESC,
     A_BAD, A_BAD, A_BAD, A_BAD, A_BAD, A_BAD, A_BAD, A_UNESC, A_BAD, A_BAD, A_BAD, A_UNESC,
     A_BAD, A_UNESC, A_UNESC, A_BAD, A_BAD, A_BAD, A_BAD, A_BAD, A_BAD, A_BAD, A_BAD, A_BAD,
     A_BAD, A_BAD, A_BAD, A_BAD, A_BAD, A_BAD, A_BAD, A_BAD, A_BAD, A_BAD, A_BAD, A_BAD, A_BAD,
     A_BAD, A_BAD, A_BAD, A_BAD, A_BAD, A_BAD, A_BAD, A_BAD, A_BAD, A_BAD, A_BAD, A_BAD, A_BAD,
     A_BAD, A_BAD, A_BAD, A_BAD, A_BAD, A_BAD, A_BAD, A_BAD, A_BAD, A_BAD, A_BAD, A_BAD, A_BAD,
     A_BAD, A_BAD, A_BAD, A_BAD, A_BAD, A_BAD, A_BAD, A_BAD, A_BAD, A_BAD, A_BAD, A_BAD, A_BAD,
     A_BAD, A_BAD, A_BAD, A_BAD, A_BAD, A_BAD, A_BAD, A_BAD, A_BAD, A_BAD, A_BAD, A_BAD, A_BAD,
     A_BAD, A_BAD, A_BAD, A_BAD, A_BAD, A_BAD, A_BAD, A_BAD, A_BAD, A_BAD, A_BAD, A_BAD, A_BAD,
     A_BAD, A_BAD, A_BAD, A_BAD, A_BAD, A_BAD, A_BAD, A_BAD, A_BAD, A_BAD, A_BAD, A_BAD, A_BAD,
     A_BAD, A_BAD, A_BAD, A_BAD, A_BAD, A_BAD, A_BAD, A_BAD, A_BAD, A_BAD, A_BAD, A_BAD, A_BAD,
     A_BAD, A_BAD, A_BAD, A_BAD, A_BAD, A_BAD, A_BAD, A_BAD, A_BAD, A_BAD, A_BAD, A_BAD, A_BAD,
     A_BAD, A_BAD, A_BAD, A_BAD, A_BAD, A_BAD, A_BAD, A_BAD, A_BAD, A_BAD, A_BAD, A_BAD]"

section \<open>Structures\<close>

datatype item_type = ITEM_STRING | ITEM_ID | ITEM_NUM | ITEM_STRUCT

text \<open>A pointer into a string; \<open>None\<close> is one that was never set.\<close>

type_synonym char_ptr = "(bytes \<times> nat) option"

record wt_config_item =
  it_str :: char_ptr
  it_len :: nat
  it_val :: u64
  it_type :: item_type

datatype go_table = Go_struct | Go_bare | Go_string | Go_utf8_continue | Go_esc

record wt_config =
  cfg_buf :: bytes
  cfg_orig :: nat
  cfg_end :: nat
  cfg_cur :: nat
  cfg_depth :: int
  cfg_top :: int
  cfg_go :: "go_table option"

fun go_entries :: "go_table \<Rightarrow> config_action list" where
  "go_entries Go_struct = gostruct"
| "go_entries Go_bare = gobare"
| "go_entries Go_string = gostring"
| "go_entries Go_utf8_continue = goutf8_continue"
| "go_entries Go_esc = goesc"

definition wt_config_initn :: "bytes \<Rightarrow> nat \<Rightarrow> nat \<Rightarrow> wt_config" where
  "wt_config_initn buf off len = \<lparr>cfg_buf = buf, cfg_orig = off, cfg_end = off + len, cfg_cur = off,
     cfg_depth = 0, cfg_top = - 1, cfg_go = None\<rparr>"

text \<open>A string given by itself ends with its terminating zero byte; \<open>NULL\<close> is the empty string.\<close>

definition wt_config_init :: "bytes option \<Rightarrow> wt_config" where
  "wt_config_init str = (case str of None \<Rightarrow> wt_config_initn [] 0 0 | Some s \<Rightarrow> wt_config_initn s 0 (length s))"

definition wt_config_subinit :: "wt_config_item \<Rightarrow> wt_config result" where
  "wt_config_subinit item =
     (case it_str item of None \<Rightarrow> Inl OUT_OF_BOUNDS | Some (buf, off) \<Rightarrow> Inr (wt_config_initn buf off (it_len item)))"

section \<open>The next item\<close>

text \<open>
  The local state of \<open>__config_next\<close>: \<open>cp_out\<close> says that \<open>out\<close> is the value, not the key.
\<close>

record cp_state =
  cp_conf :: wt_config
  cp_key :: wt_config_item
  cp_value :: wt_config_item
  cp_out :: bool
  utf8_remain :: int

datatype cp_step = Continue cp_state | Return cp_state "unit result"

definition out_item :: "cp_state \<Rightarrow> wt_config_item" where
  "out_item s = (if cp_out s then cp_value s else cp_key s)"

definition set_out :: "wt_config_item \<Rightarrow> cp_state \<Rightarrow> cp_state" where
  "set_out x s = (if cp_out s then s\<lparr>cp_value := x\<rparr> else s\<lparr>cp_key := x\<rparr>)"

definition set_go :: "go_table \<Rightarrow> cp_state \<Rightarrow> cp_state" where
  "set_go g s = s\<lparr>cp_conf := (cp_conf s)\<lparr>cfg_go := Some g\<rparr>\<rparr>"

definition add_depth :: "int \<Rightarrow> cp_state \<Rightarrow> cp_state" where
  "add_depth d s = s\<lparr>cp_conf := (cp_conf s)\<lparr>cfg_depth := cfg_depth (cp_conf s) + d\<rparr>\<rparr>"

text \<open>The end of the loop body: \<open>conf->cur++\<close>.\<close>

definition advance :: "cp_state \<Rightarrow> cp_step" where
  "advance s = Continue (s\<lparr>cp_conf := (cp_conf s)\<lparr>cfg_cur := cfg_cur (cp_conf s) + 1\<rparr>\<rparr>)"

definition cp_then :: "cp_step \<Rightarrow> (cp_state \<Rightarrow> cp_step) \<Rightarrow> cp_step" where
  "cp_then r k = (case r of Return s e \<Rightarrow> Return s e | Continue s \<Rightarrow> k s)"

text \<open>The macros.\<close>

definition PUSH :: "nat \<Rightarrow> item_type \<Rightarrow> cp_state \<Rightarrow> cp_step" where
  "PUSH i ty s =
     (let s = (if cfg_top (cp_conf s) = - 1 then s\<lparr>cp_conf := (cp_conf s)\<lparr>cfg_top := cfg_depth (cp_conf s)\<rparr>\<rparr> else s) in
      if cfg_depth (cp_conf s) = cfg_top (cp_conf s) then
        (if 0 < it_len (out_item s) then Return s (Inl EINVAL)
         else Continue (set_out ((out_item s)\<lparr>it_type := ty, it_str := Some (cfg_buf (cp_conf s), cfg_cur (cp_conf s) + i)\<rparr>) s))
      else Continue s)"

definition CAP :: "int \<Rightarrow> cp_state \<Rightarrow> cp_step" where
  "CAP i s =
     (if cfg_depth (cp_conf s) = cfg_top (cp_conf s) then
        (case it_str (out_item s) of
           None \<Rightarrow> Return s (Inl OUT_OF_BOUNDS)
         | Some (buf, off) \<Rightarrow>
             if buf \<noteq> cfg_buf (cp_conf s) then Return s (Inl OUT_OF_BOUNDS)
             else Continue (set_out ((out_item s)\<lparr>it_len := nat ((int (cfg_cur (cp_conf s)) + i + 1 - int off) mod 2 ^ 64)\<rparr>) s))
      else Continue s)"

definition cur_char :: "wt_config \<Rightarrow> u8" where
  "cur_char conf = (if cfg_cur conf < length (cfg_buf conf) then cfg_buf conf ! cfg_cur conf else 0)"

definition cur_action :: "bool \<Rightarrow> wt_config \<Rightarrow> config_action option" where
  "cur_action sc conf =
     (if length (cfg_buf conf) < cfg_cur conf \<or> (sc \<and> 127 < cur_char conf) then None
      else Some (go_entries (case cfg_go conf of None \<Rightarrow> Go_struct | Some g \<Rightarrow> g) ! unat (cur_char conf)))"

definition COLON :: u8 where "COLON = 0x3a"

fun config_case :: "config_action \<Rightarrow> cp_state \<Rightarrow> cp_step" where
  "config_case A_LOOP s = advance s"
| "config_case A_BAD s = Return s (Inl EINVAL)"
| "config_case A_DOWN s = cp_then (CAP 0 (add_depth (- 1) s)) advance"
| "config_case A_UP s =
     (let s = (if cfg_top (cp_conf s) = - 1 then s\<lparr>cp_conf := (cp_conf s)\<lparr>cfg_top := 1\<rparr>\<rparr> else s)
      in cp_then (PUSH 0 ITEM_STRUCT s) (\<lambda>s. advance (add_depth 1 s)))"
| "config_case A_VALUE s =
     (if cfg_depth (cp_conf s) = cfg_top (cp_conf s) then
        (if cp_out s \<and> cur_char (cp_conf s) \<noteq> COLON then Return s (Inl EINVAL) else advance (s\<lparr>cp_out := True\<rparr>))
      else advance s)"
| "config_case A_NEXT s =
     (if cfg_depth (cp_conf s) = cfg_top (cp_conf s) \<and> 0 < it_len (cp_key s)
      then Return (s\<lparr>cp_conf := (cp_conf s)\<lparr>cfg_cur := cfg_cur (cp_conf s) + 1\<rparr>\<rparr>) (Inr ())
      else advance s)"
| "config_case A_QDOWN s = cp_then (CAP (- 1) s) (\<lambda>s. advance (set_go Go_struct s))"
| "config_case A_QUP s = cp_then (PUSH 1 ITEM_STRING s) (\<lambda>s. advance (set_go Go_string s))"
| "config_case A_ESC s = advance (set_go Go_esc s)"
| "config_case A_UNESC s = advance (set_go Go_string s)"
| "config_case A_BARE s = cp_then (PUSH 0 ITEM_ID s) (\<lambda>s. advance (set_go Go_bare s))"
| "config_case A_NUMBARE s = cp_then (PUSH 0 ITEM_NUM s) (\<lambda>s. advance (set_go Go_bare s))"
| "config_case A_UNBARE s = cp_then (CAP (- 1) s) (\<lambda>s. Continue (set_go Go_struct s))"
| "config_case A_UTF8_2 s = advance ((set_go Go_utf8_continue s)\<lparr>utf8_remain := 1\<rparr>)"
| "config_case A_UTF8_3 s = advance ((set_go Go_utf8_continue s)\<lparr>utf8_remain := 2\<rparr>)"
| "config_case A_UTF8_4 s = advance ((set_go Go_utf8_continue s)\<lparr>utf8_remain := 3\<rparr>)"
| "config_case A_UTF_CONTINUE s =
     (let s = s\<lparr>utf8_remain := utf8_remain s - 1\<rparr>
      in advance (if utf8_remain s = 0 then set_go Go_string s else s))"

definition config_step :: "bool \<Rightarrow> cp_state \<Rightarrow> cp_step" where
  "config_step sc s = (case cur_action sc (cp_conf s) of None \<Rightarrow> Return s (Inl OUT_OF_BOUNDS) | Some a \<Rightarrow> config_case a s)"

text \<open>Behind the loop: a trailing item, and what was found.\<close>

definition config_found :: "cp_state \<Rightarrow> cp_state \<times> unit result" where
  "config_found s =
     (if cfg_depth (cp_conf s) \<le> cfg_top (cp_conf s) \<and> 0 < it_len (cp_key s) then (s, Inr ())
      else if cfg_depth (cp_conf s) = 0 then (s, Inl WT_NOTFOUND)
      else (s, Inl EINVAL))"

definition config_end :: "cp_state \<Rightarrow> cp_state \<times> unit result" where
  "config_end s =
     (if cfg_go (cp_conf s) = Some Go_bare then
        (case CAP (- 1) s of
           Return s r \<Rightarrow> (s, r)
         | Continue s \<Rightarrow> config_found (set_go Go_struct s))
      else config_found s)"

text \<open>The bytes that are left, and one more step to leave a bare word.\<close>

definition left_to_do :: "wt_config \<Rightarrow> nat" where
  "left_to_do conf = 2 * (cfg_end conf - cfg_cur conf) + (if cfg_go conf = Some Go_bare then 1 else 0)"

lemma PUSH_conf:
  assumes "PUSH i ty s = Continue s'"
  shows "cfg_buf (cp_conf s') = cfg_buf (cp_conf s) \<and> cfg_cur (cp_conf s') = cfg_cur (cp_conf s) \<and> cfg_end (cp_conf s') = cfg_end (cp_conf s) \<and>
    cfg_depth (cp_conf s') = cfg_depth (cp_conf s) \<and> cfg_go (cp_conf s') = cfg_go (cp_conf s)"
  using assms by (auto simp: PUSH_def set_out_def Let_def split: if_splits)

lemma CAP_conf: "CAP i s = Continue s' \<Longrightarrow> cp_conf s' = cp_conf s"
  by (auto simp: CAP_def set_out_def split: if_splits option.splits)

lemma cp_then_Continue: "cp_then r k = Continue s' \<longleftrightarrow> (\<exists>s. r = Continue s \<and> k s = Continue s')"
  by (cases r) (simp_all add: cp_then_def)

lemma unbare_only: "gostruct ! n \<noteq> A_UNBARE \<and> gostring ! n \<noteq> A_UNBARE \<and> goesc ! n \<noteq> A_UNBARE \<and> goutf8_continue ! n \<noteq> A_UNBARE"
  if "n < 256"
proof -
  have "\<forall>n\<in>set [0..<256]. gostruct ! n \<noteq> A_UNBARE \<and> gostring ! n \<noteq> A_UNBARE \<and> goesc ! n \<noteq> A_UNBARE \<and> goutf8_continue ! n \<noteq> A_UNBARE"
    by code_simp
  then show ?thesis using that by simp
qed

lemma length_tables:
  "length gostruct = 256" "length gobare = 256" "length gostring = 256" "length goutf8_continue = 256" "length goesc = 256"
  by (simp_all add: gostruct_def gobare_def gostring_def goutf8_continue_def goesc_def)

lemma unat_u8: "unat (c :: u8) < 256"
  using unsigned_less [of c] by simp

lemma step_left:
  assumes "config_step sc s = Continue s'" "cfg_cur (cp_conf s) < cfg_end (cp_conf s)"
  shows "left_to_do (cp_conf s') < left_to_do (cp_conf s)" "cfg_end (cp_conf s') = cfg_end (cp_conf s)"
    "cfg_buf (cp_conf s') = cfg_buf (cp_conf s)" "cfg_cur (cp_conf s) \<le> cfg_cur (cp_conf s')"
proof -
  obtain a where a: "cur_action sc (cp_conf s) = Some a" "config_case a s = Continue s'"
    using assms(1) by (auto simp: config_step_def split: option.splits)
  have moved: "cfg_cur (cp_conf s') = cfg_cur (cp_conf s) + 1 \<and> cfg_end (cp_conf s') = cfg_end (cp_conf s) \<and> cfg_buf (cp_conf s') = cfg_buf (cp_conf s)"
    if "a \<noteq> A_UNBARE"
    using a(2) that
    by (cases a) (auto simp: advance_def cp_then_Continue set_go_def add_depth_def Let_def dest!: CAP_conf PUSH_conf split: if_splits)
  have bare: "cfg_go (cp_conf s) = Some Go_bare" if "a = A_UNBARE"
  proof -
    have "unat (cur_char (cp_conf s)) < 256" by (rule unat_u8)
    note u = unbare_only [OF this]
    have "go_entries (case cfg_go (cp_conf s) of None \<Rightarrow> Go_struct | Some g \<Rightarrow> g) ! unat (cur_char (cp_conf s)) = A_UNBARE"
      using a(1) that by (auto simp: cur_action_def split: if_splits)
    then show ?thesis using u by (cases "cfg_go (cp_conf s)"; cases "the (cfg_go (cp_conf s))") auto
  qed
  have "left_to_do (cp_conf s') < left_to_do (cp_conf s) \<and> cfg_end (cp_conf s') = cfg_end (cp_conf s) \<and>
    cfg_buf (cp_conf s') = cfg_buf (cp_conf s) \<and> cfg_cur (cp_conf s) \<le> cfg_cur (cp_conf s')"
  proof (cases "a = A_UNBARE")
    case True
    then obtain s2 where "CAP (- 1) s = Continue s2" "s' = set_go Go_struct s2" using a(2) by (auto simp: cp_then_Continue)
    then show ?thesis using bare [OF True] CAP_conf [of "- 1" s s2] by (simp add: left_to_do_def set_go_def)
  next
    case False
    then show ?thesis using moved assms(2) by (auto simp: left_to_do_def)
  qed
  then show "left_to_do (cp_conf s') < left_to_do (cp_conf s)" "cfg_end (cp_conf s') = cfg_end (cp_conf s)"
    "cfg_buf (cp_conf s') = cfg_buf (cp_conf s)" "cfg_cur (cp_conf s) \<le> cfg_cur (cp_conf s')" by blast+
qed

function config_loop :: "bool \<Rightarrow> cp_state \<Rightarrow> cp_state \<times> unit result" where
  "config_loop sc s =
     (if cfg_cur (cp_conf s) < cfg_end (cp_conf s) then
        (case config_step sc s of Return s r \<Rightarrow> (s, r) | Continue s \<Rightarrow> config_loop sc s)
      else config_end s)"
  by pat_completeness auto
termination
  by (relation "measure (\<lambda>(sc, s). left_to_do (cp_conf s))") (auto dest: step_left)

declare config_loop.simps [simp del]

text \<open>\<open>true_value\<close>, and the function: the parser, the key, the value and the return code.\<close>

definition true_value :: wt_config_item where
  "true_value = \<lparr>it_str = Some ([], 0), it_len = 0, it_val = 1, it_type = ITEM_NUM\<rparr>"

definition config_next ::
  "bool \<Rightarrow> wt_config \<Rightarrow> wt_config_item \<Rightarrow> wt_config \<times> wt_config_item \<times> wt_config_item \<times> unit result" where
  "config_next sc conf key =
     (let conf = (if cfg_go conf = None then conf\<lparr>cfg_go := Some Go_struct\<rparr> else conf) in
      case config_loop sc \<lparr>cp_conf = conf, cp_key = key\<lparr>it_len := 0\<rparr>, cp_value = true_value, cp_out = False, utf8_remain = 0\<rparr> of
        (s, r) \<Rightarrow> (cp_conf s, cp_key s, cp_value s, r))"

lemma macros_fail [simp]: "PUSH i ty s \<noteq> Return s' (Inr x)" "CAP j s \<noteq> Return s' (Inr x)"
  by (auto simp: PUSH_def CAP_def Let_def split: option.split)

lemma case_Return_Inr:
  assumes "config_case a s = Return s' (Inr ())"
  shows "cp_conf s' = (cp_conf s)\<lparr>cfg_cur := cfg_cur (cp_conf s) + 1\<rparr>"
  using assms by (cases a) (auto simp: cp_then_def advance_def Let_def split: cp_step.splits if_splits)

lemma loop_left:
  assumes "config_loop sc s = (s', Inr ())"
  shows "left_to_do (cp_conf s') \<le> left_to_do (cp_conf s) \<and> (left_to_do (cp_conf s') < left_to_do (cp_conf s) \<or> 0 < it_len (cp_key s))"
  using assms
proof (induction sc s rule: config_loop.induct)
  case (1 sc s)
  show ?case
  proof (cases "cfg_cur (cp_conf s) < cfg_end (cp_conf s)")
    case cur: True
    show ?thesis
    proof (cases "config_step sc s")
      case (Continue s1)
      then have "config_loop sc s1 = (s', Inr ())" using "1.prems" cur by (subst (asm) config_loop.simps) simp
      then show ?thesis using "1.IH" [OF cur Continue] step_left(1) [OF Continue cur] by linarith
    next
      case (Return s1 r)
      then have "config_step sc s = Return s' (Inr ())" using "1.prems" cur by (subst (asm) config_loop.simps) simp
      then obtain a where "config_case a s = Return s' (Inr ())" by (auto simp: config_step_def split: option.splits)
      then show ?thesis using case_Return_Inr cur by (fastforce simp: left_to_do_def)
    qed
  next
    case False
    then have "config_end s = (s', Inr ())" using "1.prems" by (subst (asm) config_loop.simps) simp
    then show ?thesis
      by (auto simp: config_end_def config_found_def left_to_do_def set_go_def split: if_splits cp_step.splits dest!: CAP_conf)
  qed
qed

lemma next_left:
  assumes "config_next sc conf key = (conf', key', value', Inr ())"
  shows "left_to_do conf' < left_to_do conf"
proof -
  let ?conf = "if cfg_go conf = None then conf\<lparr>cfg_go := Some Go_struct\<rparr> else conf"
  let ?s = "\<lparr>cp_conf = ?conf, cp_key = key\<lparr>it_len := 0\<rparr>, cp_value = true_value, cp_out = False, utf8_remain = 0\<rparr>"
  obtain s' where "config_loop sc ?s = (s', Inr ())" "conf' = cp_conf s'"
    using assms by (auto simp: config_next_def Let_def split: prod.splits)
  then have "left_to_do conf' < left_to_do ?conf" using loop_left [of sc ?s s'] by simp
  also have "\<dots> = left_to_do conf" by (simp add: left_to_do_def)
  finally show ?thesis .
qed

section \<open>Values\<close>

definition tolower :: "u8 \<Rightarrow> u8" where
  "tolower c = (if 0x41 \<le> c \<and> c \<le> 0x5a then c + 0x20 else c)"

text \<open>\<open>strncasecmp(a, b, n) == 0\<close> on strings that end with a zero byte.\<close>

fun strncaseeq :: "nat \<Rightarrow> bytes \<Rightarrow> bytes \<Rightarrow> bool" where
  "strncaseeq 0 xs ys = True"
| "strncaseeq (Suc n) xs ys =
     (let a = (if xs = [] then 0 else hd xs); b = (if ys = [] then 0 else hd ys) in
      if tolower a \<noteq> tolower b then False else if a = 0 then True else strncaseeq n (tl xs) (tl ys))"

definition is_digit :: "u8 \<Rightarrow> bool" where
  "is_digit c = (0x30 \<le> c \<and> c \<le> 0x39)"

text \<open>
  \<open>strtoll(p, &endptr, 10)\<close>: the value, the number of bytes it reads, and whether \<open>errno\<close> is
  \<open>ERANGE\<close>. The string starts with a minus sign or a digit.
\<close>

definition digits_value :: "bytes \<Rightarrow> int" where
  "digits_value ds = foldl (\<lambda>n d. 10 * n + (uint d - 0x30)) 0 ds"

definition strtoll :: "bytes \<Rightarrow> u64 \<times> nat \<times> bool" where
  "strtoll p =
     (let neg = (p \<noteq> [] \<and> hd p = 0x2d);
          ds = takeWhile is_digit (if neg then tl p else p);
          n = (if neg then - digits_value ds else digits_value ds)
      in if ds = [] then (0, 0, False)
         else if n < - (2 ^ 63) then (of_int (- (2 ^ 63)), length ds + (if neg then 1 else 0), True)
         else if 2 ^ 63 - 1 < n then (of_int (2 ^ 63 - 1), length ds + (if neg then 1 else 0), True)
         else (of_int n, length ds + (if neg then 1 else 0), False))"

text \<open>The loop over the characters behind the number.\<close>

fun value_suffix :: "bytes \<Rightarrow> wt_config_item \<Rightarrow> wt_config_item" where
  "value_suffix [] v = v"
| "value_suffix (c # cs) v =
     value_suffix cs
       (let l = tolower c in
        if l = 0x62 then v
        else if l = 0x6b then v\<lparr>it_val := push_bit 10 (it_val v)\<rparr>
        else if l = 0x6d then v\<lparr>it_val := push_bit 20 (it_val v)\<rparr>
        else if l = 0x67 then v\<lparr>it_val := push_bit 30 (it_val v)\<rparr>
        else if l = 0x74 then v\<lparr>it_val := push_bit 40 (it_val v)\<rparr>
        else if l = 0x70 then v\<lparr>it_val := push_bit 50 (it_val v)\<rparr>
        else v\<lparr>it_type := ITEM_ID\<rparr>)"

definition TRUE_STR :: bytes where "TRUE_STR = [0x74, 0x72, 0x75, 0x65]"
definition FALSE_STR :: bytes where "FALSE_STR = [0x66, 0x61, 0x6c, 0x73, 0x65]"

definition item_bytes :: "wt_config_item \<Rightarrow> bytes result" where
  "item_bytes item = (case it_str item of None \<Rightarrow> Inl OUT_OF_BOUNDS | Some (buf, off) \<Rightarrow> Inr (drop off buf))"

definition config_process_value :: "wt_config_item \<Rightarrow> wt_config_item result" where
  "config_process_value v =
     (if it_len v = 0 then Inr v
      else if it_type v = ITEM_ID then
        wt_ret (item_bytes v) (\<lambda>p.
          if strncaseeq (it_len v) p TRUE_STR then Inr (v\<lparr>it_type := ITEM_NUM, it_val := 1\<rparr>)
          else if strncaseeq (it_len v) p FALSE_STR then Inr (v\<lparr>it_type := ITEM_NUM, it_val := 0\<rparr>)
          else Inr v)
      else if it_type v = ITEM_NUM then
        wt_ret (item_bytes v) (\<lambda>p.
          let (n, k, range) = strtoll p;
              v = value_suffix (drop k (take (it_len v) p)) (v\<lparr>it_val := n\<rparr>)
          in if it_type v = ITEM_NUM \<and> range then Inl ERANGE else Inr v)
      else Inr v)"

definition wt_config_next ::
  "bool \<Rightarrow> wt_config \<Rightarrow> wt_config_item \<Rightarrow> wt_config \<times> wt_config_item \<times> wt_config_item \<times> unit result" where
  "wt_config_next sc conf key =
     (case config_next sc conf key of
        (conf, key, value, Inl e) \<Rightarrow> (conf, key, value, Inl e)
      | (conf, key, value, Inr _) \<Rightarrow>
          (case config_process_value value of
             Inl e \<Rightarrow> (conf, key, value, Inl e)
           | Inr value \<Rightarrow> (conf, key, value, Inr ())))"

section \<open>Searching\<close>

text \<open>An item on the stack before anything is written to it.\<close>

definition item_undef :: wt_config_item where
  "item_undef = \<lparr>it_str = None, it_len = 0, it_val = 0, it_type = ITEM_STRING\<rparr>"

text \<open>\<open>(type is a string or an identifier) && key->len == k.len && strncasecmp(...) == 0\<close>\<close>

definition key_matches :: "wt_config_item \<Rightarrow> wt_config_item \<Rightarrow> bool result" where
  "key_matches key k =
     (if it_type k \<in> {ITEM_STRING, ITEM_ID} \<and> it_len key = it_len k then
        wt_ret (item_bytes key) (\<lambda>a. wt_ret (item_bytes k) (\<lambda>b. Inr (strncaseeq (it_len k) a b)))
      else Inr False)"

text \<open>The loop of \<open>__wt_config_getraw\<close>; \<open>found\<close> is the value that was found last.\<close>

function getraw_loop ::
  "bool \<Rightarrow> wt_config \<Rightarrow> wt_config_item \<Rightarrow> wt_config_item \<Rightarrow> wt_config_item option \<Rightarrow> wt_config_item option \<times> wt_error" where
  "getraw_loop sc conf key k found =
     (case config_next sc conf k of
        (conf', k', v, Inl e) \<Rightarrow> (found, e)
      | (conf', k', v, Inr _) \<Rightarrow>
          (case key_matches key k' of
             Inl e \<Rightarrow> (found, e)
           | Inr m \<Rightarrow> getraw_loop sc conf' key k' (if m then Some v else found)))"
  by pat_completeness auto
termination
  by (relation "measure (\<lambda>(sc, conf, key, k, found). left_to_do conf)") (auto dest: next_left [OF sym])

declare getraw_loop.simps [simp del]

definition wt_config_getraw :: "bool \<Rightarrow> wt_config \<Rightarrow> wt_config_item \<Rightarrow> wt_config_item result" where
  "wt_config_getraw sc cparser key =
     (case getraw_loop sc cparser key item_undef None of
        (Some v, e) \<Rightarrow> if e = WT_NOTFOUND then config_process_value v else Inl e
      | (None, e) \<Rightarrow> Inl e)"

fun config_get_loop :: "bool \<Rightarrow> bytes list \<Rightarrow> wt_config_item \<Rightarrow> wt_config_item option \<Rightarrow> wt_config_item result" where
  "config_get_loop sc [] key found = (case found of None \<Rightarrow> Inl WT_NOTFOUND | Some v \<Rightarrow> Inr v)"
| "config_get_loop sc (c # cfg) key found =
     (case wt_config_getraw sc (wt_config_init (Some c)) key of
        Inr v \<Rightarrow> config_get_loop sc cfg key (Some v)
      | Inl e \<Rightarrow> if e = WT_NOTFOUND then config_get_loop sc cfg key found else Inl e)"

definition wt_config_get :: "bool \<Rightarrow> bytes list \<Rightarrow> wt_config_item \<Rightarrow> wt_config_item result" where
  "wt_config_get sc cfg key = config_get_loop sc cfg key None"

definition string_item :: "bytes \<Rightarrow> wt_config_item" where
  "string_item key = \<lparr>it_str = Some (key, 0), it_len = length key, it_val = 0, it_type = ITEM_STRING\<rparr>"

definition wt_config_gets :: "bool \<Rightarrow> bytes list \<Rightarrow> bytes \<Rightarrow> wt_config_item result" where
  "wt_config_gets sc cfg key = wt_config_get sc cfg (string_item key)"

definition wt_config_getone :: "bool \<Rightarrow> bytes \<Rightarrow> wt_config_item \<Rightarrow> wt_config_item result" where
  "wt_config_getone sc config key = wt_config_getraw sc (wt_config_init (Some config)) key"

definition wt_config_getones :: "bool \<Rightarrow> bytes \<Rightarrow> bytes \<Rightarrow> wt_config_item result" where
  "wt_config_getones sc config key = wt_config_getraw sc (wt_config_init (Some config)) (string_item key)"

definition wt_config_subgetraw :: "bool \<Rightarrow> wt_config_item \<Rightarrow> wt_config_item \<Rightarrow> wt_config_item result" where
  "wt_config_subgetraw sc cfg key = wt_ret (wt_config_subinit cfg) (\<lambda>cparser. wt_config_getraw sc cparser key)"

definition wt_config_subgets :: "bool \<Rightarrow> wt_config_item \<Rightarrow> bytes \<Rightarrow> wt_config_item result" where
  "wt_config_subgets sc cfg key = wt_config_subgetraw sc cfg (string_item key)"

definition false_value :: wt_config_item where
  "false_value = \<lparr>it_str = Some ([], 0), it_len = 0, it_val = 0, it_type = ITEM_NUM\<rparr>"

text \<open>\<open>WT_RET_NOTFOUND_OK\<close> returns an error other than \<open>WT_NOTFOUND\<close> and goes on otherwise.\<close>

definition wt_config_gets_defno :: "bool \<Rightarrow> bytes list option \<Rightarrow> bytes \<Rightarrow> wt_config_item result" where
  "wt_config_gets_defno sc cfg key =
     (case cfg of
        Some (c0 # c1 # cs) \<Rightarrow>
          (case (if cs = [] then wt_config_getones sc c1 key else Inr false_value) of
             Inl e \<Rightarrow> if e = WT_NOTFOUND then wt_config_gets sc (c0 # c1 # cs) key else Inl e
           | Inr _ \<Rightarrow> wt_config_gets sc (c0 # c1 # cs) key)
      | Some [] \<Rightarrow> Inl OUT_OF_BOUNDS
      | _ \<Rightarrow> Inr false_value)"

section \<open>Concatenation and collapsing\<close>

text \<open>The bytes of an item with the quotes around a string: \<open>--str; len += 2\<close>.\<close>

definition quoted_bytes :: "wt_config_item \<Rightarrow> bytes result" where
  "quoted_bytes item =
     (case it_str item of
        None \<Rightarrow> Inl OUT_OF_BOUNDS
      | Some (buf, off) \<Rightarrow>
          if it_type item = ITEM_STRING
          then (if off = 0 then Inl OUT_OF_BOUNDS else Inr (take (it_len item + 2) (drop (off - 1) buf)))
          else Inr (take (it_len item) (drop off buf)))"

definition EQ :: u8 where "EQ = 0x3d"
definition COMMA :: u8 where "COMMA = 0x2c"

text \<open>\<open>(v.len > 0)\<close> is tested behind the adjustment for strings.\<close>

definition concat_entry :: "wt_config_item \<Rightarrow> wt_config_item \<Rightarrow> bytes result" where
  "concat_entry k v =
     wt_ret (quoted_bytes k) (\<lambda>kb. wt_ret (quoted_bytes v) (\<lambda>vb.
       Inr (kb @ (if 0 < it_len v \<or> it_type v = ITEM_STRING then [EQ] else []) @ vb @ [COMMA])))"

text \<open>The loop over one string; \<open>k\<close> is a variable of the function, so it keeps its pointer.\<close>

lemma wt_next_left:
  assumes "wt_config_next sc conf key = (conf', key', value', Inr ())"
  shows "left_to_do conf' < left_to_do conf"
  using assms by (auto simp: wt_config_next_def dest!: next_left split: prod.splits sum.splits)

function concat_loop :: "bool \<Rightarrow> wt_config \<Rightarrow> wt_config_item \<Rightarrow> bytes \<Rightarrow> (wt_config_item \<times> bytes) result" where
  "concat_loop sc conf k tmp =
     (case wt_config_next sc conf k of
        (conf', k', v, Inl e) \<Rightarrow> if e = WT_NOTFOUND then Inr (k', tmp) else Inl e
      | (conf', k', v, Inr _) \<Rightarrow>
          if it_type k' \<notin> {ITEM_STRING, ITEM_ID} then Inl EINVAL
          else
            (case concat_entry k' v of
               Inl e \<Rightarrow> Inl e
             | Inr b \<Rightarrow> concat_loop sc conf' k' (tmp @ b)))"
  by pat_completeness auto
termination
  by (relation "measure (\<lambda>(sc, conf, k, tmp). left_to_do conf)") (auto dest: wt_next_left [OF sym])

declare concat_loop.simps [simp del]

fun concat_strings :: "bool \<Rightarrow> bytes list \<Rightarrow> wt_config_item \<Rightarrow> bytes \<Rightarrow> bytes result" where
  "concat_strings sc [] k tmp = Inr tmp"
| "concat_strings sc (c # cfg) k tmp =
     wt_ret (concat_loop sc (wt_config_init (Some c)) k tmp) (\<lambda>(k, tmp). concat_strings sc cfg k tmp)"

definition wt_config_concat :: "bool \<Rightarrow> bytes list \<Rightarrow> bytes result" where
  "wt_config_concat sc cfg = wt_ret (concat_strings sc cfg item_undef []) (\<lambda>tmp. Inr (butlast tmp))"

function collapse_loop :: "bool \<Rightarrow> bytes list \<Rightarrow> wt_config \<Rightarrow> wt_config_item \<Rightarrow> bytes \<Rightarrow> bytes result" where
  "collapse_loop sc cfg conf k tmp =
     (case wt_config_next sc conf k of
        (conf', k', v, Inl e) \<Rightarrow> if e = WT_NOTFOUND then Inr tmp else Inl e
      | (conf', k', v, Inr _) \<Rightarrow>
          if it_type k' \<notin> {ITEM_STRING, ITEM_ID} then Inl EINVAL
          else
            (case wt_ret (wt_config_get sc cfg k') (\<lambda>v. wt_ret (quoted_bytes k') (\<lambda>kb. wt_ret (quoted_bytes v) (\<lambda>vb.
                    Inr (kb @ [EQ] @ vb @ [COMMA])))) of
               Inl e \<Rightarrow> Inl e
             | Inr b \<Rightarrow> collapse_loop sc cfg conf' k' (tmp @ b)))"
  by pat_completeness auto
termination
  by (relation "measure (\<lambda>(sc, cfg, conf, k, tmp). left_to_do conf)") (auto dest: wt_next_left [OF sym])

declare collapse_loop.simps [simp del]

definition wt_config_collapse :: "bool \<Rightarrow> bytes list \<Rightarrow> bytes result" where
  "wt_config_collapse sc cfg =
     wt_ret (collapse_loop sc cfg (wt_config_init (if cfg = [] then None else Some (hd cfg))) item_undef [])
       (\<lambda>tmp. Inr (butlast tmp))"

section \<open>Checking\<close>

record config_check =
  chk_name :: bytes
  chk_type :: bytes
  chk_checks :: "bytes option"

text \<open>\<open>WT_STRING_MATCH\<close> and \<open>WT_STRING_CASE_MATCH\<close> of a string and an item.\<close>

definition string_match :: "bytes \<Rightarrow> wt_config_item \<Rightarrow> bool result" where
  "string_match str item = wt_ret (item_bytes item) (\<lambda>p. Inr (take (it_len item) p = str))"

definition string_case_match :: "bytes \<Rightarrow> wt_config_item \<Rightarrow> bool result" where
  "string_case_match str item =
     wt_ret (item_bytes item) (\<lambda>p. Inr (strncaseeq (it_len item) str p \<and> it_len item = length str))"

fun find_check :: "config_check list \<Rightarrow> wt_config_item \<Rightarrow> config_check result" where
  "find_check [] k = Inl EINVAL"
| "find_check (c # cs) k = wt_ret (string_case_match (chk_name c) k) (\<lambda>m. if m then Inr c else find_check cs k)"

definition STR_int :: bytes where "STR_int = [0x69, 0x6e, 0x74]"
definition STR_boolean :: bytes where "STR_boolean = [0x62, 0x6f, 0x6f, 0x6c, 0x65, 0x61, 0x6e]"
definition STR_list :: bytes where "STR_list = [0x6c, 0x69, 0x73, 0x74]"
definition STR_min :: bytes where "STR_min = [0x6d, 0x69, 0x6e]"
definition STR_max :: bytes where "STR_max = [0x6d, 0x61, 0x78]"
definition STR_choices :: bytes where "STR_choices = [0x63, 0x68, 0x6f, 0x69, 0x63, 0x65, 0x73]"

definition bad_type :: "bytes \<Rightarrow> wt_config_item \<Rightarrow> bool" where
  "bad_type ty v =
     (if ty = STR_int then it_type v \<noteq> ITEM_NUM
      else if ty = STR_boolean then it_type v \<noteq> ITEM_NUM \<or> (it_val v \<noteq> 0 \<and> it_val v \<noteq> 1)
      else if ty = STR_list then 0 < it_len v \<and> it_type v \<noteq> ITEM_STRUCT
      else False)"

text \<open>The loop over a list of choices: \<open>found\<close>, \<open>ret\<close> and the item \<open>v\<close>, into which it reads.\<close>

function choices_loop :: "bool \<Rightarrow> wt_config_item \<Rightarrow> wt_config \<Rightarrow> wt_config_item \<Rightarrow> bool \<times> unit result \<times> wt_config_item" where
  "choices_loop sc cv sparser v =
     (case wt_config_next sc sparser v of
        (sparser', v', dummy, Inl e) \<Rightarrow> (True, Inl e, v')
      | (sparser', v', dummy, Inr _) \<Rightarrow>
          (case wt_config_subgetraw sc cv v' of
             Inl e \<Rightarrow> (False, Inl e, v')
           | Inr _ \<Rightarrow> choices_loop sc cv sparser' v'))"
  by pat_completeness auto
termination
  by (relation "measure (\<lambda>(sc, cv, conf, v). left_to_do conf)") (auto dest: wt_next_left [OF sym])

declare choices_loop.simps [simp del]

definition check_choices :: "bool \<Rightarrow> wt_config_item \<Rightarrow> wt_config_item \<Rightarrow> wt_config_item result" where
  "check_choices sc cv v =
     (if it_len v = 0 then Inl EINVAL
      else
        wt_ret (if it_type v = ITEM_STRUCT then wt_ret (wt_config_subinit v) (\<lambda>sparser. Inr (choices_loop sc cv sparser v))
                else Inr (case wt_config_subgetraw sc cv v of Inl e \<Rightarrow> (False, Inl e, v) | Inr _ \<Rightarrow> (True, Inr (), v)))
          (\<lambda>(found, ret, v).
             if ret \<noteq> Inr () \<and> ret \<noteq> Inl WT_NOTFOUND then (case ret of Inl e \<Rightarrow> Inl e | Inr _ \<Rightarrow> Inr v)
             else if \<not> found then Inl EINVAL else Inr v))"

text \<open>One keyword of a check string.\<close>

definition check_keyword :: "bool \<Rightarrow> wt_config_item \<Rightarrow> wt_config_item \<Rightarrow> wt_config_item \<Rightarrow> wt_config_item result" where
  "check_keyword sc ck cv v =
     wt_ret (string_match STR_min ck) (\<lambda>is_min. if is_min then (if sint (it_val v) < sint (it_val cv) then Inl EINVAL else Inr v)
     else wt_ret (string_match STR_max ck) (\<lambda>is_max. if is_max then (if sint (it_val cv) < sint (it_val v) then Inl EINVAL else Inr v)
     else wt_ret (string_match STR_choices ck) (\<lambda>is_choices. if is_choices then check_choices sc cv v else Inl EINVAL)))"

function check_value_loop :: "bool \<Rightarrow> wt_config \<Rightarrow> wt_config_item \<Rightarrow> wt_config_item \<Rightarrow> wt_config_item result" where
  "check_value_loop sc cparser ck v =
     (case wt_config_next sc cparser ck of
        (cparser', ck', cv, Inl e) \<Rightarrow> Inr ck'
      | (cparser', ck', cv, Inr _) \<Rightarrow>
          (case check_keyword sc ck' cv v of
             Inl e \<Rightarrow> Inl e
           | Inr v \<Rightarrow> check_value_loop sc cparser' ck' v))"
  by pat_completeness auto
termination
  by (relation "measure (\<lambda>(sc, conf, ck, v). left_to_do conf)") (auto dest: wt_next_left [OF sym])

declare check_value_loop.simps [simp del]

function config_check_loop ::
  "bool \<Rightarrow> config_check list \<Rightarrow> wt_config \<Rightarrow> wt_config_item \<Rightarrow> wt_config_item \<Rightarrow> unit result" where
  "config_check_loop sc checks parser k ck =
     (case wt_config_next sc parser k of
        (parser', k', v, Inl e) \<Rightarrow> if e = WT_NOTFOUND then Inr () else Inl e
      | (parser', k', v, Inr _) \<Rightarrow>
          if it_type k' \<notin> {ITEM_STRING, ITEM_ID} then Inl EINVAL
          else
            (case wt_ret (find_check checks k') (\<lambda>c.
                    if bad_type (chk_type c) v then Inl EINVAL
                    else case chk_checks c of
                      None \<Rightarrow> Inr ck
                    | Some str \<Rightarrow> check_value_loop sc (wt_config_init (Some str)) ck v) of
               Inl e \<Rightarrow> Inl e
             | Inr ck' \<Rightarrow> config_check_loop sc checks parser' k' ck'))"
  by pat_completeness auto
termination
  by (relation "measure (\<lambda>(sc, checks, conf, k, ck). left_to_do conf)") (auto dest: wt_next_left [OF sym])

declare config_check_loop.simps [simp del]

definition wt_config_check :: "bool \<Rightarrow> config_check list \<Rightarrow> bytes option \<Rightarrow> unit result" where
  "wt_config_check sc checks config =
     (case config of None \<Rightarrow> Inr () | Some c \<Rightarrow> config_check_loop sc checks (wt_config_init (Some c)) item_undef item_undef)"

end
