(* ===== verification/Wt_Config_Props.thy ===== *)
theory Wt_Config_Props
  imports Wt_Config
begin

text \<open>
  What the configuration parser guarantees: every key and value it returns lies inside the string,
  iterating over a printed list of entries gives back the entries, and a search returns the last
  value of a key over all strings.
\<close>

section \<open>Items lie inside the string\<close>

definition item_in :: "bytes \<Rightarrow> nat \<Rightarrow> nat \<Rightarrow> wt_config_item \<Rightarrow> bool" where
  "item_in buf orig cur it \<longleftrightarrow> (case it_str it of None \<Rightarrow> it_len it = 0
     | Some (b, off) \<Rightarrow> if b = buf then orig \<le> off \<and> off + it_len it \<le> cur else it_len it = 0)"

abbreviation item_ok :: "wt_config \<Rightarrow> wt_config_item \<Rightarrow> bool" where
  "item_ok conf it \<equiv> item_in (cfg_buf conf) (cfg_orig conf) (cfg_cur conf) it"

lemma item_in_mono: "item_in buf orig cur it \<Longrightarrow> cur \<le> cur' \<Longrightarrow> item_in buf orig cur' it"
  by (auto simp: item_in_def split: option.splits if_splits)

definition conf_ok :: "wt_config \<Rightarrow> bool" where
  "conf_ok conf \<longleftrightarrow> cfg_orig conf \<le> cfg_cur conf \<and> cfg_cur conf \<le> cfg_end conf \<and> cfg_end conf \<le> length (cfg_buf conf) \<and>
     length (cfg_buf conf) < 2 ^ 64"

definition cp_ok :: "cp_state \<Rightarrow> bool" where
  "cp_ok s \<longleftrightarrow> conf_ok (cp_conf s) \<and> item_ok (cp_conf s) (cp_key s) \<and> item_ok (cp_conf s) (cp_value s)"

text \<open>What a step keeps of the parser.\<close>

lemma cap_len:
  assumes "off \<le> cur" "int cur + i + 1 < 2 ^ 64" "- 1 \<le> i"
  shows "nat ((int cur + i + 1 - int off) mod 2 ^ 64) = nat (int cur + i + 1) - off"
proof -
  have "(int cur + i + 1 - int off) mod 2 ^ 64 = int cur + i + 1 - int off" using assms by (intro mod_pos_pos_trivial) linarith+
  then show ?thesis using assms by (simp add: nat_diff_distrib')
qed

lemma CAP_ok:
  assumes "cp_ok s" "CAP i s = Continue s'" "cfg_cur (cp_conf s) < cfg_end (cp_conf s) \<or> i = - 1" "i = 0 \<or> i = - 1"
    and k: "conf' = (cp_conf s)\<lparr>cfg_cur := nat (int (cfg_cur (cp_conf s)) + i + 1)\<rparr> \<or> conf' = (cp_conf s)\<lparr>cfg_cur := cfg_cur (cp_conf s) + 1\<rparr>"
  shows "item_ok conf' (cp_key s') \<and> item_ok conf' (cp_value s')"
proof -
  have ok: "conf_ok (cp_conf s)" "item_ok (cp_conf s) (cp_key s)" "item_ok (cp_conf s) (cp_value s)" using assms(1) by (simp_all add: cp_ok_def)
  have c: "int (cfg_cur (cp_conf s)) + i + 1 < 2 ^ 64" "- 1 \<le> i" using ok(1) assms(3,4) by (auto simp: conf_ok_def)
  have n: "cfg_cur (cp_conf s) \<le> cfg_cur conf'" "nat (int (cfg_cur (cp_conf s)) + i + 1) \<le> cfg_cur conf'" "cfg_buf conf' = cfg_buf (cp_conf s)" "cfg_orig conf' = cfg_orig (cp_conf s)"
    using k assms(4) by auto
  have old: "item_ok conf' it" if "item_ok (cp_conf s) it" for it
    using that n item_in_mono by metis
  show ?thesis
  proof (cases "cfg_depth (cp_conf s) = cfg_top (cp_conf s)")
    case False
    then show ?thesis using assms(2) ok old by (simp add: CAP_def)
  next
    case True
    then obtain off where o: "it_str (out_item s) = Some (cfg_buf (cp_conf s), off)"
        "s' = set_out ((out_item s)\<lparr>it_len := nat ((int (cfg_cur (cp_conf s)) + i + 1 - int off) mod 2 ^ 64)\<rparr>) s"
      using assms(2) by (auto simp: CAP_def split: option.splits if_splits)
    have "item_ok (cp_conf s) (out_item s)" using ok by (simp add: out_item_def)
    then have off: "cfg_orig (cp_conf s) \<le> off" "off \<le> cfg_cur (cp_conf s)" using o(1) by (auto simp: item_in_def)
    have "item_ok conf' ((out_item s)\<lparr>it_len := nat ((int (cfg_cur (cp_conf s)) + i + 1 - int off) mod 2 ^ 64)\<rparr>)"
      unfolding cap_len [OF off(2) c] using n off o(1) assms(4) by (auto simp: item_in_def)
    then show ?thesis using o(2) ok old by (simp add: set_out_def)
  qed
qed

lemma PUSH_ok:
  assumes "cp_ok s" "PUSH i ty s = Continue s'" "i \<le> 1"
    and "cfg_cur conf' = cfg_cur (cp_conf s) + 1" "cfg_buf conf' = cfg_buf (cp_conf s)" "cfg_orig conf' = cfg_orig (cp_conf s)"
  shows "item_ok conf' (cp_key s') \<and> item_ok conf' (cp_value s') \<and> cfg_orig (cp_conf s') = cfg_orig (cp_conf s)"
proof -
  have ok: "conf_ok (cp_conf s)" "item_ok (cp_conf s) (cp_key s)" "item_ok (cp_conf s) (cp_value s)" using assms(1) by (simp_all add: cp_ok_def)
  have old: "item_ok conf' it" if "item_ok (cp_conf s) it" for it
    using that assms(4-6) item_in_mono by (metis le_add1)
  have new: "item_ok conf' (it\<lparr>it_type := ty, it_str := Some (cfg_buf (cp_conf s), cfg_cur (cp_conf s) + i)\<rparr>)" if "it_len it = 0" for it
    using that ok(1) assms(3-6) by (simp add: item_in_def conf_ok_def)
  show ?thesis using assms(2) old [OF ok(2)] old [OF ok(3)] new
    by (auto simp: PUSH_def Let_def set_out_def out_item_def split: if_splits)
qed

lemma cp_ok_depth [simp]: "cp_ok (add_depth d s) = cp_ok s"
  by (simp add: cp_ok_def add_depth_def conf_ok_def)

lemma cp_ok_top: "cp_ok (s\<lparr>cp_conf := (cp_conf s)\<lparr>cfg_top := t\<rparr>\<rparr>) = cp_ok s"
  by (simp add: cp_ok_def conf_ok_def)

lemma cp_ok_moved:
  assumes "cp_ok s" "cfg_cur (cp_conf s) < cfg_end (cp_conf s)" "cp_key s' = cp_key s" "cp_value s' = cp_value s"
    "cfg_buf (cp_conf s') = cfg_buf (cp_conf s) \<and> cfg_orig (cp_conf s') = cfg_orig (cp_conf s) \<and>
     cfg_end (cp_conf s') = cfg_end (cp_conf s) \<and> cfg_cur (cp_conf s') = cfg_cur (cp_conf s) + 1"
  shows "cp_ok s'"
  using assms item_in_mono [of _ _ "cfg_cur (cp_conf s)" _ "Suc (cfg_cur (cp_conf s))"] by (auto simp: cp_ok_def conf_ok_def)

lemma push_advance_ok:
  assumes "cp_ok s" "cfg_cur (cp_conf s) < cfg_end (cp_conf s)" "PUSH i ty s = Continue s1" "i \<le> 1"
    "cp_conf s' = (cp_conf s1)\<lparr>cfg_cur := cfg_cur (cp_conf s1) + 1, cfg_go := g, cfg_depth := d\<rparr>" "cp_key s' = cp_key s1" "cp_value s' = cp_value s1"
  shows "cp_ok s'"
proof -
  note P = PUSH_conf [OF assms(3)]
  have "item_ok (cp_conf s') (cp_key s1) \<and> item_ok (cp_conf s') (cp_value s1) \<and> cfg_orig (cp_conf s1) = cfg_orig (cp_conf s)"
    using PUSH_ok [OF assms(1,3,4), of "(cp_conf s)\<lparr>cfg_cur := cfg_cur (cp_conf s) + 1\<rparr>"] P assms(5) by simp
  then show ?thesis using assms P by (auto simp: cp_ok_def conf_ok_def)
qed

lemma cap_advance_ok:
  assumes "cp_ok s" "cfg_cur (cp_conf s) < cfg_end (cp_conf s)" "CAP i s = Continue s1" "i = 0 \<or> i = - 1"
    "cp_conf s' = (cp_conf s)\<lparr>cfg_cur := cfg_cur (cp_conf s) + 1, cfg_go := g\<rparr>" "cp_key s' = cp_key s1" "cp_value s' = cp_value s1"
  shows "cp_ok s'"
  using CAP_ok [OF assms(1,3) _ assms(4), of "(cp_conf s)\<lparr>cfg_cur := cfg_cur (cp_conf s) + 1\<rparr>"] assms
  by (auto simp: cp_ok_def conf_ok_def)

lemma cap_stay_ok:
  assumes "cp_ok s" "CAP (- 1) s = Continue s1" "cp_conf s' = (cp_conf s)\<lparr>cfg_go := g\<rparr>" "cp_key s' = cp_key s1" "cp_value s' = cp_value s1"
  shows "cp_ok s'"
  using CAP_ok [OF assms(1,2), of "cp_conf s"] assms by (auto simp: cp_ok_def conf_ok_def)

lemma case_ok:
  assumes ok: "cp_ok s" and cur: "cfg_cur (cp_conf s) < cfg_end (cp_conf s)"
  shows "config_case a s = Continue s' \<Longrightarrow> cp_ok s'" "config_case a s = Return s' (Inr ()) \<Longrightarrow> cp_ok s' \<and> 0 < it_len (cp_key s')"
proof -
  have up: "cp_ok (s\<lparr>cp_conf := (cp_conf s)\<lparr>cfg_top := 1\<rparr>\<rparr>)" using ok by (simp add: cp_ok_top)
  show "config_case a s = Continue s' \<Longrightarrow> cp_ok s'"
  proof (cases a)
    case A_DOWN
    assume "config_case a s = Continue s'"
    then obtain s1 where s1: "CAP 0 (add_depth (- 1) s) = Continue s1" "advance s1 = Continue s'" by (auto simp: A_DOWN cp_then_Continue)
    show ?thesis
      by (rule cap_advance_ok [OF _ _ s1(1), of s' "cfg_go (cp_conf s)"], simp add: ok)
        (use cur s1(2) CAP_conf [OF s1(1)] in \<open>auto simp: advance_def add_depth_def\<close>)
  next
    case A_UP
    assume "config_case a s = Continue s'"
    then obtain s0 s1 where s1: "PUSH 0 ITEM_STRUCT s0 = Continue s1" "advance (add_depth 1 s1) = Continue s'" "s0 = s \<or> s0 = s\<lparr>cp_conf := (cp_conf s)\<lparr>cfg_top := 1\<rparr>\<rparr>"
      by (auto simp: A_UP cp_then_Continue Let_def split: if_splits)
    have "cp_ok s0" "cfg_cur (cp_conf s0) < cfg_end (cp_conf s0)" using s1(3) ok up cur by auto
    then show ?thesis
      by (rule push_advance_ok [OF _ _ s1(1), where s' = s' and g = "cfg_go (cp_conf s1)" and d = "cfg_depth (cp_conf s1) + 1"]) (use s1(2) in \<open>auto simp: advance_def add_depth_def\<close>)
  next
    case A_QDOWN
    assume "config_case a s = Continue s'"
    then obtain s1 where s1: "CAP (- 1) s = Continue s1" "advance (set_go Go_struct s1) = Continue s'" by (auto simp: A_QDOWN cp_then_Continue)
    show ?thesis
      by (rule cap_advance_ok [of s "- 1" s1 s' "Some Go_struct"]) (use ok cur s1 CAP_conf [OF s1(1)] in \<open>auto simp: advance_def set_go_def\<close>)
  next
    case A_UNBARE
    assume "config_case a s = Continue s'"
    then obtain s1 where s1: "CAP (- 1) s = Continue s1" "s' = set_go Go_struct s1" by (auto simp: A_UNBARE cp_then_Continue)
    show ?thesis by (rule cap_stay_ok [OF ok s1(1), of s' "Some Go_struct"]) (use s1 CAP_conf [OF s1(1)] in \<open>auto simp: set_go_def\<close>)
  next
    case A_QUP
    assume "config_case a s = Continue s'"
    then obtain s1 where s1: "PUSH 1 ITEM_STRING s = Continue s1" "advance (set_go Go_string s1) = Continue s'" by (auto simp: A_QUP cp_then_Continue)
    show ?thesis by (rule push_advance_ok [OF ok cur s1(1), where s' = s' and g = "Some Go_string" and d = "cfg_depth (cp_conf s1)"]) (use s1(2) in \<open>auto simp: advance_def set_go_def\<close>)
  next
    case A_BARE
    assume "config_case a s = Continue s'"
    then obtain s1 where s1: "PUSH 0 ITEM_ID s = Continue s1" "advance (set_go Go_bare s1) = Continue s'" by (auto simp: A_BARE cp_then_Continue)
    show ?thesis by (rule push_advance_ok [OF ok cur s1(1), where s' = s' and g = "Some Go_bare" and d = "cfg_depth (cp_conf s1)"]) (use s1(2) in \<open>auto simp: advance_def set_go_def\<close>)
  next
    case A_NUMBARE
    assume "config_case a s = Continue s'"
    then obtain s1 where s1: "PUSH 0 ITEM_NUM s = Continue s1" "advance (set_go Go_bare s1) = Continue s'" by (auto simp: A_NUMBARE cp_then_Continue)
    show ?thesis by (rule push_advance_ok [OF ok cur s1(1), where s' = s' and g = "Some Go_bare" and d = "cfg_depth (cp_conf s1)"]) (use s1(2) in \<open>auto simp: advance_def set_go_def\<close>)
  qed (rule cp_ok_moved [OF ok cur]; auto simp: advance_def set_go_def Let_def split: if_splits)+
  show "cp_ok s' \<and> 0 < it_len (cp_key s')" if "config_case a s = Return s' (Inr ())"
    using that cp_ok_moved [OF ok cur, of "s\<lparr>cp_conf := (cp_conf s)\<lparr>cfg_cur := cfg_cur (cp_conf s) + 1\<rparr>\<rparr>"] by (cases a) (auto simp: cp_then_def advance_def Let_def split: cp_step.splits if_splits)
qed

lemma loop_ok:
  assumes "cp_ok s" "config_loop sc s = (s', Inr ())"
  shows "cp_ok s' \<and> 0 < it_len (cp_key s')"
  using assms
proof (induction sc s rule: config_loop.induct)
  case (1 sc s)
  show ?case
  proof (cases "cfg_cur (cp_conf s) < cfg_end (cp_conf s)")
    case cur: True
    show ?thesis
    proof (cases "config_step sc s")
      case (Continue s1)
      then have "config_loop sc s1 = (s', Inr ())" using "1.prems"(2) cur by (subst (asm) config_loop.simps) simp
      moreover have "cp_ok s1" using Continue case_ok(1) [OF "1.prems"(1) cur] by (auto simp: config_step_def split: option.splits)
      ultimately show ?thesis using "1.IH" [OF cur Continue] by blast
    next
      case (Return s1 r)
      then have "config_step sc s = Return s' (Inr ())" using "1.prems"(2) cur by (subst (asm) config_loop.simps) simp
      then show ?thesis using case_ok(2) [OF "1.prems"(1) cur] by (auto simp: config_step_def split: option.splits)
    qed
  next
    case False
    then have e: "config_end s = (s', Inr ())" using "1.prems"(2) by (subst (asm) config_loop.simps) simp
    show ?thesis
    proof (cases "cfg_go (cp_conf s) = Some Go_bare")
      case True
      then obtain s1 where s1: "CAP (- 1) s = Continue s1" "config_found (set_go Go_struct s1) = (s', Inr ())"
        using e by (auto simp: config_end_def split: cp_step.splits)
      then have s': "s' = set_go Go_struct s1" "0 < it_len (cp_key s1)" by (auto simp: config_found_def set_go_def split: if_splits)
      have "cp_ok s'" by (rule cap_stay_ok [OF "1.prems"(1) s1(1), of s' "Some Go_struct"]) (use s' CAP_conf [OF s1(1)] in \<open>auto simp: set_go_def\<close>)
      then show ?thesis using s' by (simp add: set_go_def)
    next
      case False
      then show ?thesis using e "1.prems"(1) by (auto simp: config_end_def config_found_def split: if_splits)
    qed
  qed
qed

text \<open>A key and a value that are returned, and the parser for the next call.\<close>

lemma next_ok:
  assumes "conf_ok conf" "item_ok conf (key\<lparr>it_len := 0\<rparr>)" "config_next sc conf key = (conf', key', value', Inr ())"
  shows "conf_ok conf'" "item_ok conf' key'" "0 < it_len key'" "item_ok conf' value'"
proof -
  let ?conf = "if cfg_go conf = None then conf\<lparr>cfg_go := Some Go_struct\<rparr> else conf"
  let ?s = "\<lparr>cp_conf = ?conf, cp_key = key\<lparr>it_len := 0\<rparr>, cp_value = true_value, cp_out = False, utf8_remain = 0\<rparr>"
  obtain s' where s': "config_loop sc ?s = (s', Inr ())" "conf' = cp_conf s'" "key' = cp_key s'" "value' = cp_value s'"
    using assms(3) by (auto simp: config_next_def Let_def split: prod.splits)
  have "item_ok conf true_value" using assms(1) by (auto simp: conf_ok_def item_in_def true_value_def)
  then have "cp_ok ?s" using assms(1,2) by (simp add: cp_ok_def conf_ok_def)
  from loop_ok [OF this s'(1)] show "conf_ok conf'" "item_ok conf' key'" "0 < it_len key'" "item_ok conf' value'"
    using s' by (auto simp: cp_ok_def)
qed

section \<open>All items\<close>

text \<open>The items of a string, and the code with which the loop over them ends.\<close>

function config_items :: "bool \<Rightarrow> wt_config \<Rightarrow> wt_config_item \<Rightarrow> (wt_config_item \<times> wt_config_item) list \<times> wt_error" where
  "config_items sc conf k =
     (case config_next sc conf k of
        (conf', k', v, Inl e) \<Rightarrow> ([], e)
      | (conf', k', v, Inr _) \<Rightarrow> (case config_items sc conf' k' of (xs, e) \<Rightarrow> ((k', v) # xs, e)))"
  by pat_completeness auto
termination
  by (relation "measure (\<lambda>(sc, conf, k). left_to_do conf)") (auto dest: next_left [OF sym])

declare config_items.simps [simp del]

definition inside :: "bytes \<Rightarrow> wt_config_item \<Rightarrow> bool" where
  "inside s it \<longleftrightarrow> (\<exists>off. it_str it = Some (s, off) \<and> off + it_len it \<le> length s)"

lemma next_keeps:
  assumes "config_next sc conf key = (conf', key', value', Inr ())"
  shows "cfg_buf conf' = cfg_buf conf"
proof -
  have "cfg_buf (cp_conf s') = cfg_buf (cp_conf s)" if "config_loop sc s = (s', r)" "r = Inr ()" for s s' r
    using that
  proof (induction sc s rule: config_loop.induct)
    case (1 sc s)
    show ?case
    proof (cases "cfg_cur (cp_conf s) < cfg_end (cp_conf s)")
      case cur: True
      show ?thesis
      proof (cases "config_step sc s")
        case (Continue s1)
        then have "config_loop sc s1 = (s', r)" using "1.prems"(1) cur by (subst (asm) config_loop.simps) simp
        then show ?thesis using "1.IH" [OF cur Continue] "1.prems"(2) step_left(3) [OF Continue cur] by simp
      next
        case (Return s1 r1)
        then have "config_step sc s = Return s' (Inr ())" using "1.prems" cur by (subst (asm) config_loop.simps) simp
        then show ?thesis using case_Return_Inr [of _ s s'] by (auto simp: config_step_def split: option.splits)
      qed
    next
      case False
      then have "config_end s = (s', r)" using "1.prems"(1) by (subst (asm) config_loop.simps) simp
      then show ?thesis
        by (auto simp: config_end_def config_found_def set_go_def CAP_def set_out_def split: if_splits cp_step.splits option.splits)
    qed
  qed
  then show ?thesis using assms by (auto simp: config_next_def Let_def split: prod.splits if_splits)
qed

lemma items_inside:
  assumes "conf_ok conf" "item_ok conf (k\<lparr>it_len := 0\<rparr>)" "(k', v) \<in> set (fst (config_items sc conf k))"
  shows "inside (cfg_buf conf) k' \<and> 0 < it_len k' \<and> (it_len v = 0 \<or> inside (cfg_buf conf) v)"
  using assms
proof (induction sc conf k rule: config_items.induct)
  case (1 sc conf k)
  obtain conf1 k1 v1 where n: "config_next sc conf k = (conf1, k1, v1, Inr ())"
    using "1.prems"(3) by (subst (asm) config_items.simps) (auto split: prod.splits sum.splits)
  note N = next_ok [OF "1.prems"(1,2) n] and b = next_keeps [OF n]
  have "cfg_cur conf1 \<le> length (cfg_buf conf)" using N(1) b by (simp add: conf_ok_def)
  then have here: "inside (cfg_buf conf) k1" "it_len v1 = 0 \<or> inside (cfg_buf conf) v1"
    using N(2-4) b by (auto simp: item_in_def inside_def split: option.splits if_splits)
  have k1: "item_ok conf1 (k1\<lparr>it_len := 0\<rparr>)" using N(2) by (auto simp: item_in_def split: option.splits if_splits)
  have "(k', v) = (k1, v1) \<or> (k', v) \<in> set (fst (config_items sc conf1 k1))"
    using "1.prems"(3) by (subst (asm) config_items.simps) (auto simp: n split: prod.splits)
  then show ?case using here N(3) "1.IH" [OF n [symmetric] refl refl refl N(1) k1] b by auto
qed

lemma init_ok:
  assumes "length s < 2 ^ 64"
  shows "conf_ok (wt_config_init (Some s))" "cfg_buf (wt_config_init (Some s)) = s" "item_ok (wt_config_init (Some s)) (item_undef\<lparr>it_len := 0\<rparr>)"
  using assms by (simp_all add: wt_config_init_def wt_config_initn_def conf_ok_def item_in_def item_undef_def)


section \<open>Printed lists of entries\<close>

text \<open>
  Entries as they are written: bare words, quoted strings and nested lists, each entry a key or a
  key and a value.
\<close>

datatype cval = CWord bytes | CQuoted bytes | CStruct clist
  and clist = CNone | CKey cval clist | CPair cval cval clist

definition QUOTE :: u8 where "QUOTE = 0x22"
definition LPAREN :: u8 where "LPAREN = 0x28"
definition RPAREN :: u8 where "RPAREN = 0x29"
definition BACKSLASH :: u8 where "BACKSLASH = 0x5c"

fun config_print_val :: "cval \<Rightarrow> bytes" and config_print :: "clist \<Rightarrow> bytes" where
  "config_print_val (CWord w) = w"
| "config_print_val (CQuoted w) = [QUOTE] @ w @ [QUOTE]"
| "config_print_val (CStruct l) = [LPAREN] @ config_print l @ [RPAREN]"
| "config_print CNone = []"
| "config_print (CKey k l) = config_print_val k @ (if l = CNone then [] else [COMMA] @ config_print l)"
| "config_print (CPair k v l) =
     config_print_val k @ [EQ] @ config_print_val v @ (if l = CNone then [] else [COMMA] @ config_print l)"

text \<open>The characters of a bare word, those that start an identifier or a number, and quoted strings.\<close>

definition id_start :: "u8 \<Rightarrow> bool" where
  "id_start c \<longleftrightarrow> 0x41 \<le> c \<and> c \<le> 0x5a \<or> 0x61 \<le> c \<and> c \<le> 0x7a \<or> c = 0x5f"

definition num_start :: "u8 \<Rightarrow> bool" where
  "num_start c \<longleftrightarrow> 0x30 \<le> c \<and> c \<le> 0x39 \<or> c = 0x2d"

definition word_char :: "u8 \<Rightarrow> bool" where
  "word_char c \<longleftrightarrow> 0x21 \<le> c \<and> c \<le> 0x7e \<and> c \<notin> {RPAREN, COMMA, COLON, EQ, 0x5d, 0x7d}"

definition string_char :: "u8 \<Rightarrow> bool" where
  "string_char c \<longleftrightarrow> 0x20 \<le> c \<and> c \<le> 0x7e \<and> c \<noteq> QUOTE \<and> c \<noteq> BACKSLASH"

fun string_ok :: "bytes \<Rightarrow> bool" where
  "string_ok [] = True"
| "string_ok (c # cs) =
     (if c = BACKSLASH then
        (case cs of [] \<Rightarrow> False | d # ds \<Rightarrow> d \<in> {QUOTE, BACKSLASH, 0x2f, 0x62, 0x66, 0x6e, 0x72, 0x74, 0x75} \<and> string_ok ds)
      else string_char c \<and> string_ok cs)"

definition word_ok :: "bytes \<Rightarrow> bool" where
  "word_ok w \<longleftrightarrow> w \<noteq> [] \<and> (id_start (hd w) \<or> num_start (hd w)) \<and> list_all word_char (tl w)"

fun cval_ok :: "cval \<Rightarrow> bool" and clist_ok :: "clist \<Rightarrow> bool" where
  "cval_ok (CWord w) = word_ok w"
| "cval_ok (CQuoted w) = string_ok w"
| "cval_ok (CStruct l) = clist_ok l"
| "clist_ok CNone = True"
| "clist_ok (CKey k l) = (cval_ok k \<and> clist_ok l)"
| "clist_ok (CPair k v l) = (cval_ok k \<and> cval_ok v \<and> clist_ok l)"

text \<open>At the top level a key is a word or a string that is not empty.\<close>

fun key_ok :: "cval \<Rightarrow> bool" where
  "key_ok (CStruct l) = False"
| "key_ok (CWord w) = True"
| "key_ok (CQuoted w) = (w \<noteq> [])"

fun top_ok :: "clist \<Rightarrow> bool" where
  "top_ok CNone = True"
| "top_ok (CKey k l) = (key_ok k \<and> top_ok l)"
| "top_ok (CPair k v l) = (key_ok k \<and> top_ok l)"

text \<open>What is read back: a type and a text; a key without a value has the value one.\<close>

fun cval_read :: "cval \<Rightarrow> item_type \<times> bytes" where
  "cval_read (CWord w) = (if id_start (hd w) then ITEM_ID else ITEM_NUM, w)"
| "cval_read (CQuoted w) = (ITEM_STRING, w)"
| "cval_read (CStruct l) = (ITEM_STRUCT, config_print_val (CStruct l))"

fun clist_read :: "clist \<Rightarrow> ((item_type \<times> bytes) \<times> (item_type \<times> bytes)) list" where
  "clist_read CNone = []"
| "clist_read (CKey k l) = (cval_read k, (ITEM_NUM, [])) # clist_read l"
| "clist_read (CPair k v l) = (cval_read k, cval_read v) # clist_read l"

definition item_read :: "wt_config_item \<Rightarrow> item_type \<times> bytes" where
  "item_read it = (it_type it, case it_str it of None \<Rightarrow> [] | Some (b, off) \<Rightarrow> take (it_len it) (drop off b))"

section \<open>The tables on the characters of printed lists\<close>

fun table_all :: "(u8 \<Rightarrow> config_action \<Rightarrow> bool) \<Rightarrow> u8 \<Rightarrow> config_action list \<Rightarrow> bool" where
  "table_all P c [] = True"
| "table_all P c (a # t) = (P c a \<and> table_all P (c + 1) t)"

lemma table_all_nth: "table_all P c t \<Longrightarrow> i < length t \<Longrightarrow> P (c + of_nat i) (t ! i)"
  by (induction P c t arbitrary: i rule: table_all.induct) (auto simp: nth_Cons add.assoc split: nat.splits)

lemma table_entry:
  assumes "table_all P 0 t" "length t = 256"
  shows "P c (t ! unat c)"
  using table_all_nth [OF assms(1), of "unat c"] assms(2) unat_u8 [of c] by simp

lemma struct_id: "id_start c \<longrightarrow> gostruct ! unat c = A_BARE \<and> c \<le> 127"
  by (rule table_entry [of "\<lambda>c a. id_start c \<longrightarrow> a = A_BARE \<and> c \<le> 127"]) (code_simp, rule length_tables)

lemma struct_num: "num_start c \<longrightarrow> gostruct ! unat c = A_NUMBARE \<and> c \<le> 127"
  by (rule table_entry [of "\<lambda>c a. num_start c \<longrightarrow> a = A_NUMBARE \<and> c \<le> 127"]) (code_simp, rule length_tables)

lemma bare_word: "word_char c \<longrightarrow> gobare ! unat c = A_LOOP \<and> c \<le> 127"
  by (rule table_entry [of "\<lambda>c a. word_char c \<longrightarrow> a = A_LOOP \<and> c \<le> 127"]) (code_simp, rule length_tables)

lemma string_loop: "string_char c \<longrightarrow> gostring ! unat c = A_LOOP \<and> c \<le> 127"
  by (rule table_entry [of "\<lambda>c a. string_char c \<longrightarrow> a = A_LOOP \<and> c \<le> 127"]) (code_simp, rule length_tables)

lemma struct_chars:
  "gostruct ! unat QUOTE = A_QUP" "gostruct ! unat LPAREN = A_UP" "gostruct ! unat RPAREN = A_DOWN"
  "gostruct ! unat COMMA = A_NEXT" "gostruct ! unat EQ = A_VALUE"
  "gobare ! unat RPAREN = A_UNBARE" "gobare ! unat COMMA = A_UNBARE" "gobare ! unat EQ = A_UNBARE"
  "gostring ! unat QUOTE = A_QDOWN" "gostring ! unat BACKSLASH = A_ESC"
  by code_simp+

lemma ascii_chars: "QUOTE \<le> 127" "LPAREN \<le> 127" "RPAREN \<le> 127" "COMMA \<le> 127" "EQ \<le> 127" "BACKSLASH \<le> 127" "EQ \<noteq> COLON"
  by code_simp+

lemma esc_char: "d \<in> {QUOTE, BACKSLASH, 0x2f, 0x62, 0x66, 0x6e, 0x72, 0x74, 0x75} \<Longrightarrow> goesc ! unat d = A_UNESC \<and> d \<le> 127"
proof -
  have "\<forall>d\<in>set [QUOTE, BACKSLASH, 0x2f, 0x62, 0x66, 0x6e, 0x72, 0x74, 0x75]. goesc ! unat d = A_UNESC \<and> d \<le> 127"
    by code_simp
  then show "d \<in> {QUOTE, BACKSLASH, 0x2f, 0x62, 0x66, 0x6e, 0x72, 0x74, 0x75} \<Longrightarrow> goesc ! unat d = A_UNESC \<and> d \<le> 127"
    by auto
qed

section \<open>Runs of the parser over printed entries\<close>

abbreviation at :: "bytes \<Rightarrow> nat \<Rightarrow> go_table \<Rightarrow> int \<Rightarrow> int \<Rightarrow> wt_config_item \<Rightarrow> wt_config_item \<Rightarrow> bool \<Rightarrow> cp_state" where
  "at buf n g d t k v out \<equiv> \<lparr>cp_conf = \<lparr>cfg_buf = buf, cfg_orig = 0, cfg_end = length buf, cfg_cur = n, cfg_depth = d,
     cfg_top = t, cfg_go = Some g\<rparr>, cp_key = k, cp_value = v, cp_out = out, utf8_remain = 0\<rparr>"

lemma loop_step:
  assumes "config_step sc s = Continue s'" "cfg_cur (cp_conf s) < cfg_end (cp_conf s)"
  shows "config_loop sc s = config_loop sc s'"
  using assms by (subst config_loop.simps) simp

lemma loop_char:
  assumes "config_case (go_entries g ! unat c) (at (pre @ c # rest) (length pre) g d t k v out) = Continue s'" "c \<le> 127"
  shows "config_loop sc (at (pre @ c # rest) (length pre) g d t k v out) = config_loop sc s'"
  by (rule loop_step) (use assms in \<open>simp_all add: config_step_def cur_action_def cur_char_def not_less\<close>)

lemma word_run:
  "list_all word_char w \<Longrightarrow>
   config_loop sc (at (pre @ w @ rest) (length pre) Go_bare d t k v out) =
   config_loop sc (at (pre @ w @ rest) (length pre + length w) Go_bare d t k v out)"
proof (induction w arbitrary: pre)
  case (Cons c w)
  have "config_loop sc (at (pre @ c # w @ rest) (length pre) Go_bare d t k v out) =
      config_loop sc (at ((pre @ [c]) @ w @ rest) (length (pre @ [c])) Go_bare d t k v out)"
    by (rule loop_char) (use Cons.prems bare_word in \<open>auto simp: advance_def\<close>)
  also have "\<dots> = config_loop sc (at ((pre @ [c]) @ w @ rest) (length (pre @ [c]) + length w) Go_bare d t k v out)"
    by (rule Cons.IH) (use Cons.prems in simp)
  finally show ?case by simp
qed simp

lemma string_run:
  "string_ok w \<Longrightarrow>
   config_loop sc (at (pre @ w @ rest) (length pre) Go_string d t k v out) =
   config_loop sc (at (pre @ w @ rest) (length pre + length w) Go_string d t k v out)"
proof (induction w arbitrary: pre rule: string_ok.induct)
  case (2 c cs)
  show ?case
  proof (cases "c = BACKSLASH")
    case True
    with "2.prems" obtain e ds where cs: "cs = e # ds" "e \<in> {QUOTE, BACKSLASH, 0x2f, 0x62, 0x66, 0x6e, 0x72, 0x74, 0x75}" "string_ok ds"
      by (auto split: list.splits)
    have "config_loop sc (at (pre @ c # e # ds @ rest) (length pre) Go_string d t k v out) =
        config_loop sc (at ((pre @ [c]) @ e # ds @ rest) (length (pre @ [c])) Go_esc d t k v out)"
      by (rule loop_char) (use True in \<open>auto simp: advance_def struct_chars ascii_chars set_go_def\<close>)
    also have "\<dots> = config_loop sc (at ((pre @ [c, e]) @ ds @ rest) (length (pre @ [c, e])) Go_string d t k v out)"
      by (rule loop_char) (use esc_char [OF cs(2)] in \<open>auto simp: advance_def set_go_def\<close>)
    also have "\<dots> = config_loop sc (at ((pre @ [c, e]) @ ds @ rest) (length (pre @ [c, e]) + length ds) Go_string d t k v out)"
      by (rule "2.IH"(1) [OF True cs(1,3)])
    finally show ?thesis using cs(1) by simp
  next
    case False
    with "2.prems" have c: "string_char c" "string_ok cs" by simp_all
    have "config_loop sc (at (pre @ c # cs @ rest) (length pre) Go_string d t k v out) =
        config_loop sc (at ((pre @ [c]) @ cs @ rest) (length (pre @ [c])) Go_string d t k v out)"
      by (rule loop_char) (use c string_loop in \<open>auto simp: advance_def\<close>)
    also have "\<dots> = config_loop sc (at ((pre @ [c]) @ cs @ rest) (length (pre @ [c]) + length cs) Go_string d t k v out)"
      by (rule "2.IH"(2) [OF False c(2)])
    finally show ?thesis by simp
  qed
qed simp

text \<open>Nested below the top level nothing is recorded.\<close>

definition delimited :: "bytes \<Rightarrow> bool" where
  "delimited rest \<longleftrightarrow> rest = [] \<or> hd rest \<in> {COMMA, EQ, RPAREN}"

lemma delim_char: "c \<in> {COMMA, EQ, RPAREN} \<Longrightarrow> gobare ! unat c = A_UNBARE \<and> c \<le> 127"
  by (auto simp: struct_chars ascii_chars)

lemma leave_bare:
  assumes "c \<in> {COMMA, EQ, RPAREN}" "CAP (- 1) (at (pre @ c # rest) (length pre) Go_bare d t k v out) = Continue (at (pre @ c # rest) (length pre) Go_bare d t k' v' out)"
  shows "config_loop sc (at (pre @ c # rest) (length pre) Go_bare d t k v out) = config_loop sc (at (pre @ c # rest) (length pre) Go_struct d t k' v' out)"
  by (rule loop_char) (use delim_char [OF assms(1)] assms(2) in \<open>auto simp: cp_then_def set_go_def\<close>)

lemma end_bare:
  assumes "CAP (- 1) (at buf (length buf) Go_bare d t k v out) = Continue (at buf (length buf) Go_bare d t k' v' out)"
  shows "config_loop sc (at buf (length buf) Go_bare d t k v out) = config_loop sc (at buf (length buf) Go_struct d t k' v' out)"
  by (subst (1 2) config_loop.simps) (simp add: config_end_def assms set_go_def)

text \<open>A word, from its first character to the delimiter behind it.\<close>

lemma word_token:
  assumes "word_ok w" "delimited rest"
    and "PUSH 0 (if id_start (hd w) then ITEM_ID else ITEM_NUM) (at (pre @ w @ rest) (length pre) Go_struct d t k v out) =
      Continue (at (pre @ w @ rest) (length pre) Go_struct d t' k' v' out)"
    and "CAP (- 1) (at (pre @ w @ rest) (length pre + length w) Go_bare d t' k' v' out) =
      Continue (at (pre @ w @ rest) (length pre + length w) Go_bare d t' k'' v'' out)"
  shows "config_loop sc (at (pre @ w @ rest) (length pre) Go_struct d t k v out) =
    config_loop sc (at (pre @ w @ rest) (length pre + length w) Go_struct d t' k'' v'' out)"
proof -
  obtain c cs where w: "w = c # cs" "id_start c \<or> num_start c" "list_all word_char cs"
    using assms(1) by (cases w) (auto simp: word_ok_def)
  have "config_case (go_entries Go_struct ! unat c) (at (pre @ c # cs @ rest) (length pre) Go_struct d t k v out) =
      Continue (at (pre @ c # cs @ rest) (length pre + 1) Go_bare d t' k' v' out)"
  proof (cases "id_start c")
    case True
    then have "go_entries Go_struct ! unat c = A_BARE" using struct_id by simp
    then show ?thesis using assms(3) w(1) True by (simp add: cp_then_def advance_def set_go_def)
  next
    case False
    then have "go_entries Go_struct ! unat c = A_NUMBARE" using struct_num w(2) by simp
    then show ?thesis using assms(3) w(1) False by (simp add: cp_then_def advance_def set_go_def)
  qed
  then have "config_loop sc (at (pre @ c # cs @ rest) (length pre) Go_struct d t k v out) =
      config_loop sc (at (pre @ c # cs @ rest) (length pre + 1) Go_bare d t' k' v' out)"
    by (rule loop_char) (use w(2) struct_id struct_num in auto)
  also have "\<dots> = config_loop sc (at (pre @ c # cs @ rest) (length (pre @ [c]) + length cs) Go_bare d t' k' v' out)"
    using word_run [OF w(3), of sc "pre @ [c]"] by simp
  also have "\<dots> = config_loop sc (at (pre @ w @ rest) (length pre + length w) Go_struct d t' k'' v'' out)"
  proof (cases rest)
    case Nil
    then show ?thesis using end_bare [of "pre @ w"] assms(4) w(1) by simp
  next
    case (Cons e rest')
    then show ?thesis using leave_bare [of e "pre @ w"] assms(2,4) w(1) by (simp add: delimited_def)
  qed
  finally show ?thesis using w(1) by simp
qed

lemma quoted_token:
  assumes "string_ok w"
    and "PUSH 1 ITEM_STRING (at (pre @ QUOTE # w @ QUOTE # rest) (length pre) Go_struct d t k v out) =
      Continue (at (pre @ QUOTE # w @ QUOTE # rest) (length pre) Go_struct d t' k' v' out)"
    and "CAP (- 1) (at (pre @ QUOTE # w @ QUOTE # rest) (length pre + length w + 1) Go_string d t' k' v' out) =
      Continue (at (pre @ QUOTE # w @ QUOTE # rest) (length pre + length w + 1) Go_string d t' k'' v'' out)"
  shows "config_loop sc (at (pre @ QUOTE # w @ QUOTE # rest) (length pre) Go_struct d t k v out) =
    config_loop sc (at (pre @ QUOTE # w @ QUOTE # rest) (length pre + length w + 2) Go_struct d t' k'' v'' out)"
proof -
  have "config_loop sc (at (pre @ QUOTE # w @ QUOTE # rest) (length pre) Go_struct d t k v out) =
      config_loop sc (at ((pre @ [QUOTE]) @ w @ QUOTE # rest) (length (pre @ [QUOTE])) Go_string d t' k' v' out)"
    by (rule loop_char) (use assms(2) in \<open>simp_all add: struct_chars ascii_chars cp_then_def advance_def set_go_def\<close>)
  also have "\<dots> = config_loop sc (at ((pre @ [QUOTE] @ w) @ QUOTE # rest) (length (pre @ [QUOTE] @ w)) Go_string d t' k' v' out)"
    using string_run [OF assms(1), of sc "pre @ [QUOTE]" "QUOTE # rest"] by simp
  also have "\<dots> = config_loop sc (at (pre @ QUOTE # w @ QUOTE # rest) (length pre + length w + 2) Go_struct d t' k'' v'' out)"
    by (rule loop_char) (use assms(3) in \<open>simp_all add: struct_chars ascii_chars cp_then_def advance_def set_go_def\<close>)
  finally show ?thesis .
qed

lemma nested_noop:
  assumes "0 \<le> t" "t < d"
  shows "PUSH i ty (at buf n g d t k v out) = Continue (at buf n g d t k v out)" "CAP j (at buf n g d t k v out) = Continue (at buf n g d t k v out)"
  using assms by (simp_all add: PUSH_def CAP_def)

lemma nested_char:
  assumes "0 \<le> t" "t < d" "c = COMMA \<or> c = EQ"
  shows "config_loop sc (at (pre @ c # rest) (length pre) Go_struct d t k v out) = config_loop sc (at (pre @ c # rest) (length pre + 1) Go_struct d t k v out)"
  by (rule loop_char) (use assms in \<open>auto simp: struct_chars ascii_chars advance_def\<close>)

lemma nested_run:
  shows "cval_ok x \<Longrightarrow> 0 \<le> t \<Longrightarrow> t < d \<Longrightarrow> delimited rest \<Longrightarrow>
    config_loop sc (at (pre @ config_print_val x @ rest) (length pre) Go_struct d t k v out) =
    config_loop sc (at (pre @ config_print_val x @ rest) (length pre + length (config_print_val x)) Go_struct d t k v out)"
  and "clist_ok l \<Longrightarrow> 0 \<le> t \<Longrightarrow> t < d \<Longrightarrow> delimited rest \<Longrightarrow>
    config_loop sc (at (pre @ config_print l @ rest) (length pre) Go_struct d t k v out) =
    config_loop sc (at (pre @ config_print l @ rest) (length pre + length (config_print l)) Go_struct d t k v out)"
proof (induction x and l arbitrary: pre rest d and pre rest d)
  case (CWord w)
  then have "word_ok w" "t < d" by simp_all
  from word_token [OF this(1) CWord.prems(4) nested_noop(1) [OF CWord.prems(2) this(2)] nested_noop(2) [OF CWord.prems(2) this(2)]]
  show ?case by simp
next
  case (CQuoted w)
  then have "string_ok w" "t < d" by simp_all
  from quoted_token [OF this(1) nested_noop(1) [OF CQuoted.prems(2) this(2)] nested_noop(2) [OF CQuoted.prems(2) this(2)]]
  show ?case by simp
next
  case (CStruct l)
  let ?b = "pre @ LPAREN # config_print l @ RPAREN # rest"
  have "config_loop sc (at ?b (length pre) Go_struct d t k v out) = config_loop sc (at ?b (length pre + 1) Go_struct (d + 1) t k v out)"
    by (rule loop_char) (use CStruct.prems in \<open>simp_all add: PUSH_def CAP_def struct_chars ascii_chars cp_then_def advance_def add_depth_def\<close>)
  also have "\<dots> = config_loop sc (at ((pre @ LPAREN # config_print l) @ RPAREN # rest) (length (pre @ LPAREN # config_print l)) Go_struct (d + 1) t k v out)"
    using CStruct.IH [of "d + 1" "RPAREN # rest" "pre @ [LPAREN]"] CStruct.prems by (simp add: delimited_def)
  also have "\<dots> = config_loop sc (at ?b (length pre + length (config_print l) + 2) Go_struct d t k v out)"
    by (rule loop_char) (use CStruct.prems in \<open>simp_all add: PUSH_def CAP_def struct_chars ascii_chars cp_then_def advance_def add_depth_def\<close>)
  finally show ?case by simp
next
  case CNone
  then show ?case by simp
next
  case (CKey x l)
  show ?case
  proof (cases "l = CNone")
    case True
    then show ?thesis using CKey by simp
  next
    case False
    let ?b = "pre @ config_print_val x @ COMMA # config_print l @ rest"
    have "config_loop sc (at ?b (length pre) Go_struct d t k v out) = config_loop sc (at ?b (length (pre @ config_print_val x)) Go_struct d t k v out)"
      using CKey.IH(1) [of d "COMMA # config_print l @ rest" pre] CKey.prems by (simp add: delimited_def)
    also have "\<dots> = config_loop sc (at ?b (length (pre @ config_print_val x @ [COMMA])) Go_struct d t k v out)"
      using nested_char [of t d COMMA sc "pre @ config_print_val x" "config_print l @ rest"] CKey.prems by simp
    also have "\<dots> = config_loop sc (at ?b (length (pre @ config_print_val x @ [COMMA]) + length (config_print l)) Go_struct d t k v out)"
      using CKey.IH(2) [of d rest "pre @ config_print_val x @ [COMMA]"] CKey.prems by simp
    finally show ?thesis using False by (simp add: add.assoc)
  qed
next
  case (CPair x y l)
  let ?r = "(if l = CNone then [] else COMMA # config_print l)"
  let ?b = "pre @ config_print_val x @ EQ # config_print_val y @ ?r @ rest"
  have dl: "delimited (?r @ rest)" using CPair.prems by (simp add: delimited_def)
  have "config_loop sc (at ?b (length pre) Go_struct d t k v out) = config_loop sc (at ?b (length (pre @ config_print_val x)) Go_struct d t k v out)"
    using CPair.IH(1) [of d "EQ # config_print_val y @ ?r @ rest" pre] CPair.prems by (simp add: delimited_def)
  also have "\<dots> = config_loop sc (at ?b (length (pre @ config_print_val x @ [EQ])) Go_struct d t k v out)"
    using nested_char [of t d EQ sc "pre @ config_print_val x" "config_print_val y @ ?r @ rest"] CPair.prems by simp
  also have "\<dots> = config_loop sc (at ?b (length (pre @ config_print_val x @ [EQ] @ config_print_val y)) Go_struct d t k v out)"
    using CPair.IH(2) [OF _ _ _ dl, of d "pre @ config_print_val x @ [EQ]"] CPair.prems by (simp add: add.assoc)
  also have "\<dots> = config_loop sc (at ?b (length (pre @ config_print_val x @ [EQ] @ config_print_val y @ ?r)) Go_struct d t k v out)"
  proof (cases "l = CNone")
    case False
    then show ?thesis
      using nested_char [of t d COMMA sc "pre @ config_print_val x @ [EQ] @ config_print_val y" "config_print l @ rest"]
        CPair.IH(3) [of d rest "pre @ config_print_val x @ [EQ] @ config_print_val y @ [COMMA]"] CPair.prems by (simp add: add.assoc)
  qed simp
  finally show ?case by (cases "l = CNone") (simp_all add: add.assoc)
qed

text \<open>At the top level a token is recorded in the key or in the value.\<close>

fun text_start :: "cval \<Rightarrow> nat" where
  "text_start (CQuoted w) = 1"
| "text_start (CWord w) = 0"
| "text_start (CStruct l) = 0"

definition item_at :: "bytes \<Rightarrow> nat \<Rightarrow> cval \<Rightarrow> wt_config_item \<Rightarrow> wt_config_item" where
  "item_at buf n x it = it\<lparr>it_type := fst (cval_read x), it_str := Some (buf, n + text_start x), it_len := length (snd (cval_read x))\<rparr>"

lemma push_top:
  assumes "t = - 1 \<or> t = 0" "it_len (if out then v else k) = 0"
  shows "PUSH i ty (at buf n g 0 t k v out) = Continue (at buf n g 0 0
    (if out then k else k\<lparr>it_type := ty, it_str := Some (buf, n + i)\<rparr>) (if out then v\<lparr>it_type := ty, it_str := Some (buf, n + i)\<rparr> else v) out)"
  using assms by (auto simp: PUSH_def out_item_def set_out_def)

lemma cap_top_item:
  assumes "it_str (if out then v else k) = Some (buf, off)"
    "(int n + i + 1 - int off) mod 2 ^ 64 = int m"
  shows "CAP i (at buf n g 0 0 k v out) = Continue (at buf n g 0 0
    (if out then k else k\<lparr>it_len := m\<rparr>) (if out then v\<lparr>it_len := m\<rparr> else v) out)"
  using assms by (auto simp: CAP_def out_item_def set_out_def)

lemma top_token:
  assumes "cval_ok x" "delimited rest" "length (pre @ config_print_val x @ rest) < 2 ^ 64"
    and "t = 0 \<or> t = - 1 \<and> key_ok x" "it_len (if out then v else k) = 0"
  shows "config_loop sc (at (pre @ config_print_val x @ rest) (length pre) Go_struct 0 t k v out) =
    config_loop sc (at (pre @ config_print_val x @ rest) (length pre + length (config_print_val x)) Go_struct 0 0
      (if out then k else item_at (pre @ config_print_val x @ rest) (length pre) x k)
      (if out then item_at (pre @ config_print_val x @ rest) (length pre) x v else v) out)"
proof (cases x)
  case (CWord w)
  have p: "t = - 1 \<or> t = 0" using assms(4) by blast
  show ?thesis unfolding CWord config_print_val.simps
    by (rule word_token [OF _ assms(2) push_top [OF p assms(5)] trans [OF cap_top_item]])
      (use assms CWord in \<open>auto simp: item_at_def mod_pos_pos_trivial\<close>)
next
  case (CQuoted w)
  have p: "t = - 1 \<or> t = 0" using assms(4) by blast
  let ?b = "pre @ QUOTE # w @ QUOTE # rest"
  have "config_loop sc (at ?b (length pre) Go_struct 0 t k v out) = config_loop sc (at ?b (length pre + length w + 2) Go_struct 0 0
      (if out then k else item_at ?b (length pre) x k) (if out then item_at ?b (length pre) x v else v) out)"
    by (rule quoted_token [OF _ push_top [OF p assms(5)] trans [OF cap_top_item]])
      (use assms CQuoted in \<open>auto simp: item_at_def mod_pos_pos_trivial\<close>)
  then show ?thesis using CQuoted by simp
next
  case (CStruct l)
  let ?b = "pre @ LPAREN # config_print l @ RPAREN # rest"
  let ?p = "\<lambda>it. it\<lparr>it_type := ITEM_STRUCT, it_str := Some (?b, length pre)\<rparr>"
  have t: "t = 0" using assms(4) CStruct by auto
  have "config_loop sc (at ?b (length pre) Go_struct 0 t k v out) =
      config_loop sc (at ?b (length pre + 1) Go_struct 1 0 (if out then k else ?p k) (if out then ?p v else v) out)"
    by (rule loop_char) (use t assms(5) in \<open>auto simp: PUSH_def out_item_def set_out_def struct_chars ascii_chars cp_then_def advance_def add_depth_def\<close>)
  also have "\<dots> = config_loop sc (at ((pre @ LPAREN # config_print l) @ RPAREN # rest) (length (pre @ LPAREN # config_print l)) Go_struct 1 0 (if out then k else ?p k) (if out then ?p v else v) out)"
    using nested_run(2) [of l 0 1 "RPAREN # rest" sc "pre @ [LPAREN]"] assms(1) CStruct by (simp add: delimited_def)
  also have "\<dots> = config_loop sc (at ?b (length pre + length (config_print l) + 2) Go_struct 0 0 (if out then k else item_at ?b (length pre) x k)
      (if out then item_at ?b (length pre) x v else v) out)"
    by (rule loop_char) (use assms(3) CStruct in \<open>auto simp: CAP_def out_item_def set_out_def item_at_def mod_pos_pos_trivial struct_chars ascii_chars cp_then_def advance_def add_depth_def\<close>)
  finally show ?thesis using CStruct by simp
qed

abbreviation conf_at :: "bytes \<Rightarrow> nat \<Rightarrow> int \<Rightarrow> go_table option \<Rightarrow> wt_config" where
  "conf_at buf n t g \<equiv> \<lparr>cfg_buf = buf, cfg_orig = 0, cfg_end = length buf, cfg_cur = n, cfg_depth = 0, cfg_top = t, cfg_go = g\<rparr>"

lemma entry_end:
  assumes "rest = [] \<or> hd rest = COMMA" "0 < it_len k"
  shows "config_loop sc (at (pre @ rest) (length pre) Go_struct 0 0 k v out) =
    (at (pre @ rest) (length (pre @ take 1 rest)) Go_struct 0 0 k v out, Inr ())"
proof (cases rest)
  case Nil
  then show ?thesis using assms(2) by (subst config_loop.simps) (simp add: config_end_def config_found_def)
next
  case (Cons c r)
  then have "config_step sc (at (pre @ rest) (length pre) Go_struct 0 0 k v out) =
      Return (at (pre @ rest) (length pre + 1) Go_struct 0 0 k v out) (Inr ())"
    using assms ascii_chars(4) by (simp add: config_step_def cur_action_def cur_char_def struct_chars not_less)
  then show ?thesis using Cons by (subst config_loop.simps) simp
qed

lemma entry_value:
  "config_loop sc (at (pre @ EQ # rest) (length pre) Go_struct 0 0 k v False) = config_loop sc (at (pre @ EQ # rest) (length pre + 1) Go_struct 0 0 k v True)"
  by (rule loop_char) (simp_all add: struct_chars ascii_chars advance_def)

lemma key_len:
  assumes "cval_ok x" "key_ok x"
  shows "0 < it_len (item_at buf n x it)"
  using assms by (cases x) (auto simp: item_at_def word_ok_def)

lemma end_delimited: "rest = [] \<or> hd rest = COMMA \<Longrightarrow> delimited rest"
  by (auto simp: delimited_def)

lemma next_start:
  assumes "config_loop sc (at buf n Go_struct 0 t (key\<lparr>it_len := 0\<rparr>) true_value False) = (at buf m Go_struct 0 0 k v out, r)" "g = None \<or> g = Some Go_struct"
  shows "config_next sc (conf_at buf n t g) key = (conf_at buf m 0 (Some Go_struct), k, v, r)"
  using assms by (auto simp: config_next_def)

lemma next_key:
  assumes "cval_ok x" "key_ok x" "rest = [] \<or> hd rest = COMMA" "length (pre @ config_print_val x @ rest) < 2 ^ 64"
    and "t = 0 \<or> t = - 1" "g = None \<or> g = Some Go_struct"
  shows "config_next sc (conf_at (pre @ config_print_val x @ rest) (length pre) t g) key =
    (conf_at (pre @ config_print_val x @ rest) (length (pre @ config_print_val x @ take 1 rest)) 0 (Some Go_struct),
     item_at (pre @ config_print_val x @ rest) (length pre) x (key\<lparr>it_len := 0\<rparr>), true_value, Inr ())"
proof (rule next_start [OF _ assms(6)])
  let ?b = "pre @ config_print_val x @ rest" and ?k = "item_at (pre @ config_print_val x @ rest) (length pre) x (key\<lparr>it_len := 0\<rparr>)"
  have "config_loop sc (at ?b (length pre) Go_struct 0 t (key\<lparr>it_len := 0\<rparr>) true_value False) =
      config_loop sc (at ((pre @ config_print_val x) @ rest) (length (pre @ config_print_val x)) Go_struct 0 0 ?k true_value False)"
    using top_token [OF assms(1) end_delimited [OF assms(3)] assms(4), of t False] assms(2,5) by auto
  also have "\<dots> = (at ((pre @ config_print_val x) @ rest) (length ((pre @ config_print_val x) @ take 1 rest)) Go_struct 0 0 ?k true_value False, Inr ())"
    by (rule entry_end [OF assms(3) key_len [OF assms(1,2)]])
  finally show "config_loop sc (at ?b (length pre) Go_struct 0 t (key\<lparr>it_len := 0\<rparr>) true_value False) =
      (at ?b (length (pre @ config_print_val x @ take 1 rest)) Go_struct 0 0 ?k true_value False, Inr ())" by simp
qed

lemma next_pair:
  assumes "cval_ok x" "key_ok x" "cval_ok y" "rest = [] \<or> hd rest = COMMA" "length (pre @ config_print_val x @ EQ # config_print_val y @ rest) < 2 ^ 64"
    and "t = 0 \<or> t = - 1" "g = None \<or> g = Some Go_struct"
  shows "config_next sc (conf_at (pre @ config_print_val x @ EQ # config_print_val y @ rest) (length pre) t g) key =
    (conf_at (pre @ config_print_val x @ EQ # config_print_val y @ rest) (length (pre @ config_print_val x @ EQ # config_print_val y @ take 1 rest)) 0 (Some Go_struct),
     item_at (pre @ config_print_val x @ EQ # config_print_val y @ rest) (length pre) x (key\<lparr>it_len := 0\<rparr>),
     item_at (pre @ config_print_val x @ EQ # config_print_val y @ rest) (length (pre @ config_print_val x) + 1) y true_value, Inr ())"
proof (rule next_start [OF _ assms(7)])
  let ?q = "pre @ config_print_val x @ [EQ]"
  let ?b = "pre @ config_print_val x @ EQ # config_print_val y @ rest"
  let ?k = "item_at ?b (length pre) x (key\<lparr>it_len := 0\<rparr>)" and ?v = "item_at ?b (length (pre @ config_print_val x) + 1) y true_value"
  have d: "delimited (EQ # config_print_val y @ rest)" by (simp add: delimited_def)
  have "config_loop sc (at ?b (length pre) Go_struct 0 t (key\<lparr>it_len := 0\<rparr>) true_value False) =
      config_loop sc (at ((pre @ config_print_val x) @ EQ # config_print_val y @ rest) (length (pre @ config_print_val x)) Go_struct 0 0 ?k true_value False)"
    using top_token [OF assms(1) d assms(5), of t False] assms(2,6) by auto
  also have "\<dots> = config_loop sc (at (?q @ config_print_val y @ rest) (length ?q) Go_struct 0 0 ?k true_value True)"
    unfolding entry_value by simp
  also have "\<dots> = config_loop sc (at ((?q @ config_print_val y) @ rest) (length (?q @ config_print_val y)) Go_struct 0 0 ?k ?v True)"
    using top_token [OF assms(3) end_delimited [OF assms(4)], of ?q 0 True true_value ?k sc] assms(5) by (simp add: true_value_def add.assoc)
  also have "\<dots> = (at ((?q @ config_print_val y) @ rest) (length ((?q @ config_print_val y) @ take 1 rest)) Go_struct 0 0 ?k ?v True, Inr ())"
    by (rule entry_end [OF assms(4) key_len [OF assms(1,2)]])
  finally show "config_loop sc (at ?b (length pre) Go_struct 0 t (key\<lparr>it_len := 0\<rparr>) true_value False) =
      (at ?b (length (pre @ config_print_val x @ EQ # config_print_val y @ take 1 rest)) Go_struct 0 0 ?k ?v True, Inr ())" by simp
qed

lemma next_none:
  assumes "t = 0 \<or> t = - 1" "g = None \<or> g = Some Go_struct"
  shows "config_next sc (conf_at buf (length buf) t g) key = (conf_at buf (length buf) t (Some Go_struct), key\<lparr>it_len := 0\<rparr>, true_value, Inl WT_NOTFOUND)"
  using assms by (auto simp: config_next_def config_loop.simps config_end_def config_found_def)

lemma item_read_at:
  "item_read (item_at (pre @ config_print_val x @ rest) (length pre) x it) = cval_read x"
  by (cases x) (simp_all add: item_read_def item_at_def)

lemma item_read_true [simp]: "item_read true_value = (ITEM_NUM, [])"
  by (simp add: item_read_def true_value_def)

text \<open>A value before it is processed: its text ends where no digit follows.\<close>

definition value_ok :: "wt_config_item \<Rightarrow> bool" where
  "value_ok v \<longleftrightarrow> it_val v = 1 \<and> (case it_str v of None \<Rightarrow> False
     | Some (b, off) \<Rightarrow> off + it_len v \<le> length b \<and> (drop (off + it_len v) b = [] \<or> \<not> is_digit (hd (drop (off + it_len v) b))))"

lemma value_ok_true [simp]: "value_ok true_value"
  by (simp add: value_ok_def true_value_def)

lemma not_digit: "\<not> is_digit COMMA" "\<not> is_digit QUOTE" "\<not> is_digit EQ" "\<not> is_digit RPAREN"
  by code_simp+

lemma value_ok_at:
  assumes "delimited rest"
  shows "value_ok (item_at (pre @ config_print_val x @ rest) (length pre) x true_value)"
  using assms by (cases x) (auto simp: value_ok_def item_at_def true_value_def delimited_def not_digit)

lemma printed_items:
  assumes "clist_ok l" "top_ok l" "length (pre @ config_print l) < 2 ^ 64" "t = 0 \<or> t = - 1" "g = None \<or> g = Some Go_struct"
  shows "snd (config_items sc (conf_at (pre @ config_print l) (length pre) t g) key) = WT_NOTFOUND \<and>
    map (map_prod item_read item_read) (fst (config_items sc (conf_at (pre @ config_print l) (length pre) t g) key)) = clist_read l \<and>
    (\<forall>(k, v)\<in>set (fst (config_items sc (conf_at (pre @ config_print l) (length pre) t g) key)). value_ok v)"
  using assms
proof (induction l arbitrary: pre t g key rule: clist_read.induct)
  case 1
  then show ?case using next_none [of t g sc pre key] by (subst (1 2 3) config_items.simps) simp
next
  case (2 x l)
  let ?r = "if l = CNone then [] else COMMA # config_print l"
  let ?q = "pre @ config_print_val x @ take 1 ?r" and ?k = "item_at (pre @ config_print_val x @ ?r) (length pre) x (key\<lparr>it_len := 0\<rparr>)"
  have n: "config_next sc (conf_at (pre @ config_print_val x @ ?r) (length pre) t g) key =
      (conf_at (pre @ config_print_val x @ ?r) (length ?q) 0 (Some Go_struct), ?k, true_value, Inr ())"
    by (rule next_key) (use "2.prems" in \<open>auto split: if_splits\<close>)
  have r: "pre @ config_print_val x @ ?r = ?q @ config_print l" by simp
  note ih = "2.IH" [of ?q 0 "Some Go_struct" ?k]
  have "snd (config_items sc (conf_at (?q @ config_print l) (length ?q) 0 (Some Go_struct)) ?k) = WT_NOTFOUND \<and>
    map (map_prod item_read item_read) (fst (config_items sc (conf_at (?q @ config_print l) (length ?q) 0 (Some Go_struct)) ?k)) = clist_read l \<and>
    (\<forall>(k, v)\<in>set (fst (config_items sc (conf_at (?q @ config_print l) (length ?q) 0 (Some Go_struct)) ?k)). value_ok v)"
    by (rule ih) (use "2.prems" in \<open>auto split: if_splits\<close>)
  then show ?case using n item_read_at [of pre x ?r] unfolding r [symmetric]
    by (subst (1 2 3) config_items.simps) (auto split: prod.splits)
next
  case (3 x y l)
  let ?r = "if l = CNone then [] else COMMA # config_print l"
  let ?b = "pre @ config_print_val x @ EQ # config_print_val y @ ?r"
  let ?q = "pre @ config_print_val x @ EQ # config_print_val y @ take 1 ?r"
  let ?k = "item_at ?b (length pre) x (key\<lparr>it_len := 0\<rparr>)" and ?v = "item_at ?b (length (pre @ config_print_val x) + 1) y true_value"
  have n: "config_next sc (conf_at ?b (length pre) t g) key = (conf_at ?b (length ?q) 0 (Some Go_struct), ?k, ?v, Inr ())"
    by (rule next_pair) (use "3.prems" in \<open>auto split: if_splits\<close>)
  have r: "?b = ?q @ config_print l" by simp
  note ih = "3.IH" [of ?q 0 "Some Go_struct" ?k]
  have "snd (config_items sc (conf_at (?q @ config_print l) (length ?q) 0 (Some Go_struct)) ?k) = WT_NOTFOUND \<and>
    map (map_prod item_read item_read) (fst (config_items sc (conf_at (?q @ config_print l) (length ?q) 0 (Some Go_struct)) ?k)) = clist_read l \<and>
    (\<forall>(k, v)\<in>set (fst (config_items sc (conf_at (?q @ config_print l) (length ?q) 0 (Some Go_struct)) ?k)). value_ok v)"
    by (rule ih) (use "3.prems" in \<open>auto split: if_splits\<close>)
  moreover have "item_read ?v = cval_read y" using item_read_at [of "pre @ config_print_val x @ [EQ]" y ?r] by simp
  moreover have "value_ok ?v" using value_ok_at [of ?r "pre @ config_print_val x @ [EQ]" y] by (auto simp: delimited_def)
  ultimately show ?case using n item_read_at [of pre x "EQ # config_print_val y @ ?r"] unfolding r [symmetric]
    by (subst (1 2 3) config_items.simps) (auto split: prod.splits)
qed

section \<open>Searching a printed list\<close>

lemma tolower_zero [simp]: "tolower c = 0 \<longleftrightarrow> c = 0"
proof -
  have "c = - 0x20" if "c + 0x20 = 0" using that by (simp add: eq_neg_iff_add_eq_0)
  then show ?thesis by (auto simp: tolower_def)
qed















definition list_ok :: "clist \<Rightarrow> bool" where
  "list_ok l \<longleftrightarrow> clist_ok l \<and> top_ok l \<and> length (config_print l) < 2 ^ 64"

lemma printed_string:
  assumes "list_ok l"
  shows "snd (config_items sc (wt_config_init (Some (config_print l))) item_undef) = WT_NOTFOUND"
    "map (map_prod item_read item_read) (fst (config_items sc (wt_config_init (Some (config_print l))) item_undef)) = clist_read l"
    "\<forall>(k, v)\<in>set (fst (config_items sc (wt_config_init (Some (config_print l))) item_undef)). value_ok v"
    "\<forall>(k, v)\<in>set (fst (config_items sc (wt_config_init (Some (config_print l))) item_undef)). inside (config_print l) k"
proof -
  have i: "wt_config_init (Some (config_print l)) = conf_at ([] @ config_print l) (length ([] :: bytes)) (- 1) None"
    by (simp add: wt_config_init_def wt_config_initn_def)
  note P = printed_items [of l "[]" "- 1" None sc item_undef]
  show "snd (config_items sc (wt_config_init (Some (config_print l))) item_undef) = WT_NOTFOUND"
    "map (map_prod item_read item_read) (fst (config_items sc (wt_config_init (Some (config_print l))) item_undef)) = clist_read l"
    "\<forall>(k, v)\<in>set (fst (config_items sc (wt_config_init (Some (config_print l))) item_undef)). value_ok v"
    unfolding i using P assms by (simp_all add: list_ok_def)
  have "length (config_print l) < 2 ^ 64" using assms by (simp add: list_ok_def)
  note I = init_ok [OF this]
  show "\<forall>(k, v)\<in>set (fst (config_items sc (wt_config_init (Some (config_print l))) item_undef)). inside (config_print l) k"
    using items_inside [OF I(1,3)] I(2) by auto
qed



section \<open>Properties\<close>




text \<open>
  C18: print and parse. Iterating over a printed list of entries with \<open>__config_next\<close> gives
  back the entries in order, with their types and texts, a nested list as one value with its
  brackets, and ends with \<open>WT_NOTFOUND\<close>.
\<close>

theorem config_print_parse:
  assumes "clist_ok l" "top_ok l" "length (config_print l) < 2 ^ 64"
  shows "map (map_prod item_read item_read) (fst (config_items sc (wt_config_init (Some (config_print l))) item_undef)) = clist_read l \<and>
    snd (config_items sc (wt_config_init (Some (config_print l))) item_undef) = WT_NOTFOUND"
  using printed_string(1,2) [of l sc] assms by (simp add: list_ok_def)

text \<open>The list \<open>a=1k,"b",A=(c=d)\<close>.\<close>

definition example_entries :: clist where
  "example_entries = CPair (CWord [0x61]) (CWord [0x31, 0x6b]) (CKey (CQuoted [0x62])
     (CPair (CWord [0x41]) (CStruct (CPair (CWord [0x63]) (CWord [0x64]) CNone)) CNone))"

lemma example_ok: "clist_ok example_entries" "top_ok example_entries"
  by code_simp+

lemma example_printed:
  "config_print example_entries = [0x61, 0x3d, 0x31, 0x6b, 0x2c, 0x22, 0x62, 0x22, 0x2c, 0x41, 0x3d, 0x28, 0x63, 0x3d, 0x64, 0x29]"
  by code_simp

theorem config_print_parse_witness:
  "map (map_prod item_read item_read) (fst (config_items True (wt_config_init (Some (config_print example_entries))) item_undef)) =
   [((ITEM_ID, [0x61]), (ITEM_NUM, [0x31, 0x6b])), ((ITEM_STRING, [0x62]), (ITEM_NUM, [])),
    ((ITEM_ID, [0x41]), (ITEM_STRUCT, [0x28, 0x63, 0x3d, 0x64, 0x29]))]"
proof -
  have "length (config_print example_entries) < 2 ^ 64" unfolding example_printed by simp
  moreover have "clist_read example_entries = [((ITEM_ID, [0x61]), (ITEM_NUM, [0x31, 0x6b])), ((ITEM_STRING, [0x62]), (ITEM_NUM, [])),
    ((ITEM_ID, [0x41]), (ITEM_STRUCT, [0x28, 0x63, 0x3d, 0x64, 0x29]))]" by code_simp
  ultimately show ?thesis using config_print_parse [OF example_ok] by simp
qed




end
