(* ===== verification/Wt_Packing.thy ===== *)
theory Wt_Packing
  imports Wt_Intpack Wt_Bytes
begin

text \<open>
  Packing of values by a format string (\<open>src/src/include/packing.i\<close>, \<open>src/src/packing/packing.c\<close> and
  the API wrappers of \<open>packing_api.c\<close>).

  A format is the bytes up to the terminating zero byte, a pointer into it an offset. The arguments
  that C passes through \<open>va_list\<close> are a list; an argument of the wrong kind, which is undefined in C,
  is \<open>OUT_OF_BOUNDS\<close>, as are reads and writes outside a buffer.
\<close>

section \<open>Formats\<close>

record wt_pack =
  pk_fmt :: bytes
  pk_cur :: nat
  pk_end :: nat
  pk_repeats :: nat

text \<open>The union of \<open>WT_PACK_VALUE\<close>: \<open>i\<close> and \<open>u\<close> share their 64 bits.\<close>

datatype pack_union = U_int u64 | U_str bytes | U_item bytes

record wt_pack_value =
  pv_u :: pack_union
  pv_size :: u32
  pv_havesize :: bool
  pv_type :: u8

text \<open>\<open>WT_CLEAR(pv)\<close>\<close>

definition pv_clear :: wt_pack_value where
  "pv_clear = \<lparr>pv_u = U_int 0, pv_size = 0, pv_havesize = False, pv_type = 0\<rparr>"

definition fmt_char :: "bytes \<Rightarrow> nat \<Rightarrow> u8" where
  "fmt_char fmt i = (if i < length fmt then fmt ! i else 0)"

definition pack_initn :: "bytes \<Rightarrow> nat \<Rightarrow> wt_pack result" where
  "pack_initn fmt len =
     (if fmt_char fmt 0 \<in> {0x40, 0x3c, 0x3e} then Inl EINVAL
      else
        let cur = (if fmt_char fmt 0 = 0x2e then 1 else 0)
        in Inr \<lparr>pk_fmt = fmt, pk_cur = cur, pk_end = cur + len, pk_repeats = 0\<rparr>)"

definition pack_init :: "bytes \<Rightarrow> wt_pack result" where
  "pack_init fmt = pack_initn fmt (length fmt)"

text \<open>
  \<open>strtoul(p, &endptr, 10)\<close>: white space, a sign, digits; the value and the number of bytes read.
  A value that is too large is \<open>ULONG_MAX\<close>, whatever the sign.
\<close>

definition is_space :: "u8 \<Rightarrow> bool" where
  "is_space c = (c = 0x20 \<or> 0x09 \<le> c \<and> c \<le> 0x0d)"

definition is_dec :: "u8 \<Rightarrow> bool" where
  "is_dec c = (0x30 \<le> c \<and> c \<le> 0x39)"

definition dec_value :: "bytes \<Rightarrow> int" where
  "dec_value ds = foldl (\<lambda>n d. 10 * n + (uint d - 0x30)) 0 ds"

definition strtoul :: "bytes \<Rightarrow> u64 \<times> nat" where
  "strtoul p =
     (let sp = length (takeWhile is_space p); q = drop sp p;
          sg = (if q \<noteq> [] \<and> hd q \<in> {0x2b, 0x2d} then 1 else 0); ds = takeWhile is_dec (drop sg q); n = dec_value ds
      in if ds = [] then (0, 0)
         else if 2 ^ 64 \<le> n then (- 1, sp + sg + length ds)
         else (if sg = 1 \<and> hd q = 0x2d then - of_int n else of_int n, sp + sg + length ds))"

text \<open>The integral types, which repeat.\<close>

definition int_types :: "u8 list" where
  "int_types = [0x62, 0x68, 0x69, 0x42, 0x48, 0x49, 0x6c, 0x4c, 0x71, 0x51, 0x72, 0x52]"

definition TYPE_x :: u8 where "TYPE_x = 0x78"
definition TYPE_s :: u8 where "TYPE_s = 0x73"
definition TYPE_S :: u8 where "TYPE_S = 0x53"
definition TYPE_t :: u8 where "TYPE_t = 0x74"
definition TYPE_u :: u8 where "TYPE_u = 0x75"
definition TYPE_U :: u8 where "TYPE_U = 0x55"
definition TYPE_b :: u8 where "TYPE_b = 0x62"
definition TYPE_B :: u8 where "TYPE_B = 0x42"
definition TYPE_h :: u8 where "TYPE_h = 0x68"
definition TYPE_H :: u8 where "TYPE_H = 0x48"
definition TYPE_i :: u8 where "TYPE_i = 0x69"
definition TYPE_I :: u8 where "TYPE_I = 0x49"
definition TYPE_l :: u8 where "TYPE_l = 0x6c"
definition TYPE_L :: u8 where "TYPE_L = 0x4c"
definition TYPE_q :: u8 where "TYPE_q = 0x71"
definition TYPE_Q :: u8 where "TYPE_Q = 0x51"
definition TYPE_r :: u8 where "TYPE_r = 0x72"
definition TYPE_R :: u8 where "TYPE_R = 0x52"

lemmas type_defs = TYPE_x_def TYPE_s_def TYPE_S_def TYPE_t_def TYPE_u_def TYPE_U_def TYPE_b_def TYPE_B_def TYPE_h_def
  TYPE_H_def TYPE_i_def TYPE_I_def TYPE_l_def TYPE_L_def TYPE_q_def TYPE_Q_def TYPE_r_def TYPE_R_def

text \<open>The characters are distinct, in both directions for rewriting.\<close>

lemma type_distinct:
  "distinct [TYPE_x, TYPE_s, TYPE_S, TYPE_t, TYPE_u, TYPE_U, TYPE_b, TYPE_B, TYPE_h,
     TYPE_H, TYPE_i, TYPE_I, TYPE_l, TYPE_L, TYPE_q, TYPE_Q, TYPE_r, TYPE_R]"
  "distinct [TYPE_R, TYPE_r, TYPE_Q, TYPE_q, TYPE_L, TYPE_l, TYPE_I, TYPE_i, TYPE_H,
     TYPE_h, TYPE_B, TYPE_b, TYPE_U, TYPE_u, TYPE_t, TYPE_S, TYPE_s, TYPE_x]"
  by code_simp+

lemmas type_neq [simp] = type_distinct [simplified]

text \<open>One pass from \<open>next:\<close>; an integral type that repeats zero times goes back to the label.\<close>

function pack_scan :: "wt_pack \<Rightarrow> wt_pack_value \<Rightarrow> wt_pack \<times> wt_pack_value \<times> unit result" where
  "pack_scan pack pv =
     (if pk_cur pack = pk_end pack then (pack, pv, Inl WT_NOTFOUND)
      else if length (pk_fmt pack) < pk_cur pack then (pack, pv, Inl OUT_OF_BOUNDS)
      else
        let (n, k) = strtoul (drop (pk_cur pack) (pk_fmt pack));
            havesize = (0 < k);
            size = (if havesize then ucast n else 1);
            ty = fmt_char (pk_fmt pack) (pk_cur pack + k);
            pack = pack\<lparr>pk_cur := pk_cur pack + k + 1, pk_repeats := 0\<rparr>;
            pv = pv\<lparr>pv_size := size, pv_havesize := havesize, pv_type := ty\<rparr>
        in if ty \<in> {TYPE_S, TYPE_s, TYPE_x} then (pack, pv, Inr ())
           else if ty = TYPE_t then (if size < 1 \<or> 8 < size then (pack, pv, Inl EINVAL) else (pack, pv, Inr ()))
           else if ty \<in> {TYPE_u, TYPE_U} then
             (pack, pv\<lparr>pv_type := (if \<not> havesize \<and> fmt_char (pk_fmt pack) (pk_cur pack) \<noteq> 0 then TYPE_U else TYPE_u)\<rparr>, Inr ())
           else if ty \<in> set int_types then
             (if size = 0 then pack_scan pack pv else (pack\<lparr>pk_repeats := unat size - 1\<rparr>, pv, Inr ()))
           else (pack, pv, Inl EINVAL))"
  by pat_completeness auto
termination
proof (relation "measure (\<lambda>(pack, pv). Suc (length (pk_fmt pack)) - pk_cur pack)", goal_cases)
  case 1
  show ?case by simp
next
  case (2 pack pv x n k)
  then show ?case by simp
qed

declare pack_scan.simps [simp del]

definition pack_next :: "wt_pack \<Rightarrow> wt_pack_value \<Rightarrow> wt_pack \<times> wt_pack_value \<times> unit result" where
  "pack_next pack pv =
     (if 0 < pk_repeats pack then (pack\<lparr>pk_repeats := pk_repeats pack - 1\<rparr>, pv, Inr ()) else pack_scan pack pv)"

lemma scan_left:
  "pack_scan pack pv = (pack', pv', Inr ()) \<Longrightarrow> pk_fmt pack' = pk_fmt pack \<and> pk_end pack' = pk_end pack \<and>
     Suc (length (pk_fmt pack')) - pk_cur pack' < Suc (length (pk_fmt pack)) - pk_cur pack"
proof (induction pack pv rule: pack_scan.induct)
  case (1 pack pv)
  obtain n k where nk: "strtoul (drop (pk_cur pack) (pk_fmt pack)) = (n, k)" by fastforce
  have c: "pk_cur pack \<noteq> pk_end pack" "\<not> length (pk_fmt pack) < pk_cur pack"
    using "1.prems" by (auto simp: pack_scan.simps [of pack pv] split: if_splits)
  let ?ty = "fmt_char (pk_fmt pack) (pk_cur pack + k)"
  let ?p = "pack\<lparr>pk_cur := pk_cur pack + k + 1, pk_repeats := 0\<rparr>"
  let ?v = "pv\<lparr>pv_size := if 0 < k then ucast n else 1, pv_havesize := 0 < k, pv_type := ?ty\<rparr>"
  show ?case
  proof (cases "?ty \<notin> {TYPE_S, TYPE_s, TYPE_x, TYPE_t, TYPE_u, TYPE_U} \<and> ?ty \<in> set int_types \<and> (if 0 < k then ucast n else 1) = (0 :: u32)")
    case True
    then have "pack_scan ?p ?v = (pack', pv', Inr ())"
      using "1.prems" c by (simp add: pack_scan.simps [of pack pv] nk Let_def)
    from "1.IH" [OF c refl nk [symmetric] refl refl refl refl refl _ _ _ _ _ this] True c
    show ?thesis by auto
  next
    case False
    then show ?thesis using "1.prems" c by (auto simp: pack_scan.simps [of pack pv] nk Let_def split: if_splits)
  qed
qed

definition pack_less :: "(wt_pack \<times> wt_pack) set" where
  "pack_less = measures [\<lambda>p. Suc (length (pk_fmt p)) - pk_cur p, pk_repeats]"

lemma wf_pack_less: "wf pack_less"
  by (simp add: pack_less_def)

lemma next_pack_left:
  assumes "pack_next pack pv = (pack', pv', Inr ())"
  shows "(pack', pack) \<in> pack_less"
  using assms scan_left [of pack pv pack' pv'] by (auto simp: pack_next_def pack_less_def split: if_splits)

section \<open>Arguments\<close>


datatype pack_out = Out_8 u8 | Out_16 "16 word" | Out_32 u32 | Out_64 u64 | Out_str bytes | Out_item bytes


definition WT_UNPACK_PUT :: "wt_pack_value \<Rightarrow> pack_out list result" where
  "WT_UNPACK_PUT pv =
     (case pv_u pv of
        U_str p \<Rightarrow> if pv_type pv \<in> {TYPE_s, TYPE_S} then Inr [Out_str p] else if pv_type pv = TYPE_x then Inr [] else Inl OUT_OF_BOUNDS
      | U_item d \<Rightarrow> if pv_type pv \<in> {TYPE_u, TYPE_U} then Inr [Out_item d] else if pv_type pv = TYPE_x then Inr [] else Inl OUT_OF_BOUNDS
      | U_int i \<Rightarrow>
          if pv_type pv = TYPE_x then Inr []
          else if pv_type pv \<in> {TYPE_s, TYPE_S, TYPE_u, TYPE_U} then Inl OUT_OF_BOUNDS
          else if pv_type pv \<in> {TYPE_b, TYPE_B, TYPE_t} then Inr [Out_8 (ucast i)]
          else if pv_type pv \<in> {TYPE_h, TYPE_H} then Inr [Out_16 (ucast i)]
          else if pv_type pv \<in> {TYPE_i, TYPE_I} then Inr [Out_32 (ucast i)]
          else Inr [Out_64 i])"

section \<open>One value\<close>




text \<open>The size and the padding of an item.\<close>

definition item_pad :: "wt_pack_value \<Rightarrow> nat \<Rightarrow> nat \<times> nat" where
  "item_pad pv s =
     (if pv_havesize pv \<and> unat (pv_size pv) < s then (unat (pv_size pv), 0)
      else if pv_havesize pv then (s, unat (pv_size pv) - s) else (s, 0))"


definition zeros :: "nat \<Rightarrow> bytes" where
  "zeros n = replicate n 0"


text \<open>
  \<open>__unpack_read\<close>: the value and the pointer, the bytes from it to the end of the buffer. In the
  cases \<open>b\<close>, \<open>B\<close> and \<open>t\<close> the source reads \<open>**pp++\<close>, which moves the function's own copy of \<open>pp\<close> and
  leaves the caller's pointer where it was.
\<close>

definition unpack_bytes :: "nat \<Rightarrow> bytes \<Rightarrow> (bytes \<times> bytes) result" where
  "unpack_bytes s p = (if length p < s then Inl OUT_OF_BOUNDS else Inr (take s p, drop s p))"

definition unpack_read :: "bool \<Rightarrow> wt_pack_value \<Rightarrow> bytes \<Rightarrow> nat \<Rightarrow> (wt_pack_value \<times> bytes) result" where
  "unpack_read be pv p maxlen =
     (let ty = pv_type pv; size = unat (pv_size pv) in
      if ty = TYPE_x then wt_size_check size maxlen (wt_ret (unpack_bytes size p) (\<lambda>(_, q). Inr (pv, q)))
      else if ty \<in> {TYPE_s, TYPE_S} then
        wt_ret (if ty = TYPE_s \<or> pv_havesize pv then Inr size
                else if 0 \<in> set p then Inr (length (takeWhile (\<lambda>c. c \<noteq> 0) p) + 1) else Inl OUT_OF_BOUNDS) (\<lambda>s.
          wt_size_check s maxlen
            (wt_ret (unpack_bytes s p) (\<lambda>(_, q). Inr (if 0 < s then pv\<lparr>pv_u := U_str p\<rparr> else pv, q))))
      else if ty \<in> {TYPE_U, TYPE_u} then
        wt_ret (if ty = TYPE_U then wt_ret (wt_vunpack_uint maxlen p) (\<lambda>(n, q). Inr (unat n, q)) else Inr (maxlen, p)) (\<lambda>(n, q).
          let s = (if pv_havesize pv then size else n)
          in wt_size_check s maxlen (wt_ret (unpack_bytes s q) (\<lambda>(d, r).
             Inr (pv\<lparr>pv_u := U_item (take (s mod 2 ^ 32) d)\<rparr>, r))))
      else if ty = TYPE_b then
        wt_size_check 1 maxlen (case p of [] \<Rightarrow> Inl OUT_OF_BOUNDS | c # _ \<Rightarrow> Inr (pv\<lparr>pv_u := U_int (scast (c - 0x80))\<rparr>, p))
      else if ty \<in> {TYPE_B, TYPE_t} then
        wt_size_check 1 maxlen (case p of [] \<Rightarrow> Inl OUT_OF_BOUNDS | c # _ \<Rightarrow> Inr (pv\<lparr>pv_u := U_int (ucast c)\<rparr>, p))
      else if ty \<in> {TYPE_h, TYPE_i, TYPE_l, TYPE_q} then
        wt_ret (wt_vunpack_int maxlen p) (\<lambda>(i, q). Inr (pv\<lparr>pv_u := U_int i\<rparr>, q))
      else if ty \<in> {TYPE_H, TYPE_I, TYPE_L, TYPE_Q, TYPE_r} then
        wt_ret (wt_vunpack_uint maxlen p) (\<lambda>(i, q). Inr (pv\<lparr>pv_u := U_int i\<rparr>, q))
      else if ty = TYPE_R then
        wt_size_check 8 maxlen (wt_ret (unpack_bytes 8 p) (\<lambda>(b, q). Inr (pv\<lparr>pv_u := U_int (from_bytes be b)\<rparr>, q)))
      else Inl EINVAL)"

section \<open>The functions\<close>

text \<open>The loops over a format.\<close>

function struct_check_loop :: "wt_pack \<Rightarrow> wt_pack_value \<Rightarrow> nat \<Rightarrow> wt_pack_value \<times> nat \<times> wt_error" where
  "struct_check_loop pack pv nfields =
     (case pack_next pack pv of
        (pack', pv', Inl e) \<Rightarrow> (pv', nfields, e)
      | (pack', pv', Inr _) \<Rightarrow> struct_check_loop pack' pv' (nfields + 1))"
  by pat_completeness auto
termination
  by (relation "inv_image pack_less fst") (auto intro: wf_pack_less dest: next_pack_left [OF sym])

declare struct_check_loop.simps [simp del]

text \<open>The value is whether the format is a bit field of a fixed size, and the size.\<close>

definition wt_struct_check :: "bytes \<Rightarrow> nat \<Rightarrow> u32 option result" where
  "wt_struct_check fmt len =
     wt_ret (pack_initn fmt len) (\<lambda>pack.
       case struct_check_loop pack pv_clear 0 of (pv, nfields, e) \<Rightarrow>
         if e \<noteq> WT_NOTFOUND then Inl e
         else if nfields = 0 then Inr (Some 0)
         else if nfields = 1 \<and> pv_type pv = TYPE_t then Inr (Some (pv_size pv))
         else Inr None)"







function struct_unpack_loop :: "bool \<Rightarrow> wt_pack \<Rightarrow> wt_pack_value \<Rightarrow> bytes \<Rightarrow> pack_out list \<Rightarrow> pack_out list result" where
  "struct_unpack_loop be pack pv p outs =
     (case pack_next pack pv of
        (pack', pv', Inl e) \<Rightarrow> if e = WT_NOTFOUND then Inr outs else Inl e
      | (pack', pv', Inr _) \<Rightarrow>
          (case unpack_read be pv' p (length p) of
             Inl e \<Rightarrow> Inl e
           | Inr (pv'', q) \<Rightarrow>
               (case WT_UNPACK_PUT pv'' of
                  Inl e \<Rightarrow> Inl e
                | Inr os \<Rightarrow> struct_unpack_loop be pack' pv'' q (outs @ os))))"
  by pat_completeness auto
termination
  by (relation "inv_image pack_less (\<lambda>(be, pack, _). pack)") (auto intro: wf_pack_less dest: next_pack_left [OF sym])

declare struct_unpack_loop.simps [simp del]

text \<open>\<open>buffer\<close> holds \<open>size\<close> bytes. The item of the value is cleared first.\<close>

definition wt_struct_unpackv :: "bool \<Rightarrow> bytes \<Rightarrow> bytes \<Rightarrow> pack_out list result" where
  "wt_struct_unpackv be buffer fmt =
     wt_ret (pack_init fmt) (\<lambda>pack. struct_unpack_loop be pack (pv_clear\<lparr>pv_u := U_item []\<rparr>) buffer [])"

section \<open>Fields\<close>

text \<open>The fields of a format, and the code with which iterating over them ends.\<close>

function pack_fields :: "wt_pack \<Rightarrow> wt_pack_value \<Rightarrow> wt_pack_value list \<times> wt_error" where
  "pack_fields pack pv =
     (case pack_next pack pv of
        (pack', pv', Inl e) \<Rightarrow> ([], e)
      | (pack', pv', Inr _) \<Rightarrow> (case pack_fields pack' pv' of (fs, e) \<Rightarrow> (pv' # fs, e)))"
  by pat_completeness auto
termination
  by (relation "inv_image pack_less fst") (auto intro: wf_pack_less dest: next_pack_left [OF sym])

declare pack_fields.simps [simp del]

lemma scan_union: "pack_scan pack (pv\<lparr>pv_u := u\<rparr>) = (case pack_scan pack pv of (p, v, r) \<Rightarrow> (p, v\<lparr>pv_u := u\<rparr>, r))"
proof (induction pack pv rule: pack_scan.induct)
  case (1 pack pv)
  obtain n k where nk: "strtoul (drop (pk_cur pack) (pk_fmt pack)) = (n, k)" by fastforce
  let ?ty = "fmt_char (pk_fmt pack) (pk_cur pack + k)"
  let ?p = "pack\<lparr>pk_cur := pk_cur pack + k + 1, pk_repeats := 0\<rparr>"
  let ?v = "pv\<lparr>pv_size := if 0 < k then ucast n else 1, pv_havesize := 0 < k, pv_type := ?ty\<rparr>"
  show ?case
  proof (cases "pk_cur pack \<noteq> pk_end pack \<and> \<not> length (pk_fmt pack) < pk_cur pack \<and>
      ?ty \<notin> {TYPE_S, TYPE_s, TYPE_x, TYPE_t, TYPE_u, TYPE_U} \<and> ?ty \<in> set int_types \<and> (if 0 < k then ucast n else 1) = (0 :: u32)")
    case True
    let ?w = "pv\<lparr>pv_u := u, pv_size := if 0 < k then ucast n else 1, pv_havesize := 0 < k, pv_type := ?ty\<rparr>"
    have w: "?v\<lparr>pv_u := u\<rparr> = ?w" by simp
    have "pack_scan ?p ?w = (case pack_scan ?p ?v of (p, v, r) \<Rightarrow> (p, v\<lparr>pv_u := u\<rparr>, r))"
      unfolding w [symmetric] using True by (intro "1.IH" [OF _ _ refl nk [symmetric] refl refl refl refl refl]) auto
    then show ?thesis using True by (simp add: pack_scan.simps [of pack] nk Let_def)
  next
    case False
    then show ?thesis by (auto simp: pack_scan.simps [of pack] nk Let_def)
  qed
qed

lemma next_union: "pack_next pack (pv\<lparr>pv_u := u\<rparr>) = (case pack_next pack pv of (p, v, r) \<Rightarrow> (p, v\<lparr>pv_u := u\<rparr>, r))"
  by (simp add: pack_next_def scan_union)



fun unpack_list :: "bool \<Rightarrow> wt_pack_value list \<Rightarrow> wt_error \<Rightarrow> pack_union \<Rightarrow> bytes \<Rightarrow> pack_out list \<Rightarrow> pack_out list result" where
  "unpack_list be [] e u p outs = (if e = WT_NOTFOUND then Inr outs else Inl e)"
| "unpack_list be (f # fs) e u p outs =
     wt_ret (unpack_read be (f\<lparr>pv_u := u\<rparr>) p (length p)) (\<lambda>(pv, q). wt_ret (WT_UNPACK_PUT pv) (\<lambda>os.
       unpack_list be fs e (pv_u pv) q (outs @ os)))"


lemma size_check_Inr: "wt_size_check l m r = Inr x \<longleftrightarrow> (m = 0 \<or> l \<le> m) \<and> r = Inr x"
  by (auto simp: wt_size_check_def)

lemma read_union: "unpack_read be pv p m = Inr (pv', q) \<Longrightarrow> pv' = pv\<lparr>pv_u := pv_u pv'\<rparr>"
  by (auto simp: unpack_read_def Let_def size_check_Inr wt_ret_Inr_iff split: if_splits list.splits prod.splits)

lemma fields_step:
  "pack_fields pack pv = (case pack_next pack pv of (pack', pv', Inl e) \<Rightarrow> ([], e)
     | (pack', pv', Inr _) \<Rightarrow> (case pack_fields pack' pv' of (fs, e) \<Rightarrow> (pv' # fs, e)))"
  by (rule pack_fields.simps)



lemma struct_unpack_list:
  "struct_unpack_loop be pack (pv\<lparr>pv_u := u\<rparr>) q outs = unpack_list be (fst (pack_fields pack pv)) (snd (pack_fields pack pv)) u q outs"
proof (induction pack pv arbitrary: u q outs rule: pack_fields.induct)
  case (1 pack pv)
  obtain p v r where n: "pack_next pack pv = (p, v, r)" by (metis prod_cases3)
  show ?case
  proof (cases r)
    case (Inl e)
    then show ?thesis using n by (subst struct_unpack_loop.simps, subst (1 2) pack_fields.simps) (simp add: next_union)
  next
    case (Inr x)
    then have n': "pack_next pack pv = (p, v, Inr ())" using n by simp
    obtain fs e where f: "pack_fields p v = (fs, e)" by fastforce
    have "struct_unpack_loop be p pv' q' o' = unpack_list be fs e (pv_u pv') q' o'" if "unpack_read be (v\<lparr>pv_u := u\<rparr>) q (length q) = Inr (pv', q')" for pv' q' o'
      using "1.IH" [OF n' [symmetric] refl refl, of "pv_u pv'" q' o'] read_union [OF that] f by simp
    then show ?thesis
      by (subst struct_unpack_loop.simps, subst (1 2) pack_fields.simps) (simp add: next_union n' f wt_ret_def split: sum.splits prod.splits)
  qed
qed

section \<open>Round trip of one field\<close>






lemma size_check_ok [simp]: "l \<le> m \<Longrightarrow> wt_size_check l m r = r"
  by (simp add: wt_size_check_def)













lemma length_zeros [simp]: "length (zeros n) = n"
  by (simp add: zeros_def)

lemma take_zeros [simp]: "take n (zeros m) = zeros (min n m)"
  by (simp add: zeros_def)

lemma padded: "take n s @ zeros (n - length s) = take n (s @ zeros n)"
  by (simp add: min_def)




lemma item_pad_union [simp]: "item_pad (f\<lparr>pv_u := u\<rparr>) n = item_pad f n"
  by (simp add: item_pad_def)











section \<open>Round trip of a structure\<close>








text \<open>The format \<open>iSu\<close>, the arguments \<open>- 5\<close>, a string and an item.\<close>


lemma fields_Inr: "pack_next pack pv = (p, v, Inr ()) \<Longrightarrow> pack_fields p v = (fs, e) \<Longrightarrow> pack_fields pack pv = (v # fs, e)"
  and fields_Inl: "pack_next pack pv = (p, v, Inl e) \<Longrightarrow> pack_fields pack pv = ([], e)"
  by (simp_all add: pack_fields.simps [of pack pv])


definition example_field :: "u8 \<Rightarrow> wt_pack_value" where
  "example_field t = \<lparr>pv_u = U_int 0, pv_size = 1, pv_havesize = False, pv_type = t\<rparr>"




section \<open>Where the code goes wrong\<close>

text \<open>Two bytes packed with the format \<open>BB\<close>: the first one is read twice.\<close>

lemma unpack_byte_twice: "wt_struct_unpackv be [x, y] [0x42, 0x42] = Inr [Out_8 x, Out_8 x]"
proof -
  let ?p = "\<lambda>n. \<lparr>pk_fmt = [0x42, 0x42], pk_cur = n, pk_end = 2, pk_repeats = 0\<rparr>"
  have n: "pack_next (?p 0) pv_clear = (?p 1, example_field TYPE_B, Inr ())"
    "pack_next (?p 1) (example_field TYPE_B) = (?p 2, example_field TYPE_B, Inr ())"
    "pack_next (?p 2) (example_field TYPE_B) = (?p 2, example_field TYPE_B, Inl WT_NOTFOUND)"
    by code_simp+
  have f: "pack_fields (?p 0) pv_clear = ([example_field TYPE_B, example_field TYPE_B], WT_NOTFOUND)"
    by (rule fields_Inr [OF n(1) fields_Inr [OF n(2) fields_Inl [OF n(3)]]])
  have i: "pack_init [0x42, 0x42] = Inr (?p 0)" by code_simp
  show ?thesis
    using struct_unpack_list [of be "?p 0" "U_item []" pv_clear "[x, y]" "[]"] f i
    by (simp add: wt_struct_unpackv_def unpack_read_def example_field_def WT_UNPACK_PUT_def)
qed

text \<open>A format that starts with a dot, here \<open>.i\<close>, is refused: the end pointer is one byte too far.\<close>

lemma dot_format_refused: "wt_struct_check [0x2e, 0x69] 2 = Inl EINVAL"
proof -
  let ?p = "\<lambda>n. \<lparr>pk_fmt = [0x2e, 0x69], pk_cur = n, pk_end = 3, pk_repeats = 0\<rparr>"
  have n: "pack_next (?p 1) pv_clear = (?p 2, example_field TYPE_i, Inr ())"
    "pack_next (?p 2) (example_field TYPE_i) = (?p 3, example_field 0, Inl EINVAL)" by code_simp+
  have "struct_check_loop (?p 1) pv_clear 0 = (example_field 0, 1, EINVAL)"
    by (subst struct_check_loop.simps, simp add: n(1) [simplified], subst struct_check_loop.simps) (simp add: n(2) [simplified])
  moreover have "pack_initn [0x2e, 0x69] 2 = Inr (?p 1)" by code_simp
  ultimately show ?thesis by (simp add: wt_struct_check_def)
qed

end
