(* ===== verification/Wt_Bits.thy ===== *)
theory Wt_Bits
  imports Wt_Prelude
begin

text \<open>
  Bit strings (\<open>src/src/include/bitstring.i\<close>): an array of bytes, bit \<open>i\<close> of which is bit \<open>i mod 8\<close> of
  byte \<open>i div 8\<close>. An access outside the array is \<open>OUT_OF_BOUNDS\<close>. \<open>bits_of\<close>
  is the set of the bits that are set, and the lemmas say what each operation does to it.
\<close>

section \<open>Operations\<close>

definition bit_byte :: "nat \<Rightarrow> nat" where
  "bit_byte i = drop_bit 3 i"

definition bit_mask :: "nat \<Rightarrow> u8" where
  "bit_mask i = push_bit (i mod 8) 1"

definition bitstr_size :: "nat \<Rightarrow> nat" where
  "bitstr_size nbits = drop_bit 3 (nbits + 7)"

definition bit_alloc :: "nat \<Rightarrow> bytes" where
  "bit_alloc nbits = replicate (bitstr_size nbits) 0"

definition bit_test :: "bytes \<Rightarrow> nat \<Rightarrow> bool result" where
  "bit_test bitf i = (if length bitf \<le> bit_byte i then Inl OUT_OF_BOUNDS else Inr (bitf ! bit_byte i AND bit_mask i \<noteq> 0))"

definition bit_set :: "bytes \<Rightarrow> nat \<Rightarrow> bytes result" where
  "bit_set bitf i = (if length bitf \<le> bit_byte i then Inl OUT_OF_BOUNDS
     else Inr (bitf[bit_byte i := bitf ! bit_byte i OR bit_mask i]))"

definition bit_clear :: "bytes \<Rightarrow> nat \<Rightarrow> bytes result" where
  "bit_clear bitf i = (if length bitf \<le> bit_byte i then Inl OUT_OF_BOUNDS
     else Inr (bitf[bit_byte i := bitf ! bit_byte i AND NOT (bit_mask i)]))"

text \<open>The bytes between the first and the last one: \<open>while (++startbyte < stopbyte)\<close>.\<close>

fun fill_bytes :: "u8 \<Rightarrow> nat \<Rightarrow> nat \<Rightarrow> bytes \<Rightarrow> bytes" where
  "fill_bytes v 0 i bitf = bitf"
| "fill_bytes v (Suc n) i bitf = fill_bytes v n (i + 1) (bitf[i := v])"

definition bit_nclr :: "bytes \<Rightarrow> nat \<Rightarrow> nat \<Rightarrow> bytes result" where
  "bit_nclr bitf start stop =
     (let startbyte = bit_byte start; stopbyte = bit_byte stop in
      if length bitf \<le> startbyte \<or> length bitf \<le> stopbyte then Inl OUT_OF_BOUNDS
      else if startbyte = stopbyte then
        Inr (bitf[startbyte := bitf ! startbyte AND (drop_bit (8 - start mod 8) 0xff OR push_bit (stop mod 8 + 1) 0xff)])
      else
        let bitf = bitf[startbyte := bitf ! startbyte AND drop_bit (8 - start mod 8) 0xff];
            bitf = fill_bytes 0 (stopbyte - (startbyte + 1)) (startbyte + 1) bitf
        in Inr (bitf[stopbyte := bitf ! stopbyte AND push_bit (stop mod 8 + 1) 0xff]))"

definition bit_nset :: "bytes \<Rightarrow> nat \<Rightarrow> nat \<Rightarrow> bytes result" where
  "bit_nset bitf start stop =
     (let startbyte = bit_byte start; stopbyte = bit_byte stop in
      if length bitf \<le> startbyte \<or> length bitf \<le> stopbyte then Inl OUT_OF_BOUNDS
      else if startbyte = stopbyte then
        Inr (bitf[startbyte := bitf ! startbyte OR (push_bit (start mod 8) 0xff AND drop_bit (7 - stop mod 8) 0xff)])
      else
        let bitf = bitf[startbyte := bitf ! startbyte OR push_bit (start mod 8) 0xff];
            bitf = fill_bytes 0xff (stopbyte - (startbyte + 1)) (startbyte + 1) bitf
        in Inr (bitf[stopbyte := bitf ! stopbyte OR drop_bit (7 - stop mod 8) 0xff]))"

text \<open>
  The loops over the bits of a byte: \<open>for (lb = bitf[byte]; lb & 0x01; ++value, lb >>= 1)\<close> and its
  counterpart, which is only entered with a byte that is not zero.
\<close>

lemma shift_less: "lb \<noteq> 0 \<Longrightarrow> unat (drop_bit 1 lb) < unat (lb :: u8)"
proof -
  assume "lb \<noteq> 0"
  then have "0 < unat lb" by (simp add: unat_gt_0)
  moreover have "unat (drop_bit 1 lb) = unat lb div 2" unfolding unat_drop_bit_eq by (simp add: drop_bit_eq_div)
  ultimately show ?thesis by simp
qed

function low_ones :: "u8 \<Rightarrow> nat" where
  "low_ones lb = (if lb AND 1 \<noteq> 0 then Suc (low_ones (drop_bit 1 lb)) else 0)"
  by pat_completeness auto
termination by (relation "measure unat") (auto intro: shift_less [unfolded One_nat_def])

function low_zeros :: "u8 \<Rightarrow> nat" where
  "low_zeros lb = (if lb AND 1 = 0 \<and> lb \<noteq> 0 then Suc (low_zeros (drop_bit 1 lb)) else 0)"
  by pat_completeness auto
termination by (relation "measure unat") (auto intro: shift_less [unfolded One_nat_def])

declare low_ones.simps [simp del] low_zeros.simps [simp del]

text \<open>The first byte of \<open>bitf\<close> with the property \<open>p\<close>, among those up to \<open>stopbyte\<close>.\<close>

fun first_byte :: "(u8 \<Rightarrow> bool) \<Rightarrow> nat \<Rightarrow> nat \<Rightarrow> bytes \<Rightarrow> (nat \<times> u8) option result" where
  "first_byte p byt stopbyte bitf =
     (if stopbyte < byt then Inr None
      else case bitf of [] \<Rightarrow> Inl OUT_OF_BOUNDS
      | b # bs \<Rightarrow> if p b then Inr (Some (byt, b)) else first_byte p (byt + 1) stopbyte bs)"

declare first_byte.simps [simp del]

text \<open>\<open>Some\<close> the bit that is found, \<open>None\<close> for the return value \<open>-1\<close>.\<close>

definition bit_ffc :: "bytes \<Rightarrow> nat \<Rightarrow> nat option result" where
  "bit_ffc bitf nbits =
     (if nbits = 0 then Inr None
      else wt_ret (first_byte (\<lambda>b. b \<noteq> 0xff) 0 (bit_byte (nbits - 1)) bitf) (\<lambda>r.
        case r of None \<Rightarrow> Inr None
        | Some (byt, b) \<Rightarrow> let value = push_bit 3 byt + low_ones b in Inr (if nbits \<le> value then None else Some value)))"

definition bit_ffs :: "bytes \<Rightarrow> nat \<Rightarrow> nat option result" where
  "bit_ffs bitf nbits =
     (if nbits = 0 then Inr None
      else wt_ret (first_byte (\<lambda>b. b \<noteq> 0) 0 (bit_byte (nbits - 1)) bitf) (\<lambda>r.
        case r of None \<Rightarrow> Inr None
        | Some (byt, b) \<Rightarrow> let value = push_bit 3 byt + low_zeros b in Inr (if nbits \<le> value then None else Some value)))"

text \<open>
  The bit-field values of a fixed-length column store: entry \<open>entry\<close> of width \<open>width\<close>, at most eight bits. The
  \<open>switch\<close> enters at the width and falls through to the case of one bit, the highest bit of the value first;
  a width of eight is one byte, and other widths do nothing.
\<close>

fun getv_bits :: "bytes \<Rightarrow> nat \<Rightarrow> nat \<Rightarrow> u8 \<Rightarrow> u8 result" where
  "getv_bits bitf bt 0 value = Inr value"
| "getv_bits bitf bt (Suc n) value = wt_ret (bit_test bitf bt) (\<lambda>t.
     getv_bits bitf (bt + 1) n (if t then value OR push_bit n 1 else value))"

definition bit_getv :: "bytes \<Rightarrow> nat \<Rightarrow> nat \<Rightarrow> u8 result" where
  "bit_getv bitf entry width =
     (let bt = entry * width in
      if width = 8 then (if length bitf \<le> bit_byte bt then Inl OUT_OF_BOUNDS else Inr (bitf ! bit_byte bt))
      else if 1 \<le> width \<and> width \<le> 7 then getv_bits bitf bt width 0
      else Inr 0)"

fun setv_bits :: "bytes \<Rightarrow> nat \<Rightarrow> nat \<Rightarrow> u8 \<Rightarrow> bytes result" where
  "setv_bits bitf bt 0 value = Inr bitf"
| "setv_bits bitf bt (Suc n) value =
     wt_ret (if value AND push_bit n 1 \<noteq> 0 then bit_set bitf bt else bit_clear bitf bt) (\<lambda>bitf.
       setv_bits bitf (bt + 1) n value)"

definition bit_setv :: "bytes \<Rightarrow> nat \<Rightarrow> nat \<Rightarrow> u8 \<Rightarrow> bytes result" where
  "bit_setv bitf entry width value =
     (let bt = entry * width in
      if width = 8 then (if length bitf \<le> bit_byte bt then Inl OUT_OF_BOUNDS else Inr (bitf[bit_byte bt := value]))
      else if 1 \<le> width \<and> width \<le> 7 then setv_bits bitf bt width value
      else Inr bitf)"

text \<open>A page's values are indexed by record number: \<open>recno\<close> is the first record of the page.\<close>

definition bit_getv_recno :: "bytes \<Rightarrow> nat \<Rightarrow> nat \<Rightarrow> nat \<Rightarrow> u8 result" where
  "bit_getv_recno bitf page_recno recno width = bit_getv bitf (recno - page_recno) width"

definition bit_setv_recno :: "bytes \<Rightarrow> nat \<Rightarrow> nat \<Rightarrow> nat \<Rightarrow> u8 \<Rightarrow> bytes result" where
  "bit_setv_recno bitf page_recno recno width value = bit_setv bitf (recno - page_recno) width value"

section \<open>The set of bits\<close>

definition bits_of :: "bytes \<Rightarrow> nat set" where
  "bits_of bitf = {i. i < 8 * length bitf \<and> bit (bitf ! (i div 8)) (i mod 8)}"

lemma bit_byte_div [simp]: "bit_byte i = i div 8"
  by (simp add: bit_byte_def drop_bit_eq_div)

lemma byte_in_range: "i < 8 * n \<longleftrightarrow> i div 8 < (n :: nat)"
  by (simp add: div_less_iff_less_mult mult.commute)

lemma bits_of_iff: "i \<in> bits_of bitf \<longleftrightarrow> i div 8 < length bitf \<and> bit (bitf ! (i div 8)) (i mod 8)"
  by (simp add: bits_of_def byte_in_range)

lemma bits_of_update:
  "i \<in> bits_of (bitf[k := v]) \<longleftrightarrow> (if i div 8 = k then k < length bitf \<and> bit v (i mod 8) else i \<in> bits_of bitf)"
  by (auto simp: bits_of_iff)

lemma bit_mask_bit: "bit (bit_mask i) j \<longleftrightarrow> j = i mod 8"
  by (auto simp: bit_mask_def bit_simps)

lemma same_bit: "x div 8 = i div 8 \<and> x mod 8 = i mod 8 \<longleftrightarrow> x = (i :: nat)"
  by (metis mult_div_mod_eq)

lemma and_mask_bit: "(b :: u8) AND bit_mask i \<noteq> 0 \<longleftrightarrow> bit b (i mod 8)"
proof -
  have "b AND bit_mask i \<noteq> 0 \<longleftrightarrow> (\<exists>j. bit (b AND bit_mask i) j)" using bit_eqI [of "b AND bit_mask i" 0] by fastforce
  also have "\<dots> \<longleftrightarrow> bit b (i mod 8)" by (auto simp: bit_mask_bit bit_and_iff)
  finally show ?thesis .
qed

lemma bit_test_spec: "i < 8 * length bitf \<Longrightarrow> bit_test bitf i = Inr (i \<in> bits_of bitf)"
  by (simp add: bit_test_def bits_of_iff and_mask_bit byte_in_range not_le)

lemma bit_set_spec:
  assumes "i < 8 * length bitf"
  shows "\<exists>b. bit_set bitf i = Inr b \<and> length b = length bitf \<and> bits_of b = insert i (bits_of bitf)"
proof -
  have k: "i div 8 < length bitf" using assms byte_in_range by blast
  have "bits_of (bitf[i div 8 := bitf ! (i div 8) OR bit_mask i]) = insert i (bits_of bitf)"
    proof (rule set_eqI)
    fix x
    show "x \<in> bits_of (bitf[i div 8 := bitf ! (i div 8) OR bit_mask i]) \<longleftrightarrow> x \<in> insert i (bits_of bitf)"
      using k same_bit [of x i] by (cases "x div 8 = i div 8") (auto simp: bits_of_iff nth_list_update bit_or_iff bit_mask_bit)
  qed
  then show ?thesis using k by (simp add: bit_set_def not_le)
qed

lemma bit_clear_spec:
  assumes "i < 8 * length bitf"
  shows "\<exists>b. bit_clear bitf i = Inr b \<and> length b = length bitf \<and> bits_of b = bits_of bitf - {i}"
proof -
  have k: "i div 8 < length bitf" using assms byte_in_range by blast
  have "bits_of (bitf[i div 8 := bitf ! (i div 8) AND NOT (bit_mask i)]) = bits_of bitf - {i}"
    proof (rule set_eqI)
    fix x
    show "x \<in> bits_of (bitf[i div 8 := bitf ! (i div 8) AND NOT (bit_mask i)]) \<longleftrightarrow> x \<in> bits_of bitf - {i}"
      using k same_bit [of x i] by (cases "x div 8 = i div 8") (auto simp: bits_of_iff nth_list_update bit_and_iff bit_not_iff bit_mask_bit)
  qed
  then show ?thesis using k by (simp add: bit_clear_def not_le)
qed

lemma bit_alloc_spec: "bits_of (bit_alloc n) = {}" "n \<le> 8 * length (bit_alloc n)"
  by (auto simp: bit_alloc_def bits_of_def bitstr_size_def drop_bit_eq_div)

lemma fill_bytes_nth:
  "i + n \<le> length bitf \<Longrightarrow> length (fill_bytes v n i bitf) = length bitf \<and>
    (\<forall>j<length bitf. fill_bytes v n i bitf ! j = (if i \<le> j \<and> j < i + n then v else bitf ! j))"
  by (induction v n i bitf rule: fill_bytes.induct) (auto simp: nth_list_update)

lemma masks: "j < 8 \<Longrightarrow> bit (push_bit a (0xff :: u8)) j \<longleftrightarrow> a \<le> j" "j < 8 \<Longrightarrow> bit (drop_bit a (0xff :: u8)) j \<longleftrightarrow> a + j < 8"
proof -
  have m: "(0xff :: u8) = mask 8" by code_simp
  show "j < 8 \<Longrightarrow> bit (push_bit a (0xff :: u8)) j \<longleftrightarrow> a \<le> j" "j < 8 \<Longrightarrow> bit (drop_bit a (0xff :: u8)) j \<longleftrightarrow> a + j < 8"
    unfolding m bit_push_bit_iff bit_drop_bit_eq o_def bit_mask_iff by auto
qed


lemma div_mod_le: "a \<le> b \<longleftrightarrow> a div 8 < b div 8 \<or> a div 8 = b div 8 \<and> a mod 8 \<le> b mod 8" for a b :: nat
proof -
  have "a = 8 * (a div 8) + a mod 8" "b = 8 * (b div 8) + b mod 8" "a mod 8 < 8" "b mod 8 < 8" by simp_all
  then show ?thesis by linarith
qed

text \<open>The byte array after a range of bits was changed, byte by byte.\<close>

lemma nset_nth:
  assumes "start div 8 \<le> stop div 8" "stop div 8 < length bitf"
  shows "\<exists>b. bit_nset bitf start stop = Inr b \<and> length b = length bitf \<and>
    (\<forall>q<length bitf. b ! q = bitf ! q OR
       (if q < start div 8 \<or> stop div 8 < q then 0
        else (if q = start div 8 then push_bit (start mod 8) 0xff else 0xff) AND (if q = stop div 8 then drop_bit (7 - stop mod 8) 0xff else 0xff)))"
proof (cases "start div 8 = stop div 8")
  case True
  then show ?thesis using assms by (auto simp: bit_nset_def nth_list_update Let_def)
next
  case False
  let ?s = "start div 8" and ?e = "stop div 8"
  have l: "?s < ?e" using False assms(1) by simp
  have f: "(x :: u8) OR 0xff = 0xff" "(0xff :: u8) AND x = x" "x AND 0xff = x" for x
  proof -
    have m: "(0xff :: u8) = - 1" by code_simp
    show "x OR 0xff = 0xff" "0xff AND x = x" "x AND 0xff = x" unfolding m by simp_all
  qed
  let ?b1 = "bitf[?s := bitf ! ?s OR push_bit (start mod 8) 0xff]"
  have n: "length (fill_bytes 0xff (?e - (?s + 1)) (?s + 1) ?b1) = length bitf"
    "\<forall>j<length bitf. fill_bytes 0xff (?e - (?s + 1)) (?s + 1) ?b1 ! j = (if ?s < j \<and> j < ?e then 0xff else ?b1 ! j)"
    using fill_bytes_nth [of "?s + 1" "?e - (?s + 1)" ?b1 "0xff"] l assms(2) by auto
  define F where "F = fill_bytes 0xff (?e - (?s + 1)) (?s + 1) ?b1"
  have Fe: "F ! ?e = bitf ! ?e" using n(2) l assms(2) by (simp add: F_def nth_list_update)
  have Fq: "F ! q = (if ?s < q \<and> q < ?e then 0xff else if q = ?s then bitf ! ?s OR push_bit (start mod 8) 0xff else bitf ! q)"
    if "q < length bitf" for q
    using n(2) [rule_format, OF that] l assms(2) by (simp add: F_def nth_list_update)
  have F: "bit_nset bitf start stop = Inr (F[?e := F ! ?e OR drop_bit (7 - stop mod 8) 0xff])" "length F = length bitf"
    using n(1) l assms(2) by (simp_all add: F_def bit_nset_def Let_def)
  show ?thesis
  proof (intro exI conjI allI impI, rule F(1))
    fix q assume q: "q < length bitf"
    consider "q < ?s" | "q = ?s" | "?s < q" "q < ?e" | "q = ?e" | "?e < q" by linarith
    then show "F[?e := F ! ?e OR drop_bit (7 - stop mod 8) 0xff] ! q =
        bitf ! q OR (if q < ?s \<or> ?e < q then 0 else (if q = ?s then push_bit (start mod 8) 0xff else 0xff) AND (if q = ?e then drop_bit (7 - stop mod 8) 0xff else 0xff))"
      using q l F(2) Fq [OF q] by cases (simp_all add: Fe f)
  qed (simp add: F(2))
qed

lemma bit_nset_spec:
  assumes "start \<le> stop" "stop < 8 * length bitf"
  shows "\<exists>b. bit_nset bitf start stop = Inr b \<and> length b = length bitf \<and> bits_of b = bits_of bitf \<union> {start..stop}"
proof -
  have e: "start div 8 \<le> stop div 8" "stop div 8 < length bitf" using assms div_le_mono byte_in_range by auto
  obtain b where b: "bit_nset bitf start stop = Inr b" "length b = length bitf"
      "\<And>q. q < length bitf \<Longrightarrow> b ! q = bitf ! q OR (if q < start div 8 \<or> stop div 8 < q then 0
        else (if q = start div 8 then push_bit (start mod 8) 0xff else 0xff) AND (if q = stop div 8 then drop_bit (7 - stop mod 8) 0xff else 0xff))"
    using nset_nth [OF e] by blast
  have ff: "bit (0xff :: u8) j" if "j < 8" for j using masks(1) [OF that, of 0] by simp
  have "bits_of b = bits_of bitf \<union> {start..stop}"
  proof (rule set_eqI)
    fix x
    have m: "x mod 8 < 8" "7 - stop mod 8 + x mod 8 < 8 \<longleftrightarrow> x mod 8 \<le> stop mod 8"
      using mod_less_divisor [of 8 x] mod_less_divisor [of 8 stop] by linarith+
    have r: "x \<in> {start..stop} \<longleftrightarrow> (start div 8 < x div 8 \<or> start div 8 = x div 8 \<and> start mod 8 \<le> x mod 8) \<and>
        (x div 8 < stop div 8 \<or> x div 8 = stop div 8 \<and> x mod 8 \<le> stop mod 8)"
      using div_mod_le [of start x] div_mod_le [of x stop] by simp
    show "x \<in> bits_of b \<longleftrightarrow> x \<in> bits_of bitf \<union> {start..stop}"
    proof (cases "x div 8 < length bitf")
      case True
      show ?thesis unfolding Un_iff r bits_of_iff b(2) b(3) [OF True]
        using True m ff masks by (auto simp: bit_or_iff bit_and_iff)
    next
      case False
      then show ?thesis unfolding Un_iff r bits_of_iff b(2) using e by auto
    qed
  qed
  then show ?thesis using b by blast
qed


lemma nclr_nth:
  assumes "start div 8 \<le> stop div 8" "stop div 8 < length bitf"
  shows "\<exists>b. bit_nclr bitf start stop = Inr b \<and> length b = length bitf \<and>
    (\<forall>q<length bitf. b ! q = (if q < start div 8 \<or> stop div 8 < q then bitf ! q
       else bitf ! q AND ((if q = start div 8 then drop_bit (8 - start mod 8) 0xff else 0) OR (if q = stop div 8 then push_bit (stop mod 8 + 1) 0xff else 0))))"
proof (cases "start div 8 = stop div 8")
  case True
  then show ?thesis using assms by (auto simp: bit_nclr_def nth_list_update Let_def)
next
  case False
  let ?s = "start div 8" and ?e = "stop div 8"
  have l: "?s < ?e" using False assms(1) by simp
  let ?b1 = "bitf[?s := bitf ! ?s AND drop_bit (8 - start mod 8) 0xff]"
  let ?f = "fill_bytes 0 (?e - (?s + 1)) (?s + 1) ?b1"
  have n: "length ?f = length bitf" "\<forall>j<length bitf. ?f ! j = (if ?s < j \<and> j < ?e then 0 else ?b1 ! j)"
    using fill_bytes_nth [of "?s + 1" "?e - (?s + 1)" ?b1 0] l assms(2) by auto
  define F where "F = ?f"
  have Fe: "F ! ?e = bitf ! ?e" using n(2) l assms(2) by (simp add: F_def nth_list_update)
  have Fq: "F ! q = (if ?s < q \<and> q < ?e then 0 else if q = ?s then bitf ! ?s AND drop_bit (8 - start mod 8) 0xff else bitf ! q)"
    if "q < length bitf" for q
    using n(2) [rule_format, OF that] l assms(2) by (simp add: F_def nth_list_update)
  have F: "bit_nclr bitf start stop = Inr (F[?e := F ! ?e AND push_bit (stop mod 8 + 1) 0xff])" "length F = length bitf"
    using n(1) l assms(2) by (simp_all add: F_def bit_nclr_def Let_def)
  show ?thesis
  proof (intro exI conjI allI impI, rule F(1))
    fix q assume q: "q < length bitf"
    consider "q < ?s" | "q = ?s" | "?s < q" "q < ?e" | "q = ?e" | "?e < q" by linarith
    then show "F[?e := F ! ?e AND push_bit (stop mod 8 + 1) 0xff] ! q = (if q < ?s \<or> ?e < q then bitf ! q
        else bitf ! q AND ((if q = ?s then drop_bit (8 - start mod 8) 0xff else 0) OR (if q = ?e then push_bit (stop mod 8 + 1) 0xff else 0)))"
      using q l F(2) Fq [OF q] by cases (simp_all add: Fe)
  qed (simp add: F(2))
qed

lemma range_bits:
  "x \<in> {start..stop} \<longleftrightarrow> (start div 8 < x div 8 \<or> start div 8 = x div 8 \<and> start mod 8 \<le> x mod 8) \<and>
    (x div 8 < stop div 8 \<or> x div 8 = stop div 8 \<and> x mod 8 \<le> stop mod 8)" for x start stop :: nat
  using div_mod_le [of start x] div_mod_le [of x stop] by simp

lemma clear_cases:
  "(if x < s \<or> e < x then P else P \<and> (x = s \<and> \<not> a \<or> x = e \<and> \<not> b)) \<longleftrightarrow>
    P \<and> \<not> ((s < x \<or> s = x \<and> a) \<and> (x < e \<or> x = e \<and> b))" for x s e :: nat
  by (cases x s rule: linorder_cases; cases x e rule: linorder_cases; simp)

lemma bit_nclr_spec:
  assumes "start \<le> stop" "stop < 8 * length bitf"
  shows "\<exists>b. bit_nclr bitf start stop = Inr b \<and> length b = length bitf \<and> bits_of b = bits_of bitf - {start..stop}"
proof -
  have e: "start div 8 \<le> stop div 8" "stop div 8 < length bitf" using assms div_le_mono byte_in_range by auto
  obtain b where b: "bit_nclr bitf start stop = Inr b" "length b = length bitf"
      "\<And>q. q < length bitf \<Longrightarrow> b ! q = (if q < start div 8 \<or> stop div 8 < q then bitf ! q
       else bitf ! q AND ((if q = start div 8 then drop_bit (8 - start mod 8) 0xff else 0) OR (if q = stop div 8 then push_bit (stop mod 8 + 1) 0xff else 0)))"
    using nclr_nth [OF e] by blast
  have "bits_of b = bits_of bitf - {start..stop}"
  proof (rule set_eqI)
    fix x
    have m: "x mod 8 < 8" "8 - start mod 8 + x mod 8 < 8 \<longleftrightarrow> \<not> start mod 8 \<le> x mod 8"
      using mod_less_divisor [of 8 x] mod_less_divisor [of 8 start] by linarith+
    show "x \<in> bits_of b \<longleftrightarrow> x \<in> bits_of bitf - {start..stop}"
    proof (cases "x div 8 < length bitf")
      case True
      let ?w = "(if x div 8 = start div 8 then drop_bit (8 - start mod 8) 0xff else 0) OR (if x div 8 = stop div 8 then push_bit (stop mod 8 + 1) 0xff else (0 :: u8))"
      have w: "bit ?w (x mod 8) \<longleftrightarrow> x div 8 = start div 8 \<and> \<not> start mod 8 \<le> x mod 8 \<or> x div 8 = stop div 8 \<and> \<not> x mod 8 \<le> stop mod 8"
        unfolding bit_or_iff if_distrib [of "\<lambda>v. bit v (x mod 8)"] masks [OF m(1)] bit_0_eq bot_apply m(2) by auto
      show ?thesis unfolding Diff_iff range_bits bits_of_iff b(2) b(3) [OF True] if_distrib [of "\<lambda>v. bit v (x mod 8)"] bit_and_iff w
        using True clear_cases by simp
    next
      case False
      then show ?thesis unfolding Diff_iff bits_of_iff b(2) by simp
    qed
  qed
  then show ?thesis using b by blast
qed

text \<open>The first clear and the first set bit.\<close>

lemma and_one: "(lb :: u8) AND 1 \<noteq> 0 \<longleftrightarrow> bit lb 0"
  by (simp add: and_one_eq odd_iff_mod_2_eq_one bit_0)

lemma low_ones_bits: "(\<forall>j<low_ones lb. bit lb j) \<and> \<not> bit lb (low_ones lb)"
proof (induction lb rule: low_ones.induct)
  case (1 lb)
  show ?case
  proof (cases "lb AND 1 \<noteq> 0")
    case True
    from "1.IH" [OF True] show ?thesis using True and_one
      by (subst (1 2) low_ones.simps) (auto simp: bit_drop_bit_eq All_less_Suc2)
  next
    case False
    then show ?thesis using and_one [of lb] by (subst (1 2) low_ones.simps) simp
  qed
qed

lemma low_zeros_bits: "lb \<noteq> 0 \<Longrightarrow> (\<forall>j<low_zeros lb. \<not> bit lb j) \<and> bit lb (low_zeros lb)"
proof (induction lb rule: low_zeros.induct)
  case (1 lb)
  show ?case
  proof (cases "lb AND 1 = 0")
    case True
    then have b: "\<not> bit lb 0" using and_one by blast
    have "drop_bit 1 lb \<noteq> 0"
    proof
      assume "drop_bit 1 lb = 0"
      then have "\<not> bit lb (Suc j)" for j using bit_drop_bit_eq [of 1 lb] by (simp add: fun_eq_iff)
      then have "\<not> bit lb j" for j using b by (cases j) auto
      then show False using "1.prems" bit_eqI [of lb 0] by simp
    qed
    then show ?thesis using True b "1.IH" [OF conjI [OF True "1.prems"]] "1.prems"
      by (subst (1 2) low_zeros.simps) (auto simp: bit_drop_bit_eq All_less_Suc2)
  next
    case False
    then show ?thesis using and_one [of lb] by (subst (1 2) low_zeros.simps) simp
  qed
qed

lemma first_byte_spec:
  assumes "stopbyte < byt + length bitf"
  shows "first_byte p byt stopbyte bitf = Inr r \<Longrightarrow>
    (case r of None \<Rightarrow> \<forall>q. byt \<le> q \<and> q \<le> stopbyte \<longrightarrow> \<not> p (bitf ! (q - byt))
     | Some (k, b) \<Rightarrow> byt \<le> k \<and> k \<le> stopbyte \<and> b = bitf ! (k - byt) \<and> p b \<and> (\<forall>q. byt \<le> q \<and> q < k \<longrightarrow> \<not> p (bitf ! (q - byt))))"
    "\<exists>r. first_byte p byt stopbyte bitf = Inr r"
proof -
  show "first_byte p byt stopbyte bitf = Inr r \<Longrightarrow>
    (case r of None \<Rightarrow> \<forall>q. byt \<le> q \<and> q \<le> stopbyte \<longrightarrow> \<not> p (bitf ! (q - byt))
     | Some (k, b) \<Rightarrow> byt \<le> k \<and> k \<le> stopbyte \<and> b = bitf ! (k - byt) \<and> p b \<and> (\<forall>q. byt \<le> q \<and> q < k \<longrightarrow> \<not> p (bitf ! (q - byt))))"
    using assms
  proof (induction p byt stopbyte bitf arbitrary: r rule: first_byte.induct)
    case (1 p byt stopbyte bitf)
    show ?case
    proof (cases "stopbyte < byt")
      case True
      then show ?thesis using "1.prems" by (auto simp: first_byte.simps)
    next
      case False
      then obtain b bs where bs: "bitf = b # bs" using "1.prems"(2) by (cases bitf) auto
      show ?thesis
      proof (cases "p b")
        case True
        then show ?thesis using "1.prems" False bs by (auto simp: first_byte.simps)
      next
        case np: False
        have c: "(b # bs) ! (q - byt) = (if q = byt then b else bs ! (q - (byt + 1)))" if "byt \<le> q" for q
          using that by (auto simp: nth_Cons')
        have e: "first_byte p (byt + 1) stopbyte bs = Inr r" using "1.prems" False np bs by (simp add: first_byte.simps)
        from "1.IH" [OF False bs np e] "1.prems"(2) bs np show ?thesis
          by (auto simp: c Suc_le_eq less_le split: option.splits if_splits)
      qed
    qed
  qed
  show "\<exists>r. first_byte p byt stopbyte bitf = Inr r" using assms
  proof (induction p byt stopbyte bitf rule: first_byte.induct)
    case (1 p byt stopbyte bitf)
    then show ?case by (cases bitf) (auto simp: first_byte.simps)
  qed
qed

text \<open>The first bit of a kind among the first \<open>nbits\<close> ones.\<close>

lemma bit_ffc_spec:
  assumes "nbits \<le> 8 * length bitf"
  shows "\<exists>r. bit_ffc bitf nbits = Inr r \<and>
    (case r of None \<Rightarrow> \<forall>i<nbits. i \<in> bits_of bitf | Some k \<Rightarrow> k < nbits \<and> k \<notin> bits_of bitf \<and> (\<forall>i<k. i \<in> bits_of bitf))"
proof (cases "nbits = 0")
  case False
  have s: "(nbits - 1) div 8 < length bitf" using False assms byte_in_range [of "nbits - 1" "length bitf"] by linarith
  have ff: "bit (0xff :: u8) j" if "j < 8" for j using masks(1) [OF that, of 0] by simp
  obtain r where r: "first_byte (\<lambda>b. b \<noteq> 0xff) 0 ((nbits - 1) div 8) bitf = Inr r" using first_byte_spec(2) s by (metis add_0)
  note sp = first_byte_spec(1) [OF _ r, unfolded add_0, OF s]
  have lt: "i div 8 \<le> (nbits - 1) div 8" if "i < nbits" for i using that by (intro div_le_mono) simp
  show ?thesis
  proof (cases r)
    case None
    then have "bitf ! q = 0xff" if "q \<le> (nbits - 1) div 8" for q using sp that by auto
    then have "i \<in> bits_of bitf" if "i < nbits" for i
      using that lt [OF that] s ff by (simp add: bits_of_iff)
    then show ?thesis using None r False by (simp add: bit_ffc_def wt_ret_def)
  next
    case (Some kb)
    then obtain k b where kb: "r = Some (k, b)" by (cases kb) auto
    let ?v = "8 * k + low_ones b"
    have k: "k \<le> (nbits - 1) div 8" "b = bitf ! k" "b \<noteq> 0xff" "\<And>q. q < k \<Longrightarrow> bitf ! q = 0xff" using sp kb by auto
    have l8: "low_ones b < 8"
    proof (rule ccontr)
      assume "\<not> low_ones b < 8"
      then have "bit b j" if "j < 8" for j using low_ones_bits [of b] that by auto
      then have "b = 0xff" using ff by (intro bit_word_eqI) simp
      then show False using k(3) by simp
    qed
    then have v: "?v div 8 = k" "?v mod 8 = low_ones b" by simp_all
    have vn: "?v \<notin> bits_of bitf" unfolding bits_of_iff v using k(2) low_ones_bits [of b] by simp
    have before: "i \<in> bits_of bitf" if "i < ?v" for i
    proof -
      have "i div 8 < k \<or> i div 8 = k \<and> i mod 8 < low_ones b" using that div_mod_le [of ?v i] v by linarith
      then show ?thesis unfolding bits_of_iff using k s ff low_ones_bits [of b] by auto
    qed
    have e: "bit_ffc bitf nbits = Inr (if nbits \<le> ?v then None else Some ?v)"
      using r kb False by (simp add: bit_ffc_def wt_ret_def push_bit_eq_mult mult.commute Let_def)
    show ?thesis unfolding e using vn before by auto
  qed
qed (simp add: bit_ffc_def)

lemma bit_ffs_spec:
  assumes "nbits \<le> 8 * length bitf"
  shows "\<exists>r. bit_ffs bitf nbits = Inr r \<and>
    (case r of None \<Rightarrow> \<forall>i<nbits. i \<notin> bits_of bitf | Some k \<Rightarrow> k < nbits \<and> k \<in> bits_of bitf \<and> (\<forall>i<k. i \<notin> bits_of bitf))"
proof (cases "nbits = 0")
  case False
  have s: "(nbits - 1) div 8 < length bitf" using False assms byte_in_range [of "nbits - 1" "length bitf"] by linarith
  obtain r where r: "first_byte (\<lambda>b. b \<noteq> 0) 0 ((nbits - 1) div 8) bitf = Inr r" using first_byte_spec(2) s by (metis add_0)
  note sp = first_byte_spec(1) [OF _ r, unfolded add_0, OF s]
  have lt: "i div 8 \<le> (nbits - 1) div 8" if "i < nbits" for i using that by (intro div_le_mono) simp
  show ?thesis
  proof (cases r)
    case None
    then have "bitf ! q = 0" if "q \<le> (nbits - 1) div 8" for q using sp that by auto
    then have "i \<notin> bits_of bitf" if "i < nbits" for i
      using that lt [OF that] by (simp add: bits_of_iff)
    then show ?thesis using None r False by (simp add: bit_ffs_def wt_ret_def)
  next
    case (Some kb)
    then obtain k b where kb: "r = Some (k, b)" by (cases kb) auto
    let ?v = "8 * k + low_zeros b"
    have k: "k \<le> (nbits - 1) div 8" "b = bitf ! k" "b \<noteq> 0" "\<And>q. q < k \<Longrightarrow> bitf ! q = 0" using sp kb by auto
    note z = low_zeros_bits [OF k(3)]
    have l8: "low_zeros b < 8" using z bit_imp_le_length [of b "low_zeros b"] by simp
    then have v: "?v div 8 = k" "?v mod 8 = low_zeros b" by simp_all
    have vn: "?v \<in> bits_of bitf" unfolding bits_of_iff v using k s z by simp
    have before: "i \<notin> bits_of bitf" if "i < ?v" for i
    proof -
      have "i div 8 < k \<or> i div 8 = k \<and> i mod 8 < low_zeros b" using that div_mod_le [of ?v i] v by linarith
      then show ?thesis unfolding bits_of_iff using k z by auto
    qed
    have e: "bit_ffs bitf nbits = Inr (if nbits \<le> ?v then None else Some ?v)"
      using r kb False by (simp add: bit_ffs_def wt_ret_def push_bit_eq_mult mult.commute Let_def)
    show ?thesis unfolding e using vn before by auto
  qed
qed (simp add: bit_ffs_def)

section \<open>Bit-field values\<close>

lemma getv_bits_spec:
  "\<lbrakk> bt + n \<le> 8 * length bitf; n \<le> 8 \<rbrakk> \<Longrightarrow> \<exists>v. getv_bits bitf bt n vl = Inr v \<and>
    (\<forall>j. bit v j \<longleftrightarrow> bit vl j \<or> j < n \<and> bt + (n - 1 - j) \<in> bits_of bitf)"
proof (induction bitf bt n vl rule: getv_bits.induct)
  case (2 bitf bt n vl)
  have t: "bit_test bitf bt = Inr (bt \<in> bits_of bitf)" using "2.prems" bit_test_spec by simp
  obtain v where v: "getv_bits bitf (bt + 1) n (if bt \<in> bits_of bitf then vl OR push_bit n 1 else vl) = Inr v"
    "\<And>j. bit v j \<longleftrightarrow> bit (if bt \<in> bits_of bitf then vl OR push_bit n 1 else vl) j \<or> j < n \<and> bt + 1 + (n - 1 - j) \<in> bits_of bitf"
    using "2.IH" [OF t] "2.prems" by auto
  have "bit (push_bit n (1 :: u8)) j \<longleftrightarrow> j = n" for j using "2.prems"(2) by (auto simp: bit_simps)
  then have "bit v j \<longleftrightarrow> bit vl j \<or> j < Suc n \<and> bt + (Suc n - 1 - j) \<in> bits_of bitf" for j
    unfolding v(2) by (cases j n rule: linorder_cases) (auto simp: bit_or_iff Suc_diff_Suc)
  then show ?case using t v(1) by (simp add: wt_ret_def)
qed simp

lemma setv_bits_spec:
  "\<lbrakk> bt + n \<le> 8 * length bitf; n \<le> 8 \<rbrakk> \<Longrightarrow> \<exists>b. setv_bits bitf bt n vl = Inr b \<and> length b = length bitf \<and>
    (\<forall>i. i \<in> bits_of b \<longleftrightarrow> (if bt \<le> i \<and> i < bt + n then bit vl (n - 1 - (i - bt)) else i \<in> bits_of bitf))"
proof (induction bitf bt n vl rule: setv_bits.induct)
  case (2 bitf bt n vl)
  have m: "vl AND push_bit n 1 \<noteq> 0 \<longleftrightarrow> bit vl n"
    using and_mask_bit [of vl n] "2.prems"(2) by (simp add: bit_mask_def)
  obtain c where c: "(if vl AND push_bit n 1 \<noteq> 0 then bit_set bitf bt else bit_clear bitf bt) = Inr c"
      "length c = length bitf" "\<And>i. i \<in> bits_of c \<longleftrightarrow> (if i = bt then bit vl n else i \<in> bits_of bitf)"
    using bit_set_spec [of bt bitf] bit_clear_spec [of bt bitf] "2.prems"(1) m by (cases "bit vl n") (auto split: if_splits)
  obtain b where b: "setv_bits c (bt + 1) n vl = Inr b" "length b = length c"
      "\<And>i. i \<in> bits_of b \<longleftrightarrow> (if bt + 1 \<le> i \<and> i < bt + 1 + n then bit vl (n - 1 - (i - (bt + 1))) else i \<in> bits_of c)"
    using "2.IH" [OF c(1)] "2.prems" c(2) by auto
  have "i \<in> bits_of b \<longleftrightarrow> (if bt \<le> i \<and> i < bt + Suc n then bit vl (Suc n - 1 - (i - bt)) else i \<in> bits_of bitf)" for i
    unfolding b(3) c(3) by (cases i bt rule: linorder_cases) auto
  then show ?case using b c by (simp add: wt_ret_def)
qed auto

lemma entry_apart: "\<lbrakk> e * w \<le> i; i < e * w + w; f * w \<le> i; i < f * w + w \<rbrakk> \<Longrightarrow> e = (f :: nat)"
proof -
  assume a: "e * w \<le> i" "i < e * w + w" "f * w \<le> i" "i < f * w + w"
  then have "i div w = e" "i div w = f" by (intro div_nat_eqI; simp add: mult.commute)+
  then show "e = f" by simp
qed

text \<open>
  C28: Fixed-length column-store values of every width from one to eight bits can be updated in place: writing
  entry \<open>e\<close> inside the array succeeds, afterwards entry \<open>e\<close> reads back the low \<open>width\<close> bits of the value that was
  written, and every other entry inside the array reads what it did before, although entries share bytes and
  may straddle two of them.
\<close>

theorem bit_setv_getv:
  assumes "1 \<le> width" "width \<le> 8" "(e + 1) * width \<le> 8 * length bitf" "(f + 1) * width \<le> 8 * length bitf"
  shows "\<exists>b. bit_setv bitf e width v = Inr b \<and> length b = length bitf \<and>
    bit_getv b f width = (if f = e then Inr (take_bit width v) else bit_getv bitf f width)"
proof (cases "width = 8")
  case True
  have "e < length bitf" "f < length bitf" using assms True by simp_all
  moreover have "take_bit 8 v = v" for v :: u8 by (rule bit_word_eqI) (simp add: bit_take_bit_iff)
  ultimately show ?thesis using True by (auto simp: bit_setv_def bit_getv_def Let_def nth_list_update)
next
  case False
  have w: "width \<le> 7" "e * width + width \<le> 8 * length bitf" "f * width + width \<le> 8 * length bitf" using assms False by simp_all
  obtain b where b: "setv_bits bitf (e * width) width v = Inr b" "length b = length bitf"
      "\<And>i. i \<in> bits_of b \<longleftrightarrow> (if e * width \<le> i \<and> i < e * width + width then bit v (width - 1 - (i - e * width)) else i \<in> bits_of bitf)"
    using setv_bits_spec [OF w(2)] assms(2) by metis
  obtain r where r: "getv_bits b (f * width) width 0 = Inr r"
      "\<And>j. bit r j \<longleftrightarrow> bit (0 :: u8) j \<or> j < width \<and> f * width + (width - 1 - j) \<in> bits_of b"
    using getv_bits_spec [of "f * width" width b 0] w b(2) assms(2) by auto
  obtain o1 where o1: "getv_bits bitf (f * width) width 0 = Inr o1"
      "\<And>j. bit o1 j \<longleftrightarrow> bit (0 :: u8) j \<or> j < width \<and> f * width + (width - 1 - j) \<in> bits_of bitf"
    using getv_bits_spec [of "f * width" width bitf 0] w assms(2) by auto
  have "r = (if f = e then take_bit width v else o1)"
  proof (rule bit_word_eqI)
    fix j assume "j < LENGTH(8)"
    let ?i = "f * width + (width - 1 - j)"
    have i: "e * width \<le> ?i \<and> ?i < e * width + width \<longleftrightarrow> f = e" if "j < width"
      using that entry_apart [of e width ?i f] by auto
    have "width - 1 - (?i - f * width) = j" if "j < width" using that by simp
    then show "bit r j \<longleftrightarrow> bit (if f = e then take_bit width v else o1) j"
      using i by (auto simp: r(2) o1(2) b(3) bit_take_bit_iff)
  qed
  then show ?thesis using b r(1) o1(1) w assms(1) False by (simp add: bit_setv_def bit_getv_def)
qed

theorem bit_setv_getv_witness:
  "(\<exists>b. bit_setv [0x5a, 0x0f] 2 3 5 = Inr b \<and> length b = 2 \<and> bit_getv b 2 3 = Inr 5) \<and>
   (\<exists>b. bit_setv [0x5a, 0x0f] 2 3 5 = Inr b \<and> bit_getv b 1 3 = Inr 6)"
proof
  have t: "take_bit 3 5 = (5 :: u8)" by code_simp
  show "\<exists>b. bit_setv [0x5a, 0x0f] 2 3 5 = Inr b \<and> length b = 2 \<and> bit_getv b 2 3 = Inr 5"
    using bit_setv_getv [of 3 2 "[0x5a, 0x0f]" 2 5] t by (simp add: numeral_2_eq_2)
  have g: "bit_getv [0x5a, 0x0f] 1 3 = Inr 6" by code_simp
  show "\<exists>b. bit_setv [0x5a, 0x0f] 2 3 5 = Inr b \<and> bit_getv b 1 3 = Inr 6"
    using bit_setv_getv [of 3 2 "[0x5a, 0x0f]" 1 5] g by auto
qed

end
