(* ===== verification/Wt_Verify.thy ===== *)
theory Wt_Verify
  imports Wt_Ckpt Wt_Bits
begin

text \<open>
  Verification of a file (\<open>src/src/block/block_vrfy.c\<close>): a bit for every allocation unit of the file
  that was seen, a bit for every unit that a checkpoint is expected to use, and the list of the
  blocks in use that is rolled forward through the checkpoints. Memory allocation succeeds; a bitmap
  that was not allocated has no bytes. An error leaves the state as it was when the failing call was made.
\<close>

section \<open>Fragments\<close>

text \<open>Division of signed integers truncates.\<close>

definition c_div :: "int \<Rightarrow> int \<Rightarrow> int" where
  "c_div x y = (if 0 \<le> x then x div y else - (- x div y))"

definition WT_OFF_TO_FRAG :: "u32 \<Rightarrow> int \<Rightarrow> nat" where
  "WT_OFF_TO_FRAG allocsize off = unat (of_int (c_div (off - WT_BLOCK_DESC_SECTOR) (uint allocsize)) :: u64)"

definition WT_FRAG_TO_OFF :: "u32 \<Rightarrow> nat \<Rightarrow> int" where
  "WT_FRAG_TO_OFF allocsize frag = int frag * uint allocsize + WT_BLOCK_DESC_SECTOR"

text \<open>\<open>(uint64_t)(size / block->allocsize)\<close> and \<open>frag + (frags - 1)\<close>, which wrap around.\<close>

definition frag_count :: "u32 \<Rightarrow> int \<Rightarrow> nat" where
  "frag_count allocsize len = unat (of_int (c_div len (uint allocsize)) :: u64)"

definition frag_stop :: "nat \<Rightarrow> nat \<Rightarrow> nat" where
  "frag_stop frag frags = unat (of_nat frag + (of_nat frags - 1) :: u64)"

text \<open>The fields of \<open>WT_BLOCK\<close> that verification uses.\<close>

record wt_verify =
  vf_verify :: bool
  vf_size :: int
  vf_alloc :: wt_extlist
  vf_frags :: nat
  vf_fragfile :: bytes
  vf_fragckpt :: "bytes option"

text \<open>A call that may fail, in a state.\<close>

definition vf_call :: "'a result \<Rightarrow> 's \<Rightarrow> ('a \<Rightarrow> 's \<times> unit result) \<Rightarrow> 's \<times> unit result" where
  "vf_call r s k = (case r of Inl e \<Rightarrow> (s, Inl e) | Inr x \<Rightarrow> k x)"

text \<open>Is there a bit with the value \<open>w\<close> among \<open>n\<close> bits from \<open>f\<close> on?\<close>

fun any_bit :: "bool \<Rightarrow> bytes \<Rightarrow> nat \<Rightarrow> nat \<Rightarrow> bool result" where
  "any_bit w bitf f 0 = Inr False"
| "any_bit w bitf f (Suc n) = wt_ret (bit_test bitf f) (\<lambda>t. if t = w then Inr True else any_bit w bitf (f + 1) n)"

definition verify_filefrag_add :: "wt_block \<Rightarrow> int \<Rightarrow> int \<Rightarrow> bool \<Rightarrow> wt_verify \<Rightarrow> wt_verify result" where
  "verify_filefrag_add block offset len nodup v =
     (if blk_file_size block < offset + len then Inl WT_ERROR
      else
        (let frag = WT_OFF_TO_FRAG (blk_allocsize block) offset; frags = frag_count (blk_allocsize block) len in
         wt_ret (if nodup then any_bit True (vf_fragfile v) frag frags else Inr False) (\<lambda>dup.
         if dup then Inl WT_ERROR
         else wt_ret (bit_nset (vf_fragfile v) frag (frag_stop frag frags)) (\<lambda>bitf.
           Inr (v\<lparr>vf_fragfile := bitf\<rparr>)))))"

definition verify_ckptfrag_add :: "wt_block \<Rightarrow> int \<Rightarrow> int \<Rightarrow> wt_verify \<Rightarrow> wt_verify result" where
  "verify_ckptfrag_add block offset len v =
     (if vf_size v < offset + len then Inl WT_ERROR
      else
        (let frag = WT_OFF_TO_FRAG (blk_allocsize block) offset; frags = frag_count (blk_allocsize block) len;
             bitf = (case vf_fragckpt v of None \<Rightarrow> [] | Some b \<Rightarrow> b) in
         wt_ret (any_bit False bitf frag frags) (\<lambda>missing.
         if missing then Inl WT_ERROR
         else wt_ret (bit_nclr bitf frag (frag_stop frag frags)) (\<lambda>bitf.
           Inr (v\<lparr>vf_fragckpt := Some bitf\<rparr>)))))"

section \<open>Checks of the bitmaps\<close>

text \<open>
  The search for runs of bits that do not have the value \<open>w\<close>: each run is changed and reported.
  \<open>last\<close> stops behind the run. The rounds are bounded by \<open>frags + 1\<close>, which is always enough.
\<close>

definition bit_flip :: "bool \<Rightarrow> bytes \<Rightarrow> nat \<Rightarrow> bytes result" where
  "bit_flip w bitf i = (if w then bit_set bitf i else bit_clear bitf i)"

function frag_run :: "bool \<Rightarrow> nat \<Rightarrow> nat \<Rightarrow> bytes \<Rightarrow> (nat \<times> bytes) result" where
  "frag_run w frags lst bitf =
     (if lst < frags then
        wt_ret (bit_test bitf lst) (\<lambda>t.
          if t = w then Inr (lst, bitf)
          else wt_ret (bit_flip w bitf lst) (\<lambda>bitf. frag_run w frags (lst + 1) bitf))
      else Inr (lst, bitf))"
  by pat_completeness auto
termination by (relation "measure (\<lambda>(w, frags, lst, bitf). frags - lst)") auto

declare frag_run.simps [simp del]

fun frag_runs :: "bool \<Rightarrow> nat \<Rightarrow> nat \<Rightarrow> bytes \<Rightarrow> ((nat \<times> nat) list \<times> bytes) result" where
  "frag_runs w 0 frags bitf = Inl OUT_OF_BOUNDS"
| "frag_runs w (Suc fuel) frags bitf =
     wt_ret ((if w then bit_ffc else bit_ffs) bitf frags) (\<lambda>r.
       case r of None \<Rightarrow> Inr ([], bitf)
       | Some frst \<Rightarrow>
           wt_ret (bit_flip w bitf frst) (\<lambda>bitf.
           wt_ret (frag_run w frags (frst + 1) bitf) (\<lambda>(lst, bitf).
           wt_ret (frag_runs w fuel frags bitf) (\<lambda>(runs, bitf).
             Inr ((frst, lst) # runs, bitf)))))"

text \<open>The units at the end of the file need not be in use.\<close>

fun frag_trail :: "nat \<Rightarrow> bytes \<Rightarrow> bytes result" where
  "frag_trail 0 bitf = Inr bitf"
| "frag_trail (Suc n) bitf =
     wt_ret (bit_test bitf (Suc n)) (\<lambda>t.
       if t then Inr bitf else wt_ret (bit_set bitf (Suc n)) (\<lambda>bitf. frag_trail n bitf))"

text \<open>The ranges that are reported, and the return value; the bitmap is discarded by the callers.\<close>

definition frag_report :: "u32 \<Rightarrow> (nat \<times> nat) list \<Rightarrow> (int \<times> int) list \<times> unit result" where
  "frag_report allocsize runs =
     (map (\<lambda>(frst, lst). (WT_FRAG_TO_OFF allocsize frst, WT_FRAG_TO_OFF allocsize lst)) runs,
      if runs = [] then Inr () else Inl WT_ERROR)"

definition verify_filefrag_chk :: "wt_block \<Rightarrow> wt_verify \<Rightarrow> (int \<times> int) list \<times> unit result" where
  "verify_filefrag_chk block v =
     (if vf_frags v = 0 then ([], Inr ())
      else
        case wt_ret (frag_trail (vf_frags v - 1) (vf_fragfile v)) (\<lambda>bitf. frag_runs True (vf_frags v + 1) (vf_frags v) bitf) of
          Inl e \<Rightarrow> ([], Inl e)
        | Inr (runs, bitf) \<Rightarrow> frag_report (blk_allocsize block) runs)"

definition verify_ckptfrag_chk :: "wt_block \<Rightarrow> wt_verify \<Rightarrow> (int \<times> int) list \<times> unit result" where
  "verify_ckptfrag_chk block v =
     (case vf_fragckpt v of None \<Rightarrow> ([], Inr ())
      | Some bitf \<Rightarrow>
        (case frag_runs False (vf_frags v + 1) (vf_frags v) bitf of
           Inl e \<Rightarrow> ([], Inl e)
         | Inr (runs, bitf) \<Rightarrow> frag_report (blk_allocsize block) runs))"

section \<open>Starting and ending\<close>

fun filefrag_add_all :: "wt_ext list \<Rightarrow> wt_verify \<times> wt_block \<Rightarrow> (wt_verify \<times> wt_block) \<times> unit result" where
  "filefrag_add_all [] (v, block) = ((v, block), Inr ())"
| "filefrag_add_all (ext # exts) (v, block) =
     vf_call (verify_filefrag_add block (ext_off ext) (ext_size ext) True v) (v, block) (\<lambda>v.
       filefrag_add_all exts (v, block))"

definition verify_start_avail ::
  "wt_io \<Rightarrow> u64 \<Rightarrow> bytes \<Rightarrow> wt_ckpt list \<Rightarrow> wt_verify \<times> wt_block \<Rightarrow> (wt_verify \<times> wt_block) \<times> unit result" where
  "verify_start_avail io mem file ckptbase s =
     (case s of (v, block) \<Rightarrow>
      if ckptbase = [] then (s, Inr ())
      else
        (let ckpt = last ckptbase; ci = ckpt_clear (ckpt_name ckpt) in
         vf_call (wt_block_buffer_to_ckpt (blk_allocsize block) (ckpt_raw ckpt) ci) s (\<lambda>ci.
         if el_offset (ck_avail ci) = WT_BLOCK_INVALID_OFFSET then (s, Inr ())
         else
           vf_call (wt_block_extlist_read_avail io mem block file (ck_avail ci)) s (\<lambda>(el, block).
             filefrag_add_all (el_off el) (v, block)))))"

definition wt_block_verify_start ::
  "wt_io \<Rightarrow> u64 \<Rightarrow> bytes \<Rightarrow> wt_ckpt list \<Rightarrow> wt_verify \<times> wt_block \<Rightarrow> (wt_verify \<times> wt_block) \<times> unit result" where
  "wt_block_verify_start io mem file ckptbase s =
     (case s of (v, block) \<Rightarrow>
      if blk_file_size block = WT_BLOCK_DESC_SECTOR then (s, Inr ())
      else if ckptbase = [] then (s, Inl WT_ERROR)
      else if (blk_file_size block - WT_BLOCK_DESC_SECTOR) mod uint (blk_allocsize block) \<noteq> 0 then (s, Inl WT_ERROR)
      else
        (let frags = WT_OFF_TO_FRAG (blk_allocsize block) (blk_file_size block);
             v = v\<lparr>vf_frags := frags, vf_fragfile := bit_alloc frags,
                 vf_alloc := wt_block_extlist_init (vf_alloc v) (Some ''verify'') (Some ''alloc'')\<rparr>
         in case verify_start_avail io mem file ckptbase (v, block) of
              ((v, block), Inl e) \<Rightarrow> ((v, block), Inl e)
            | ((v, block), Inr _) \<Rightarrow> ((v\<lparr>vf_verify := True\<rparr>, block), Inr ())))"

definition wt_block_verify_end :: "wt_block \<Rightarrow> wt_verify \<Rightarrow> wt_verify \<times> (int \<times> int) list \<times> unit result" where
  "wt_block_verify_end block v =
     (v\<lparr>vf_alloc := wt_block_extlist_free (vf_alloc v), vf_fragfile := [], vf_fragckpt := None, vf_verify := False\<rparr>,
      verify_filefrag_chk block v)"

section \<open>Checkpoints\<close>

type_synonym vf_state = "wt_verify \<times> wt_block \<times> wt_block_ckpt"

text \<open>The root page and the blocks of the extent lists.\<close>

definition ckpt_frag_add :: "int \<Rightarrow> u32 \<Rightarrow> vf_state \<Rightarrow> (vf_state \<Rightarrow> vf_state \<times> unit result) \<Rightarrow> vf_state \<times> unit result" where
  "ckpt_frag_add off len s k =
     (case s of (v, block, ci) \<Rightarrow>
      if off = WT_BLOCK_INVALID_OFFSET then k s
      else vf_call (verify_filefrag_add block off (uint len) True v) s (\<lambda>v. k (v, block, ci)))"

text \<open>The allocation list is rolled into the one of the file.\<close>

definition ckpt_roll_alloc :: "wt_io \<Rightarrow> u64 \<Rightarrow> bytes \<Rightarrow> vf_state \<Rightarrow> (vf_state \<Rightarrow> vf_state \<times> unit result) \<Rightarrow> vf_state \<times> unit result" where
  "ckpt_roll_alloc io mem file s k =
     (case s of (v, block, ci) \<Rightarrow>
      if el_offset (ck_alloc ci) = WT_BLOCK_INVALID_OFFSET then k s
      else
        vf_call (wt_block_extlist_read io mem block file (ck_alloc ci)) s (\<lambda>(el, block).
        vf_call (wt_block_extlist_merge (blk_rng block) el (vf_alloc v)) (v, block, ci\<lparr>ck_alloc := el\<rparr>) (\<lambda>(alloc, g).
          k (v\<lparr>vf_alloc := alloc\<rparr>, block\<lparr>blk_rng := g\<rparr>, ci\<lparr>ck_alloc := wt_block_extlist_free el\<rparr>))))"

fun ckpt_drop_all :: "wt_ext list \<Rightarrow> vf_state \<Rightarrow> (vf_state \<Rightarrow> vf_state \<times> unit result) \<Rightarrow> vf_state \<times> unit result" where
  "ckpt_drop_all [] s k = k s"
| "ckpt_drop_all (ext # exts) (v, block, ci) k =
     vf_call (wt_block_off_remove_overlap (blk_rng block) (vf_alloc v) (ext_off ext) (ext_size ext)) (v, block, ci) (\<lambda>(alloc, g).
       ckpt_drop_all exts (v\<lparr>vf_alloc := alloc\<rparr>, block\<lparr>blk_rng := g\<rparr>, ci) k)"

definition ckpt_roll_discard :: "wt_io \<Rightarrow> u64 \<Rightarrow> bytes \<Rightarrow> vf_state \<Rightarrow> (vf_state \<Rightarrow> vf_state \<times> unit result) \<Rightarrow> vf_state \<times> unit result" where
  "ckpt_roll_discard io mem file s k =
     (case s of (v, block, ci) \<Rightarrow>
      if el_offset (ck_discard ci) = WT_BLOCK_INVALID_OFFSET then k s
      else
        vf_call (wt_block_extlist_read io mem block file (ck_discard ci)) s (\<lambda>(el, block).
        ckpt_drop_all (el_off el) (v, block, ci\<lparr>ck_discard := el\<rparr>) (\<lambda>(v, block, ci).
          k (v, block, ci\<lparr>ck_discard := wt_block_extlist_free el\<rparr>))))"

definition ckpt_drop_root :: "vf_state \<Rightarrow> (vf_state \<Rightarrow> vf_state \<times> unit result) \<Rightarrow> vf_state \<times> unit result" where
  "ckpt_drop_root s k =
     (case s of (v, block, ci) \<Rightarrow>
      if root_offset ci = WT_BLOCK_INVALID_OFFSET then k s
      else
        vf_call (wt_block_off_remove_overlap (blk_rng block) (vf_alloc v) (root_offset ci) (uint (root_size ci))) s (\<lambda>(alloc, g).
          k (v\<lparr>vf_alloc := alloc\<rparr>, block\<lparr>blk_rng := g\<rparr>, ci)))"

text \<open>The units that the checkpoint is expected to use.\<close>

fun ckpt_frags :: "u32 \<Rightarrow> wt_ext list \<Rightarrow> bytes \<Rightarrow> bytes result" where
  "ckpt_frags allocsize [] bitf = Inr bitf"
| "ckpt_frags allocsize (ext # exts) bitf =
     (let frag = WT_OFF_TO_FRAG allocsize (ext_off ext); frags = frag_count allocsize (ext_size ext) in
      wt_ret (bit_nset bitf frag (frag_stop frag frags)) (\<lambda>bitf. ckpt_frags allocsize exts bitf))"

definition wt_verify_ckpt_load :: "wt_io \<Rightarrow> u64 \<Rightarrow> bytes \<Rightarrow> vf_state \<Rightarrow> vf_state \<times> unit result" where
  "wt_verify_ckpt_load io mem file s =
     (case s of (v, block, ci) \<Rightarrow>
      ckpt_frag_add (root_offset ci) (root_size ci) (v\<lparr>vf_size := ck_file_size ci\<rparr>, block, ci) (\<lambda>s.
      ckpt_frag_add (el_offset (ck_alloc ci)) (el_size (ck_alloc ci)) s (\<lambda>s.
      ckpt_frag_add (el_offset (ck_avail ci)) (el_size (ck_avail ci)) s (\<lambda>s.
      ckpt_frag_add (el_offset (ck_discard ci)) (el_size (ck_discard ci)) s (\<lambda>s.
      ckpt_roll_alloc io mem file s (\<lambda>s.
      ckpt_roll_discard io mem file s (\<lambda>s.
      ckpt_drop_root s (\<lambda>(v, block, ci).
        vf_call (ckpt_frags (blk_allocsize block) (el_off (vf_alloc v)) (bit_alloc (vf_frags v))) (v, block, ci) (\<lambda>bitf.
          ((v\<lparr>vf_fragckpt := Some bitf\<rparr>, block, ci), Inr ()))))))))))"

definition wt_verify_ckpt_unload :: "wt_block \<Rightarrow> wt_verify \<Rightarrow> wt_verify \<times> (int \<times> int) list \<times> unit result" where
  "wt_verify_ckpt_unload block v = (v\<lparr>vf_fragckpt := None\<rparr>, verify_ckptfrag_chk block v)"

section \<open>Blocks\<close>

text \<open>
  \<open>__wt_block_verify\<close> up to the check of the page image: \<open>True\<close> if the image has to be checked, \<open>False\<close> if
  that was done before.
\<close>

fun count_bits :: "bytes \<Rightarrow> nat \<Rightarrow> nat \<Rightarrow> nat \<Rightarrow> nat result" where
  "count_bits bitf f 0 match = Inr match"
| "count_bits bitf f (Suc n) match = wt_ret (bit_test bitf f) (\<lambda>t. count_bits bitf (f + 1) n (if t then match + 1 else match))"

definition block_verify_needed :: "wt_block \<Rightarrow> int \<Rightarrow> u32 \<Rightarrow> wt_verify \<Rightarrow> bool result" where
  "block_verify_needed block offset len v =
     (let frag = WT_OFF_TO_FRAG (blk_allocsize block) offset; frags = unat (len div blk_allocsize block) in
      wt_ret (count_bits (vf_fragfile v) frag frags 0) (\<lambda>match.
        if match = frags then Inr False
        else if match \<noteq> 0 then Inl WT_ERROR
        else Inr True))"

definition wt_block_verify_addr :: "wt_block \<Rightarrow> bytes \<Rightarrow> wt_verify \<Rightarrow> wt_verify \<times> unit result" where
  "wt_block_verify_addr block addr v =
     vf_call (wt_block_buffer_to_addr (blk_allocsize block) addr) v (\<lambda>(offset, len, cksum).
     vf_call (verify_filefrag_add block offset (uint len) False v) v (\<lambda>v.
     vf_call (verify_ckptfrag_add block offset (uint len) v) v (\<lambda>v. (v, Inr ()))))"

text \<open>The btree layer calls it for every block it visits in a checkpoint, up to the first error.\<close>

fun verify_addrs :: "wt_block \<Rightarrow> bytes list \<Rightarrow> wt_verify \<Rightarrow> wt_verify \<times> unit result" where
  "verify_addrs block [] v = (v, Inr ())"
| "verify_addrs block (addr # addrs) v =
     (case wt_block_verify_addr block addr v of
        (v, Inl e) \<Rightarrow> (v, Inl e)
      | (v, Inr _) \<Rightarrow> verify_addrs block addrs v)"

section \<open>Fragments of byte ranges\<close>

definition frags_of :: "int \<Rightarrow> int set \<Rightarrow> nat set" where
  "frags_of a R = {k. WT_BLOCK_DESC_SECTOR + a * int k \<in> R}"

text \<open>A block of \<open>n\<close> units from unit \<open>m\<close> on.\<close>

definition frag_block :: "int \<Rightarrow> int \<Rightarrow> int \<Rightarrow> nat \<Rightarrow> nat \<Rightarrow> bool" where
  "frag_block a off len m n \<longleftrightarrow> off = WT_BLOCK_DESC_SECTOR + a * int m \<and> len = a * int n \<and> 0 < n"

lemma frag_block_obtain:
  assumes "0 < a" "WT_BLOCK_DESC_SECTOR \<le> off" "(off - WT_BLOCK_DESC_SECTOR) mod a = 0" "0 < len" "len mod a = 0"
  obtains m n where "frag_block a off len m n"
proof -
  obtain m where m: "off - WT_BLOCK_DESC_SECTOR = a * m" using assms(3) by (metis mod_0_imp_dvd dvdE)
  obtain n where n: "len = a * n" using assms(5) by (metis mod_0_imp_dvd dvdE)
  have "0 \<le> m" using m assms(1,2) by (metis diff_ge_0_iff_ge zero_le_mult_iff order_less_imp_le not_le)
  moreover have "0 < n" using n assms(1,4) by (simp add: zero_less_mult_iff)
  ultimately have "frag_block a off len (nat m) (nat n)" using m n by (simp add: frag_block_def)
  then show thesis by (rule that)
qed

lemma uint_pos: "(a :: u32) \<noteq> 0 \<Longrightarrow> 0 < uint a"
  by (metis uint_0_iff uint_ge_0 order_le_less)

lemma frag_block_values:
  assumes "frag_block (uint allocsize) off len m n" "allocsize \<noteq> 0" "off + len \<le> 2 ^ 63"
  shows "WT_OFF_TO_FRAG allocsize off = m" "frag_count allocsize len = n" "frag_stop m n = m + n - 1"
proof -
  have a: "0 < uint allocsize" using assms(2) by (rule uint_pos)
  have e: "off = 512 + uint allocsize * int m" "len = uint allocsize * int n" "0 < n"
    using assms(1) by (simp_all add: frag_block_def WT_BLOCK_DESC_SECTOR_def)
  have s: "1 * (int m + int n) \<le> uint allocsize * (int m + int n)" using a by (intro mult_right_mono) simp_all
  then have b: "int m + int n < 2 ^ 63" using e assms(3) by (simp add: distrib_left)
  have u: "unat (of_int (int k) :: u64) = k" if "int k < 2 ^ 63" for k
    using that by (simp add: unsigned_of_nat take_bit_nat_eq_self)
  show "WT_OFF_TO_FRAG allocsize off = m" "frag_count allocsize len = n"
    using a b e u [of m] u [of n] by (simp_all add: WT_OFF_TO_FRAG_def frag_count_def c_div_def WT_BLOCK_DESC_SECTOR_def)
  have "(of_nat m + (of_nat n - 1) :: u64) = of_int (int (m + n - 1))" using e(3) by (simp add: of_nat_diff)
  then show "frag_stop m n = m + n - 1" using u [of "m + n - 1"] b by (simp add: frag_stop_def)
qed

lemma frag_block_range:
  assumes "frag_block a off len m n" "0 < a"
  shows "frags_of a {off ..< off + len} = {m ..< m + n}"
proof -
  have "WT_BLOCK_DESC_SECTOR + a * int k \<in> {off ..< off + len} \<longleftrightarrow> k \<in> {m ..< m + n}" for k
  proof -
    have "a * int m \<le> a * int k \<longleftrightarrow> m \<le> k" "a * int k < a * (int m + int n) \<longleftrightarrow> k < m + n" unfolding mult_le_cancel_left_pos [OF assms(2)] mult_less_cancel_left_pos [OF assms(2)] by linarith+
    moreover have "off = WT_BLOCK_DESC_SECTOR + a * int m" "off + len = WT_BLOCK_DESC_SECTOR + a * (int m + int n)"
      using assms(1) by (simp_all only: frag_block_def distrib_left add.assoc)
    ultimately show ?thesis unfolding atLeastLessThan_iff by linarith
  qed
  then show ?thesis unfolding frags_of_def by blast
qed

lemma frags_of_mono_iff:
  assumes "0 < a" "aligned a R" "aligned a S" "R \<subseteq> {WT_BLOCK_DESC_SECTOR ..}"
  shows "R \<subseteq> S \<longleftrightarrow> frags_of a R \<subseteq> frags_of a S"
proof
  assume l: "frags_of a R \<subseteq> frags_of a S"
  show "R \<subseteq> S"
  proof
    fix x assume x: "x \<in> R"
    let ?k = "(x - WT_BLOCK_DESC_SECTOR) div a"
    have k: "0 \<le> ?k" using x assms(1,4) by (auto simp: pos_imp_zdiv_nonneg_iff)
    have u: "unit_of a x = WT_BLOCK_DESC_SECTOR + a * int (nat ?k)" using k by (simp add: unit_of_mult)
    have "unit_of a x \<in> {unit_of a x ..< unit_of a x + a}" using assms(1) by simp
    then have "unit_of a x \<in> R" using assms(2) x unfolding aligned_def by blast
    then have "nat ?k \<in> frags_of a R" using u by (simp add: frags_of_def)
    then have "unit_of a x \<in> S" using l u unfolding frags_of_def by (metis mem_Collect_eq subsetD)
    then have "{unit_of a (unit_of a x) ..< unit_of a (unit_of a x) + a} \<subseteq> S" using assms(3) by (simp add: aligned_def)
    moreover have "unit_of a (unit_of a x) = unit_of a x" using unit_of_same [OF assms(1), of "unit_of a x" x] assms(1) by simp
    ultimately show "x \<in> S" using unit_of_mem [OF assms(1), of x] by auto
  qed
qed (auto simp: frags_of_def)

lemma frags_of_Diff: "frags_of a (R - S) = frags_of a R - frags_of a S"
  and frags_of_Un: "frags_of a (R \<union> S) = frags_of a R \<union> frags_of a S"
  and frags_of_empty [simp]: "frags_of a {} = {}"
  by (auto simp: frags_of_def)

lemma any_bit_spec:
  "f + n \<le> 8 * length bitf \<Longrightarrow> any_bit w bitf f n = Inr (\<exists>i\<in>{f ..< f + n}. (i \<in> bits_of bitf) = w)"
proof (induction w bitf f n rule: any_bit.induct)
  case (2 w bitf f n)
  have t: "bit_test bitf f = Inr (f \<in> bits_of bitf)" using "2.prems" by (simp add: bit_test_spec)
  have r: "{f ..< f + Suc n} = insert f {f + 1 ..< f + 1 + n}" by auto
  show ?case unfolding r using "2.IH" [OF t] "2.prems" t by auto
qed simp

section \<open>Visiting blocks\<close>

text \<open>The bitmaps have a bit for each of the \<open>vf_frags\<close> units of the file.\<close>

definition verify_ok :: "wt_block \<Rightarrow> wt_verify \<Rightarrow> bool" where
  "verify_ok block v \<longleftrightarrow> blk_allocsize block \<noteq> 0 \<and> blk_file_size block \<le> 2 ^ 63 \<and>
     blk_file_size block = WT_BLOCK_DESC_SECTOR + uint (blk_allocsize block) * int (vf_frags v) \<and>
     vf_frags v \<le> 8 * length (vf_fragfile v)"

lemma frag_block_inside:
  assumes "frag_block a off len m n" "0 < a" "off + len \<le> WT_BLOCK_DESC_SECTOR + a * int k"
  shows "m + n \<le> k"
proof -
  have "a * int (m + n) \<le> a * int k" using assms by (simp add: frag_block_def distrib_left)
  then show ?thesis using assms(2) by (simp flip: of_nat_add)
qed

lemma filefrag_add_spec:
  assumes "verify_ok block v" "frag_block (uint (blk_allocsize block)) off len m n" "off + len \<le> blk_file_size block"
  shows "\<exists>b. verify_filefrag_add block off len False v = Inr (v\<lparr>vf_fragfile := b\<rparr>) \<and> length b = length (vf_fragfile v) \<and>
    bits_of b = bits_of (vf_fragfile v) \<union> {m ..< m + n}"
proof -
  have a: "0 < uint (blk_allocsize block)" and ok: "blk_allocsize block \<noteq> 0" "blk_file_size block \<le> 2 ^ 63"
    using assms(1) uint_pos by (simp_all add: verify_ok_def)
  have le: "off + len \<le> 2 ^ 63" using assms(3) ok by simp
  note vals = frag_block_values [OF assms(2) ok(1) le]
  have i: "m + n \<le> 8 * length (vf_fragfile v)"
    using frag_block_inside [OF assms(2) a, of "vf_frags v"] assms(1,3) by (simp add: verify_ok_def)
  have n: "0 < n" using assms(2) by (simp add: frag_block_def)
  then have "{m ..< m + n} = {m .. m + n - 1}" by auto
  moreover have "m \<le> m + n - 1" "m + n - 1 < 8 * length (vf_fragfile v)" using i n by linarith+
  note bit_nset_spec [OF this]
  ultimately show ?thesis using assms(3) by (auto simp: verify_filefrag_add_def vals)
qed

lemma ckptfrag_add_spec:
  assumes "verify_ok block v" "frag_block (uint (blk_allocsize block)) off len m n" "off + len \<le> blk_file_size block"
    "off + len \<le> vf_size v" "vf_fragckpt v = Some b" "vf_frags v \<le> 8 * length b"
  shows "\<not> {m ..< m + n} \<subseteq> bits_of b \<Longrightarrow> verify_ckptfrag_add block off len v = Inl WT_ERROR"
    "{m ..< m + n} \<subseteq> bits_of b \<Longrightarrow> \<exists>b'. verify_ckptfrag_add block off len v = Inr (v\<lparr>vf_fragckpt := Some b'\<rparr>) \<and>
       length b' = length b \<and> bits_of b' = bits_of b - {m ..< m + n}"
proof -
  have a: "0 < uint (blk_allocsize block)" and ok: "blk_allocsize block \<noteq> 0" "blk_file_size block \<le> 2 ^ 63"
    using assms(1) uint_pos by (simp_all add: verify_ok_def)
  have le: "off + len \<le> 2 ^ 63" using assms(3) ok by simp
  note vals = frag_block_values [OF assms(2) ok(1) le]
  have i: "m + n \<le> 8 * length b"
    using frag_block_inside [OF assms(2) a, of "vf_frags v"] assms(1,3,6) by (simp add: verify_ok_def)
  have n: "0 < n" using assms(2) by (simp add: frag_block_def)
  have r: "{m .. m + n - 1} = {m ..< m + n}" using n by auto
  have t: "any_bit False b m n = Inr (\<not> {m ..< m + n} \<subseteq> bits_of b)" using any_bit_spec [OF i] by auto
  then show "\<not> {m ..< m + n} \<subseteq> bits_of b \<Longrightarrow> verify_ckptfrag_add block off len v = Inl WT_ERROR"
    using assms(4,5) by (simp add: verify_ckptfrag_add_def vals)
  show "{m ..< m + n} \<subseteq> bits_of b \<Longrightarrow> \<exists>b'. verify_ckptfrag_add block off len v = Inr (v\<lparr>vf_fragckpt := Some b'\<rparr>) \<and>
       length b' = length b \<and> bits_of b' = bits_of b - {m ..< m + n}"
  proof -
    assume s: "{m ..< m + n} \<subseteq> bits_of b"
    have "m \<le> m + n - 1" "m + n - 1 < 8 * length b" using i n by linarith+
    from bit_nclr_spec [OF this] show ?thesis using s assms(4,5) t r by (auto simp: verify_ckptfrag_add_def vals)
  qed
qed

section \<open>The checks\<close>

lemma bit_ff_spec:
  assumes "frags \<le> 8 * length bitf"
  shows "\<exists>r. (if w then bit_ffc else bit_ffs) bitf frags = Inr r \<and>
    (case r of None \<Rightarrow> \<forall>i<frags. (i \<in> bits_of bitf) = w | Some k \<Rightarrow> k < frags \<and> (k \<in> bits_of bitf) \<noteq> w)"
  using bit_ffc_spec [OF assms] bit_ffs_spec [OF assms] by (cases w) (auto split: option.splits)

lemma bit_flip_spec:
  "i < 8 * length bitf \<Longrightarrow> \<exists>b. bit_flip w bitf i = Inr b \<and> length b = length bitf \<and>
    (\<forall>j. j \<in> bits_of b \<longleftrightarrow> (if j = i then w else j \<in> bits_of bitf))"
  using bit_set_spec [of i bitf] bit_clear_spec [of i bitf] by (cases w) (auto simp: bit_flip_def)

lemma frag_run_spec:
  "\<lbrakk> frags \<le> 8 * length bitf; lst \<le> frags \<rbrakk> \<Longrightarrow> \<exists>l b. frag_run w frags lst bitf = Inr (l, b) \<and> length b = length bitf \<and>
    lst \<le> l \<and> l \<le> frags \<and> (\<forall>i\<in>{lst ..< l}. (i \<in> bits_of bitf) \<noteq> w) \<and>
    (\<forall>i. i \<in> bits_of b \<longleftrightarrow> (if lst \<le> i \<and> i < l then w else i \<in> bits_of bitf))"
proof (induction w frags lst bitf rule: frag_run.induct)
  case (1 w frags lst bitf)
  show ?case
  proof (cases "lst < frags \<and> (lst \<in> bits_of bitf) \<noteq> w")
    case True
    have t: "bit_test bitf lst = Inr (lst \<in> bits_of bitf)" using True "1.prems" by (simp add: bit_test_spec)
    obtain b where b: "bit_flip w bitf lst = Inr b" "length b = length bitf"
        "\<And>j. j \<in> bits_of b \<longleftrightarrow> (if j = lst then w else j \<in> bits_of bitf)"
      using bit_flip_spec [of lst bitf w] True "1.prems" by auto
    obtain l b' where l: "frag_run w frags (lst + 1) b = Inr (l, b')" "length b' = length b" "lst + 1 \<le> l" "l \<le> frags"
        "\<And>i. i \<in> {lst + 1 ..< l} \<Longrightarrow> (i \<in> bits_of b) \<noteq> w"
        "\<And>i. i \<in> bits_of b' \<longleftrightarrow> (if lst + 1 \<le> i \<and> i < l then w else i \<in> bits_of b)"
      using "1.IH" [OF _ t _ b(1)] True "1.prems" b(2) by auto
    have "frag_run w frags lst bitf = Inr (l, b')" using True t b(1) l(1) by (subst frag_run.simps) auto
    moreover have "i \<in> bits_of b' \<longleftrightarrow> (if lst \<le> i \<and> i < l then w else i \<in> bits_of bitf)" for i
      unfolding l(6) b(3) using l(3) by (cases i lst rule: linorder_cases) auto
    moreover have "(i \<in> bits_of bitf) \<noteq> w" if "i \<in> {lst ..< l}" for i
      using l(5) [of i] b(3) [of i] True that by (cases "i = lst") auto
    ultimately show ?thesis using l(2,3,4) b(2) by auto
  next
    case False
    then have "frag_run w frags lst bitf = Inr (lst, bitf)"
      using "1.prems" by (subst frag_run.simps) (auto simp: bit_test_spec)
    then show ?thesis using "1.prems"(2) by auto
  qed
qed

abbreviation bad_frags :: "bool \<Rightarrow> nat \<Rightarrow> bytes \<Rightarrow> nat set" where
  "bad_frags w frags bitf \<equiv> {i. i < frags \<and> (i \<in> bits_of bitf) \<noteq> w}"

lemma frag_runs_spec:
  "\<lbrakk> frags \<le> 8 * length bitf; card (bad_frags w frags bitf) < fuel \<rbrakk> \<Longrightarrow>
    \<exists>runs b. frag_runs w fuel frags bitf = Inr (runs, b) \<and> (\<Union>(f, l)\<in>set runs. {f ..< l}) = bad_frags w frags bitf \<and>
      (\<forall>(f, l)\<in>set runs. f < l)"
proof (induction w fuel frags bitf rule: frag_runs.induct)
  case (2 w fuel frags bitf)
  obtain r where r: "(if w then bit_ffc else bit_ffs) bitf frags = Inr r"
      "case r of None \<Rightarrow> \<forall>i<frags. (i \<in> bits_of bitf) = w | Some k \<Rightarrow> k < frags \<and> (k \<in> bits_of bitf) \<noteq> w"
    using bit_ff_spec [OF "2.prems"(1)] by blast
  show ?case
  proof (cases r)
    case None
    then show ?thesis using r by auto
  next
    case (Some k)
    then have k: "k < frags" "(k \<in> bits_of bitf) \<noteq> w" using r(2) by auto
    obtain b where b: "bit_flip w bitf k = Inr b" "length b = length bitf"
        "\<And>j. j \<in> bits_of b \<longleftrightarrow> (if j = k then w else j \<in> bits_of bitf)"
      using bit_flip_spec [of k bitf w] k "2.prems"(1) by auto
    obtain l b' where l: "frag_run w frags (k + 1) b = Inr (l, b')" "length b' = length b" "k + 1 \<le> l" "l \<le> frags"
        "\<And>i. i \<in> {k + 1 ..< l} \<Longrightarrow> (i \<in> bits_of b) \<noteq> w"
        "\<And>i. i \<in> bits_of b' \<longleftrightarrow> (if k + 1 \<le> i \<and> i < l then w else i \<in> bits_of b)"
      using frag_run_spec [of frags b "k + 1" w] k "2.prems"(1) b(2) by auto
    have run: "(i \<in> bits_of bitf) \<noteq> w" if "i \<in> {k ..< l}" for i
      using l(5) [of i] b(3) [of i] k that by (cases "i = k") auto
    have rest: "bad_frags w frags b' = bad_frags w frags bitf - {k ..< l}"
      unfolding l(6) b(3) using l(3) by (auto split: if_splits)
    have "{k ..< l} \<subseteq> bad_frags w frags bitf" using run l(4) by auto
    moreover have "k \<in> {k ..< l}" using l(3) by simp
    ultimately have u: "bad_frags w frags bitf = {k ..< l} \<union> bad_frags w frags b'"
      and "bad_frags w frags b' \<subset> bad_frags w frags bitf" unfolding rest by blast+
    then have "card (bad_frags w frags b') < fuel"
      using "2.prems"(2) psubset_card_mono [of "bad_frags w frags bitf" "bad_frags w frags b'"] by simp
    then obtain runs c where c: "frag_runs w fuel frags b' = Inr (runs, c)" "(\<Union>(f, l)\<in>set runs. {f ..< l}) = bad_frags w frags b'"
        "\<forall>(f, l)\<in>set runs. f < l"
      using "2.IH" [OF r(1) Some b(1) l(1) refl] "2.prems"(1) l(2) b(2) by auto
    have "frag_runs w (Suc fuel) frags bitf = Inr ((k, l) # runs, c)" using r(1) Some b(1) l(1) c(1) by simp
    moreover have "(\<Union>(f, l)\<in>set ((k, l) # runs). {f ..< l}) = bad_frags w frags bitf" unfolding u using c(2) by simp
    ultimately show ?thesis using c(3) l(3) by (intro exI [of _ "(k, l) # runs"]) auto
  qed
qed simp

declare frag_runs.simps [simp del]

lemma card_bad_frags: "card (bad_frags w frags bitf) < frags + 1"
proof -
  have "bad_frags w frags bitf \<subseteq> {..<frags}" by blast
  from card_mono [OF finite_lessThan this] show ?thesis unfolding card_lessThan by linarith
qed

text \<open>The check of a checkpoint succeeds exactly if no bit is left.\<close>

lemma runs_empty_iff:
  assumes "(\<Union>(f, l)\<in>set runs. {f ..< l}) = B" "\<forall>(f, l)\<in>set runs. f < l"
  shows "runs = [] \<longleftrightarrow> B = ({} :: nat set)"
proof (cases runs)
  case (Cons r rs)
  obtain f l where "r = (f, l)" by (cases r)
  then have "f \<in> B" using Cons assms by auto
  then show ?thesis using Cons by auto
qed (use assms in simp)

lemma ckptfrag_chk_spec:
  assumes "vf_fragckpt v = Some b" "vf_frags v \<le> 8 * length b"
  shows "snd (verify_ckptfrag_chk block v) = (if bad_frags False (vf_frags v) b = {} then Inr () else Inl WT_ERROR)"
proof -
  from frag_runs_spec [OF assms(2) card_bad_frags, of False]
  obtain runs c where c: "frag_runs False (vf_frags v + 1) (vf_frags v) b = Inr (runs, c)"
      "(\<Union>(f, l)\<in>set runs. {f ..< l}) = bad_frags False (vf_frags v) b" "\<forall>(f, l)\<in>set runs. f < l"
    by (elim exE conjE)
  show ?thesis
    unfolding verify_ckptfrag_chk_def assms(1) option.case c(1) sum.case prod.case frag_report_def snd_conv runs_empty_iff [OF c(2,3)] ..
qed

lemma frag_trail_spec:
  "n < 8 * length bitf \<Longrightarrow> \<exists>b. frag_trail n bitf = Inr b \<and> length b = length bitf \<and>
    (\<forall>i. i \<in> bits_of b \<longleftrightarrow> i \<in> bits_of bitf \<or> 1 \<le> i \<and> i \<le> n \<and> (\<forall>j. i \<le> j \<and> j \<le> n \<longrightarrow> j \<notin> bits_of bitf))"
proof (induction n bitf rule: frag_trail.induct)
  case (2 n bitf)
  have t: "bit_test bitf (Suc n) = Inr (Suc n \<in> bits_of bitf)" using "2.prems" by (simp add: bit_test_spec)
  show ?case
  proof (cases "Suc n \<in> bits_of bitf")
    case True
    then show ?thesis using t by auto
  next
    case False
    obtain b where b: "bit_set bitf (Suc n) = Inr b" "length b = length bitf" "bits_of b = insert (Suc n) (bits_of bitf)"
      using bit_set_spec [OF "2.prems"] by blast
    obtain c where c: "frag_trail n b = Inr c" "length c = length b"
        "\<And>i. i \<in> bits_of c \<longleftrightarrow> i \<in> bits_of b \<or> 1 \<le> i \<and> i \<le> n \<and> (\<forall>j. i \<le> j \<and> j \<le> n \<longrightarrow> j \<notin> bits_of b)"
      using "2.IH" [OF t False b(1)] "2.prems" b(2) by auto
    have "i \<in> bits_of c \<longleftrightarrow> i \<in> bits_of bitf \<or> 1 \<le> i \<and> i \<le> Suc n \<and> (\<forall>j. i \<le> j \<and> j \<le> Suc n \<longrightarrow> j \<notin> bits_of bitf)" for i
      unfolding c(3) b(3) using False by (auto simp: le_Suc_eq)
    then show ?thesis using t False b c by auto
  qed
qed auto

text \<open>
  The check of the file: unit 0 was seen, and every unit in front of one that was seen.
\<close>

lemma trail_gap:
  "i < n \<Longrightarrow> \<not> (i \<in> S \<or> 1 \<le> i \<and> i \<le> n - 1 \<and> (\<forall>j. i \<le> j \<and> j \<le> n - 1 \<longrightarrow> j \<notin> S)) \<longleftrightarrow>
    i \<notin> S \<and> (i = 0 \<or> (\<exists>j<n. i < j \<and> j \<in> S))" for i n :: nat
proof (cases "i \<in> S")
  case False
  assume i: "i < n"
  have "(\<exists>j. i \<le> j \<and> j \<le> n - 1 \<and> j \<in> S) \<longleftrightarrow> (\<exists>j<n. i < j \<and> j \<in> S)"
    using False i by (metis Suc_pred' le_neq_implies_less less_Suc_eq_le less_imp_le not_less_zero bot_nat_0.not_eq_extremum)
  then show ?thesis using False i by (cases "i = 0") auto
qed simp

lemma filefrag_chk_spec:
  assumes "vf_frags v \<le> 8 * length (vf_fragfile v)" "0 < vf_frags v"
  shows "snd (verify_filefrag_chk block v) =
    (if \<exists>i<vf_frags v. i \<notin> bits_of (vf_fragfile v) \<and> (i = 0 \<or> (\<exists>j<vf_frags v. i < j \<and> j \<in> bits_of (vf_fragfile v)))
     then Inl WT_ERROR else Inr ())"
proof -
  let ?n = "vf_frags v" and ?S = "bits_of (vf_fragfile v)"
  have "?n - 1 < 8 * length (vf_fragfile v)" using assms by linarith
  from frag_trail_spec [OF this]
  obtain b where b: "frag_trail (?n - 1) (vf_fragfile v) = Inr b" "length b = length (vf_fragfile v)"
      "\<forall>i. i \<in> bits_of b \<longleftrightarrow> i \<in> ?S \<or> 1 \<le> i \<and> i \<le> ?n - 1 \<and> (\<forall>j. i \<le> j \<and> j \<le> ?n - 1 \<longrightarrow> j \<notin> ?S)"
    by (elim exE conjE)
  have l: "?n \<le> 8 * length b" using assms(1) b(2) by simp
  from frag_runs_spec [OF l card_bad_frags, of True]
  obtain runs c where c: "frag_runs True (?n + 1) ?n b = Inr (runs, c)"
      "(\<Union>(f, l)\<in>set runs. {f ..< l}) = bad_frags True ?n b" "\<forall>(f, l)\<in>set runs. f < l"
    by (elim exE conjE)
  have bad: "i \<in> bad_frags True ?n b \<longleftrightarrow> i < ?n \<and> i \<notin> ?S \<and> (i = 0 \<or> (\<exists>j<?n. i < j \<and> j \<in> ?S))" for i
  proof (cases "i < ?n")
    case True
    then show ?thesis using trail_gap [OF True, of ?S] spec [OF b(3), of i] by simp
  qed simp
  then have e: "bad_frags True ?n b = {} \<longleftrightarrow> \<not> (\<exists>i<?n. i \<notin> ?S \<and> (i = 0 \<or> (\<exists>j<?n. i < j \<and> j \<in> ?S)))"
    unfolding set_eq_iff bad empty_iff by simp
  have "verify_filefrag_chk block v = frag_report (blk_allocsize block) runs"
    unfolding verify_filefrag_chk_def b(1) wt_ret_simps c(1) sum.case prod.case using assms(2) by simp
  then show ?thesis unfolding frag_report_def runs_empty_iff [OF c(2,3)] e by (simp only: snd_conv if_not_P if_P split: if_split) simp
qed

text \<open>
  The image of a block is checked once: not again if all its units were seen, and a block some of whose units were
  seen is an error.
\<close>

lemma count_bits_spec:
  "f + n \<le> 8 * length bitf \<Longrightarrow> count_bits bitf f n k = Inr (k + card (bits_of bitf \<inter> {f ..< f + n}))"
proof (induction bitf f n k rule: count_bits.induct)
  case (2 bitf f n k)
  have t: "bit_test bitf f = Inr (f \<in> bits_of bitf)" using "2.prems" by (simp add: bit_test_spec)
  have r: "{f ..< f + Suc n} = insert f {f + 1 ..< f + 1 + n}" by auto
  have "card (bits_of bitf \<inter> {f ..< f + Suc n}) = (if f \<in> bits_of bitf then 1 else 0) + card (bits_of bitf \<inter> {f + 1 ..< f + 1 + n})"
    unfolding r by (cases "f \<in> bits_of bitf") simp_all
  then show ?case using "2.IH" [OF t] "2.prems" t by simp
qed simp

lemma block_verify_needed_spec:
  assumes "verify_ok block v" "frag_block (uint (blk_allocsize block)) off (uint len) m n" "off + uint len \<le> blk_file_size block"
  shows "block_verify_needed block off len v =
    (if {m ..< m + n} \<subseteq> bits_of (vf_fragfile v) then Inr False
     else if {m ..< m + n} \<inter> bits_of (vf_fragfile v) = {} then Inr True else Inl WT_ERROR)"
proof -
  have a: "0 < uint (blk_allocsize block)" and ok: "blk_allocsize block \<noteq> 0" "blk_file_size block \<le> 2 ^ 63"
    using assms(1) uint_pos by (simp_all add: verify_ok_def)
  have le: "off + uint len \<le> 2 ^ 63" using assms(3) ok by simp
  note vals = frag_block_values [OF assms(2) ok(1) le]
  have i: "m + n \<le> 8 * length (vf_fragfile v)"
    using frag_block_inside [OF assms(2) a, of "vf_frags v"] assms(1,3) by (simp add: verify_ok_def)
  have "int (unat (len div blk_allocsize block)) = uint len div uint (blk_allocsize block)" by (simp add: uint_div flip: uint_nat)
  also have "\<dots> = int n" using assms(2) a by (simp add: frag_block_def)
  finally have n: "unat (len div blk_allocsize block) = n" by (rule of_nat_eq_iff [THEN iffD1])
  let ?S = "bits_of (vf_fragfile v) \<inter> {m ..< m + n}"
  have full: "card ?S = n \<longleftrightarrow> {m ..< m + n} \<subseteq> bits_of (vf_fragfile v)"
    using card_subset_eq [of "{m ..< m + n}" ?S] by (auto simp: Int_absorb1)
  have none: "card ?S = 0 \<longleftrightarrow> {m ..< m + n} \<inter> bits_of (vf_fragfile v) = {}" by (simp add: Int_commute)
  show ?thesis unfolding block_verify_needed_def Let_def vals n count_bits_spec [OF i] wt_ret_simps add_0 full none by simp
qed

section \<open>Loading a checkpoint\<close>

lemma length_fill_bytes: "length (fill_bytes w n i bitf) = length bitf"
  by (induction w n i bitf rule: fill_bytes.induct) auto

lemma bit_nset_length: "bit_nset bitf start stop = Inr b \<Longrightarrow> length b = length bitf"
  by (auto simp: bit_nset_def Let_def length_fill_bytes split: if_splits)

lemma filefrag_add_Inr:
  "verify_filefrag_add block off len nodup v = Inr v' \<Longrightarrow> \<exists>b. v' = v\<lparr>vf_fragfile := b\<rparr> \<and> length b = length (vf_fragfile v)"
  by (auto simp: verify_filefrag_add_def Let_def wt_ret_Inr_iff split: if_splits dest: bit_nset_length)

text \<open>What the steps of the load keep.\<close>

fun frame_of :: "vf_state \<Rightarrow> int \<times> nat \<times> nat \<times> int \<times> u32" where
  "frame_of (v, block, ci) = (vf_size v, vf_frags v, length (vf_fragfile v), blk_file_size block, blk_allocsize block)"

lemma vf_call_Inr: "vf_call r s k = (t, Inr x) \<Longrightarrow> \<exists>y. r = Inr y \<and> k y = (t, Inr x)"
  by (auto simp: vf_call_def split: sum.splits)

lemma extlist_read_frame:
  "wt_block_extlist_read io mem block file el = Inr (el', block') \<Longrightarrow>
     blk_file_size block' = blk_file_size block \<and> blk_allocsize block' = blk_allocsize block"
  by (auto simp: wt_block_extlist_read_def Let_def wt_ret_Inr_iff split: if_splits)

lemma ckpt_frag_add_frame:
  assumes "ckpt_frag_add off len s k = (t, Inr x)"
  shows "\<exists>s'. frame_of s' = frame_of s \<and> k s' = (t, Inr x)"
proof (cases s)
  case (fields v block ci)
  show ?thesis
  proof (cases "off = WT_BLOCK_INVALID_OFFSET")
    case False
    then obtain v' where v: "verify_filefrag_add block off (uint len) True v = Inr v'" "k (v', block, ci) = (t, Inr x)"
      using assms fields by (auto simp: ckpt_frag_add_def dest!: vf_call_Inr)
    then show ?thesis using filefrag_add_Inr [OF v(1)] fields by (intro exI [of _ "(v', block, ci)"]) auto
  qed (use assms fields in \<open>auto simp: ckpt_frag_add_def\<close>)
qed

lemma ckpt_roll_alloc_frame:
  assumes "ckpt_roll_alloc io mem file s k = (t, Inr x)"
  shows "\<exists>s'. frame_of s' = frame_of s \<and> k s' = (t, Inr x)"
proof (cases s)
  case (fields v block ci)
  show ?thesis
  proof (cases "el_offset (ck_alloc ci) = WT_BLOCK_INVALID_OFFSET")
    case False
    then obtain el b alloc g where e: "wt_block_extlist_read io mem block file (ck_alloc ci) = Inr (el, b)"
        "k (v\<lparr>vf_alloc := alloc\<rparr>, b\<lparr>blk_rng := g\<rparr>, ci\<lparr>ck_alloc := wt_block_extlist_free el\<rparr>) = (t, Inr x)"
      using assms fields by (auto simp: ckpt_roll_alloc_def dest!: vf_call_Inr)
    then show ?thesis using extlist_read_frame [OF e(1)] fields by (intro exI, intro conjI, rule_tac [2] e(2)) simp
  qed (use assms fields in \<open>auto simp: ckpt_roll_alloc_def\<close>)
qed

lemma ckpt_drop_all_frame: "ckpt_drop_all exts s k = (t, Inr x) \<Longrightarrow> \<exists>s'. frame_of s' = frame_of s \<and> k s' = (t, Inr x)"
proof (induction exts s k rule: ckpt_drop_all.induct)
  case (2 ext exts v block ci k)
  from "2.prems" obtain alloc g where r: "ckpt_drop_all exts (v\<lparr>vf_alloc := alloc\<rparr>, block\<lparr>blk_rng := g\<rparr>, ci) k = (t, Inr x)"
    by (auto dest!: vf_call_Inr)
  from "2.IH" [OF r] show ?case by simp
qed force

lemma ckpt_roll_discard_frame:
  assumes "ckpt_roll_discard io mem file s k = (t, Inr x)"
  shows "\<exists>s'. frame_of s' = frame_of s \<and> k s' = (t, Inr x)"
proof (cases s)
  case (fields v block ci)
  show ?thesis
  proof (cases "el_offset (ck_discard ci) = WT_BLOCK_INVALID_OFFSET")
    case False
    then obtain el b where e: "wt_block_extlist_read io mem block file (ck_discard ci) = Inr (el, b)"
        "ckpt_drop_all (el_off el) (v, b, ci\<lparr>ck_discard := el\<rparr>) (\<lambda>(v, block, ci). k (v, block, ci\<lparr>ck_discard := wt_block_extlist_free el\<rparr>)) = (t, Inr x)"
      using assms fields by (auto simp: ckpt_roll_discard_def dest!: vf_call_Inr)
    from ckpt_drop_all_frame [OF e(2)] obtain v' b' ci' where
      d: "frame_of (v', b', ci') = frame_of (v, b, ci)" "k (v', b', ci'\<lparr>ck_discard := wt_block_extlist_free el\<rparr>) = (t, Inr x)" by auto
    then show ?thesis using extlist_read_frame [OF e(1)] fields by (intro exI, intro conjI, rule_tac [2] d(2)) simp
  qed (use assms fields in \<open>auto simp: ckpt_roll_discard_def\<close>)
qed

lemma ckpt_drop_root_frame:
  assumes "ckpt_drop_root s k = (t, Inr x)"
  shows "\<exists>s'. frame_of s' = frame_of s \<and> k s' = (t, Inr x)"
proof (cases s)
  case (fields v block ci)
  show ?thesis
  proof (cases "root_offset ci = WT_BLOCK_INVALID_OFFSET")
    case False
    then obtain alloc g where e: "k (v\<lparr>vf_alloc := alloc\<rparr>, block\<lparr>blk_rng := g\<rparr>, ci) = (t, Inr x)"
      using assms fields by (auto simp: ckpt_drop_root_def dest!: vf_call_Inr)
    then show ?thesis using fields by (intro exI, intro conjI, rule_tac [2] e) simp
  qed (use assms fields in \<open>auto simp: ckpt_drop_root_def\<close>)
qed

lemmas frame_elims =
  ckpt_frag_add_frame [elim_format] ckpt_roll_alloc_frame [elim_format] ckpt_roll_discard_frame [elim_format] ckpt_drop_root_frame [elim_format]

lemma ckpt_load_frags:
  assumes "wt_verify_ckpt_load io mem file (v0, block0, ci) = ((v, block, ci'), Inr ())"
  shows "\<exists>b. ckpt_frags (blk_allocsize block) (el_off (vf_alloc v)) (bit_alloc (vf_frags v)) = Inr b \<and> vf_fragckpt v = Some b"
    "frame_of (v, block, ci') = (ck_file_size ci, vf_frags v0, length (vf_fragfile v0), blk_file_size block0, blk_allocsize block0)"
proof -
  let ?k = "\<lambda>(v, block, ci). vf_call (ckpt_frags (blk_allocsize block) (el_off (vf_alloc v)) (bit_alloc (vf_frags v))) (v, block, ci)
    (\<lambda>bitf. ((v\<lparr>vf_fragckpt := Some bitf\<rparr>, block, ci), Inr ()))"
  have "\<exists>s. frame_of s = frame_of (v0\<lparr>vf_size := ck_file_size ci\<rparr>, block0, ci) \<and> ?k s = ((v, block, ci'), Inr ())"
    using assms unfolding wt_verify_ckpt_load_def prod.case
    by (elim frame_elims exE conjE) (rule exI, rule conjI [rotated], assumption, simp only:)
  then obtain v1 b1 c1 where f: "frame_of (v1, b1, c1) = (ck_file_size ci, vf_frags v0, length (vf_fragfile v0), blk_file_size block0, blk_allocsize block0)"
    and c: "vf_call (ckpt_frags (blk_allocsize b1) (el_off (vf_alloc v1)) (bit_alloc (vf_frags v1))) (v1, b1, c1) (\<lambda>bitf.
          ((v1\<lparr>vf_fragckpt := Some bitf\<rparr>, b1, c1), Inr ())) = ((v, block, ci'), Inr ())" by auto
  from vf_call_Inr [OF c] obtain b where b: "ckpt_frags (blk_allocsize b1) (el_off (vf_alloc v1)) (bit_alloc (vf_frags v1)) = Inr b"
      "v = v1\<lparr>vf_fragckpt := Some b\<rparr>" "block = b1" "ci' = c1" by auto
  show "\<exists>b. ckpt_frags (blk_allocsize block) (el_off (vf_alloc v)) (bit_alloc (vf_frags v)) = Inr b \<and> vf_fragckpt v = Some b"
    using b by simp
  show "frame_of (v, block, ci') = (ck_file_size ci, vf_frags v0, length (vf_fragfile v0), blk_file_size block0, blk_allocsize block0)"
    using f b by simp
qed

lemma extent_frag_block:
  assumes "extlist_ok el" "e \<in> set (el_off el)" "0 < a" "aligned a (el_ranges el)" "el_ranges el \<subseteq> {WT_BLOCK_DESC_SECTOR ..< hi}"
  obtains m n where "frag_block a (ext_off e) (ext_size e) m n" "ext_off e + ext_size e \<le> hi"
proof -
  note E = extent_edges [OF assms(1,2)] and al = extent_aligned [OF assms(1-4)]
  have "WT_BLOCK_DESC_SECTOR \<le> ext_off e" "ext_off e + ext_size e \<le> hi" using E(4,5) assms(5) by auto
  note le = this
  obtain m n where "frag_block a (ext_off e) (ext_size e) m n"
    using frag_block_obtain [OF assms(3) le(1) al(1) extlist_okD(6) [OF assms(1,2)] al(2)] .
  then show thesis using le(2) by (rule that)
qed

lemma ckpt_frags_spec:
  assumes "allocsize \<noteq> 0" "hi = WT_BLOCK_DESC_SECTOR + uint allocsize * int frags" "hi \<le> 2 ^ 63"
    "\<And>e. e \<in> set exts \<Longrightarrow> \<exists>m n. frag_block (uint allocsize) (ext_off e) (ext_size e) m n \<and> ext_off e + ext_size e \<le> hi"
    "frags \<le> 8 * length bitf" "ckpt_frags allocsize exts bitf = Inr b"
  shows "length b = length bitf \<and> bits_of b = bits_of bitf \<union> (\<Union>e\<in>set exts. frags_of (uint allocsize) (ext_range e))"
  using assms(4-6)
proof (induction exts arbitrary: bitf)
  case (Cons e exts)
  obtain m n where mn: "frag_block (uint allocsize) (ext_off e) (ext_size e) m n" "ext_off e + ext_size e \<le> hi"
    using Cons.prems(1) [OF list.set_intros(1)] by (elim exE conjE)
  have a: "0 < uint allocsize" by (rule uint_pos [OF assms(1)])
  have le: "ext_off e + ext_size e \<le> 2 ^ 63" using mn(2) assms(3) by simp
  note vals = frag_block_values [OF mn(1) assms(1) le] and r = frag_block_range [OF mn(1) a]
  have i: "m + n \<le> frags" using frag_block_inside [OF mn(1) a] mn(2) assms(2) by simp
  have n: "0 < n" using mn(1) by (simp add: frag_block_def)
  have mm: "m \<le> m + n - 1" "m + n - 1 < 8 * length bitf" using i n Cons.prems(2) by linarith+
  obtain c where c: "bit_nset bitf m (m + n - 1) = Inr c" "length c = length bitf" "bits_of c = bits_of bitf \<union> {m .. m + n - 1}"
    using bit_nset_spec [OF mm] by (elim exE conjE)
  have "{m .. m + n - 1} = {m ..< m + n}" using n by auto
  then have mn': "{m .. m + n - 1} = frags_of (uint allocsize) (ext_range e)" unfolding ext_range_def r .
  have "ckpt_frags allocsize exts c = Inr b" using Cons.prems(3) vals c(1) by simp
  then have "length b = length c \<and> bits_of b = bits_of c \<union> (\<Union>e\<in>set exts. frags_of (uint allocsize) (ext_range e))"
    using Cons.IH [OF Cons.prems(1) [OF list.set_intros(2)]] Cons.prems(2) c(2) by metis
  then show ?case unfolding c(2,3) mn' list.set UN_insert Un_assoc .
qed simp

text \<open>After a successful load the bits are the units of the list that was rolled forward.\<close>

lemma ckpt_load_bits:
  assumes load: "wt_verify_ckpt_load io mem file (v0, block0, ci) = ((v, block, ci'), Inr ())"
    and ok: "verify_ok block0 v0" "extlist_ok (vf_alloc v)" "aligned (uint (blk_allocsize block0)) (el_ranges (vf_alloc v))"
      "el_ranges (vf_alloc v) \<subseteq> {WT_BLOCK_DESC_SECTOR ..< blk_file_size block0}"
  shows "verify_ok block v" "\<exists>b. vf_fragckpt v = Some b \<and> vf_frags v \<le> 8 * length b \<and>
      bits_of b = frags_of (uint (blk_allocsize block)) (el_ranges (vf_alloc v))"
proof -
  note fr = ckpt_load_frags(2) [OF load, unfolded frame_of.simps prod.inject]
  show vo: "verify_ok block v" using ok(1) fr by (simp add: verify_ok_def)
  obtain b where b: "ckpt_frags (blk_allocsize block) (el_off (vf_alloc v)) (bit_alloc (vf_frags v)) = Inr b" "vf_fragckpt v = Some b"
    using ckpt_load_frags(1) [OF load] by blast
  have a: "blk_allocsize block \<noteq> 0" "blk_file_size block \<le> 2 ^ 63"
    "blk_file_size block = WT_BLOCK_DESC_SECTOR + uint (blk_allocsize block) * int (vf_frags v)" using vo by (simp_all add: verify_ok_def)
  have "\<exists>m n. frag_block (uint (blk_allocsize block)) (ext_off e) (ext_size e) m n \<and> ext_off e + ext_size e \<le> blk_file_size block"
    if "e \<in> set (el_off (vf_alloc v))" for e
  proof -
    have "aligned (uint (blk_allocsize block)) (el_ranges (vf_alloc v))" "el_ranges (vf_alloc v) \<subseteq> {WT_BLOCK_DESC_SECTOR ..< blk_file_size block}"
      using ok(3,4) fr by simp_all
    from extent_frag_block [OF ok(2) that uint_pos [OF a(1)] this] show ?thesis by blast
  qed
  from ckpt_frags_spec [OF a(1) a(3) a(2) this bit_alloc_spec(2) b(1)]
  have s: "length b = length (bit_alloc (vf_frags v))"
    "bits_of b = (\<Union>e\<in>set (el_off (vf_alloc v)). frags_of (uint (blk_allocsize block)) (ext_range e))" by (simp_all add: bit_alloc_spec(1))
  have "(\<Union>e\<in>set (el_off (vf_alloc v)). frags_of (uint (blk_allocsize block)) (ext_range e)) =
      frags_of (uint (blk_allocsize block)) (el_ranges (vf_alloc v))" by (auto simp: frags_of_def el_ranges_def)
  then show "\<exists>b. vf_fragckpt v = Some b \<and> vf_frags v \<le> 8 * length b \<and>
      bits_of b = frags_of (uint (blk_allocsize block)) (el_ranges (vf_alloc v))"
    using s b(2) bit_alloc_spec(2) [of "vf_frags v"] by simp
qed

section \<open>Visiting a list of blocks\<close>

fun takes :: "int set \<Rightarrow> (int \<times> int) list \<Rightarrow> bool" where
  "takes R [] = True"
| "takes R (r # rs) = (range_of r \<subseteq> R \<and> takes (R - range_of r) rs)"

lemma takes_iff: "S \<inter> R = {} \<Longrightarrow> takes R rs \<longleftrightarrow> fresh_ranges S rs \<and> (\<Union>r\<in>set rs. range_of r) \<subseteq> R"
proof (induction rs arbitrary: R S)
  case (Cons r rs)
  have "takes (R - range_of r) rs \<longleftrightarrow> fresh_ranges (S \<union> range_of r) rs \<and> (\<Union>r\<in>set rs. range_of r) \<subseteq> R - range_of r"
    using Cons.prems by (intro Cons.IH) auto
  moreover have "(\<Union>r\<in>set rs. range_of r) \<inter> range_of r = {}" if "fresh_ranges (S \<union> range_of r) rs"
    using fresh_rangesD [OF that] by auto
  ultimately show ?case using Cons.prems by auto
qed simp

abbreviation block_ranges :: "(int \<times> u32 \<times> u32) list \<Rightarrow> (int \<times> int) list" where
  "block_ranges blocks \<equiv> map (\<lambda>(off, len, cksum). (off, uint len)) blocks"

definition visit_ok :: "wt_block \<Rightarrow> int \<Rightarrow> int \<times> u32 \<times> u32 \<Rightarrow> bool" where
  "visit_ok block hi x = (case x of (off, len, cksum) \<Rightarrow> addr_ok (blk_allocsize block) off len cksum \<and> len \<noteq> 0 \<and> off + uint len \<le> hi)"

lemma verify_addr_spec:
  assumes "verify_ok block v" "visit_ok block (vf_size v) (off, len, cksum)" "vf_size v \<le> blk_file_size block"
    "wt_block_addr_to_buffer (blk_allocsize block) off len cksum = Inr addr"
    "vf_fragckpt v = Some b" "vf_frags v \<le> 8 * length b" "bits_of b = frags_of (uint (blk_allocsize block)) R"
    "aligned (uint (blk_allocsize block)) R"
  shows "\<not> {off ..< off + uint len} \<subseteq> R \<Longrightarrow> \<exists>v'. wt_block_verify_addr block addr v = (v', Inl WT_ERROR)"
    "{off ..< off + uint len} \<subseteq> R \<Longrightarrow> \<exists>v' b'. wt_block_verify_addr block addr v = (v', Inr ()) \<and> verify_ok block v' \<and>
       vf_size v' = vf_size v \<and> vf_frags v' = vf_frags v \<and> vf_fragckpt v' = Some b' \<and> length b' = length b \<and>
       bits_of b' = frags_of (uint (blk_allocsize block)) (R - {off ..< off + uint len})"
proof -
  let ?a = "uint (blk_allocsize block)"
  have an: "blk_allocsize block \<noteq> 0" using assms(1) by (simp add: verify_ok_def)
  have a: "0 < ?a" by (rule uint_pos [OF an])
  have ao: "addr_ok (blk_allocsize block) off len cksum" "len \<noteq> 0" "off + uint len \<le> vf_size v" using assms(2) by (simp_all add: visit_ok_def)
  then have g: "WT_BLOCK_DESC_SECTOR \<le> off" "(off - WT_BLOCK_DESC_SECTOR) mod ?a = 0" "uint len mod ?a = 0" by (simp_all add: addr_ok_def)
  obtain m n where mn: "frag_block ?a off (uint len) m n" using frag_block_obtain [OF a g(1,2) uint_pos [OF ao(2)] g(3)] by blast
  have r: "frags_of ?a {off ..< off + uint len} = {m ..< m + n}" by (rule frag_block_range [OF mn a])
  have sub: "{off ..< off + uint len} \<subseteq> R \<longleftrightarrow> {m ..< m + n} \<subseteq> bits_of b"
    unfolding assms(7) r [symmetric] using g(1) by (intro frags_of_mono_iff [OF a aligned_range [OF a g(2,3)] assms(8)]) auto
  obtain bs where "wt_block_addr_to_buffer (blk_allocsize block) off len cksum = Inr bs"
      "block_buffer_to_addr (blk_allocsize block) (bs @ []) = Inr ((off, len, cksum), [])"
    using addr_to_buffer_roundtrip [OF an ao(1)] by metis
  then have dec: "wt_block_buffer_to_addr (blk_allocsize block) addr = Inr (off, len, cksum)"
    using assms(4) by (simp add: wt_block_buffer_to_addr_def)
  have le: "off + uint len \<le> blk_file_size block" using ao(3) assms(3) by simp
  obtain fb where fb: "verify_filefrag_add block off (uint len) False v = Inr (v\<lparr>vf_fragfile := fb\<rparr>)" "length fb = length (vf_fragfile v)"
    using filefrag_add_spec [OF assms(1) mn le] by blast
  define w where "w = v\<lparr>vf_fragfile := fb\<rparr>"
  have w: "verify_ok block w" "vf_size w = vf_size v" "vf_frags w = vf_frags v" "vf_fragckpt w = Some b"
    using assms(1,5) fb(2) by (simp_all add: w_def verify_ok_def)
  note ck = ckptfrag_add_spec [OF w(1) mn le _ w(4)]
  have run: "wt_block_verify_addr block addr v = vf_call (verify_ckptfrag_add block off (uint len) w) w (\<lambda>v. (v, Inr ()))"
    by (simp add: wt_block_verify_addr_def vf_call_def dec fb(1) w_def)
  show "\<not> {off ..< off + uint len} \<subseteq> R \<Longrightarrow> \<exists>v'. wt_block_verify_addr block addr v = (v', Inl WT_ERROR)"
    using ck(1) sub ao(3) w(2,3) assms(6) run by (simp add: vf_call_def)
  assume "{off ..< off + uint len} \<subseteq> R"
  then obtain b' where b': "verify_ckptfrag_add block off (uint len) w = Inr (w\<lparr>vf_fragckpt := Some b'\<rparr>)" "length b' = length b"
      "bits_of b' = bits_of b - {m ..< m + n}"
    using ck(2) sub ao(3) w(2,3) assms(6) by auto
  have "bits_of b' = frags_of ?a (R - {off ..< off + uint len})" unfolding b'(3) frags_of_Diff r assms(7) ..
  moreover have "verify_ok block (w\<lparr>vf_fragckpt := Some b'\<rparr>)" using w(1) by (simp add: verify_ok_def)
  ultimately show "\<exists>v' b'. wt_block_verify_addr block addr v = (v', Inr ()) \<and> verify_ok block v' \<and>
       vf_size v' = vf_size v \<and> vf_frags v' = vf_frags v \<and> vf_fragckpt v' = Some b' \<and> length b' = length b \<and>
       bits_of b' = frags_of ?a (R - {off ..< off + uint len})"
    using run b'(1,2) w(2,3) by (simp add: vf_call_def)
qed

lemma verify_addrs_spec:
  assumes "verify_ok block v" "\<forall>x\<in>set blocks. visit_ok block (vf_size v) x" "vf_size v \<le> blk_file_size block"
    "map (\<lambda>(off, len, cksum). wt_block_addr_to_buffer (blk_allocsize block) off len cksum) blocks = map Inr addrs"
    "vf_fragckpt v = Some b" "vf_frags v \<le> 8 * length b" "bits_of b = frags_of (uint (blk_allocsize block)) R"
    "aligned (uint (blk_allocsize block)) R"
  shows "\<exists>v' r. verify_addrs block addrs v = (v', r) \<and>
    (if takes R (block_ranges blocks)
     then r = Inr () \<and> vf_frags v' = vf_frags v \<and> (\<exists>b'. vf_fragckpt v' = Some b' \<and> length b' = length b \<and>
       bits_of b' = frags_of (uint (blk_allocsize block)) (R - (\<Union>x\<in>set (block_ranges blocks). range_of x)))
     else r = Inl WT_ERROR)"
  using assms
proof (induction blocks arbitrary: v b R addrs)
  case (Cons x blocks)
  let ?a = "uint (blk_allocsize block)"
  obtain off len cksum where x: "x = (off, len, cksum)" by (cases x)
  obtain addr addrs' where ad: "addrs = addr # addrs'" "wt_block_addr_to_buffer (blk_allocsize block) off len cksum = Inr addr"
      "map (\<lambda>(off, len, cksum). wt_block_addr_to_buffer (blk_allocsize block) off len cksum) blocks = map Inr addrs'"
    using Cons.prems(4) x by (cases addrs) auto
  have vis: "visit_ok block (vf_size v) (off, len, cksum)" using Cons.prems(2) x by simp
  note V = verify_addr_spec [OF Cons.prems(1) vis Cons.prems(3) ad(2) Cons.prems(5-8)]
  have rng: "range_of (off, uint len) = {off ..< off + uint len}" by (simp add: range_of_def)
  show ?case
  proof (cases "{off ..< off + uint len} \<subseteq> R")
    case False
    from V(1) [OF this] obtain v' where "wt_block_verify_addr block addr v = (v', Inl WT_ERROR)" ..
    then show ?thesis using False by (simp add: ad(1) x rng)
  next
    case True
    from V(2) [OF this] obtain v1 b1 where v1: "wt_block_verify_addr block addr v = (v1, Inr ())" "verify_ok block v1"
        "vf_size v1 = vf_size v" "vf_frags v1 = vf_frags v" "vf_fragckpt v1 = Some b1" "length b1 = length b"
        "bits_of b1 = frags_of ?a (R - {off ..< off + uint len})" by (elim exE conjE)
    have "0 < ?a" using Cons.prems(1) uint_pos by (simp add: verify_ok_def)
    moreover have "(off - WT_BLOCK_DESC_SECTOR) mod ?a = 0" "uint len mod ?a = 0" using vis by (simp_all add: visit_ok_def addr_ok_def)
    ultimately have al: "aligned ?a (R - {off ..< off + uint len})" using Cons.prems(8) by (intro aligned_Diff aligned_range)
    have p: "\<forall>x\<in>set blocks. visit_ok block (vf_size v1) x" "vf_size v1 \<le> blk_file_size block" "vf_frags v1 \<le> 8 * length b1"
      using Cons.prems(2,3,6) v1(3,4,6) by simp_all
    have e: "verify_addrs block addrs v = verify_addrs block addrs' v1" by (simp add: ad(1) v1(1))
    have t: "takes R (block_ranges (x # blocks)) \<longleftrightarrow> takes (R - {off ..< off + uint len}) (block_ranges blocks)"
      using True by (simp add: x rng)
    have u: "R - (\<Union>x\<in>set (block_ranges (x # blocks)). range_of x) = R - {off ..< off + uint len} - (\<Union>x\<in>set (block_ranges blocks). range_of x)"
      unfolding x list.map prod.case list.set UN_insert rng by blast
    from Cons.IH [OF v1(2) p(1,2) ad(3) v1(5) p(3) v1(7) al]
    show ?thesis unfolding e t u v1(4,6) .
  qed
qed simp

text \<open>
  C9: Verification of a checkpoint is exact. After the checkpoint was loaded, the btree visits blocks
  through their address cookies, each an aligned block inside the checkpoint. All visits and the check at
  the unload succeed if and only if the blocks are pairwise disjoint and together are exactly the bytes of
  the allocation list that was rolled forward to this checkpoint: a block that is visited twice, one that is not
  allocated and one that is allocated and never visited are all found, and nothing else is reported.
  The hypotheses on the rolled list are its invariants: well formed, aligned and inside the file.
\<close>

theorem verify_ckpt_exact:
  assumes load: "wt_verify_ckpt_load io mem file (v0, block0, ci) = ((v, block, ci'), Inr ())"
    and ok: "verify_ok block0 v0" "extlist_ok (vf_alloc v)" "aligned (uint (blk_allocsize block0)) (el_ranges (vf_alloc v))"
      "el_ranges (vf_alloc v) \<subseteq> {WT_BLOCK_DESC_SECTOR ..< blk_file_size block0}"
    and size: "ck_file_size ci \<le> blk_file_size block0"
    and blocks: "\<forall>x\<in>set blocks. visit_ok block0 (ck_file_size ci) x"
      "map (\<lambda>(off, len, cksum). wt_block_addr_to_buffer (blk_allocsize block0) off len cksum) blocks = map Inr addrs"
  shows "\<exists>v' r. verify_addrs block addrs v = (v', r) \<and> r \<in> {Inr (), Inl WT_ERROR} \<and>
    (r = Inr () \<and> snd (snd (wt_verify_ckpt_unload block v')) = Inr () \<longleftrightarrow>
       fresh_ranges {} (block_ranges blocks) \<and> (\<Union>x\<in>set (block_ranges blocks). range_of x) = el_ranges (vf_alloc v))"
proof -
  note fr = ckpt_load_frags(2) [OF load, unfolded frame_of.simps prod.inject]
  have be: "blk_allocsize block = blk_allocsize block0" "blk_file_size block = blk_file_size block0" "vf_size v = ck_file_size ci" using fr by blast+
  note B = ckpt_load_bits [OF load ok]
  let ?a = "uint (blk_allocsize block)" and ?R = "el_ranges (vf_alloc v)" and ?U = "\<Union>x\<in>set (block_ranges blocks). range_of x"
  obtain b where b: "vf_fragckpt v = Some b" "vf_frags v \<le> 8 * length b" "bits_of b = frags_of ?a ?R" using B(2) by (elim exE conjE)
  have vis: "\<forall>x\<in>set blocks. visit_ok block (vf_size v) x" using blocks(1) by (simp add: visit_ok_def be)
  have al: "aligned ?a ?R" using ok(3) be(1) by simp
  have a: "0 < ?a" using B(1) uint_pos by (simp add: verify_ok_def)
  have fits: "vf_size v \<le> blk_file_size block" using size be by simp
  from verify_addrs_spec [OF B(1) vis fits, unfolded be(1), OF blocks(2) b(1,2) b(3)[unfolded be(1)] al[unfolded be(1)]]
  obtain v' r where r: "verify_addrs block addrs v = (v', r)"
    "if takes ?R (block_ranges blocks)
     then r = Inr () \<and> vf_frags v' = vf_frags v \<and> (\<exists>b'. vf_fragckpt v' = Some b' \<and> length b' = length b \<and> bits_of b' = frags_of ?a (?R - ?U))
     else r = Inl WT_ERROR" unfolding be(1) by (elim exE conjE)
  have t: "takes ?R (block_ranges blocks) \<longleftrightarrow> fresh_ranges {} (block_ranges blocks) \<and> ?U \<subseteq> ?R" by (rule takes_iff) simp
  show ?thesis
  proof (cases "takes ?R (block_ranges blocks)")
    case False
    then show ?thesis using r t by auto
  next
    case True
    then obtain b' where b': "r = Inr ()" "vf_fragckpt v' = Some b'" "vf_frags v' \<le> 8 * length b'" "bits_of b' = frags_of ?a (?R - ?U)"
      "vf_frags v' = vf_frags v" using r(2) b(2) by auto
    have hi: "k < vf_frags v" if "k \<in> bits_of b'" for k
    proof -
      have "WT_BLOCK_DESC_SECTOR + ?a * int k < WT_BLOCK_DESC_SECTOR + ?a * int (vf_frags v)"
        using that ok(4) B(1) be unfolding b'(4) frags_of_def verify_ok_def by auto
      then have "?a * int k < ?a * int (vf_frags v)" by simp
      then show ?thesis using a by (simp only: mult_less_cancel_left_pos of_nat_less_iff)
    qed
    have alr: "aligned ?a (?R - ?U)"
    proof -
      have "aligned ?a (range_of y)" if "y \<in> set (block_ranges blocks)" for y
        using that vis aligned_range [OF a] by (force simp: visit_ok_def addr_ok_def range_of_def)
      then have "aligned ?a ?U" unfolding aligned_def by blast
      then show ?thesis by (rule aligned_Diff [OF a al])
    qed
    have sub: "?R - ?U \<subseteq> {WT_BLOCK_DESC_SECTOR ..}" using ok(4) by fastforce
    have "bad_frags False (vf_frags v') b' = {} \<longleftrightarrow> bits_of b' = {}" using hi b'(5) by auto
    also have "\<dots> \<longleftrightarrow> ?R - ?U \<subseteq> {}"
      unfolding b'(4) frags_of_mono_iff [OF a alr aligned_empty sub] by simp
    finally have "snd (snd (wt_verify_ckpt_unload block v')) = Inr () \<longleftrightarrow> ?R \<subseteq> ?U"
      using ckptfrag_chk_spec [OF b'(2,3), of block] by (auto simp: wt_verify_ckpt_unload_def)
    then show ?thesis using r(1) b'(1) True t by auto
  qed
qed

definition sample_verify :: wt_verify where
  "sample_verify = \<lparr>vf_verify = True, vf_size = 0, vf_alloc = sample_extlist, vf_frags = 8, vf_fragfile = [0], vf_fragckpt = None\<rparr>"

definition verify_block :: wt_block where
  "verify_block = sample_block\<lparr>blk_file_size := 4608, blk_allocsize := 512\<rparr>"

definition verify_ci :: wt_block_ckpt where
  "verify_ci = ckpt_zero\<lparr>ck_file_size := 4608\<rparr>"

lemma sample_load:
  "wt_verify_ckpt_load sample_io 0 [] (sample_verify, verify_block, verify_ci) =
     ((sample_verify\<lparr>vf_size := 4608, vf_fragckpt := Some [0x83]\<rparr>, verify_block, verify_ci), Inr ())"
proof -
  have "ckpt_frags 512 (el_off sample_extlist) (bit_alloc 8) = Inr [0x83]" by code_simp
  then show ?thesis
    by (simp add: wt_verify_ckpt_load_def ckpt_frag_add_def ckpt_roll_alloc_def ckpt_roll_discard_def ckpt_drop_root_def vf_call_def
        verify_ci_def ckpt_zero_def extlist_zero_def sample_verify_def verify_block_def WT_BLOCK_INVALID_OFFSET_def)
qed

theorem verify_ckpt_exact_witness:
  "\<exists>addrs v' r. verify_addrs verify_block addrs (sample_verify\<lparr>vf_size := 4608, vf_fragckpt := Some [0x83]\<rparr>) = (v', r) \<and>
     r = Inr () \<and> snd (snd (wt_verify_ckpt_unload verify_block v')) = Inr ()"
proof -
  let ?b = "[(1024, 512, 7), (4096, 512, 9), (512, 512, 8)] :: (int \<times> u32 \<times> u32) list"
  let ?v = "sample_verify\<lparr>vf_size := 4608, vf_fragckpt := Some [0x83]\<rparr>"
  have ok: "verify_ok verify_block sample_verify" by (simp add: verify_ok_def verify_block_def sample_verify_def WT_BLOCK_DESC_SECTOR_def)
  have al: "aligned 512 (el_ranges sample_extlist)"
    unfolding sample_extlist_ranges using aligned_range [of 512 512 1024] aligned_range [of 512 4096 512]
    by (intro aligned_Un) (simp_all add: WT_BLOCK_DESC_SECTOR_def)
  obtain a1 where a1: "wt_block_addr_to_buffer 512 1024 512 7 = Inr a1"
    using addr_to_buffer_roundtrip [of 512 1024 512 7] by (auto simp: addr_ok_def WT_BLOCK_DESC_SECTOR_def)
  obtain a2 where a2: "wt_block_addr_to_buffer 512 4096 512 9 = Inr a2"
    using addr_to_buffer_roundtrip [of 512 4096 512 9] by (auto simp: addr_ok_def WT_BLOCK_DESC_SECTOR_def)
  obtain a3 where a3: "wt_block_addr_to_buffer 512 512 512 8 = Inr a3"
    using addr_to_buffer_roundtrip [of 512 512 512 8] by (auto simp: addr_ok_def WT_BLOCK_DESC_SECTOR_def)
  have "\<exists>v' r. verify_addrs verify_block [a1, a2, a3] ?v = (v', r) \<and> r \<in> {Inr (), Inl WT_ERROR} \<and>
    (r = Inr () \<and> snd (snd (wt_verify_ckpt_unload verify_block v')) = Inr () \<longleftrightarrow>
       fresh_ranges {} (block_ranges ?b) \<and> (\<Union>x\<in>set (block_ranges ?b). range_of x) = el_ranges (vf_alloc ?v))"
  proof (rule verify_ckpt_exact [OF sample_load ok])
    show "extlist_ok (vf_alloc ?v)" by (simp add: sample_verify_def sample_extlist_ok)
    show "aligned (uint (blk_allocsize verify_block)) (el_ranges (vf_alloc ?v))" using al by (simp add: sample_verify_def verify_block_def)
    show "el_ranges (vf_alloc ?v) \<subseteq> {WT_BLOCK_DESC_SECTOR ..< blk_file_size verify_block}"
      by (auto simp: sample_verify_def verify_block_def sample_extlist_ranges WT_BLOCK_DESC_SECTOR_def)
    show "ck_file_size verify_ci \<le> blk_file_size verify_block" by (simp add: verify_ci_def verify_block_def)
    show "\<forall>x\<in>set ?b. visit_ok verify_block (ck_file_size verify_ci) x"
      by (simp add: visit_ok_def verify_block_def verify_ci_def addr_ok_def WT_BLOCK_DESC_SECTOR_def)
    show "map (\<lambda>(off, len, cksum). wt_block_addr_to_buffer (blk_allocsize verify_block) off len cksum) ?b = map Inr [a1, a2, a3]"
      using a1 a2 a3 by (simp add: verify_block_def)
  qed
  moreover have "fresh_ranges {} (block_ranges ?b)" by (auto simp: range_of_def)
  moreover have "(\<Union>x\<in>set (block_ranges ?b). range_of x) = el_ranges (vf_alloc ?v)"
    by (auto simp: sample_verify_def sample_extlist_ranges range_of_def)
  ultimately show ?thesis by blast
qed

end
