(* ===== verification/Wt_Salvage.thy ===== *)
theory Wt_Salvage
  imports Wt_Ckpt Wt_Config
begin

text \<open>
  Files of the block manager: the description sector and the configuration of an open
  (\<open>src/src/block/block_open.c\<close>), the decisions of compaction (\<open>src/src/block/block_compact.c\<close>) and the scan
  of a damaged file by salvage (\<open>src/src/block/block_slvg.c\<close>). An error leaves the state as it was when the failing
  call was made.
\<close>

section \<open>The description sector\<close>

definition WT_BLOCK_MAGIC :: u32 where "WT_BLOCK_MAGIC = 120897"
definition WT_BLOCK_MAJOR_VERSION :: "16 word" where "WT_BLOCK_MAJOR_VERSION = 1"
definition WT_BLOCK_MINOR_VERSION :: "16 word" where "WT_BLOCK_MINOR_VERSION = 0"

definition desc_magic :: "bool \<Rightarrow> bytes \<Rightarrow> u32" where "desc_magic be d = from_bytes be (get_at 0 4 d)"
definition desc_majorv :: "bool \<Rightarrow> bytes \<Rightarrow> 16 word" where "desc_majorv be d = from_bytes be (get_at 4 2 d)"
definition desc_minorv :: "bool \<Rightarrow> bytes \<Rightarrow> 16 word" where "desc_minorv be d = from_bytes be (get_at 6 2 d)"
definition desc_cksum :: "bool \<Rightarrow> bytes \<Rightarrow> u32" where "desc_cksum be d = from_bytes be (get_at 8 4 d)"
definition set_desc_cksum :: "bool \<Rightarrow> u32 \<Rightarrow> bytes \<Rightarrow> bytes" where "set_desc_cksum be c d = put_at 8 (to_bytes be 4 c) d"

definition desc_image :: "bool \<Rightarrow> bytes" where
  "desc_image be =
     put_at 6 (to_bytes be 2 WT_BLOCK_MINOR_VERSION)
       (put_at 4 (to_bytes be 2 WT_BLOCK_MAJOR_VERSION)
         (put_at 0 (to_bytes be 4 WT_BLOCK_MAGIC) (replicate (nat WT_BLOCK_DESC_SECTOR) 0)))"

definition wt_desc_init :: "wt_io \<Rightarrow> u64 \<Rightarrow> bytes \<Rightarrow> bytes \<times> unit result" where
  "wt_desc_init io mem file =
     (let be = io_be io; desc = set_desc_cksum be 0 (desc_image be);
          desc = set_desc_cksum be (wt_cksum be mem desc) desc
      in wt_write io file 0 desc)"

definition desc_read :: "wt_io \<Rightarrow> u64 \<Rightarrow> bytes \<Rightarrow> unit result" where
  "desc_read io mem file =
     (let be = io_be io in
      wt_ret (wt_read io file 0 (of_int WT_BLOCK_DESC_SECTOR)) (\<lambda>desc.
        let cksum = desc_cksum be desc; desc = set_desc_cksum be 0 desc in
        if desc_magic be desc \<noteq> WT_BLOCK_MAGIC \<or> cksum \<noteq> wt_cksum be mem desc then Inl WT_ERROR
        else if WT_BLOCK_MAJOR_VERSION < desc_majorv be desc \<or>
          desc_majorv be desc = WT_BLOCK_MAJOR_VERSION \<and> WT_BLOCK_MINOR_VERSION < desc_minorv be desc
        then Inl WT_ERROR
        else Inr ()))"

section \<open>Opening\<close>

definition c_string :: "string \<Rightarrow> bytes" where
  "c_string s = map (\<lambda>c. of_nat (of_char c)) s"

fun find_compressor :: "(bytes \<times> wt_compressor) list \<Rightarrow> wt_config_item \<Rightarrow> wt_compressor result" where
  "find_compressor [] cval = Inl EINVAL"
| "find_compressor ((name, c) # cs) cval =
     wt_ret (string_match name cval) (\<lambda>m. if m then Inr c else find_compressor cs cval)"

text \<open>
  The steps of \<open>__wt_block_open\<close> in front of the file handle: a new block and its compressor, from the
  configuration string and the list of the named compressors of the connection.
\<close>

definition block_open_config ::
  "bool \<Rightarrow> bytes \<Rightarrow> (bytes \<times> wt_compressor) list \<Rightarrow> wt_block \<Rightarrow> (wt_block \<times> wt_compressor option) result" where
  "block_open_config sc config compqh block =
     wt_ret (wt_config_getones sc config (c_string ''allocation_size'')) (\<lambda>cval.
       let block = block\<lparr>blk_allocsize := ucast (it_val cval)\<rparr> in
     wt_ret (wt_config_getones sc config (c_string ''checksum'')) (\<lambda>cval.
       let block = block\<lparr>blk_checksum := it_val cval \<noteq> 0\<rparr> in
     wt_ret (wt_config_getones sc config (c_string ''block_compressor'')) (\<lambda>cval.
       if it_len cval > 0 then wt_ret (find_compressor compqh cval) (\<lambda>c. Inr (block, Some c))
       else Inr (block, None))))"

text \<open>The check of the description sector behind it, which a forced salvage skips.\<close>

definition block_open_check :: "wt_io \<Rightarrow> u64 \<Rightarrow> bytes \<Rightarrow> bool \<Rightarrow> unit result" where
  "block_open_check io mem file forced_salvage = (if forced_salvage then Inr () else desc_read io mem file)"

section \<open>Compaction\<close>

definition WT_COMPACT_TRIGGER :: int where "WT_COMPACT_TRIGGER = 30"

definition wt_block_compact_skip :: "wt_block \<Rightarrow> bool" where
  "wt_block_compact_skip block =
     (if blk_file_size block \<le> 10 * 1024 then True
      else
        (let half = blk_file_size block div 2;
             avail = (\<Sum>ext\<leftarrow>el_off (ck_avail (blk_live block)). if ext_off ext < half then ext_size ext else 0);
             pct = (avail * 100) div blk_file_size block
         in pct < WT_COMPACT_TRIGGER))"

definition wt_block_compact_page_skip :: "wt_block \<Rightarrow> bytes \<Rightarrow> bool result" where
  "wt_block_compact_page_skip block addr =
     wt_ret (wt_block_buffer_to_addr (blk_allocsize block) addr) (\<lambda>(offset, len, cksum).
       Inr (\<not> blk_file_size block div 2 < offset))"

section \<open>Salvage\<close>

definition WT_BTREE_PAGE_SIZE_MAX :: u32 where "WT_BTREE_PAGE_SIZE_MAX = 512 * 1048576"

text \<open>The fields of \<open>WT_BLOCK\<close> that salvage uses.\<close>

record wt_salvage =
  sv_slvg :: bool
  sv_off :: int

definition blk_write_gen :: "bool \<Rightarrow> bytes \<Rightarrow> u64" where
  "blk_write_gen be img = from_bytes be (get_at WT_PAGE_HEADER_SIZE 8 img)"

definition wt_block_salvage_start ::
  "wt_io \<Rightarrow> u64 \<Rightarrow> wt_block \<times> wt_salvage \<times> bytes \<Rightarrow> (wt_block \<times> wt_salvage \<times> bytes) \<times> unit result" where
  "wt_block_salvage_start io mem s =
     (case s of (block, sv, file) \<Rightarrow>
      case wt_desc_init io mem file of
        (file, Inl e) \<Rightarrow> ((block, sv, file), Inl e)
      | (file, Inr _) \<Rightarrow>
        (case wt_block_ckpt_init_live block of
           Inl e \<Rightarrow> ((block, sv, file), Inl e)
         | Inr block \<Rightarrow>
           (let fs = blk_file_size block; allocsize = uint (blk_allocsize block);
                len = (if WT_BLOCK_DESC_SECTOR < fs then (fs - WT_BLOCK_DESC_SECTOR) div allocsize * allocsize + WT_BLOCK_DESC_SECTOR
                       else WT_BLOCK_DESC_SECTOR)
            in case (if WT_BLOCK_DESC_SECTOR < fs \<and> len \<noteq> fs then wt_ftruncate io block file len else Inr (block, file)) of
                 Inl e \<Rightarrow> ((block, sv, file), Inl e)
               | Inr (block, file) \<Rightarrow>
                 (let sv = sv\<lparr>sv_off := WT_BLOCK_DESC_SECTOR\<rparr> in
                  case wt_block_insert_ext (blk_rng block) (ck_alloc (blk_live block)) WT_BLOCK_DESC_SECTOR (len - WT_BLOCK_DESC_SECTOR) of
                    Inl e \<Rightarrow> ((block, sv, file), Inl e)
                  | Inr (alloc, g) \<Rightarrow>
                      ((block\<lparr>blk_live := (blk_live block)\<lparr>ck_alloc := alloc\<rparr>, blk_rng := g\<rparr>, sv\<lparr>sv_slvg := True\<rparr>, file), Inr ())))))"

definition wt_block_salvage_end :: "wt_block \<times> wt_salvage \<Rightarrow> wt_block \<times> wt_salvage" where
  "wt_block_salvage_end s = (case s of (block, sv) \<Rightarrow> (wt_block_checkpoint_unload block, sv\<lparr>sv_slvg := False\<rparr>))"

text \<open>
  The page at an offset: its header is read from the first allocation unit, and a size that makes no sense or a
  page that cannot be read makes the unit one to skip (\<open>None\<close>).
\<close>

definition salvage_page ::
  "wt_io \<Rightarrow> u64 \<Rightarrow> wt_block \<Rightarrow> bytes \<Rightarrow> int \<Rightarrow> int \<Rightarrow> (u32 \<times> u32 \<times> bytes) option result" where
  "salvage_page io mem block file mx offset =
     wt_ret (wt_read io file offset (blk_allocsize block)) (\<lambda>buf.
       let len = blk_disk_size (io_be io) buf; cksum = blk_cksum (io_be io) buf in
       if len = 0 \<or> len mod blk_allocsize block \<noteq> 0 \<or> WT_BTREE_PAGE_SIZE_MAX < len \<or> mx < offset + uint len then Inr None
       else
         case wt_block_read_off io mem block file offset len cksum of
           Inl e \<Rightarrow> if e = OUT_OF_BOUNDS then Inl e else Inr None
         | Inr page \<Rightarrow> Inr (Some (len, cksum, page)))"

text \<open>The scan: skipped units are freed. An allocation size of 0 divides by zero.\<close>

function salvage_scan ::
  "wt_io \<Rightarrow> u64 \<Rightarrow> bytes \<Rightarrow> int \<Rightarrow> int \<Rightarrow> wt_block \<times> wt_salvage \<Rightarrow> (wt_block \<times> wt_salvage) \<times> (int \<times> u32 \<times> u32 \<times> bytes) option result" where
  "salvage_scan io mem file mx offset s =
     (if mx \<le> offset then (s, Inr None)
      else if blk_allocsize (fst s) = 0 then (s, Inl OUT_OF_BOUNDS)
      else
        case salvage_page io mem (fst s) file mx offset of
          Inl e \<Rightarrow> (s, Inl e)
        | Inr (Some (len, cksum, page)) \<Rightarrow> (s, Inr (Some (offset, len, cksum, page)))
        | Inr None \<Rightarrow>
            (let allocsize = uint (blk_allocsize (fst s)) in
             case wt_block_off_free (fst s) offset allocsize of
               Inl e \<Rightarrow> (s, Inl e)
             | Inr block \<Rightarrow> salvage_scan io mem file mx (offset + allocsize) (block, (snd s)\<lparr>sv_off := offset + allocsize\<rparr>)))"
  by pat_completeness auto
termination
proof (relation "measure (\<lambda>(io, mem, file, mx, offset, s). nat (mx - offset))", goal_cases)
  case (2 io mem f mx offset s)
  have "0 < uint (blk_allocsize (fst s))" using 2(2) by (metis uint_0_iff uint_ge_0 order_le_less)
  then show ?case using 2(1,5) by simp
qed simp

declare salvage_scan.simps [simp del]

text \<open>The page, its address cookie and its write generation, or \<open>None\<close> at the end of the file.\<close>

definition wt_block_salvage_next ::
  "wt_io \<Rightarrow> u64 \<Rightarrow> bytes \<Rightarrow> wt_block \<times> wt_salvage \<Rightarrow> (wt_block \<times> wt_salvage) \<times> (bytes \<times> bytes \<times> u64) option result" where
  "wt_block_salvage_next io mem file s =
     (case salvage_scan io mem file (blk_file_size (fst s)) (sv_off (snd s)) s of
        (s, Inl e) \<Rightarrow> (s, Inl e)
      | (s, Inr None) \<Rightarrow> (s, Inr None)
      | ((block, sv), Inr (Some (offset, len, cksum, page))) \<Rightarrow>
          (let gen = blk_write_gen (io_be io) page;
               block = (if ck_write_gen (blk_live block) < gen
                        then block\<lparr>blk_live := (blk_live block)\<lparr>ck_write_gen := gen\<rparr>\<rparr> else block)
           in case wt_block_addr_to_buffer (blk_allocsize block) offset len cksum of
                Inl e \<Rightarrow> ((block, sv), Inl e)
              | Inr addr \<Rightarrow> ((block, sv\<lparr>sv_off := offset + uint len\<rparr>), Inr (Some (page, addr, gen)))))"

section \<open>The description sector round trip\<close>

lemma length_desc_image [simp]: "length (desc_image be) = 512"
  by (simp add: desc_image_def WT_BLOCK_DESC_SECTOR_def)

lemma from_to_u16 [simp]: "from_bytes be (to_bytes be 2 w) = w" for w :: "16 word"
  by (rule from_to_bytes) simp

lemma desc_image_fields:
  "desc_magic be (set_desc_cksum be c (desc_image be)) = WT_BLOCK_MAGIC"
  "desc_majorv be (set_desc_cksum be c (desc_image be)) = WT_BLOCK_MAJOR_VERSION"
  "desc_minorv be (set_desc_cksum be c (desc_image be)) = WT_BLOCK_MINOR_VERSION"
  by (simp_all add: desc_magic_def desc_majorv_def desc_minorv_def set_desc_cksum_def desc_image_def get_put_other get_put_same_width
      WT_BLOCK_DESC_SECTOR_def)

text \<open>A file whose description sector was written completely passes the check, wherever the buffers are.\<close>

lemma desc_init_read:
  assumes "io_ok io" "wt_desc_init io mem file = (file', Inr ())"
  shows "desc_read io mem' file' = Inr ()"
proof -
  let ?be = "io_be io"
  define c where "c = wt_cksum ?be mem (set_desc_cksum ?be 0 (desc_image ?be))"
  define d where "d = set_desc_cksum ?be c (set_desc_cksum ?be 0 (desc_image ?be))"
  have p: "put_at 8 u (put_at 8 v (desc_image ?be)) = put_at 8 u (desc_image ?be)" if "length u = 4" "length v = 4" for u v
    using that by (intro put_put_same) simp_all
  have d': "d = set_desc_cksum ?be c (desc_image ?be)" "set_desc_cksum ?be 0 d = set_desc_cksum ?be 0 (desc_image ?be)"
    by (simp_all add: d_def set_desc_cksum_def p)
  have l: "length d = 512" by (simp add: d'(1) set_desc_cksum_def)
  obtain n where w: "io_pwrite io file 0 d = (file', n)" "n = int (length d)"
    using assms(2) by (auto simp: wt_desc_init_def wt_write_def Let_def c_def d_def split: prod.splits if_splits)
  note f = io_okD(3) [OF assms(1) _ w(1) [unfolded w(2)]]
  have "io_pread io file' 0 512 = d" using io_okD(4) [OF assms(1), of 0 512 file'] f l by simp
  then have r: "wt_read io file' 0 (of_int WT_BLOCK_DESC_SECTOR) = Inr d" by (simp add: wt_read_def WT_BLOCK_DESC_SECTOR_def l)
  have ck: "desc_cksum ?be d = c" by (simp add: d'(1) desc_cksum_def set_desc_cksum_def get_put_same_width)
  have e: "wt_cksum ?be mem' (set_desc_cksum ?be 0 d) = c" unfolding d'(2) c_def wt_cksum_crc32c ..
  show ?thesis unfolding desc_read_def Let_def r wt_ret_simps ck e unfolding d'(2) desc_image_fields by simp
qed

section \<open>Decisions of compaction\<close>

text \<open>A file is compacted if it is not small and the free extents that start in its first half are 30 percent of it.\<close>

lemma compact_skip_iff:
  "\<not> wt_block_compact_skip block \<longleftrightarrow> 10 * 1024 < blk_file_size block \<and>
     30 * blk_file_size block \<le> 100 * (\<Sum>ext\<leftarrow>el_off (ck_avail (blk_live block)). if ext_off ext < blk_file_size block div 2 then ext_size ext else 0)"
proof (cases "blk_file_size block \<le> 10 * 1024")
  case False
  then have pos: "0 < blk_file_size block" by simp
  have "(30 \<le> x * 100 div blk_file_size block) \<longleftrightarrow> 30 * blk_file_size block \<le> 100 * x" for x
  proof
    assume "30 \<le> x * 100 div blk_file_size block"
    then have "30 * blk_file_size block \<le> x * 100 div blk_file_size block * blk_file_size block" using pos by (intro mult_right_mono) simp_all
    also have "\<dots> \<le> x * 100" using div_mult_mod_eq [of "x * 100" "blk_file_size block"] pos_mod_sign [OF pos, of "x * 100"] by linarith
    finally show "30 * blk_file_size block \<le> 100 * x" by simp
  next
    assume "30 * blk_file_size block \<le> 100 * x"
    then have "30 * blk_file_size block div blk_file_size block \<le> x * 100 div blk_file_size block" using pos by (intro zdiv_mono1) simp_all
    then show "30 \<le> x * 100 div blk_file_size block" using pos by simp
  qed
  then show ?thesis using False by (simp add: wt_block_compact_skip_def Let_def WT_COMPACT_TRIGGER_def not_less)
qed (simp add: wt_block_compact_skip_def)

lemma compact_page_skip_cookie:
  assumes "blk_allocsize block \<noteq> 0" "addr_ok (blk_allocsize block) off len ck" "wt_block_addr_to_buffer (blk_allocsize block) off len ck = Inr addr"
  shows "wt_block_compact_page_skip block addr = Inr (off \<le> blk_file_size block div 2)"
proof -
  obtain bs where "wt_block_addr_to_buffer (blk_allocsize block) off len ck = Inr bs"
      "block_buffer_to_addr (blk_allocsize block) (bs @ []) = Inr ((off, len, ck), [])"
    using addr_to_buffer_roundtrip [OF assms(1,2)] by metis
  then show ?thesis using assms(3) by (simp add: wt_block_compact_page_skip_def wt_block_buffer_to_addr_def not_less)
qed

section \<open>The scan\<close>

lemma off_free_frame:
  assumes "wt_block_off_free block off len = Inr b"
  shows "blk_checksum b = blk_checksum block" "ck_write_gen (blk_live b) = ck_write_gen (blk_live block)"
  using assms by (auto simp: wt_block_off_free_def Let_def wt_ret_Inr_iff split: sum.splits if_splits)

lemma salvage_page_cong:
  assumes "blk_allocsize b = blk_allocsize block" "blk_checksum b = blk_checksum block"
  shows "salvage_page io mem b file mx off = salvage_page io mem block file mx off"
proof -
  have "wt_block_read_off io mem b file off len ck = wt_block_read_off io mem block file off len ck" for len ck
    by (simp add: wt_block_read_off_def assms(2))
  then show ?thesis unfolding salvage_page_def assms(1) by (simp only:)
qed

text \<open>The codes that the system and the compressor return are codes of the program.\<close>

definition codes_ok :: "wt_io \<Rightarrow> bool" where
  "codes_ok io \<longleftrightarrow> io_errno io \<noteq> OUT_OF_BOUNDS \<and>
     (\<forall>c. io_compressor io = Some c \<longrightarrow> (\<forall>src n. comp_decompress c src n \<noteq> Inl OUT_OF_BOUNDS))"

lemma read_off_codes:
  assumes "codes_ok io" "wt_read io file off len = Inr dsk" "blk_disk_size (io_be io) dsk = len" "64 \<le> unat len"
  shows "wt_block_read_off io mem block file off len ck \<noteq> Inl OUT_OF_BOUNDS"
proof -
  let ?be = "io_be io"
  have l: "length dsk = unat len" using assms(2) by (auto simp: wt_read_def Let_def split: if_splits)
  have s: "blk_disk_size ?be (set_cksum ?be 0 dsk) = len" "length (set_cksum ?be 0 dsk) = unat len"
    "dsk_size ?be (set_cksum ?be 0 dsk) = dsk_size ?be dsk"
    using assms(3,4) l by (simp_all add: blk_disk_size_def dsk_size_def set_cksum_def get_put_other WT_PAGE_HEADER_SIZE_def)
  have c: "comp_decompress cm src n \<noteq> Inl OUT_OF_BOUNDS" if "io_compressor io = Some cm" for cm src n
    using assms(1) that by (auto simp: codes_ok_def)
  have tail: "(if blk_disk_size ?be d < dsk_size ?be d then
          (case io_compressor io of
             None \<Rightarrow> Inl WT_ERROR
           | Some cm \<Rightarrow>
               (let n = unat (dsk_size ?be d - of_nat WT_BLOCK_COMPRESS_SKIP) in
                if unat (dsk_size ?be d) < WT_BLOCK_COMPRESS_SKIP \<or> length d < WT_BLOCK_COMPRESS_SKIP
                then Inl OUT_OF_BOUNDS
                else wt_ret (comp_decompress cm (drop WT_BLOCK_COMPRESS_SKIP d) n) (\<lambda>out.
                  if length out \<noteq> n then Inl WT_ERROR
                  else Inr (take WT_BLOCK_COMPRESS_SKIP d @ out))))
        else if length d < unat (dsk_size ?be d) then Inl OUT_OF_BOUNDS
        else Inr (take (unat (dsk_size ?be d)) d)) \<noteq> Inl OUT_OF_BOUNDS" if "blk_disk_size ?be d = len" "length d = unat len" for d
    using that c assms(4)
    by (auto simp: word_less_iff_unat Let_def wt_ret_Inl_iff WT_BLOCK_COMPRESS_SKIP_def split: option.splits)
  show ?thesis
    using tail [of dsk] tail [of "set_cksum ?be 0 dsk"] assms(2,3) l s by (auto simp: wt_block_read_off_def Let_def)
qed

lemma get_at_prefix: "k + n \<le> m \<Longrightarrow> get_at k n (get_at i m img) = get_at (k + i) n img"
  by (simp add: get_at_def drop_take min_absorb1 add.commute)

lemma read_inside:
  assumes "io_ok io" "0 \<le> off" "off + uint len \<le> int (length file)"
  shows "wt_read io file off len = Inr (get_at (nat off) (unat len) file)"
proof -
  have "uint len = int (unat len)" by simp
  then have "nat off + unat len \<le> length file" using assms(2,3) by linarith
  then show ?thesis using io_okD(4) [OF assms(1,2)] by (simp add: wt_read_def Let_def get_at_def)
qed

lemma salvage_page_cases:
  assumes "io_ok io" "codes_ok io" "64 \<le> unat (blk_allocsize block)" "0 \<le> off" "off + uint (blk_allocsize block) \<le> mx" "mx \<le> int (length file)"
  obtains (skip) "salvage_page io mem block file mx off = Inr None"
  | (page) len ck pg where "salvage_page io mem block file mx off = Inr (Some (len, ck, pg))"
      "wt_block_read_off io mem block file off len ck = Inr pg" "len \<noteq> 0" "len mod blk_allocsize block = 0" "off + uint len \<le> mx"
proof -
  let ?be = "io_be io" and ?a = "blk_allocsize block"
  define buf where "buf = get_at (nat off) (unat ?a) file"
  have r: "wt_read io file off ?a = Inr buf" unfolding buf_def using assms(4,5,6) by (intro read_inside [OF assms(1)]) simp_all
  define len where "len = blk_disk_size ?be buf"
  define ck where "ck = blk_cksum ?be buf"
  show thesis
  proof (cases "len = 0 \<or> len mod ?a \<noteq> 0 \<or> WT_BTREE_PAGE_SIZE_MAX < len \<or> mx < off + uint len")
    case True
    then have "salvage_page io mem block file mx off = Inr None" by (simp add: salvage_page_def r len_def Let_def)
    then show ?thesis by (rule skip)
  next
    case False
    then have L: "len \<noteq> 0" "len mod ?a = 0" "off + uint len \<le> mx" by auto
    have "unat len mod unat ?a = 0" unfolding unat_mod [symmetric] L(2) by simp
    moreover have "unat len \<noteq> 0" using L(1) by (simp add: unat_eq_zero)
    ultimately have al: "unat ?a \<le> unat len" using mod_less [of "unat len" "unat ?a"] by linarith
    define dsk where "dsk = get_at (nat off) (unat len) file"
    have rd: "wt_read io file off len = Inr dsk" unfolding dsk_def using assms(4,6) L(3) by (intro read_inside [OF assms(1)]) simp_all
    have "get_at 28 4 dsk = get_at 28 4 buf"
      unfolding dsk_def buf_def using assms(3) al by (subst (1 2) get_at_prefix) simp_all
    then have "blk_disk_size ?be dsk = len" by (simp add: len_def blk_disk_size_def WT_PAGE_HEADER_SIZE_def)
    then have no: "wt_block_read_off io mem block file off len ck \<noteq> Inl OUT_OF_BOUNDS"
      using al assms(3) by (intro read_off_codes [OF assms(2) rd]) simp_all
    have e: "salvage_page io mem block file mx off = (case wt_block_read_off io mem block file off len ck of
        Inl e \<Rightarrow> if e = OUT_OF_BOUNDS then Inl e else Inr None | Inr page \<Rightarrow> Inr (Some (len, ck, page)))"
      unfolding salvage_page_def r wt_ret_simps Let_def len_def [symmetric] ck_def [symmetric] using False by (simp only: if_False)
    show ?thesis
    proof (cases "wt_block_read_off io mem block file off len ck")
      case (Inl x)
      then show ?thesis using e no by (intro skip) auto
    next
      case (Inr pg)
      then show ?thesis using e L by (intro page [of len ck pg]) simp_all
    qed
  qed
qed

text \<open>
  The state of a scan in a file of size \<open>mx\<close>: \<open>R\<close> are the bytes of the pages that were returned, the other units in
  front of the scan are available, and no page starts at any of them.
\<close>

definition scan_inv :: "wt_io \<Rightarrow> u64 \<Rightarrow> wt_block \<Rightarrow> bytes \<Rightarrow> int \<Rightarrow> int set \<Rightarrow> wt_block \<Rightarrow> int \<Rightarrow> bool" where
  "scan_inv io mem block0 file mx R block off \<longleftrightarrow> block_ok block \<and> blk_file_size block = mx \<and>
     blk_allocsize block = blk_allocsize block0 \<and> blk_checksum block = blk_checksum block0 \<and>
     discard_of block = {} \<and> ckpt_avail_of block = {} \<and>
     (\<exists>k m. off = WT_BLOCK_DESC_SECTOR + uint (blk_allocsize block0) * int k \<and> mx = off + uint (blk_allocsize block0) * int m) \<and>
     R \<subseteq> {WT_BLOCK_DESC_SECTOR ..< off} \<and> alloc_of block = R \<union> {off ..< mx} \<and> avail_of block = {WT_BLOCK_DESC_SECTOR ..< off} - R \<and>
     (\<forall>x\<in>avail_of block. salvage_page io mem block0 file mx (unit_of (uint (blk_allocsize block0)) x) = Inr None)"

lemma scan_skip:
  assumes inv: "scan_inv io mem block0 file mx R block off" and a: "blk_allocsize block0 \<noteq> 0" and lt: "off < mx"
    and none: "salvage_page io mem block0 file mx off = Inr None"
  obtains block' where "wt_block_off_free block off (uint (blk_allocsize block)) = Inr block'"
    "scan_inv io mem block0 file mx R block' (off + uint (blk_allocsize block))" "ck_write_gen (blk_live block') = ck_write_gen (blk_live block)"
proof -
  let ?a = "uint (blk_allocsize block0)"
  have pos: "0 < ?a" using a by (metis uint_0_iff uint_ge_0 order_le_less)
  have I: "block_ok block" "blk_file_size block = mx" "blk_allocsize block = blk_allocsize block0" "blk_checksum block = blk_checksum block0"
    "discard_of block = {}" "ckpt_avail_of block = {}" "R \<subseteq> {WT_BLOCK_DESC_SECTOR ..< off}" "alloc_of block = R \<union> {off ..< mx}"
    "avail_of block = {WT_BLOCK_DESC_SECTOR ..< off} - R"
    "\<And>x. x \<in> avail_of block \<Longrightarrow> salvage_page io mem block0 file mx (unit_of ?a x) = Inr None"
    using inv unfolding scan_inv_def by blast+
  obtain k m where km: "off = WT_BLOCK_DESC_SECTOR + ?a * int k" "mx = off + ?a * int m" using inv unfolding scan_inv_def by blast
  have "0 < m" using lt km(2) by (cases m) auto
  then obtain m' where m': "m = Suc m'" by (cases m) auto
  have fit: "off + ?a \<le> mx" using pos by (simp add: km(2) m' distrib_left)
  have lo: "WT_BLOCK_DESC_SECTOR \<le> off" using pos by (simp add: km(1))
  have fr: "freeable block off ?a" unfolding freeable_def using pos fit lo I(2,5-9) by auto
  have unit: "unit_of ?a x = off" if "x \<in> {off ..< off + ?a}" for x
  proof -
    have u: "unit_of ?a off = off" by (simp add: unit_of_def km(1))
    show ?thesis using unit_of_same [OF pos, of x off] that unfolding u by simp
  qed
  show thesis
  proof (cases rule: off_free_cases [OF I(1) fr])
    case (1 b)
    note F = off_free_frame [OF 1(1)]
    have ranges: "alloc_of b = R \<union> {off + ?a ..< mx}" "avail_of b = {WT_BLOCK_DESC_SECTOR ..< off + ?a} - R"
      "R \<subseteq> {WT_BLOCK_DESC_SECTOR ..< off + ?a}"
      using pos fit lo I(7) unfolding 1(4,5) I(8,9) by auto
    have "salvage_page io mem block0 file mx (unit_of ?a x) = Inr None" if "x \<in> avail_of b" for x
      using that unit none I(10) unfolding 1(5) by (cases "x \<in> {off ..< off + ?a}") auto
    moreover have "\<exists>k m. off + ?a = WT_BLOCK_DESC_SECTOR + ?a * int k \<and> mx = off + ?a + ?a * int m"
      by (rule exI [of _ "Suc k"], rule exI [of _ m']) (simp add: km m' distrib_left)
    ultimately have "scan_inv io mem block0 file mx R b (off + ?a)"
      unfolding scan_inv_def using 1(2,6-9) F(1) I(2-6) ranges by simp
    then show ?thesis using that 1(1) F(2) I(3) by simp
  next
    case (2 b)
    have "off \<in> {off ..< off + ?a}" "off \<in> alloc_of block" using pos lt I(8) by auto
    then show ?thesis using 2(3) by blast
  qed
qed

definition page_at :: "wt_io \<Rightarrow> u64 \<Rightarrow> wt_block \<Rightarrow> bytes \<Rightarrow> int \<Rightarrow> int \<times> u32 \<times> u32 \<Rightarrow> bytes \<Rightarrow> bool" where
  "page_at io mem block0 file mx x page = (case x of (off, len, ck) \<Rightarrow>
     wt_block_read_off io mem block0 file off len ck = Inr page \<and> len \<noteq> 0 \<and> len mod blk_allocsize block0 = 0 \<and> off + uint len \<le> mx)"

lemma salvage_scan_spec:
  assumes env: "io_ok io" "codes_ok io" "64 \<le> unat (blk_allocsize block0)" "mx \<le> int (length file)"
    and "scan_inv io mem block0 file mx R (fst s) offset" "sv_off (snd s) = offset"
  shows "\<exists>block' sv' r. salvage_scan io mem file mx offset s = ((block', sv'), Inr r) \<and>
    scan_inv io mem block0 file mx R block' (sv_off sv') \<and> offset \<le> sv_off sv' \<and>
    ck_write_gen (blk_live block') = ck_write_gen (blk_live (fst s)) \<and>
    (case r of None \<Rightarrow> sv_off sv' = mx | Some (off, len, ck, page) \<Rightarrow> off = sv_off sv' \<and> page_at io mem block0 file mx (off, len, ck) page)"
  using assms
proof (induction io mem "file" mx offset s rule: salvage_scan.induct)
  case (1 io mem f mx offset s)
  note inv = "1.prems"(5)
  let ?a = "blk_allocsize block0"
  have eq: "blk_allocsize (fst s) = ?a" "blk_checksum (fst s) = blk_checksum block0" using inv by (simp_all add: scan_inv_def)
  obtain k m where km: "offset = WT_BLOCK_DESC_SECTOR + uint ?a * int k" "mx = offset + uint ?a * int m" using inv unfolding scan_inv_def by blast
  have nz: "?a \<noteq> 0" using "1.prems"(3) by auto
  have pos: "0 < uint ?a" using nz by (metis uint_0_iff uint_ge_0 order_le_less)
  obtain block sv where s: "s = (block, sv)" by (cases s)
  show ?case
  proof (cases "mx \<le> offset")
    case True
    moreover have "offset \<le> mx" using pos by (simp add: km(2))
    ultimately have mx: "mx = offset" by simp
    then have "salvage_scan io mem f mx offset s = (s, Inr None)" by (simp add: salvage_scan.simps [of _ _ _ _ _ s])
    then show ?thesis using inv "1.prems"(6) mx by (simp add: s)
  next
    case False
    then have "0 < m" using km(2) by (cases m) auto
    then have fit: "offset + uint ?a \<le> mx" using pos unfolding km(2) by (cases m) (simp_all add: distrib_left)
    have lo: "0 \<le> offset" using pos by (simp add: km(1) WT_BLOCK_DESC_SECTOR_def)
    note pg = salvage_page_cong [OF eq, of io mem f mx offset]
    consider (skip) "salvage_page io mem block0 f mx offset = Inr None"
      | (page) len ck pg' where "salvage_page io mem block0 f mx offset = Inr (Some (len, ck, pg'))"
        "wt_block_read_off io mem block0 f offset len ck = Inr pg'" "len \<noteq> 0" "len mod ?a = 0" "offset + uint len \<le> mx"
      by (rule salvage_page_cases [OF "1.prems"(1-3) lo fit "1.prems"(4), of mem])
    then show ?thesis
    proof cases
      case skip
      obtain b where b: "wt_block_off_free (fst s) offset (uint ?a) = Inr b"
          "scan_inv io mem block0 f mx R b (offset + uint ?a)" "ck_write_gen (blk_live b) = ck_write_gen (blk_live (fst s))"
        using scan_skip [OF inv nz _ skip] False eq(1) by auto
      have e: "salvage_scan io mem f mx offset s = salvage_scan io mem f mx (offset + uint ?a) (b, (snd s)\<lparr>sv_off := offset + uint ?a\<rparr>)"
        using False nz skip pg b(1) eq(1) by (subst salvage_scan.simps) (simp add: Let_def)
      have n: "salvage_page io mem (fst s) f mx offset = Inr None" using skip pg by simp
      have IH: "\<exists>block' sv' r. salvage_scan io mem f mx (offset + uint ?a) (b, (snd s)\<lparr>sv_off := offset + uint ?a\<rparr>) = ((block', sv'), Inr r) \<and>
        scan_inv io mem block0 f mx R block' (sv_off sv') \<and> offset + uint ?a \<le> sv_off sv' \<and>
        ck_write_gen (blk_live block') = ck_write_gen (blk_live b) \<and>
        (case r of None \<Rightarrow> sv_off sv' = mx | Some (off, len, ck, page) \<Rightarrow> off = sv_off sv' \<and> page_at io mem block0 f mx (off, len, ck) page)"
        using "1.IH" [OF False _ n refl refl] "1.prems"(1-4) b(1,2) eq(1) nz by simp
      then show ?thesis unfolding e b(3) using pos by (elim exE conjE) (intro exI conjI, assumption+, simp_all)
    next
      case (page len ck pg')
      have "salvage_scan io mem f mx offset s = (s, Inr (Some (offset, len, ck, pg')))"
        using False nz page(1) pg eq(1) by (subst salvage_scan.simps) simp
      then show ?thesis using inv "1.prems"(6) page(2-5) by (simp add: s page_at_def)
    qed
  qed
qed

lemma scan_page:
  assumes inv: "scan_inv io mem block0 file mx R block off" and nz: "blk_allocsize block0 \<noteq> 0" and pg: "page_at io mem block0 file mx (off, len, ck) page"
  shows "scan_inv io mem block0 file mx (R \<union> {off ..< off + uint len}) (block\<lparr>blk_live := (blk_live block)\<lparr>ck_write_gen := g\<rparr>\<rparr>) (off + uint len)"
    "addr_ok (blk_allocsize block0) off len ck" "0 < uint len" "R \<inter> {off ..< off + uint len} = {}"
proof -
  let ?a = "uint (blk_allocsize block0)"
  have pos: "0 < ?a" using nz by (metis uint_0_iff uint_ge_0 order_le_less)
  have I: "block_ok block" "blk_file_size block = mx" "R \<subseteq> {WT_BLOCK_DESC_SECTOR ..< off}" "alloc_of block = R \<union> {off ..< mx}"
    "avail_of block = {WT_BLOCK_DESC_SECTOR ..< off} - R"
    using inv unfolding scan_inv_def by blast+
  obtain k m where km: "off = WT_BLOCK_DESC_SECTOR + ?a * int k" "mx = off + ?a * int m" using inv unfolding scan_inv_def by blast
  have P: "len \<noteq> 0" "len mod blk_allocsize block0 = 0" "off + uint len \<le> mx" using pg by (simp_all add: page_at_def)
  show l: "0 < uint len" using P(1) by (metis uint_0_iff uint_ge_0 order_le_less)
  have dv: "uint len mod ?a = 0" unfolding uint_mod [symmetric] P(2) by simp
  then obtain j where j: "uint len = ?a * j" by (metis mod_0_imp_dvd dvdE)
  have j0: "0 \<le> j" "j \<le> int m"
  proof -
    have "0 < ?a * j" using l j by simp
    then show "0 \<le> j" using pos by (simp add: zero_less_mult_iff)
    have "?a * j \<le> ?a * int m" using P(3) km(2) j by simp
    then show "j \<le> int m" using pos by simp
  qed
  have lo: "WT_BLOCK_DESC_SECTOR \<le> off" using pos by (simp add: km(1))
  have "mx \<le> INT64_MAX" using block_okD(13) [OF I(1)] I(2) by simp
  then show "addr_ok (blk_allocsize block0) off len ck"
    using P(1,3) l lo dv by (simp add: addr_ok_def km(1) INT64_MAX_def)
  show "R \<inter> {off ..< off + uint len} = {}" using I(3) by auto
  have e1: "\<exists>k m. off + uint len = WT_BLOCK_DESC_SECTOR + ?a * int k \<and> mx = off + uint len + ?a * int m"
    by (rule exI [of _ "k + nat j"], rule exI [of _ "m - nat j"]) (use j0 in \<open>simp add: km j algebra_simps of_nat_diff nat_le_iff\<close>)
  have e2: "alloc_of block = R \<union> {off ..< off + uint len} \<union> {off + uint len ..< mx}" unfolding I(4) using l P(3) by auto
  have e3: "avail_of block = {WT_BLOCK_DESC_SECTOR ..< off + uint len} - (R \<union> {off ..< off + uint len})"
    unfolding I(5) using l lo by auto
  have e4: "R \<union> {off ..< off + uint len} \<subseteq> {WT_BLOCK_DESC_SECTOR ..< off + uint len}" using I(3) l lo by auto
  let ?b = "block\<lparr>blk_live := (blk_live block)\<lparr>ck_write_gen := g\<rparr>\<rparr>"
  have bo: "block_ok ?b" using I(1) by (simp add: block_ok_def lists_ok_def)
  have same: "blk_file_size ?b = mx" "blk_allocsize ?b = blk_allocsize block0" "blk_checksum ?b = blk_checksum block0"
    "discard_of ?b = {}" "ckpt_avail_of ?b = {}" "alloc_of ?b = alloc_of block" "avail_of ?b = avail_of block"
    "\<forall>x\<in>avail_of block. salvage_page io mem block0 file mx (unit_of ?a x) = Inr None"
    using inv by (simp_all add: scan_inv_def)
  show "scan_inv io mem block0 file mx (R \<union> {off ..< off + uint len}) ?b (off + uint len)"
    unfolding scan_inv_def using bo same e1 e2 e3 e4 by (intro conjI) (simp_all only:)
qed

lemma salvage_next_spec:
  assumes env: "io_ok io" "codes_ok io" "64 \<le> unat (blk_allocsize block0)" "mx \<le> int (length file)"
    and inv: "scan_inv io mem block0 file mx R block (sv_off sv)"
  obtains (eof) block' sv' where "wt_block_salvage_next io mem file (block, sv) = ((block', sv'), Inr None)"
      "scan_inv io mem block0 file mx R block' mx" "ck_write_gen (blk_live block') = ck_write_gen (blk_live block)"
  | (next_page) block' sv' page addr gen off len ck where
      "wt_block_salvage_next io mem file (block, sv) = ((block', sv'), Inr (Some (page, addr, gen)))"
      "wt_block_buffer_to_addr (blk_allocsize block0) addr = Inr (off, len, ck)" "page_at io mem block0 file mx (off, len, ck) page"
      "gen = blk_write_gen (io_be io) page" "gen \<le> ck_write_gen (blk_live block')" "ck_write_gen (blk_live block) \<le> ck_write_gen (blk_live block')"
      "scan_inv io mem block0 file mx (R \<union> {off ..< off + uint len}) block' (sv_off sv')"
      "R \<inter> {off ..< off + uint len} = {}" "sv_off sv < sv_off sv'" "sv_off sv' \<le> mx"
proof -
  have nz: "blk_allocsize block0 \<noteq> 0" using env(3) by auto
  have fs: "blk_file_size block = mx" using inv by (simp add: scan_inv_def)
  obtain b v r where r: "salvage_scan io mem file mx (sv_off sv) (block, sv) = ((b, v), Inr r)"
      "scan_inv io mem block0 file mx R b (sv_off v)" "sv_off sv \<le> sv_off v" "ck_write_gen (blk_live b) = ck_write_gen (blk_live block)"
      "case r of None \<Rightarrow> sv_off v = mx | Some (off, len, ck, page) \<Rightarrow> off = sv_off v \<and> page_at io mem block0 file mx (off, len, ck) page"
    using salvage_scan_spec [OF env, of mem R "(block, sv)" "sv_off sv"] inv by auto
  show thesis
  proof (cases r)
    case None
    then show ?thesis using r fs by (intro eof [of b v]) (simp_all add: wt_block_salvage_next_def)
  next
    case (Some x)
    obtain off len ck page where x: "x = (off, len, ck, page)" by (cases x)
    have o: "off = sv_off v" and pg: "page_at io mem block0 file mx (off, len, ck) page" using r(5) Some x by auto
    define gen where "gen = blk_write_gen (io_be io) page"
    define g where "g = max gen (ck_write_gen (blk_live b))"
    define b' where "b' = b\<lparr>blk_live := (blk_live b)\<lparr>ck_write_gen := g\<rparr>\<rparr>"
    note S = scan_page [OF r(2) [folded o] nz pg]
    obtain addr where ad: "wt_block_addr_to_buffer (blk_allocsize block0) off len ck = Inr addr"
        "block_buffer_to_addr (blk_allocsize block0) (addr @ []) = Inr ((off, len, ck), [])"
      using addr_to_buffer_roundtrip [OF nz S(2)] by metis
    have dec: "wt_block_buffer_to_addr (blk_allocsize block0) addr = Inr (off, len, ck)"
      using ad(2) by (simp add: wt_block_buffer_to_addr_def)
    have al: "blk_allocsize b = blk_allocsize block0" using r(2) by (simp add: scan_inv_def)
    have bb: "(if ck_write_gen (blk_live b) < gen then b\<lparr>blk_live := (blk_live b)\<lparr>ck_write_gen := gen\<rparr>\<rparr> else b) = b'"
      by (simp add: b'_def g_def max_def not_le)
    have n: "wt_block_salvage_next io mem file (block, sv) = ((b', v\<lparr>sv_off := off + uint len\<rparr>), Inr (Some (page, addr, gen)))"
      using r(1) Some x fs al ad(1) bb by (auto simp: wt_block_salvage_next_def gen_def [symmetric] Let_def split: if_splits)
    have i': "scan_inv io mem block0 file mx (R \<union> {off ..< off + uint len}) b' (sv_off (v\<lparr>sv_off := off + uint len\<rparr>))"
      using S(1) by (simp add: b'_def)
    show ?thesis
    proof (rule next_page [OF n dec pg gen_def _ _ i' S(4)])
      show "gen \<le> ck_write_gen (blk_live b')" "ck_write_gen (blk_live block) \<le> ck_write_gen (blk_live b')"
        by (simp_all add: b'_def g_def r(4))
      show "sv_off sv < sv_off (v\<lparr>sv_off := off + uint len\<rparr>)" "sv_off (v\<lparr>sv_off := off + uint len\<rparr>) \<le> mx"
        using r(3) o S(3) pg by (simp_all add: page_at_def)
    qed
  qed
qed

section \<open>Salvage of a whole file\<close>

text \<open>The loop of the btree layer: pages are read until the end of the file.\<close>

fun salvage_all :: "nat \<Rightarrow> wt_io \<Rightarrow> u64 \<Rightarrow> bytes \<Rightarrow> wt_block \<times> wt_salvage \<Rightarrow> (wt_block \<times> wt_salvage) \<times> (bytes \<times> bytes \<times> u64) list result" where
  "salvage_all 0 io mem file s = (s, Inl OUT_OF_BOUNDS)"
| "salvage_all (Suc fuel) io mem file s =
     (case wt_block_salvage_next io mem file s of
        (s, Inl e) \<Rightarrow> (s, Inl e)
      | (s, Inr None) \<Rightarrow> (s, Inr [])
      | (s, Inr (Some p)) \<Rightarrow>
          (case salvage_all fuel io mem file s of
             (s, Inl e) \<Rightarrow> (s, Inl e)
           | (s, Inr ps) \<Rightarrow> (s, Inr (p # ps))))"

abbreviation page_ranges :: "(int \<times> u32 \<times> u32) list \<Rightarrow> (int \<times> int) list" where
  "page_ranges blocks \<equiv> map (\<lambda>(off, len, ck). (off, uint len)) blocks"

definition salvaged :: "wt_io \<Rightarrow> u64 \<Rightarrow> wt_block \<Rightarrow> bytes \<Rightarrow> int \<Rightarrow> u64 \<Rightarrow> bytes \<times> bytes \<times> u64 \<Rightarrow> int \<times> u32 \<times> u32 \<Rightarrow> bool" where
  "salvaged io mem block0 file mx hi p x = (case p of (page, addr, gen) \<Rightarrow>
     wt_block_buffer_to_addr (blk_allocsize block0) addr = Inr x \<and> page_at io mem block0 file mx x page \<and>
     gen = blk_write_gen (io_be io) page \<and> gen \<le> hi)"

lemma salvage_all_spec:
  assumes env: "io_ok io" "codes_ok io" "64 \<le> unat (blk_allocsize block0)" "mx \<le> int (length file)"
    and "scan_inv io mem block0 file mx R block (sv_off sv)" "nat (mx - sv_off sv) < fuel"
  shows "\<exists>block' sv' pages blocks. salvage_all fuel io mem file (block, sv) = ((block', sv'), Inr pages) \<and>
    ck_write_gen (blk_live block) \<le> ck_write_gen (blk_live block') \<and>
    list_all2 (salvaged io mem block0 file mx (ck_write_gen (blk_live block'))) pages blocks \<and> fresh_ranges R (page_ranges blocks) \<and>
    scan_inv io mem block0 file mx (R \<union> (\<Union>x\<in>set (page_ranges blocks). range_of x)) block' mx"
  using assms(5,6)
proof (induction fuel arbitrary: R block sv)
  case (Suc fuel)
  show ?case
  proof (cases rule: salvage_next_spec [OF env Suc.prems(1)])
    case (1 block' sv')
    then show ?thesis by (intro exI [of _ block'] exI [of _ sv'] exI [of _ "[]"]) simp
  next
    case (2 b v page addr gen off len ck)
    have "nat (mx - sv_off v) < fuel" using 2(9,10) Suc.prems(2) by linarith
    from Suc.IH [OF 2(7) this] obtain block' sv' pages blocks where
      A: "salvage_all fuel io mem file (b, v) = ((block', sv'), Inr pages)" "ck_write_gen (blk_live b) \<le> ck_write_gen (blk_live block')"
      "list_all2 (salvaged io mem block0 file mx (ck_write_gen (blk_live block'))) pages blocks"
      "fresh_ranges (R \<union> {off ..< off + uint len}) (page_ranges blocks)"
      "scan_inv io mem block0 file mx (R \<union> {off ..< off + uint len} \<union> (\<Union>x\<in>set (page_ranges blocks). range_of x)) block' mx"
      by (elim exE conjE)
    have e: "salvage_all (Suc fuel) io mem file (block, sv) = ((block', sv'), Inr ((page, addr, gen) # pages))" using 2(1) A(1) by simp
    have u: "R \<union> (\<Union>x\<in>set (page_ranges ((off, len, ck) # blocks)). range_of x) =
        R \<union> {off ..< off + uint len} \<union> (\<Union>x\<in>set (page_ranges blocks). range_of x)"
      unfolding list.map prod.case list.set UN_insert by (auto simp: range_of_def)
    have f: "fresh_ranges R (page_ranges ((off, len, ck) # blocks))" using A(4) 2(8) by (simp add: range_of_def Int_commute)
    have "salvaged io mem block0 file mx (ck_write_gen (blk_live block')) (page, addr, gen) (off, len, ck)"
      using 2(2-5) A(2) by (simp add: salvaged_def)
    then have l: "list_all2 (salvaged io mem block0 file mx (ck_write_gen (blk_live block'))) ((page, addr, gen) # pages) ((off, len, ck) # blocks)"
      using A(3) by simp
    have g: "ck_write_gen (blk_live block) \<le> ck_write_gen (blk_live block')" using 2(6) A(2) by simp
    show ?thesis by (intro exI conjI, rule e, rule g, rule l, rule f, unfold u, rule A(5))
  qed
qed simp

lemma salvage_start_inv:
  assumes "wt_block_salvage_start io mem0 (block0, sv0, file0) = ((block, sv, file), Inr ())"
    and a: "blk_allocsize block0 \<noteq> 0" and size: "WT_BLOCK_DESC_SECTOR + uint (blk_allocsize block0) \<le> blk_file_size block0" "blk_file_size block0 \<le> INT64_MAX"
  shows "scan_inv io mem block file (blk_file_size block) {} block (sv_off sv)" "sv_off sv = WT_BLOCK_DESC_SECTOR"
    "blk_allocsize block = blk_allocsize block0"
proof -
  let ?a = "uint (blk_allocsize block0)" and ?fs = "blk_file_size block0"
  define n where "n = (?fs - WT_BLOCK_DESC_SECTOR) div ?a"
  have pos: "0 < ?a" using a by (metis uint_0_iff uint_ge_0 order_le_less)
  have n: "1 \<le> n" "n * ?a \<le> ?fs - WT_BLOCK_DESC_SECTOR"
    using size(1) pos pos_imp_zdiv_pos_iff [of ?a "?fs - WT_BLOCK_DESC_SECTOR"] div_mult_mod_eq [of "?fs - WT_BLOCK_DESC_SECTOR" ?a]
      pos_mod_sign [OF pos, of "?fs - WT_BLOCK_DESC_SECTOR"] unfolding n_def by linarith+
  have gt: "WT_BLOCK_DESC_SECTOR < ?fs" using size(1) pos by linarith
  let ?len = "n * ?a + WT_BLOCK_DESC_SECTOR"
  have nl: "\<not> blk_live_load block0" using assms(1)
    by (auto simp: wt_block_salvage_start_def wt_block_ckpt_init_live_def split: prod.splits sum.splits if_splits)
  define b1 where "b1 = block0\<lparr>blk_live_load := True, blk_live := ckpt_clear ''live'', blk_file_size := ?len\<rparr>"
  have B1: "blk_file_size b1 = ?len" "blk_allocsize b1 = blk_allocsize block0" "blk_checksum b1 = blk_checksum block0"
    "blk_live b1 = ckpt_clear ''live''" by (simp_all add: b1_def)
  obtain f0 where d: "wt_desc_init io mem0 file0 = (f0, Inr ())"
    using assms(1) by (auto simp: wt_block_salvage_start_def split: prod.splits sum.splits)
  let ?b0 = "block0\<lparr>blk_live_load := True, blk_live := ckpt_clear ''live''\<rparr>"
  have tr: "\<exists>f1. (if ?len \<noteq> ?fs then wt_ftruncate io ?b0 f0 ?len else Inr (?b0, f0)) = Inr (b1, f1)"
  proof (cases "?len = ?fs")
    case True
    have "b1 = ?b0" unfolding b1_def True by (cases block0) simp
    then show ?thesis using True by simp
  next
    case False
    then show ?thesis using assms(1) nl d gt
      by (auto simp: wt_block_salvage_start_def wt_block_ckpt_init_live_def wt_ftruncate_def wt_ret_Inr_iff Let_def n_def [symmetric] b1_def split: sum.splits)
  qed
  then obtain f1 where f1: "(if ?len \<noteq> ?fs then wt_ftruncate io ?b0 f0 ?len else Inr (?b0, f0)) = Inr (b1, f1)" by blast
  have "wt_block_salvage_start io mem0 (block0, sv0, file0) =
      (case wt_block_insert_ext (blk_rng b1) (ck_alloc (blk_live b1)) WT_BLOCK_DESC_SECTOR (?len - WT_BLOCK_DESC_SECTOR) of
         Inl e \<Rightarrow> ((b1, sv0\<lparr>sv_off := WT_BLOCK_DESC_SECTOR\<rparr>, f1), Inl e)
       | Inr (alloc, g) \<Rightarrow> ((b1\<lparr>blk_live := (blk_live b1)\<lparr>ck_alloc := alloc\<rparr>, blk_rng := g\<rparr>, sv0\<lparr>sv_off := WT_BLOCK_DESC_SECTOR, sv_slvg := True\<rparr>, f1), Inr ()))"
    using nl gt d f1 B1(1,2) pos by (cases "?len = ?fs") (simp_all add: wt_block_salvage_start_def wt_block_ckpt_init_live_def Let_def n_def [symmetric])
  then obtain alloc g where B2: "wt_block_insert_ext (blk_rng b1) (ck_alloc (blk_live b1)) WT_BLOCK_DESC_SECTOR (?len - WT_BLOCK_DESC_SECTOR) = Inr (alloc, g)"
    "block = b1\<lparr>blk_live := (blk_live b1)\<lparr>ck_alloc := alloc\<rparr>, blk_rng := g\<rparr>" "sv_off sv = WT_BLOCK_DESC_SECTOR"
    using assms(1) by (auto split: sum.splits)
  note B = TrueI B1 B2
  have init: "extlist_ok (wt_block_extlist_init extlist_zero x y)" "el_ranges (wt_block_extlist_init extlist_zero x y) = {}" for x y
    using extlist_zero_ok by (simp_all add: wt_block_extlist_init_def extlist_ok_def idx_ok_def extlist_zero_def sz_ok_def depths_ok_def el_ranges_def Let_def)
  have len: "0 < ?len - WT_BLOCK_DESC_SECTOR" using n(1) pos by simp
  have al: "ck_alloc (blk_live b1) = wt_block_extlist_init extlist_zero (Some ''live'') (Some ''alloc'')"
    by (simp add: B(5) ckpt_clear_def)
  obtain el' g' where M: "block_merge (blk_rng b1) (ck_alloc (blk_live b1)) WT_BLOCK_DESC_SECTOR (?len - WT_BLOCK_DESC_SECTOR) = Inr (el', g')"
      "extlist_ok el'" "el_ranges el' = {WT_BLOCK_DESC_SECTOR ..< ?len}"
    by (rule merge_obtain [of "ck_alloc (blk_live b1)" "?len - WT_BLOCK_DESC_SECTOR" WT_BLOCK_DESC_SECTOR "blk_rng b1"])
      (use len init that al in \<open>simp_all add: add.commute\<close>)
  then have ea: "alloc = el'" using B(6) by (simp add: wt_block_insert_ext_def)
  have sets: "alloc_of block = {WT_BLOCK_DESC_SECTOR ..< ?len}" "avail_of block = {}" "discard_of block = {}" "ckpt_avail_of block = {}"
    "blk_file_size block = ?len" "blk_allocsize block = blk_allocsize block0"
    using B(2,3,5) M(3) init(2) by (simp_all add: B(7) ea ckpt_clear_def)
  have lists: "lists_ok block" using M(2) init(1) B(5) by (simp add: lists_ok_def B(7) ea ckpt_clear_def)
  have bo: "block_ok block"
    unfolding block_ok_def sets using lists n size(2) pos gt by (simp add: order.trans [OF _ size(2)])
  have km: "\<exists>k m. sv_off sv = WT_BLOCK_DESC_SECTOR + uint (blk_allocsize block) * int k \<and> blk_file_size block = sv_off sv + uint (blk_allocsize block) * int m"
    by (rule exI [of _ 0], rule exI [of _ "nat n"]) (use n(1) in \<open>simp add: B(8) sets mult.commute\<close>)
  show "scan_inv io mem block file (blk_file_size block) {} block (sv_off sv)"
    unfolding scan_inv_def using bo km sets B(8) by simp
  show "sv_off sv = WT_BLOCK_DESC_SECTOR" "blk_allocsize block = blk_allocsize block0" by (fact B(8), fact sets(6))
qed

text \<open>
  C10: Salvage classifies every allocation unit of a file, whatever the file holds. After a successful start the
  loop over \<open>__wt_block_salvage_next\<close> ends, within as many rounds as there are bytes behind the description
  sector, and without a failure or an access outside a buffer. The pages it
  returns are disjoint, each can be read through its address cookie, and its write generation is at most that of the
  live system, so that later writes are newer. The
  live system's allocation list is exactly the bytes of these pages, all other bytes of the file are available, and no
  readable page starts at a unit that was made available.
\<close>

theorem salvage_classifies:
  assumes env: "io_ok io" "codes_ok io"
    and start: "wt_block_salvage_start io mem0 (block0, sv0, file0) = ((block, sv, file), Inr ())"
    and size: "64 \<le> unat (blk_allocsize block0)" "WT_BLOCK_DESC_SECTOR + uint (blk_allocsize block0) \<le> blk_file_size block0"
      "blk_file_size block0 \<le> INT64_MAX" "blk_file_size block \<le> int (length file)"
    and fuel: "nat (blk_file_size block - WT_BLOCK_DESC_SECTOR) < fuel"
  shows "\<exists>block' sv' pages blocks. salvage_all fuel io mem file (block, sv) = ((block', sv'), Inr pages) \<and>
    list_all2 (salvaged io mem block file (blk_file_size block) (ck_write_gen (blk_live block'))) pages blocks \<and>
    fresh_ranges {} (page_ranges blocks) \<and> block_ok block' \<and>
    alloc_of block' = (\<Union>x\<in>set (page_ranges blocks). range_of x) \<and> avail_of block' = file_of block - alloc_of block' \<and>
    (\<forall>x\<in>avail_of block'. salvage_page io mem block file (blk_file_size block) (unit_of (uint (blk_allocsize block)) x) = Inr None)"
proof -
  have nz: "blk_allocsize block0 \<noteq> 0" using size(1) by auto
  note S = salvage_start_inv [OF start nz size(2,3)]
  have a: "64 \<le> unat (blk_allocsize block)" using size(1) S(3) by simp
  have f: "nat (blk_file_size block - sv_off sv) < fuel" using fuel S(2) by simp
  from salvage_all_spec [OF env a size(4) S(1) [where mem = mem] f] obtain block' sv' pages blocks where
    A: "salvage_all fuel io mem file (block, sv) = ((block', sv'), Inr pages)"
      "list_all2 (salvaged io mem block file (blk_file_size block) (ck_write_gen (blk_live block'))) pages blocks"
      "fresh_ranges {} (page_ranges blocks)"
      "scan_inv io mem block file (blk_file_size block) ({} \<union> (\<Union>x\<in>set (page_ranges blocks). range_of x)) block' (blk_file_size block)"
    by (elim exE conjE)
  let ?U = "\<Union>x\<in>set (page_ranges blocks). range_of x"
  have I: "block_ok block'" "alloc_of block' = ?U" "avail_of block' = file_of block - ?U"
    "\<forall>x\<in>avail_of block'. salvage_page io mem block file (blk_file_size block) (unit_of (uint (blk_allocsize block)) x) = Inr None"
    using A(4) unfolding scan_inv_def by simp_all
  show ?thesis by (intro exI conjI, rule A(1), rule A(2), rule A(3), rule I(1), rule I(2), unfold I(2), rule I(3), rule I(4))
qed

definition damaged_block :: wt_block where
  "damaged_block = sample_block\<lparr>blk_live_load := False, blk_file_size := 1600\<rparr>"

lemma sample_codes_ok: "codes_ok sample_io"
  by (simp add: codes_ok_def sample_io_def zero_compressor_def)

lemma damaged_start:
  "\<exists>block sv file. wt_block_salvage_start sample_io 0 (damaged_block, \<lparr>sv_slvg = False, sv_off = 0\<rparr>, replicate 1600 7) = ((block, sv, file), Inr ()) \<and>
     blk_file_size block = 1536 \<and> length file = 1536"
proof -
  obtain f where f: "wt_desc_init sample_io 0 (replicate 1600 7) = (f, Inr ())" "length f = 1600"
    by (simp add: wt_desc_init_def wt_write_def sample_io_def file_put_def set_desc_cksum_def Let_def)
  have init: "extlist_ok (ck_alloc (ckpt_clear ''live''))" "el_ranges (ck_alloc (ckpt_clear ''live'')) = {}"
    using extlist_zero_ok by (simp_all add: ckpt_clear_def wt_block_extlist_init_def extlist_ok_def idx_ok_def extlist_zero_def sz_ok_def depths_ok_def el_ranges_def Let_def)
  obtain el g where m: "block_merge rng_init (ck_alloc (ckpt_clear ''live'')) 512 1024 = Inr (el, g)"
    by (rule merge_obtain [OF init(1), of 1024 512 rng_init]) (use init(2) that in simp_all)
  show ?thesis using f m
    by (simp add: wt_block_salvage_start_def damaged_block_def sample_block_def wt_block_ckpt_init_live_def wt_ftruncate_def wt_block_insert_ext_def
        WT_BLOCK_DESC_SECTOR_def sample_io_def Let_def)
qed

theorem salvage_classifies_witness:
  "\<exists>block sv file block' sv' pages blocks. wt_block_salvage_start sample_io 0 (damaged_block, \<lparr>sv_slvg = False, sv_off = 0\<rparr>, replicate 1600 7) = ((block, sv, file), Inr ()) \<and>
     salvage_all 1025 sample_io 3 file (block, sv) = ((block', sv'), Inr pages) \<and>
     alloc_of block' = (\<Union>x\<in>set (page_ranges blocks). range_of x) \<and> avail_of block' = {512 ..< 1536} - alloc_of block'"
proof -
  obtain block sv f where s: "wt_block_salvage_start sample_io 0 (damaged_block, \<lparr>sv_slvg = False, sv_off = 0\<rparr>, replicate 1600 7) = ((block, sv, f), Inr ())"
    "blk_file_size block = 1536" "length f = 1536" using damaged_start by blast
  have "\<exists>block' sv' pages blocks. salvage_all 1025 sample_io 3 f (block, sv) = ((block', sv'), Inr pages) \<and>
    list_all2 (salvaged sample_io 3 block f (blk_file_size block) (ck_write_gen (blk_live block'))) pages blocks \<and>
    fresh_ranges {} (page_ranges blocks) \<and> block_ok block' \<and>
    alloc_of block' = (\<Union>x\<in>set (page_ranges blocks). range_of x) \<and> avail_of block' = file_of block - alloc_of block' \<and>
    (\<forall>x\<in>avail_of block'. salvage_page sample_io 3 block f (blk_file_size block) (unit_of (uint (blk_allocsize block)) x) = Inr None)"
    by (rule salvage_classifies [OF sample_io_ok sample_codes_ok s(1)])
      (simp_all add: damaged_block_def sample_block_def s(2,3) WT_BLOCK_DESC_SECTOR_def INT64_MAX_def)
  then obtain block' sv' pages blocks where A: "salvage_all 1025 sample_io 3 f (block, sv) = ((block', sv'), Inr pages)"
    "alloc_of block' = (\<Union>x\<in>set (page_ranges blocks). range_of x)" "avail_of block' = file_of block - alloc_of block'"
    by (elim exE conjE)
  have "avail_of block' = {512 ..< 1536} - alloc_of block'" using A(3) s(2) by (simp add: WT_BLOCK_DESC_SECTOR_def)
  with s(1) A(1,2) show ?thesis by (intro exI conjI)
qed

end
