(* ===== verification/Wt_Cell.thy ===== *)
theory Wt_Cell imports Wt_Intpack begin

text \<open>
  Cells of a page (\<open>src/src/include/cell.i\<close>): the variable-length items behind the page header, their packing,
  their unpacking, and the walk over the cells of a page. The memory of a page is a list of bytes and a pointer into it
  an index; reading outside the list is \<open>OUT_OF_BOUNDS\<close>. \<open>end\<close>, one past the end of the page, is given by
  verification and salvage only; it is called \<open>lim\<close> here. The structure that an unpacking fills is not used when the
  unpacking fails.
\<close>

section \<open>Descriptor byte\<close>

definition WT_CELL_VALUE_SHORT :: u8 where "WT_CELL_VALUE_SHORT = 0x01"
definition WT_CELL_KEY_SHORT :: u8 where "WT_CELL_KEY_SHORT = 0x02"
definition WT_CELL_64V :: u8 where "WT_CELL_64V = 0x04"

definition WT_CELL_ADDR :: u8 where "WT_CELL_ADDR = 0x00"
definition WT_CELL_ADDR_DEL :: u8 where "WT_CELL_ADDR_DEL = 0x10"
definition WT_CELL_ADDR_LNO :: u8 where "WT_CELL_ADDR_LNO = 0x20"
definition WT_CELL_DEL :: u8 where "WT_CELL_DEL = 0x30"
definition WT_CELL_KEY :: u8 where "WT_CELL_KEY = 0x40"
definition WT_CELL_KEY_OVFL :: u8 where "WT_CELL_KEY_OVFL = 0x50"
definition WT_CELL_VALUE :: u8 where "WT_CELL_VALUE = 0x60"
definition WT_CELL_VALUE_COPY :: u8 where "WT_CELL_VALUE_COPY = 0x70"
definition WT_CELL_VALUE_OVFL :: u8 where "WT_CELL_VALUE_OVFL = 0x80"
definition WT_CELL_VALUE_OVFL_RM :: u8 where "WT_CELL_VALUE_OVFL_RM = 0x90"

lemmas cell_consts = WT_CELL_VALUE_SHORT_def WT_CELL_KEY_SHORT_def WT_CELL_64V_def WT_CELL_ADDR_def WT_CELL_ADDR_DEL_def
  WT_CELL_ADDR_LNO_def WT_CELL_DEL_def WT_CELL_KEY_def WT_CELL_KEY_OVFL_def WT_CELL_VALUE_def WT_CELL_VALUE_COPY_def
  WT_CELL_VALUE_OVFL_def WT_CELL_VALUE_OVFL_RM_def

definition WT_CELL_TYPE :: "u8 \<Rightarrow> u8" where
  "WT_CELL_TYPE v = v AND 0xf0"

definition wt_cell_type_reset :: "u8 \<Rightarrow> u8 \<Rightarrow> u8" where
  "wt_cell_type_reset chunk0 ty = (chunk0 AND NOT 0xf0) OR WT_CELL_TYPE ty"

definition wt_cell_type_raw :: "u8 \<Rightarrow> u8" where
  "wt_cell_type_raw chunk0 =
     (if chunk0 AND WT_CELL_VALUE_SHORT \<noteq> 0 then WT_CELL_VALUE_SHORT
      else if chunk0 AND WT_CELL_KEY_SHORT \<noteq> 0 then WT_CELL_KEY_SHORT
      else WT_CELL_TYPE chunk0)"

definition wt_cell_type :: "u8 \<Rightarrow> u8" where
  "wt_cell_type chunk0 =
     (if chunk0 AND WT_CELL_VALUE_SHORT \<noteq> 0 then WT_CELL_VALUE
      else if chunk0 AND WT_CELL_KEY_SHORT \<noteq> 0 then WT_CELL_KEY
      else
        (let ty = WT_CELL_TYPE chunk0 in
         if ty = WT_CELL_ADDR_DEL \<or> ty = WT_CELL_ADDR_LNO then WT_CELL_ADDR
         else if ty = WT_CELL_VALUE_OVFL_RM then WT_CELL_VALUE_OVFL
         else ty))"

section \<open>Packing\<close>

text \<open>\<open>(void)__wt_vpack_uint(&p, 0, v)\<close>, which does not fail without a limit.\<close>

definition cell_uint :: "u64 \<Rightarrow> bytes" where
  "cell_uint v = (case wt_vpack_uint 0 v of Inl _ \<Rightarrow> [] | Inr bs \<Rightarrow> bs)"

definition wt_cell_pack_addr :: "u8 \<Rightarrow> u64 \<Rightarrow> u32 \<Rightarrow> bytes" where
  "wt_cell_pack_addr cell_type recno len =
     (if recno = 0 then [cell_type] else (cell_type OR WT_CELL_64V) # cell_uint recno) @ cell_uint (ucast len)"

definition wt_cell_pack_data :: "u64 \<Rightarrow> u32 \<Rightarrow> bytes" where
  "wt_cell_pack_data rle len =
     (if rle = 0 \<and> len \<le> 0x7f then [push_bit 1 (ucast len) OR WT_CELL_VALUE_SHORT]
      else (if rle < 2 then [WT_CELL_VALUE] else (WT_CELL_VALUE OR WT_CELL_64V) # cell_uint rle) @ cell_uint (ucast len))"

definition wt_cell_pack_copy :: "u64 \<Rightarrow> u64 \<Rightarrow> bytes" where
  "wt_cell_pack_copy rle v =
     (if rle < 2 then [WT_CELL_VALUE_COPY] else (WT_CELL_VALUE_COPY OR WT_CELL_64V) # cell_uint rle) @ cell_uint v"

definition wt_cell_pack_del :: "u64 \<Rightarrow> bytes" where
  "wt_cell_pack_del rle = (if rle < 2 then [WT_CELL_DEL] else (WT_CELL_DEL OR WT_CELL_64V) # cell_uint rle)"

definition wt_cell_pack_key :: "u8 \<Rightarrow> u32 \<Rightarrow> bytes" where
  "wt_cell_pack_key prefix len =
     (if len \<le> 0x3f then [push_bit 2 (ucast len) OR WT_CELL_KEY_SHORT, prefix]
      else [WT_CELL_KEY, prefix] @ cell_uint (ucast len))"

definition wt_cell_pack_ovfl :: "u8 \<Rightarrow> u64 \<Rightarrow> u32 \<Rightarrow> bytes" where
  "wt_cell_pack_ovfl ty rle len =
     (if rle < 2 then [ty] else (ty OR WT_CELL_64V) # cell_uint rle) @ cell_uint (ucast len)"

section \<open>Unpacking\<close>

record wt_cell_unpack =
  cu_cell :: nat
  cu_v :: u64
  cu_data :: nat
  cu_size :: u32
  cu_len :: u32
  cu_prefix :: u8
  cu_raw :: u8
  cu_type :: u8
  cu_ovfl :: bool

definition wt_cell_rle :: "wt_cell_unpack \<Rightarrow> u64" where
  "wt_cell_rle unpack = (if cu_v unpack < 2 then 1 else cu_v unpack)"

definition wt_cell_total_len :: "wt_cell_unpack \<Rightarrow> u32" where
  "wt_cell_total_len unpack = cu_len unpack"

text \<open>\<open>CHK(p, len)\<close>, and one byte of the memory.\<close>

definition cell_chk :: "nat option \<Rightarrow> nat \<Rightarrow> nat \<Rightarrow> bool" where
  "cell_chk lim p len = (case lim of None \<Rightarrow> True | Some e \<Rightarrow> p + len \<le> e)"

definition mem_at :: "bytes \<Rightarrow> nat \<Rightarrow> u8 result" where
  "mem_at mem i = (if i < length mem then Inr (mem ! i) else Inl OUT_OF_BOUNDS)"

text \<open>\<open>__wt_vunpack_uint(&p, end == NULL ? 0 : (size_t)(end - p), &v)\<close>: the value and the new pointer.\<close>

definition cell_vunpack :: "bytes \<Rightarrow> nat option \<Rightarrow> nat \<Rightarrow> (u64 \<times> nat) result" where
  "cell_vunpack mem lim p =
     wt_ret (wt_vunpack_uint (case lim of None \<Rightarrow> 0 | Some e \<Rightarrow> unat (of_nat e - of_nat p :: u64)) (drop p mem))
       (\<lambda>(v, rest). Inr (v, length mem - length rest))"

text \<open>
  One call without the recursion for a copy cell: the unpacked cell, or the length, the value and the
  distance of the cell that is copied.
\<close>

datatype cell_step = Cell_Done wt_cell_unpack | Cell_Copy u32 u64 u64

definition cell_zero :: "nat \<Rightarrow> wt_cell_unpack" where
  "cell_zero cell = \<lparr>cu_cell = cell, cu_v = 0, cu_data = 0, cu_size = 0, cu_len = 0, cu_prefix = 0, cu_raw = 0, cu_type = 0, cu_ovfl = False\<rparr>"

definition cell_done :: "nat option \<Rightarrow> wt_cell_unpack \<Rightarrow> cell_step result" where
  "cell_done lim u = (if cell_chk lim (cu_cell u) (unat (cu_len u)) then Inr (Cell_Done u) else Inl WT_ERROR)"

definition cell_parse :: "bytes \<Rightarrow> nat option \<Rightarrow> nat \<Rightarrow> cell_step result" where
  "cell_parse mem lim cell =
     (if \<not> cell_chk lim cell 0 then Inl WT_ERROR
      else
        wt_ret (mem_at mem cell) (\<lambda>chunk0.
          let raw = wt_cell_type_raw chunk0; u = (cell_zero cell)\<lparr>cu_raw := raw, cu_type := wt_cell_type chunk0\<rparr> in
          if raw = WT_CELL_KEY_SHORT then
            (if \<not> cell_chk lim cell 1 then Inl WT_ERROR
             else
               wt_ret (mem_at mem (cell + 1)) (\<lambda>prefix.
                 let len = ucast (drop_bit 2 chunk0) in
                 cell_done lim (u\<lparr>cu_prefix := prefix, cu_data := cell + 2, cu_size := len, cu_len := 2 + len\<rparr>)))
          else if raw = WT_CELL_VALUE_SHORT then
            (let len = ucast (drop_bit 1 chunk0) in
             cell_done lim (u\<lparr>cu_data := cell + 1, cu_size := len, cu_len := 1 + len\<rparr>))
          else
            wt_ret (if raw = WT_CELL_KEY then
                      (if \<not> cell_chk lim (cell + 2) 0 then Inl WT_ERROR
                       else wt_ret (mem_at mem (cell + 1)) (\<lambda>prefix. Inr (cell + 2, u\<lparr>cu_prefix := prefix\<rparr>)))
                    else Inr (cell + 1, u)) (\<lambda>(p, u).
            wt_ret (if chunk0 AND WT_CELL_64V \<noteq> 0 then wt_ret (cell_vunpack mem lim p) (\<lambda>(v, p). Inr (p, u\<lparr>cu_v := v\<rparr>))
                    else Inr (p, u)) (\<lambda>(p, u).
              if raw = WT_CELL_VALUE_COPY then
                wt_ret (cell_vunpack mem lim p) (\<lambda>(v, p). Inr (Cell_Copy (of_nat (p - cell)) (cu_v u) v))
              else if raw \<in> {WT_CELL_KEY_OVFL, WT_CELL_VALUE_OVFL, WT_CELL_VALUE_OVFL_RM, WT_CELL_ADDR, WT_CELL_ADDR_DEL,
                             WT_CELL_ADDR_LNO, WT_CELL_KEY, WT_CELL_VALUE} then
                wt_ret (cell_vunpack mem lim p) (\<lambda>(v, p).
                  let len = ucast v in
                  cell_done lim (u\<lparr>cu_ovfl := raw \<in> {WT_CELL_KEY_OVFL, WT_CELL_VALUE_OVFL, WT_CELL_VALUE_OVFL_RM},
                    cu_data := p, cu_size := len, cu_len := of_nat (p - cell) + len\<rparr>))
              else if raw = WT_CELL_DEL then cell_done lim (u\<lparr>cu_len := of_nat (p - cell)\<rparr>)
              else Inl WT_ERROR))))"

text \<open>A copy cell is unpacked by unpacking the earlier cell; a call that does not return is \<open>None\<close>.\<close>

partial_function (option) wt_cell_unpack_safe :: "bytes \<Rightarrow> nat option \<Rightarrow> nat \<Rightarrow> wt_cell_unpack result option" where
  "wt_cell_unpack_safe mem lim cell =
     (case cell_parse mem lim cell of
        Inl e \<Rightarrow> Some (Inl e)
      | Inr (Cell_Done u) \<Rightarrow> Some (Inr u)
      | Inr (Cell_Copy saved_len saved_v v) \<Rightarrow>
          if cell < unat v then Some (Inl OUT_OF_BOUNDS)
          else Option.bind (wt_cell_unpack_safe mem lim (cell - unat v)) (\<lambda>r.
            Some (wt_ret r (\<lambda>u. Inr (u\<lparr>cu_raw := WT_CELL_VALUE_COPY, cu_len := saved_len, cu_v := saved_v\<rparr>)))))"

declare wt_cell_unpack_safe.simps [code]

text \<open>The cells of a page: \<open>WT_CELL_FOREACH\<close>.\<close>

fun cell_walk :: "bytes \<Rightarrow> nat option \<Rightarrow> nat \<Rightarrow> nat \<Rightarrow> wt_cell_unpack list result option" where
  "cell_walk mem lim 0 cell = Some (Inr [])"
| "cell_walk mem lim (Suc n) cell =
     Option.bind (wt_cell_unpack_safe mem lim cell) (\<lambda>r.
       case r of Inl e \<Rightarrow> Some (Inl e)
       | Inr u \<Rightarrow> Option.bind (cell_walk mem lim n (cell + unat (cu_len u))) (\<lambda>r. Some (wt_ret r (\<lambda>us. Inr (u # us)))))"

text \<open>
  The dictionary lookup of reconciliation: \<open>a\<close> is the page from the earlier cell on, \<open>b\<close> the cell that was packed for
  the value. \<open>memcmp\<close> over fewer bytes than it is asked for reads out of bounds.
\<close>

definition cell_memcmp :: "bytes \<Rightarrow> bytes \<Rightarrow> u64 \<Rightarrow> bool result" where
  "cell_memcmp a d n =
     (if length a < unat n \<or> length d < unat n then Inl OUT_OF_BOUNDS else Inr (take (unat n) a = take (unat n) d))"

definition wt_cell_pack_data_match :: "bytes \<Rightarrow> bytes \<Rightarrow> bytes \<Rightarrow> bool result" where
  "wt_cell_pack_data_match page_cell val_cell val_data =
     wt_ret (mem_at page_cell 0) (\<lambda>a0. wt_ret (mem_at val_cell 0) (\<lambda>b0.
       let a = drop 1 page_cell; b = drop 1 val_cell in
       if a0 \<noteq> b0 then Inr False
       else if a0 AND WT_CELL_VALUE_SHORT \<noteq> 0 then cell_memcmp a val_data (ucast (drop_bit 1 a0))
       else
         wt_ret (if a0 AND WT_CELL_64V \<noteq> 0 then
                   wt_ret (wt_vunpack_uint 0 a) (\<lambda>(_, a). wt_ret (wt_vunpack_uint 0 b) (\<lambda>(_, b). Inr (a, b)))
                 else Inr (a, b)) (\<lambda>(a, b).
         wt_ret (wt_vunpack_uint 0 a) (\<lambda>(av, a). wt_ret (wt_vunpack_uint 0 b) (\<lambda>(bv, b).
           if av \<noteq> bv then Inr False else cell_memcmp a val_data av)))))"

section \<open>Packed integers in memory\<close>

lemma cell_uint_length: "length (cell_uint v) = wt_vsize_uint v" "wt_vpack_uint 0 v = Inr (cell_uint v)"
proof -
  obtain bs where "wt_vpack_uint 0 v = Inr bs" "length bs = wt_vsize_uint v" using wt_vpack_uint_total [of v] by auto
  then show "length (cell_uint v) = wt_vsize_uint v" "wt_vpack_uint 0 v = Inr (cell_uint v)" by (simp_all add: cell_uint_def)
qed

lemma unat_small: "k < 2 ^ 63 \<Longrightarrow> unat (of_nat k :: u64) = k"
  by (simp add: unsigned_of_nat take_bit_nat_eq_self)

definition lim_ok :: "nat option \<Rightarrow> nat \<Rightarrow> bool" where
  "lim_ok lim n = (case lim of None \<Rightarrow> True | Some e \<Rightarrow> n \<le> e \<and> e < 2 ^ 63)"

lemma cell_vunpack_uint:
  assumes "lim_ok lim (length pre + length (cell_uint v))"
  shows "cell_vunpack (pre @ cell_uint v @ rest) lim (length pre) = Inr (v, length pre + length (cell_uint v))"
proof -
  define mx where "mx = (case lim of None \<Rightarrow> 0 | Some e \<Rightarrow> unat (of_nat e - of_nat (length pre) :: u64))"
  have "mx = 0 \<or> length (cell_uint v) \<le> mx"
  proof (cases lim)
    case (Some e)
    then have e: "length pre + length (cell_uint v) \<le> e" "e < 2 ^ 63" using assms by (simp_all add: lim_ok_def)
    have d: "(of_nat e - of_nat (length pre) :: u64) = of_nat (e - length pre)" using e(1) by (simp add: of_nat_diff)
    have "mx = e - length pre" unfolding mx_def Some option.case d using e by (intro unat_small) simp
    then show ?thesis using e(1) by linarith
  qed (simp add: mx_def)
  then have "wt_vpack_uint mx v = Inr (cell_uint v)"
    using wt_vpack_uint_bound [of mx v] cell_uint_length [of v] by (auto simp: wt_size_check_def)
  from wt_vunpack_vpack_uint [OF this, of rest] show ?thesis
    by (simp add: cell_vunpack_def mx_def [symmetric])
qed

section \<open>Parsing a packed cell\<close>

abbreviation long_types :: "u8 set" where
  "long_types \<equiv> {WT_CELL_ADDR, WT_CELL_ADDR_DEL, WT_CELL_ADDR_LNO, WT_CELL_DEL, WT_CELL_KEY_OVFL, WT_CELL_VALUE, WT_CELL_VALUE_COPY,
    WT_CELL_VALUE_OVFL, WT_CELL_VALUE_OVFL_RM}"

definition base_type :: "u8 \<Rightarrow> u8" where
  "base_type t = (if t = WT_CELL_ADDR_DEL \<or> t = WT_CELL_ADDR_LNO then WT_CELL_ADDR
     else if t = WT_CELL_VALUE_OVFL_RM then WT_CELL_VALUE_OVFL else t)"

lemma long_type_bits:
  assumes "t \<in> insert WT_CELL_KEY long_types"
  shows "wt_cell_type_raw t = t" "wt_cell_type_raw (t OR WT_CELL_64V) = t" "wt_cell_type t = base_type t"
    "wt_cell_type (t OR WT_CELL_64V) = base_type t" "t AND WT_CELL_64V = 0" "(t OR WT_CELL_64V) AND WT_CELL_64V \<noteq> 0"
    "t \<noteq> WT_CELL_KEY_SHORT" "t \<noteq> WT_CELL_VALUE_SHORT"
proof -
  have c: "wt_cell_type_raw t = t \<and> wt_cell_type_raw (t OR WT_CELL_64V) = t \<and> wt_cell_type t = base_type t \<and>
    wt_cell_type (t OR WT_CELL_64V) = base_type t \<and> t AND WT_CELL_64V = 0 \<and> (t OR WT_CELL_64V) AND WT_CELL_64V \<noteq> 0 \<and>
    t \<noteq> WT_CELL_KEY_SHORT \<and> t \<noteq> WT_CELL_VALUE_SHORT"
    if "t \<in> {0x00, 0x10, 0x20, 0x30, 0x40, 0x50, 0x60, 0x70, 0x80, 0x90}" for t
    using that by (elim insertE emptyE; hypsubst; code_simp)
  have "t \<in> {0x00, 0x10, 0x20, 0x30, 0x40, 0x50, 0x60, 0x70, 0x80, 0x90}" using assms by (auto simp: cell_consts)
  from c [OF this] show "wt_cell_type_raw t = t" "wt_cell_type_raw (t OR WT_CELL_64V) = t" "wt_cell_type t = base_type t"
    "wt_cell_type (t OR WT_CELL_64V) = base_type t" "t AND WT_CELL_64V = 0" "(t OR WT_CELL_64V) AND WT_CELL_64V \<noteq> 0"
    "t \<noteq> WT_CELL_KEY_SHORT" "t \<noteq> WT_CELL_VALUE_SHORT" by blast+
qed

lemma short_value_bits:
  assumes "n < 128"
  shows "wt_cell_type_raw (push_bit 1 (of_nat n) OR WT_CELL_VALUE_SHORT) = WT_CELL_VALUE_SHORT"
    "wt_cell_type (push_bit 1 (of_nat n) OR WT_CELL_VALUE_SHORT) = WT_CELL_VALUE"
    "drop_bit 1 (push_bit 1 (of_nat n) OR WT_CELL_VALUE_SHORT) = (of_nat n :: u8)"
proof -
  have "list_all (\<lambda>n. wt_cell_type_raw (push_bit 1 (of_nat n) OR WT_CELL_VALUE_SHORT) = WT_CELL_VALUE_SHORT \<and>
    wt_cell_type (push_bit 1 (of_nat n) OR WT_CELL_VALUE_SHORT) = WT_CELL_VALUE \<and>
    drop_bit 1 (push_bit 1 (of_nat n) OR WT_CELL_VALUE_SHORT) = (of_nat n :: u8)) [0..<128]" by code_simp
  then show "wt_cell_type_raw (push_bit 1 (of_nat n) OR WT_CELL_VALUE_SHORT) = WT_CELL_VALUE_SHORT"
    "wt_cell_type (push_bit 1 (of_nat n) OR WT_CELL_VALUE_SHORT) = WT_CELL_VALUE"
    "drop_bit 1 (push_bit 1 (of_nat n) OR WT_CELL_VALUE_SHORT) = (of_nat n :: u8)" using assms unfolding list_all_upt by blast+
qed

lemma short_key_bits:
  assumes "n < 64"
  shows "wt_cell_type_raw (push_bit 2 (of_nat n) OR WT_CELL_KEY_SHORT) = WT_CELL_KEY_SHORT"
    "wt_cell_type (push_bit 2 (of_nat n) OR WT_CELL_KEY_SHORT) = WT_CELL_KEY"
    "drop_bit 2 (push_bit 2 (of_nat n) OR WT_CELL_KEY_SHORT) = (of_nat n :: u8)"
proof -
  have "list_all (\<lambda>n. wt_cell_type_raw (push_bit 2 (of_nat n) OR WT_CELL_KEY_SHORT) = WT_CELL_KEY_SHORT \<and>
    wt_cell_type (push_bit 2 (of_nat n) OR WT_CELL_KEY_SHORT) = WT_CELL_KEY \<and>
    drop_bit 2 (push_bit 2 (of_nat n) OR WT_CELL_KEY_SHORT) = (of_nat n :: u8)) [0..<64]" by code_simp
  then show "wt_cell_type_raw (push_bit 2 (of_nat n) OR WT_CELL_KEY_SHORT) = WT_CELL_KEY_SHORT"
    "wt_cell_type (push_bit 2 (of_nat n) OR WT_CELL_KEY_SHORT) = WT_CELL_KEY"
    "drop_bit 2 (push_bit 2 (of_nat n) OR WT_CELL_KEY_SHORT) = (of_nat n :: u8)" using assms unfolding list_all_upt by blast+
qed

text \<open>The descriptor byte with the optional value.\<close>

definition cell_head :: "u8 \<Rightarrow> u64 \<Rightarrow> bytes" where
  "cell_head t v = (if v = 0 then [t] else (t OR WT_CELL_64V) # cell_uint v)"

definition count_of :: "u64 \<Rightarrow> u64" where
  "count_of rle = (if rle < 2 then 0 else rle)"

lemma pack_heads:
  "wt_cell_pack_addr t recno len = cell_head t recno @ cell_uint (ucast len)"
  "\<not> (rle = 0 \<and> len \<le> 0x7f) \<Longrightarrow> wt_cell_pack_data rle len = cell_head WT_CELL_VALUE (count_of rle) @ cell_uint (ucast len)"
  "wt_cell_pack_copy rle off = cell_head WT_CELL_VALUE_COPY (count_of rle) @ cell_uint off"
  "wt_cell_pack_del rle = cell_head WT_CELL_DEL (count_of rle)"
  "wt_cell_pack_ovfl t rle len = cell_head t (count_of rle) @ cell_uint (ucast len)"
  by (auto simp: wt_cell_pack_addr_def wt_cell_pack_data_def wt_cell_pack_copy_def wt_cell_pack_del_def wt_cell_pack_ovfl_def cell_head_def count_of_def)

lemma cell_parse_head:
  assumes t: "t \<in> long_types" and lim: "lim_ok lim (length pre + length (cell_head t v))"
    and mem: "mem = pre @ cell_head t v @ rest"
  defines "p \<equiv> length pre + length (cell_head t v)"
    and "u \<equiv> (cell_zero (length pre))\<lparr>cu_raw := t, cu_type := base_type t, cu_v := v\<rparr>"
  shows "cell_parse mem lim (length pre) =
    (if t = WT_CELL_VALUE_COPY then wt_ret (cell_vunpack mem lim p) (\<lambda>(w, p). Inr (Cell_Copy (of_nat (p - length pre)) v w))
     else if t = WT_CELL_DEL then cell_done lim (u\<lparr>cu_len := of_nat (p - length pre)\<rparr>)
     else wt_ret (cell_vunpack mem lim p) (\<lambda>(w, p).
       let len = ucast w in
       cell_done lim (u\<lparr>cu_ovfl := t \<in> {WT_CELL_KEY_OVFL, WT_CELL_VALUE_OVFL, WT_CELL_VALUE_OVFL_RM},
         cu_data := p, cu_size := len, cu_len := of_nat (p - length pre) + len\<rparr>)))"
proof -
  note T = long_type_bits [OF insertI2 [OF t]]
  define c where "c = (if v = 0 then t else t OR WT_CELL_64V)"
  have h: "cell_head t v = c # (if v = 0 then [] else cell_uint v)" by (simp add: cell_head_def c_def)
  have at: "mem_at mem (length pre) = Inr c" by (simp add: mem_at_def mem h nth_append)
  have cb: "wt_cell_type_raw c = t" "wt_cell_type c = base_type t" "c AND WT_CELL_64V \<noteq> 0 \<longleftrightarrow> v \<noteq> 0"
    using T by (auto simp: c_def)
  have chk: "cell_chk lim (length pre) 0" using lim by (auto simp: cell_chk_def lim_ok_def split: option.splits)
  have nk: "t \<noteq> WT_CELL_KEY" using t by (auto simp: cell_consts)
  have val: "cell_vunpack mem lim (Suc (length pre)) = Inr (v, p)" if "v \<noteq> 0"
  proof -
    have m: "mem = (pre @ [c]) @ cell_uint v @ rest" using that by (simp add: mem h)
    have "lim_ok lim (length (pre @ [c]) + length (cell_uint v))" using lim that by (simp add: h)
    from cell_vunpack_uint [OF this, of rest] show ?thesis using that by (simp add: m p_def h)
  qed
  have p0: "p = Suc (length pre)" if "v = 0" using that by (simp add: p_def cell_head_def)
  have z: "(cell_zero (length pre))\<lparr>cu_raw := t, cu_type := base_type t\<rparr> = u" if "v = 0" using that by (simp add: u_def cell_zero_def)
  have un: "cu_v u = v" by (simp add: u_def)
  have sets: "t \<in> {WT_CELL_KEY_OVFL, WT_CELL_VALUE_OVFL, WT_CELL_VALUE_OVFL_RM, WT_CELL_ADDR, WT_CELL_ADDR_DEL, WT_CELL_ADDR_LNO, WT_CELL_KEY, WT_CELL_VALUE} \<longleftrightarrow>
      t \<noteq> WT_CELL_VALUE_COPY \<and> t \<noteq> WT_CELL_DEL" using t by (auto simp: cell_consts)
  show ?thesis
  proof (cases "v = 0")
    case True
    then show ?thesis unfolding cell_parse_def at wt_ret_simps Let_def cb(1,2) z [OF True] sets
      using chk T(7,8) nk cb(3) p0 un by simp
  next
    case False
    show ?thesis unfolding cell_parse_def at wt_ret_simps Let_def cb(1,2) sets
      using chk T(7,8) nk cb(3) False val [OF False] by (simp add: u_def)
  qed
qed

section \<open>Items\<close>

text \<open>
  What reconciliation puts on a page: addresses, values, copies of earlier values, deleted values, keys and overflow
  items, each a packed cell and its data. The cell of a copy holds the distance to the cell that is copied.
\<close>

datatype cell_item =
    Item_Addr u8 u64 bytes
  | Item_Data u64 bytes
  | Item_Copy u64 nat
  | Item_Del u64
  | Item_Key u8 bytes
  | Item_Ovfl u8 u64 bytes

fun item_data :: "cell_item \<Rightarrow> bytes" where
  "item_data (Item_Addr t recno d) = d"
| "item_data (Item_Data rle d) = d"
| "item_data (Item_Key prefix d) = d"
| "item_data (Item_Ovfl t rle d) = d"
| "item_data it = []"

fun item_cell :: "cell_item \<Rightarrow> bytes" where
  "item_cell (Item_Addr t recno d) = wt_cell_pack_addr t recno (of_nat (length d))"
| "item_cell (Item_Data rle d) = wt_cell_pack_data rle (of_nat (length d))"
| "item_cell (Item_Copy rle back) = wt_cell_pack_copy rle (of_nat back)"
| "item_cell (Item_Del rle) = wt_cell_pack_del rle"
| "item_cell (Item_Key prefix d) = wt_cell_pack_key prefix (of_nat (length d))"
| "item_cell (Item_Ovfl t rle d) = wt_cell_pack_ovfl t rle (of_nat (length d))"

definition item_bytes :: "cell_item \<Rightarrow> bytes" where
  "item_bytes it = item_cell it @ item_data it"

text \<open>The types an item can have; a cell and its data are shorter than 4GB.\<close>

definition item_ok :: "cell_item \<Rightarrow> bool" where
  "item_ok it \<longleftrightarrow> length (item_bytes it) < 2 ^ 32 \<and> (case it of
       Item_Addr t _ _ \<Rightarrow> t \<in> {WT_CELL_ADDR, WT_CELL_ADDR_DEL, WT_CELL_ADDR_LNO}
     | Item_Ovfl t _ _ \<Rightarrow> t \<in> {WT_CELL_KEY_OVFL, WT_CELL_VALUE_OVFL, WT_CELL_VALUE_OVFL_RM}
     | _ \<Rightarrow> True)"

text \<open>What a reader gets of a cell: type, raw type, value, prefix, overflow flag and the data, if it is inside the memory.\<close>

definition cell_view :: "bytes \<Rightarrow> wt_cell_unpack \<Rightarrow> u8 \<times> u8 \<times> u64 \<times> u8 \<times> bool \<times> bytes option" where
  "cell_view mem u = (cu_type u, cu_raw u, cu_v u, cu_prefix u, cu_ovfl u,
     if cu_data u + unat (cu_size u) \<le> length mem then Some (take (unat (cu_size u)) (drop (cu_data u) mem)) else None)"

fun item_view :: "cell_item \<Rightarrow> u8 \<times> u8 \<times> u64 \<times> u8 \<times> bool \<times> bytes option" where
  "item_view (Item_Addr t recno d) = (WT_CELL_ADDR, t, recno, 0, False, Some d)"
| "item_view (Item_Data rle d) =
     (WT_CELL_VALUE, if rle = 0 \<and> length d \<le> 127 then WT_CELL_VALUE_SHORT else WT_CELL_VALUE, count_of rle, 0, False, Some d)"
| "item_view (Item_Del rle) = (WT_CELL_DEL, WT_CELL_DEL, count_of rle, 0, False, Some [])"
| "item_view (Item_Key prefix d) = (WT_CELL_KEY, if length d \<le> 63 then WT_CELL_KEY_SHORT else WT_CELL_KEY, 0, prefix, False, Some d)"
| "item_view (Item_Ovfl t rle d) = (if t = WT_CELL_KEY_OVFL then t else WT_CELL_VALUE_OVFL, t, count_of rle, 0, True, Some d)"
| "item_view (Item_Copy rle back) = (WT_CELL_VALUE, WT_CELL_VALUE_COPY, count_of rle, 0, False, Some [])"

fun is_copy :: "cell_item \<Rightarrow> bool" where
  "is_copy (Item_Copy rle back) = True"
| "is_copy it = False"

lemma parse_data:
  assumes t: "t \<in> long_types - {WT_CELL_VALUE_COPY, WT_CELL_DEL}" and len: "length cell = length (cell_head t v) + length (cell_uint (ucast (of_nat (length d) :: u32)))"
    and cell: "cell = cell_head t v @ cell_uint (ucast (of_nat (length d) :: u32))" and small: "length cell + length d < 2 ^ 32"
    and lim: "lim_ok lim (length pre + length cell + length d)" and mem: "mem = pre @ (cell @ d) @ rest"
  shows "\<exists>u. cell_parse mem lim (length pre) = Inr (Cell_Done u) \<and> unat (cu_len u) = length cell + length d \<and>
    cell_view mem u = (base_type t, t, v, 0, t \<in> {WT_CELL_KEY_OVFL, WT_CELL_VALUE_OVFL, WT_CELL_VALUE_OVFL_RM}, Some d)"
proof -
  let ?w = "ucast (of_nat (length d) :: u32) :: u64"
  have m1: "mem = pre @ cell_head t v @ (cell_uint ?w @ d @ rest)" and m2: "mem = (pre @ cell_head t v) @ cell_uint ?w @ (d @ rest)"
    by (simp_all add: mem cell)
  have l1: "lim_ok lim (length pre + length (cell_head t v))" "lim_ok lim (length (pre @ cell_head t v) + length (cell_uint ?w))"
    using lim by (auto simp: lim_ok_def cell split: option.splits)
  have u: "cell_vunpack mem lim (length pre + length (cell_head t v)) = Inr (?w, length pre + length cell)"
    using cell_vunpack_uint [OF l1(2), of "d @ rest"] by (simp add: m2 cell)
  have w: "ucast ?w = (of_nat (length d) :: u32)" by (rule bit_word_eqI) (simp add: bit_simps)
  have sz: "unat (of_nat (length d) :: u32) = length d" "unat (of_nat (length cell) + of_nat (length d) :: u32) = length cell + length d"
    using small by (simp_all add: unsigned_of_nat take_bit_nat_eq_self flip: of_nat_add)
  have chk: "cell_chk lim (length pre) (length cell + length d)" using lim by (auto simp: cell_chk_def lim_ok_def split: option.splits)
  have tl: "t \<in> long_types" "t \<noteq> WT_CELL_VALUE_COPY" "t \<noteq> WT_CELL_DEL" using t by blast+
  let ?u = "(cell_zero (length pre))\<lparr>cu_raw := t, cu_type := base_type t, cu_v := v,
    cu_ovfl := t \<in> {WT_CELL_KEY_OVFL, WT_CELL_VALUE_OVFL, WT_CELL_VALUE_OVFL_RM}, cu_data := length pre + length cell,
    cu_size := of_nat (length d), cu_len := of_nat (length cell) + of_nat (length d)\<rparr>"
  have "cell_parse mem lim (length pre) = cell_done lim ?u"
    unfolding cell_parse_head [OF tl(1) l1(1) m1] u wt_ret_simps prod.case Let_def w using tl(2,3) by simp
  also have "\<dots> = Inr (Cell_Done ?u)" using chk sz(2) by (simp add: cell_done_def cell_zero_def)
  finally have pr: "cell_parse mem lim (length pre) = Inr (Cell_Done ?u)" .
  have dd: "take (length d) (drop (length pre + length cell) mem) = d" by (simp add: mem)
  have "cell_view mem ?u = (base_type t, t, v, 0, t \<in> {WT_CELL_KEY_OVFL, WT_CELL_VALUE_OVFL, WT_CELL_VALUE_OVFL_RM}, Some d)"
    using sz(1) dd by (simp add: cell_view_def cell_zero_def mem)
  moreover have "unat (cu_len ?u) = length cell + length d" using sz(2) by simp
  ultimately show ?thesis using pr by blast
qed

lemma parse_key:
  assumes len: "63 < length d" and cell: "cell = wt_cell_pack_key prefix (of_nat (length d))" and small: "length cell + length d < 2 ^ 32"
    and lim: "lim_ok lim (length pre + length cell + length d)" and mem: "mem = pre @ (cell @ d) @ rest"
  shows "\<exists>u. cell_parse mem lim (length pre) = Inr (Cell_Done u) \<and> unat (cu_len u) = length cell + length d \<and>
    cell_view mem u = (WT_CELL_KEY, WT_CELL_KEY, 0, prefix, False, Some d)"
proof -
  let ?w = "ucast (of_nat (length d) :: u32) :: u64"
  have sz: "unat (of_nat (length d) :: u32) = length d" "unat (of_nat (length cell) + of_nat (length d) :: u32) = length cell + length d"
    using small by (simp_all add: unsigned_of_nat take_bit_nat_eq_self flip: of_nat_add)
  have "\<not> (of_nat (length d) :: u32) \<le> 0x3f" using len sz(1) by (simp add: word_le_nat_alt)
  then have c: "cell = [WT_CELL_KEY, prefix] @ cell_uint ?w" by (simp add: cell wt_cell_pack_key_def)
  have m2: "mem = (pre @ [WT_CELL_KEY, prefix]) @ cell_uint ?w @ (d @ rest)" by (simp add: mem c)
  have l2: "lim_ok lim (length (pre @ [WT_CELL_KEY, prefix]) + length (cell_uint ?w))"
    using lim by (auto simp: lim_ok_def c split: option.splits)
  have u: "cell_vunpack mem lim (Suc (Suc (length pre))) = Inr (?w, length pre + length cell)"
    using cell_vunpack_uint [OF l2, of "d @ rest"] by (simp add: m2 c)
  have w: "ucast ?w = (of_nat (length d) :: u32)" by (rule bit_word_eqI) (simp add: bit_simps)
  have chk: "cell_chk lim (length pre) (length cell + length d)" "cell_chk lim (length pre) 0" "cell_chk lim (Suc (Suc (length pre))) 0"
    using lim by (auto simp: cell_chk_def lim_ok_def c split: option.splits)
  have at: "mem_at mem (length pre) = Inr WT_CELL_KEY" "mem_at mem (Suc (length pre)) = Inr prefix"
    by (simp_all add: mem_at_def mem c nth_append)
  note T = long_type_bits [OF insertI1]
  have bt: "base_type WT_CELL_KEY = WT_CELL_KEY" by (simp add: base_type_def cell_consts)
  have ne: "WT_CELL_KEY \<noteq> WT_CELL_VALUE_COPY" "WT_CELL_KEY \<notin> {WT_CELL_KEY_OVFL, WT_CELL_VALUE_OVFL, WT_CELL_VALUE_OVFL_RM}" by (simp_all add: cell_consts)
  let ?u = "(cell_zero (length pre))\<lparr>cu_raw := WT_CELL_KEY, cu_type := WT_CELL_KEY, cu_prefix := prefix, cu_ovfl := False,
    cu_data := length pre + length cell, cu_size := of_nat (length d), cu_len := of_nat (length cell) + of_nat (length d)\<rparr>"
  have "cell_parse mem lim (length pre) = cell_done lim ?u"
    unfolding cell_parse_def at(1) wt_ret_simps Let_def T(1,3) bt using T(5,7,8) chk(2,3) at(2) u w ne by simp
  also have "\<dots> = Inr (Cell_Done ?u)" using chk(1) sz(2) by (simp add: cell_done_def cell_zero_def)
  finally have pr: "cell_parse mem lim (length pre) = Inr (Cell_Done ?u)" .
  have dd: "take (length d) (drop (length pre + length cell) mem) = d" by (simp add: mem)
  have "cell_view mem ?u = (WT_CELL_KEY, WT_CELL_KEY, 0, prefix, False, Some d)" using sz(1) dd by (simp add: cell_view_def cell_zero_def mem)
  moreover have "unat (cu_len ?u) = length cell + length d" using sz(2) by simp
  ultimately show ?thesis using pr by blast
qed

lemma parse_short_value:
  assumes len: "length d \<le> 127" and lim: "lim_ok lim (length pre + 1 + length d)"
    and mem: "mem = pre @ (wt_cell_pack_data 0 (of_nat (length d)) @ d) @ rest"
  shows "\<exists>u. cell_parse mem lim (length pre) = Inr (Cell_Done u) \<and> unat (cu_len u) = 1 + length d \<and>
    length (wt_cell_pack_data 0 (of_nat (length d))) = 1 \<and> cell_view mem u = (WT_CELL_VALUE, WT_CELL_VALUE_SHORT, 0, 0, False, Some d)"
proof -
  let ?c = "push_bit 1 (of_nat (length d)) OR WT_CELL_VALUE_SHORT"
  have sz: "unat (of_nat (length d) :: u32) = length d" using len by (simp add: unsigned_of_nat take_bit_nat_eq_self)
  have uc: "ucast (of_nat (length d) :: u32) = (of_nat (length d) :: u8)" "ucast (of_nat (length d) :: u8) = (of_nat (length d) :: u32)"
    using len by (simp_all add: word_unat_eq_iff unsigned_ucast_eq unsigned_of_nat take_bit_nat_eq_self)
  have c: "wt_cell_pack_data 0 (of_nat (length d)) = [?c]" using len sz by (simp add: wt_cell_pack_data_def word_le_nat_alt uc)
  have at: "mem_at mem (length pre) = Inr ?c" by (simp add: mem_at_def mem c nth_append)
  note B = short_value_bits [of "length d"]
  have l: "unat (1 + of_nat (length d) :: u32) = 1 + length d" using len by (simp add: unsigned_of_nat take_bit_nat_eq_self flip: of_nat_Suc)
  have chk: "cell_chk lim (length pre) 0" "cell_chk lim (length pre) (1 + length d)" using lim by (auto simp: cell_chk_def lim_ok_def split: option.splits)
  let ?u = "(cell_zero (length pre))\<lparr>cu_raw := WT_CELL_VALUE_SHORT, cu_type := WT_CELL_VALUE, cu_data := length pre + 1,
    cu_size := of_nat (length d), cu_len := 1 + of_nat (length d)\<rparr>"
  have ne: "WT_CELL_VALUE_SHORT \<noteq> WT_CELL_KEY_SHORT" by (simp add: cell_consts)
  have n: "length d < 128" using len by simp
  have "cell_parse mem lim (length pre) = cell_done lim ?u"
    unfolding cell_parse_def at wt_ret_simps Let_def B(1,2) [OF n] B(3) [OF n] uc(2) using chk(1) ne by simp
  also have "\<dots> = Inr (Cell_Done ?u)" using chk(2) l by (simp add: cell_done_def cell_zero_def)
  finally have pr: "cell_parse mem lim (length pre) = Inr (Cell_Done ?u)" .
  have "cell_view mem ?u = (WT_CELL_VALUE, WT_CELL_VALUE_SHORT, 0, 0, False, Some d)" using sz by (simp add: cell_view_def cell_zero_def mem c)
  moreover have "unat (cu_len ?u) = 1 + length d" using l by simp
  ultimately show ?thesis using pr c by auto
qed

lemma parse_short_key:
  assumes len: "length d \<le> 63" and lim: "lim_ok lim (length pre + 2 + length d)"
    and mem: "mem = pre @ (wt_cell_pack_key prefix (of_nat (length d)) @ d) @ rest"
  shows "\<exists>u. cell_parse mem lim (length pre) = Inr (Cell_Done u) \<and> unat (cu_len u) = 2 + length d \<and>
    length (wt_cell_pack_key prefix (of_nat (length d))) = 2 \<and> cell_view mem u = (WT_CELL_KEY, WT_CELL_KEY_SHORT, 0, prefix, False, Some d)"
proof -
  let ?c = "push_bit 2 (of_nat (length d)) OR WT_CELL_KEY_SHORT"
  have sz: "unat (of_nat (length d) :: u32) = length d" using len by (simp add: unsigned_of_nat take_bit_nat_eq_self)
  have uc: "ucast (of_nat (length d) :: u32) = (of_nat (length d) :: u8)" "ucast (of_nat (length d) :: u8) = (of_nat (length d) :: u32)"
    using len by (simp_all add: word_unat_eq_iff unsigned_ucast_eq unsigned_of_nat take_bit_nat_eq_self)
  have c: "wt_cell_pack_key prefix (of_nat (length d)) = [?c, prefix]" using len sz by (simp add: wt_cell_pack_key_def word_le_nat_alt uc)
  have at: "mem_at mem (length pre) = Inr ?c" "mem_at mem (Suc (length pre)) = Inr prefix" by (simp_all add: mem_at_def mem c nth_append)
  note B = short_key_bits [of "length d"]
  have "(2 + of_nat (length d) :: u32) = of_nat (2 + length d)" by simp
  then have l: "unat (2 + of_nat (length d) :: u32) = 2 + length d" using len by (simp only: unsigned_of_nat) (simp add: take_bit_nat_eq_self)
  have chk: "cell_chk lim (length pre) 0" "cell_chk lim (length pre) (Suc 0)" "cell_chk lim (length pre) (2 + length d)"
    using lim by (auto simp: cell_chk_def lim_ok_def split: option.splits)
  let ?u = "(cell_zero (length pre))\<lparr>cu_raw := WT_CELL_KEY_SHORT, cu_type := WT_CELL_KEY, cu_prefix := prefix, cu_data := length pre + 2,
    cu_size := of_nat (length d), cu_len := 2 + of_nat (length d)\<rparr>"
  have n: "length d < 64" using len by simp
  have "cell_parse mem lim (length pre) = cell_done lim ?u"
    unfolding cell_parse_def at(1) wt_ret_simps Let_def B(1,2) [OF n] B(3) [OF n] uc(2) using chk(1,2) at(2) by simp
  also have "\<dots> = Inr (Cell_Done ?u)" using chk(3) l by (simp add: cell_done_def cell_zero_def)
  finally have pr: "cell_parse mem lim (length pre) = Inr (Cell_Done ?u)" .
  have "cell_view mem ?u = (WT_CELL_KEY, WT_CELL_KEY_SHORT, 0, prefix, False, Some d)" using sz by (simp add: cell_view_def cell_zero_def mem c)
  moreover have "unat (cu_len ?u) = 2 + length d" using l by simp
  ultimately show ?thesis using pr c by auto
qed

lemma parse_del:
  assumes lim: "lim_ok lim (length pre + length (wt_cell_pack_del rle))" and mem: "mem = pre @ wt_cell_pack_del rle @ rest"
    and small: "length (wt_cell_pack_del rle) < 2 ^ 32"
  shows "\<exists>u. cell_parse mem lim (length pre) = Inr (Cell_Done u) \<and> unat (cu_len u) = length (wt_cell_pack_del rle) \<and>
    cell_view mem u = (WT_CELL_DEL, WT_CELL_DEL, count_of rle, 0, False, Some [])"
proof -
  let ?c = "wt_cell_pack_del rle"
  have t: "WT_CELL_DEL \<in> long_types" "WT_CELL_DEL \<noteq> WT_CELL_VALUE_COPY" "base_type WT_CELL_DEL = WT_CELL_DEL" by (simp_all add: base_type_def cell_consts)
  note P = cell_parse_head [OF t(1), of lim pre "count_of rle" mem rest]
  have l: "unat (of_nat (length ?c) :: u32) = length ?c" using small by (simp add: unsigned_of_nat take_bit_nat_eq_self)
  have chk: "cell_chk lim (length pre) (length ?c)" using lim by (auto simp: cell_chk_def lim_ok_def split: option.splits)
  let ?u = "(cell_zero (length pre))\<lparr>cu_raw := WT_CELL_DEL, cu_type := WT_CELL_DEL, cu_v := count_of rle, cu_len := of_nat (length ?c)\<rparr>"
  have "cell_parse mem lim (length pre) = cell_done lim ?u" using P lim mem t by (simp add: pack_heads(4))
  also have "\<dots> = Inr (Cell_Done ?u)" using chk l by (simp add: cell_done_def cell_zero_def)
  finally have pr: "cell_parse mem lim (length pre) = Inr (Cell_Done ?u)" .
  have "cell_view mem ?u = (WT_CELL_DEL, WT_CELL_DEL, count_of rle, 0, False, Some [])" by (simp add: cell_view_def cell_zero_def)
  then show ?thesis using pr l by auto
qed

lemma parse_copy:
  assumes lim: "lim_ok lim (length pre + length (wt_cell_pack_copy rle off))" and mem: "mem = pre @ wt_cell_pack_copy rle off @ rest"
  shows "cell_parse mem lim (length pre) = Inr (Cell_Copy (of_nat (length (wt_cell_pack_copy rle off))) (count_of rle) off)"
proof -
  have t: "WT_CELL_VALUE_COPY \<in> long_types" by (simp add: cell_consts)
  let ?h = "cell_head WT_CELL_VALUE_COPY (count_of rle)"
  have c: "wt_cell_pack_copy rle off = ?h @ cell_uint off" by (rule pack_heads)
  have m: "mem = pre @ ?h @ (cell_uint off @ rest)" "mem = (pre @ ?h) @ cell_uint off @ rest" by (simp_all add: mem c)
  have l: "lim_ok lim (length pre + length ?h)" "lim_ok lim (length (pre @ ?h) + length (cell_uint off))"
    using lim by (auto simp: lim_ok_def c split: option.splits)
  have "cell_vunpack mem lim (length pre + length ?h) = Inr (off, length pre + length ?h + length (cell_uint off))"
    using cell_vunpack_uint [OF l(2), of rest] by (simp add: m(2))
  then show ?thesis using cell_parse_head [OF t l(1) m(1)] by (simp add: c)
qed

lemma parse_item:
  assumes ok: "item_ok it" "\<not> is_copy it" and lim: "lim_ok lim (length pre + length (item_bytes it))" and mem: "mem = pre @ item_bytes it @ rest"
  shows "\<exists>u. cell_parse mem lim (length pre) = Inr (Cell_Done u) \<and> unat (cu_len u) = length (item_bytes it) \<and> cell_view mem u = item_view it"
proof (cases it)
  case (Item_Addr t recno d)
  have t: "t \<in> {WT_CELL_ADDR, WT_CELL_ADDR_DEL, WT_CELL_ADDR_LNO}" using ok(1) Item_Addr by (simp add: item_ok_def)
  then have t': "t \<in> long_types - {WT_CELL_VALUE_COPY, WT_CELL_DEL}" "base_type t = WT_CELL_ADDR"
    "t \<notin> {WT_CELL_KEY_OVFL, WT_CELL_VALUE_OVFL, WT_CELL_VALUE_OVFL_RM}" by (auto simp: base_type_def cell_consts)
  show ?thesis
    using parse_data [OF t'(1), of "wt_cell_pack_addr t recno (of_nat (length d))" recno d lim pre mem rest] ok(1) lim mem t'(2,3)
    by (auto simp: Item_Addr item_bytes_def item_ok_def pack_heads(1) add.assoc)
next
  case (Item_Data rle d)
  show ?thesis
  proof (cases "rle = 0 \<and> length d \<le> 127")
    case True
    have "length (wt_cell_pack_data 0 (of_nat (length d))) = 1"
      using True by (simp add: wt_cell_pack_data_def word_le_nat_alt unsigned_of_nat take_bit_nat_eq_self)
    then show ?thesis using parse_short_value [of d lim pre mem rest] lim mem True
      by (auto simp: Item_Data item_bytes_def count_of_def)
  next
    case False
    have sm: "length d < 2 ^ 32" using ok(1) by (simp add: Item_Data item_ok_def item_bytes_def)
    then have "unat (of_nat (length d) :: u32) = length d" by (simp add: unsigned_of_nat take_bit_nat_eq_self)
    then have "\<not> (rle = 0 \<and> (of_nat (length d) :: u32) \<le> 0x7f)" using False by (auto simp: word_le_nat_alt)
    note c = pack_heads(2) [OF this]
    have t: "WT_CELL_VALUE \<in> long_types - {WT_CELL_VALUE_COPY, WT_CELL_DEL}" "base_type WT_CELL_VALUE = WT_CELL_VALUE"
      "WT_CELL_VALUE \<notin> {WT_CELL_KEY_OVFL, WT_CELL_VALUE_OVFL, WT_CELL_VALUE_OVFL_RM}" by (auto simp: base_type_def cell_consts)
    show ?thesis
      using parse_data [OF t(1), of "wt_cell_pack_data rle (of_nat (length d))" "count_of rle" d lim pre mem rest] ok(1) lim mem t(2,3) False
      by (auto simp: Item_Data item_bytes_def item_ok_def c add.assoc)
  qed
next
  case (Item_Del rle)
  then show ?thesis using parse_del [of lim pre rle mem rest] ok(1) lim mem by (auto simp: item_bytes_def item_ok_def)
next
  case (Item_Key prefix d)
  show ?thesis
  proof (cases "length d \<le> 63")
    case True
    have "length (wt_cell_pack_key prefix (of_nat (length d))) = 2"
      using True by (simp add: wt_cell_pack_key_def word_le_nat_alt unsigned_of_nat take_bit_nat_eq_self)
    then show ?thesis using parse_short_key [OF True, of lim pre mem prefix rest] lim mem True
      by (auto simp: Item_Key item_bytes_def add.assoc)
  next
    case False
    then show ?thesis using parse_key [of d _ prefix lim pre mem rest] ok(1) lim mem
      by (auto simp: Item_Key item_bytes_def item_ok_def add.assoc)
  qed
next
  case (Item_Ovfl t rle d)
  have t: "t \<in> {WT_CELL_KEY_OVFL, WT_CELL_VALUE_OVFL, WT_CELL_VALUE_OVFL_RM}" using ok(1) Item_Ovfl by (simp add: item_ok_def)
  then have t': "t \<in> long_types - {WT_CELL_VALUE_COPY, WT_CELL_DEL}" "base_type t = (if t = WT_CELL_KEY_OVFL then t else WT_CELL_VALUE_OVFL)"
    by (auto simp: base_type_def cell_consts)
  show ?thesis
    using parse_data [OF t'(1), of "wt_cell_pack_ovfl t rle (of_nat (length d))" "count_of rle" d lim pre mem rest] ok(1) lim mem t'(2) t
    by (auto simp: Item_Ovfl item_bytes_def item_ok_def pack_heads(5) add.assoc)
qed (use ok(2) in simp)

section \<open>Dictionary matches\<close>

lemma vunpack_cell_uint [simp]: "wt_vunpack_uint 0 (cell_uint v @ rest) = Inr (v, rest)"
  using wt_vunpack_vpack_uint [OF cell_uint_length(2)] .

lemma vunpack_cell_uint_end [simp]: "wt_vunpack_uint 0 (cell_uint v) = Inr (v, [])"
  using vunpack_cell_uint [of v "[]"] by simp

lemma cell_memcmp_same: "length d = length d' \<Longrightarrow> length d < 2 ^ 32 \<Longrightarrow>
  cell_memcmp (d @ rest) d' (ucast (of_nat (length d) :: u32)) = Inr (d = d')"
  by (simp add: cell_memcmp_def unsigned_ucast_eq unsigned_of_nat take_bit_nat_eq_self)

lemma length_word_inj: "length d < 2 ^ 32 \<Longrightarrow> length d' < 2 ^ 32 \<Longrightarrow>
  (ucast (of_nat (length d) :: u32) :: u64) = ucast (of_nat (length d') :: u32) \<longleftrightarrow> length d = length d'"
  by (auto simp: word_unat_eq_iff unsigned_ucast_eq unsigned_of_nat take_bit_nat_eq_self)

lemma data_match_long:
  assumes "length d < 2 ^ 32" "length d' < 2 ^ 32" "\<not> (rle = 0 \<and> length d \<le> 127)" "\<not> (rle' = 0 \<and> length d' \<le> 127)"
  shows "wt_cell_pack_data_match (item_bytes (Item_Data rle d) @ rest) (item_cell (Item_Data rle' d')) d' = Inr ((rle < 2 \<longleftrightarrow> rle' < 2) \<and> d = d')"
proof -
  have sz: "unat (of_nat (length d) :: u32) = length d" "unat (of_nat (length d') :: u32) = length d'"
    using assms(1,2) by (simp_all add: unsigned_of_nat take_bit_nat_eq_self)
  have c: "wt_cell_pack_data rle (of_nat (length d)) = cell_head WT_CELL_VALUE (count_of rle) @ cell_uint (ucast (of_nat (length d) :: u32))"
      "wt_cell_pack_data rle' (of_nat (length d')) = cell_head WT_CELL_VALUE (count_of rle') @ cell_uint (ucast (of_nat (length d') :: u32))"
    using assms(3,4) sz by (auto intro!: pack_heads(2) simp: word_le_nat_alt)
  have k: "WT_CELL_VALUE \<noteq> WT_CELL_VALUE OR WT_CELL_64V" "WT_CELL_VALUE AND WT_CELL_VALUE_SHORT = 0" "WT_CELL_VALUE AND WT_CELL_64V = 0"
    "(WT_CELL_VALUE OR WT_CELL_64V) AND WT_CELL_VALUE_SHORT = 0" "(WT_CELL_VALUE OR WT_CELL_64V) AND WT_CELL_64V \<noteq> 0"
    by (simp_all add: cell_consts)
  have z: "count_of r = 0 \<longleftrightarrow> r < 2" for r by (auto simp: count_of_def)
  have m: "(if length d = length d' then cell_memcmp (d @ rest) d' (ucast (of_nat (length d) :: u32)) else Inr False) = Inr (d = d')"
    using cell_memcmp_same [of d d' rest] assms(1) by auto
  show ?thesis
    using m k length_word_inj [OF assms(1,2)]
    by (auto simp: wt_cell_pack_data_match_def item_bytes_def c cell_head_def z mem_at_def Let_def split: if_splits)
qed

lemma data_cell_short:
  assumes "length d \<le> 127"
  shows "item_cell (Item_Data 0 d) = [push_bit 1 (of_nat (length d)) OR WT_CELL_VALUE_SHORT]"
proof -
  have "unat (of_nat (length d) :: u32) = length d" "ucast (of_nat (length d) :: u32) = (of_nat (length d) :: u8)"
    using assms by (simp_all add: word_unat_eq_iff unsigned_ucast_eq unsigned_of_nat take_bit_nat_eq_self)
  then show ?thesis using assms by (simp add: wt_cell_pack_data_def word_le_nat_alt)
qed

lemma data_cell_long:
  assumes "length d < 2 ^ 32" "\<not> (rle = 0 \<and> length d \<le> 127)"
  obtains c r where "item_cell (Item_Data rle d) = c # r" "c AND WT_CELL_VALUE_SHORT = 0"
proof -
  have "unat (of_nat (length d) :: u32) = length d" using assms(1) by (simp add: unsigned_of_nat take_bit_nat_eq_self)
  then have "\<not> (rle = 0 \<and> (of_nat (length d) :: u32) \<le> 0x7f)" using assms(2) by (auto simp: word_le_nat_alt)
  moreover have "WT_CELL_VALUE AND WT_CELL_VALUE_SHORT = 0" "(WT_CELL_VALUE OR WT_CELL_64V) AND WT_CELL_VALUE_SHORT = 0" by (simp_all add: cell_consts)
  ultimately show ?thesis using that pack_heads(2) [of rle "of_nat (length d)"] by (auto simp: cell_head_def split: if_splits)
qed

lemma data_match_short:
  assumes "length d \<le> 127" "length d' \<le> 127"
  shows "wt_cell_pack_data_match (item_bytes (Item_Data 0 d) @ rest) (item_cell (Item_Data 0 d')) d' = Inr (d = d')"
proof -
  have n: "length d < 128" "length d' < 128" using assms by simp_all
  have u: "unat (of_nat (length e) :: u8) = length e" if "length e < 128" for e :: bytes using that by (simp add: unsigned_of_nat take_bit_nat_eq_self)
  have h: "(push_bit 1 (of_nat (length d)) OR WT_CELL_VALUE_SHORT :: u8) = push_bit 1 (of_nat (length d')) OR WT_CELL_VALUE_SHORT \<longleftrightarrow> length d = length d'"
    using short_value_bits(3) [OF n(1)] short_value_bits(3) [OF n(2)] u [OF n(1)] u [OF n(2)] by metis
  have s: "(push_bit 1 (of_nat (length d)) OR WT_CELL_VALUE_SHORT :: u8) AND WT_CELL_VALUE_SHORT \<noteq> 0"
    using short_value_bits(1) [OF n(1)] by (auto simp: wt_cell_type_raw_def WT_CELL_TYPE_def cell_consts split: if_splits)
  have "unat (ucast (of_nat (length d) :: u8) :: u64) = length d" using n by (simp add: unsigned_ucast_eq unsigned_of_nat take_bit_nat_eq_self)
  then show ?thesis
    unfolding wt_cell_pack_data_match_def item_bytes_def data_cell_short [OF assms(1)] data_cell_short [OF assms(2)]
    using h s short_value_bits(3) [OF n(1)] by (auto simp: mem_at_def Let_def cell_memcmp_def)
qed

lemma data_match_heads:
  assumes "item_cell (Item_Data rle d) = a # r" "item_cell (Item_Data rle' d') = b # r'" "a \<noteq> b"
  shows "wt_cell_pack_data_match (item_bytes (Item_Data rle d) @ rest) (item_cell (Item_Data rle' d')) d' = Inr False"
  using assms by (simp add: wt_cell_pack_data_match_def item_bytes_def mem_at_def Let_def)

lemma data_match_forms:
  assumes "length d < 2 ^ 32" "length d' < 2 ^ 32" "(rle = 0 \<and> length d \<le> 127) \<noteq> (rle' = 0 \<and> length d' \<le> 127)"
  shows "wt_cell_pack_data_match (item_bytes (Item_Data rle d) @ rest) (item_cell (Item_Data rle' d')) d' = Inr False"
proof -
  have s: "(push_bit 1 (of_nat n) OR WT_CELL_VALUE_SHORT :: u8) AND WT_CELL_VALUE_SHORT \<noteq> 0" if "n < 128" for n
    using short_value_bits(1) [OF that] by (auto simp: wt_cell_type_raw_def WT_CELL_TYPE_def cell_consts split: if_splits)
  show ?thesis
  proof (cases "rle = 0 \<and> length d \<le> 127")
    case True
    obtain c r where c: "item_cell (Item_Data rle' d') = c # r" "c AND WT_CELL_VALUE_SHORT = 0" using data_cell_long [OF assms(2), of rle'] assms(3) True by blast
    have d: "item_cell (Item_Data rle d) = [push_bit 1 (of_nat (length d)) OR WT_CELL_VALUE_SHORT]" using data_cell_short [of d] True by blast
    show ?thesis using c(2) s [of "length d"] True by (intro data_match_heads [OF d c(1)]) auto
  next
    case False
    obtain c r where c: "item_cell (Item_Data rle d) = c # r" "c AND WT_CELL_VALUE_SHORT = 0" using data_cell_long [OF assms(1), of rle] False by blast
    have t: "rle' = 0" "length d' \<le> 127" using False assms(3) by blast+
    have d: "item_cell (Item_Data rle' d') = [push_bit 1 (of_nat (length d')) OR WT_CELL_VALUE_SHORT]" using data_cell_short [of d'] t by blast
    show ?thesis using c(2) s [of "length d'"] t by (intro data_match_heads [OF c(1) d]) auto
  qed
qed

text \<open>
  Two values match exactly when their data is equal and their cells have the same form; the run lengths may differ.
\<close>

lemma wt_cell_pack_data_match_spec:
  assumes "length d < 2 ^ 32" "length d' < 2 ^ 32"
  shows "wt_cell_pack_data_match (item_bytes (Item_Data rle d) @ rest) (item_cell (Item_Data rle' d')) d' =
    Inr ((rle < 2 \<longleftrightarrow> rle' < 2) \<and> (length d \<le> 127 \<longrightarrow> (rle = 0 \<longleftrightarrow> rle' = 0)) \<and> d = d')"
proof (cases "(rle = 0 \<and> length d \<le> 127) \<noteq> (rle' = 0 \<and> length d' \<le> 127)")
  case True
  then show ?thesis using data_match_forms [OF assms True, of rest] by auto
next
  case same: False
  show ?thesis
  proof (cases "rle = 0 \<and> length d \<le> 127")
    case True
    then show ?thesis using same data_match_short [of d d' rest] by simp
  next
    case False
    then have "\<not> (rle = 0 \<and> length d \<le> 127)" "\<not> (rle' = 0 \<and> length d' \<le> 127)" using same by auto
    from data_match_long [OF assms this, of rest] False same show ?thesis by auto
  qed
qed

section \<open>Copies of copies\<close>

text \<open>
  A copy cell at distance 0 refers to itself: unpacking it does not return. Without such a cell before it, unpacking any
  cell returns, whatever the memory holds.
\<close>

lemma unpack_self_copy:
  assumes "cell_parse mem lim cell = Inr (Cell_Copy l v 0)"
  shows "wt_cell_unpack_safe mem lim cell = None"
proof -
  let ?P = "\<lambda>mem lim cell r. \<nexists>l v. cell_parse mem lim cell = Inr (Cell_Copy l v 0)"
  have "?P mem lim cell r" if "wt_cell_unpack_safe mem lim cell = Some r" for r
    by (rule wt_cell_unpack_safe.raw_induct [of ?P, OF _ that]) (auto split: option.splits bind_splits)
  then show ?thesis using assms by (cases "wt_cell_unpack_safe mem lim cell") auto
qed

lemma unpack_returns:
  assumes "\<And>c l v. c \<le> cell \<Longrightarrow> cell_parse mem lim c \<noteq> Inr (Cell_Copy l v 0)"
  shows "\<exists>r. wt_cell_unpack_safe mem lim cell = Some r"
  using assms
proof (induction cell rule: less_induct)
  case (less cell)
  show ?case
  proof (cases "\<exists>l w v. cell_parse mem lim cell = Inr (Cell_Copy l w v) \<and> unat v \<le> cell")
    case True
    then obtain l w v where c: "cell_parse mem lim cell = Inr (Cell_Copy l w v)" "unat v \<le> cell" by blast
    then have "v \<noteq> 0" using less.prems [of cell l w] by auto
    then have "0 < unat v" by (simp add: unat_gt_0)
    then obtain r where "wt_cell_unpack_safe mem lim (cell - unat v) = Some r" using less.IH [of "cell - unat v"] less.prems c(2) by auto
    then show ?thesis using c by (subst wt_cell_unpack_safe.simps) simp
  next
    case False
    then show ?thesis by (subst wt_cell_unpack_safe.simps) (auto simp: not_le split: sum.splits cell_step.splits)
  qed
qed

text \<open>
  The checks against the end of the page: the total length of a cell is kept in 32 bits, so a data length near 4GB
  passes the check of the complete cell; a cell that starts at the end of the page passes \<open>CHK(cell, 0)\<close> and its
  descriptor byte is read past the end.
\<close>

lemma unpack_length_wraps:
  "map_option (map_sum id cu_size) (wt_cell_unpack_safe [0x60, 0xe4, 0xff, 0xff, 0xdf, 0xbf] (Some 6) 0) = Some (Inr 4294967295)"
  by code_simp

lemma unpack_at_end: "wt_cell_unpack_safe mem (Some (length mem)) (length mem) = Some (Inl OUT_OF_BOUNDS)"
  by (subst wt_cell_unpack_safe.simps) (simp add: cell_parse_def cell_chk_def mem_at_def)

lemma type_reset_raw:
  assumes "t \<in> insert WT_CELL_KEY long_types" "t' \<in> insert WT_CELL_KEY long_types"
  shows "wt_cell_type_raw (wt_cell_type_reset t t') = t'" "wt_cell_type_raw (wt_cell_type_reset (t OR WT_CELL_64V) t') = t'"
    "wt_cell_type_reset (t OR WT_CELL_64V) t' AND WT_CELL_64V = WT_CELL_64V"
proof -
  let ?ts = "[0x00, 0x10, 0x20, 0x30, 0x40, 0x50, 0x60, 0x70, 0x80, 0x90]"
  have "list_all (\<lambda>t. list_all (\<lambda>t'. wt_cell_type_raw (wt_cell_type_reset t t') = t' \<and> wt_cell_type_raw (wt_cell_type_reset (t OR WT_CELL_64V) t') = t' \<and>
    wt_cell_type_reset (t OR WT_CELL_64V) t' AND WT_CELL_64V = WT_CELL_64V) ?ts) ?ts" by code_simp
  moreover have "t \<in> set ?ts" "t' \<in> set ?ts" using assms by (auto simp: cell_consts)
  ultimately show "wt_cell_type_raw (wt_cell_type_reset t t') = t'" "wt_cell_type_raw (wt_cell_type_reset (t OR WT_CELL_64V) t') = t'"
    "wt_cell_type_reset (t OR WT_CELL_64V) t' AND WT_CELL_64V = WT_CELL_64V" unfolding list_all_iff by blast+
qed

section \<open>A page of items\<close>

definition cell_start :: "cell_item list \<Rightarrow> nat \<Rightarrow> nat" where
  "cell_start items i = length (concat (map item_bytes (take i items)))"

text \<open>A copy refers to an earlier item of the page that is not itself a copy.\<close>

definition copy_of :: "cell_item list \<Rightarrow> nat \<Rightarrow> nat \<Rightarrow> bool" where
  "copy_of items i j \<longleftrightarrow> j < i \<and> \<not> is_copy (items ! j) \<and>
     (case items ! i of Item_Copy rle back \<Rightarrow> cell_start items i = cell_start items j + back | _ \<Rightarrow> False)"

definition cells_ok :: "cell_item list \<Rightarrow> bool" where
  "cells_ok items \<longleftrightarrow> (\<forall>it\<in>set items. item_ok it) \<and> length (concat (map item_bytes items)) < 2 ^ 32 \<and>
     (\<forall>i<length items. is_copy (items ! i) \<longrightarrow> (\<exists>j<i. copy_of items i j))"

text \<open>What a reader gets of the item: a copy has the data of the item it refers to, and its own run length.\<close>

definition cells_view :: "cell_item list \<Rightarrow> nat \<Rightarrow> u8 \<times> u8 \<times> u64 \<times> u8 \<times> bool \<times> bytes option" where
  "cells_view items i =
     (case items ! i of
        Item_Copy rle back \<Rightarrow>
          (case filter (copy_of items i) [0..<i] of
             [] \<Rightarrow> item_view (items ! i)
           | j # _ \<Rightarrow> (let (ty, raw, v, prefix, ovfl, d) = item_view (items ! j) in (ty, WT_CELL_VALUE_COPY, count_of rle, prefix, ovfl, d)))
      | it \<Rightarrow> item_view it)"

lemma page_split:
  assumes "i < length items" "mem = pre @ concat (map item_bytes items) @ post"
  obtains p r where "mem = p @ item_bytes (items ! i) @ r" "length p = length pre + cell_start items i"
proof
  have "items = take i items @ items ! i # drop (Suc i) items" using assms(1) by (simp add: id_take_nth_drop)
  then have "concat (map item_bytes items) = concat (map item_bytes (take i items)) @ item_bytes (items ! i) @ concat (map item_bytes (drop (Suc i) items))"
    by (metis concat.simps(2) concat_append list.simps(9) map_append)
  then show "mem = (pre @ concat (map item_bytes (take i items))) @ item_bytes (items ! i) @ concat (map item_bytes (drop (Suc i) items)) @ post"
    using assms(2) by simp
qed (simp add: cell_start_def)

lemma cell_start_Suc: "i < length items \<Longrightarrow> cell_start items (Suc i) = cell_start items i + length (item_bytes (items ! i))"
  by (simp add: cell_start_def take_Suc_conv_app_nth)

lemma cell_start_mono: "i \<le> j \<Longrightarrow> cell_start items i \<le> cell_start items j"
proof -
  assume "i \<le> j"
  then have "take j items = take i items @ take (j - i) (drop i items)" by (metis le_add_diff_inverse take_add)
  then show ?thesis by (simp add: cell_start_def)
qed

lemma cell_start_all: "cell_start items (length items) = length (concat (map item_bytes items))"
  by (simp add: cell_start_def)

lemma lim_ok_mono: "lim_ok lim n \<Longrightarrow> m \<le> n \<Longrightarrow> lim_ok lim m"
  by (auto simp: lim_ok_def split: option.splits)

lemma lim_ok_item:
  assumes "lim_ok lim (n + length (concat (map item_bytes items)))" "i < length items"
  shows "lim_ok lim (n + cell_start items i + length (item_bytes (items ! i)))"
proof (rule lim_ok_mono [OF assms(1)])
  show "n + cell_start items i + length (item_bytes (items ! i)) \<le> n + length (concat (map item_bytes items))"
    using cell_start_mono [of "Suc i" "length items" items] assms(2) by (simp add: cell_start_Suc flip: cell_start_all)
qed

lemma unpack_item:
  assumes i: "i < length items" and ok: "item_ok (items ! i)" "\<not> is_copy (items ! i)" and lim: "lim_ok lim (length pre + length (concat (map item_bytes items)))"
    and mem: "mem = pre @ concat (map item_bytes items) @ post"
  shows "\<exists>u. wt_cell_unpack_safe mem lim (length pre + cell_start items i) = Some (Inr u) \<and> unat (cu_len u) = length (item_bytes (items ! i)) \<and>
    cell_view mem u = item_view (items ! i)"
proof -
  obtain p r where p: "mem = p @ item_bytes (items ! i) @ r" "length p = length pre + cell_start items i" by (rule page_split [OF i mem])
  have "lim_ok lim (length p + length (item_bytes (items ! i)))" using lim_ok_item [OF lim i] p(2) by simp
  from parse_item [OF ok this p(1)] show ?thesis by (subst wt_cell_unpack_safe.simps) (auto simp flip: p(2))
qed

lemma unpack_copy:
  assumes i: "i < length items" and it: "items ! i = Item_Copy rle back" and j: "copy_of items i j" and ok: "item_ok (items ! i)" "item_ok (items ! j)"
    and len: "length (concat (map item_bytes items)) < 2 ^ 32"
    and lim: "lim_ok lim (length pre + length (concat (map item_bytes items)))" and mem: "mem = pre @ concat (map item_bytes items) @ post"
  shows "\<exists>u u'. wt_cell_unpack_safe mem lim (length pre + cell_start items i) = Some (Inr u) \<and> unat (cu_len u) = length (item_bytes (items ! i)) \<and>
    u = u'\<lparr>cu_raw := WT_CELL_VALUE_COPY, cu_len := cu_len u, cu_v := count_of rle\<rparr> \<and> cell_view mem u' = item_view (items ! j)"
proof -
  have j': "j < i" "\<not> is_copy (items ! j)" "cell_start items i = cell_start items j + back" using j it by (simp_all add: copy_of_def)
  have jl: "j < length items" using i j'(1) by simp
  obtain u' where u': "wt_cell_unpack_safe mem lim (length pre + cell_start items j) = Some (Inr u')" "cell_view mem u' = item_view (items ! j)"
    using unpack_item [OF jl ok(2) j'(2) lim mem] by blast
  obtain p r where p: "mem = p @ item_bytes (items ! i) @ r" "length p = length pre + cell_start items i" by (rule page_split [OF i mem])
  have b: "item_bytes (items ! i) = wt_cell_pack_copy rle (of_nat back)" by (simp add: it item_bytes_def)
  have "cell_start items i \<le> length (concat (map item_bytes items))" using cell_start_mono [of i "length items" items] i cell_start_all [of items] by simp
  then have "back < 2 ^ 63" using j'(3) len by simp
  then have bk: "unat (of_nat back :: u64) = back" by (rule unat_small)
  have "lim_ok lim (length p + length (wt_cell_pack_copy rle (of_nat back)))" using lim_ok_item [OF lim i] p(2) b by simp
  from parse_copy [OF this p(1) [unfolded b]] have "cell_parse mem lim (length pre + cell_start items i) =
    Inr (Cell_Copy (of_nat (length (item_bytes (items ! i)))) (count_of rle) (of_nat back))" unfolding p(2) b .
  moreover have "unat (of_nat (length (item_bytes (items ! i))) :: u32) = length (item_bytes (items ! i))"
    using ok(1) by (simp add: item_ok_def unsigned_of_nat take_bit_nat_eq_self)
  ultimately show ?thesis using u' j'(3) bk
    by (subst wt_cell_unpack_safe.simps) auto
qed

lemma unpack_page:
  assumes i: "i < length items" and ok: "cells_ok items" and lim: "lim_ok lim (length pre + length (concat (map item_bytes items)))"
    and mem: "mem = pre @ concat (map item_bytes items) @ post"
  shows "\<exists>u. wt_cell_unpack_safe mem lim (length pre + cell_start items i) = Some (Inr u) \<and> unat (cu_len u) = length (item_bytes (items ! i)) \<and>
    cell_view mem u = cells_view items i"
proof -
  have oks: "item_ok (items ! k)" if "k < length items" for k using ok that by (simp add: cells_ok_def)
  show ?thesis
  proof (cases "is_copy (items ! i)")
    case False
    then have "cells_view items i = item_view (items ! i)" by (cases "items ! i") (simp_all add: cells_view_def)
    then show ?thesis using unpack_item [OF i oks [OF i] False lim mem] by simp
  next
    case True
    then obtain rle off where it: "items ! i = Item_Copy rle off" by (cases "items ! i") auto
    obtain j0 where "j0 < i" "copy_of items i j0" using ok i True by (auto simp: cells_ok_def)
    then have "filter (copy_of items i) [0..<i] \<noteq> []" by (auto simp: filter_empty_conv)
    then obtain j js where f: "filter (copy_of items i) [0..<i] = j # js" by (cases "filter (copy_of items i) [0..<i]") auto
    then have "j \<in> set (filter (copy_of items i) [0..<i])" by simp
    then have j: "copy_of items i j" "j < length items" using i by auto
    have len: "length (concat (map item_bytes items)) < 2 ^ 32" using ok by (simp add: cells_ok_def)
    obtain u u' where u: "wt_cell_unpack_safe mem lim (length pre + cell_start items i) = Some (Inr u)" "unat (cu_len u) = length (item_bytes (items ! i))"
        "u = u'\<lparr>cu_raw := WT_CELL_VALUE_COPY, cu_len := cu_len u, cu_v := count_of rle\<rparr>" "cell_view mem u' = item_view (items ! j)"
      using unpack_copy [OF i it j(1) oks [OF i] oks [OF j(2)] len lim mem] by blast
    have "cell_view mem u = cells_view items i"
      using u(4) by (subst u(3)) (auto simp: cells_view_def it f cell_view_def split: prod.splits)
    then show ?thesis using u(1,2) by blast
  qed
qed

lemma cell_walk_page:
  assumes ok: "cells_ok items" and lim: "lim_ok lim (length pre + length (concat (map item_bytes items)))"
    and mem: "mem = pre @ concat (map item_bytes items) @ post" and n: "i + n = length items"
  shows "\<exists>us. cell_walk mem lim n (length pre + cell_start items i) = Some (Inr us) \<and> map (cell_view mem) us = map (cells_view items) [i..<length items]"
  using n
proof (induction n arbitrary: i)
  case (Suc n)
  then have i: "i < length items" by simp
  obtain u where u: "wt_cell_unpack_safe mem lim (length pre + cell_start items i) = Some (Inr u)" "unat (cu_len u) = length (item_bytes (items ! i))"
      "cell_view mem u = cells_view items i"
    using unpack_page [OF i ok lim mem] by blast
  obtain us where "cell_walk mem lim n (length pre + cell_start items (Suc i)) = Some (Inr us)"
      "map (cell_view mem) us = map (cells_view items) [Suc i..<length items]"
    using Suc.IH [of "Suc i"] Suc.prems by auto
  then show ?case using u i by (simp add: cell_start_Suc add.assoc upt_conv_Cons)
qed simp

text \<open>
  C27: the cells of a page are read back as they were packed: for any list of addresses, values, copies of earlier
  values, deleted values, keys and overflow items, the walk over the memory of the page returns, ends after the last
  item whether or not a page end is given, and each cell has the type, the run length or record number, the prefix and
  the data of its item, a copy those of the item it refers to with its own run length.
\<close>

theorem cell_walk_items:
  assumes "cells_ok items" "lim_ok lim (length pre + length (concat (map item_bytes items)))"
    "mem = pre @ concat (map item_bytes items) @ post"
  shows "\<exists>us. cell_walk mem lim (length items) (length pre) = Some (Inr us) \<and>
    map (cell_view mem) us = map (cells_view items) [0..<length items]"
  using cell_walk_page [OF assms, of 0 "length items"] by (simp add: cell_start_def)

theorem cell_walk_items_witness:
  "\<exists>us. cell_walk [0x06, 0x00, 0x61, 0x05, 0x78, 0x79, 0x74, 0x85, 0x83, 0x34, 0x82] (Some 11) 4 0 = Some (Inr us) \<and>
    map (cell_view [0x06, 0x00, 0x61, 0x05, 0x78, 0x79, 0x74, 0x85, 0x83, 0x34, 0x82]) us =
      [(WT_CELL_KEY, WT_CELL_KEY_SHORT, 0, 0, False, Some [0x61]), (WT_CELL_VALUE, WT_CELL_VALUE_SHORT, 0, 0, False, Some [0x78, 0x79]),
       (WT_CELL_VALUE, WT_CELL_VALUE_COPY, 5, 0, False, Some [0x78, 0x79]), (WT_CELL_DEL, WT_CELL_DEL, 2, 0, False, Some [])]"
proof -
  let ?it = "[Item_Key 0 [0x61], Item_Data 0 [0x78, 0x79], Item_Copy 5 3, Item_Del 2]"
  have len: "map (length \<circ> item_bytes) ?it = [3, 3, 3, 2]" by code_simp
  have l: "length (item_bytes (Item_Key 0 [0x61])) = 3" "length (item_bytes (Item_Data 0 [0x78, 0x79])) = 3"
    "length (item_bytes (Item_Copy 5 3)) = 3" "length (item_bytes (Item_Del 2)) = 2" using len by simp_all
  have c: "copy_of ?it 2 1" using l by (simp add: copy_of_def cell_start_def)
  have "i = 2" if "i < length ?it" "is_copy (?it ! i)" for i using that by (auto simp: less_Suc_eq numeral_eq_Suc)
  then have "\<exists>j<i. copy_of ?it i j" if "i < length ?it" "is_copy (?it ! i)" for i using that c by (metis one_less_numeral_iff semiring_norm(76))
  moreover have "\<forall>it\<in>set ?it. item_ok it" using l by (simp add: item_ok_def)
  moreover have "length (concat (map item_bytes ?it)) < 2 ^ 32" using l by simp
  ultimately have "cells_ok ?it" unfolding cells_ok_def by blast
  moreover have "lim_ok (Some 11) (length ([] :: bytes) + length (concat (map item_bytes ?it)))" using l by (simp add: lim_ok_def)
  moreover have v: "map (cells_view ?it) [0..<length ?it] = [(WT_CELL_KEY, WT_CELL_KEY_SHORT, 0, 0, False, Some [0x61]), (WT_CELL_VALUE, WT_CELL_VALUE_SHORT, 0, 0, False, Some [0x78, 0x79]),
       (WT_CELL_VALUE, WT_CELL_VALUE_COPY, 5, 0, False, Some [0x78, 0x79]), (WT_CELL_DEL, WT_CELL_DEL, 2, 0, False, Some [])]" by code_simp
  moreover have "[0x06, 0x00, 0x61, 0x05, 0x78, 0x79, 0x74, 0x85, 0x83, 0x34, 0x82] = [] @ concat (map item_bytes ?it) @ []" by code_simp
  ultimately have "\<exists>us. cell_walk [0x06, 0x00, 0x61, 0x05, 0x78, 0x79, 0x74, 0x85, 0x83, 0x34, 0x82] (Some 11) (length ?it) (length ([] :: bytes)) = Some (Inr us) \<and>
    map (cell_view [0x06, 0x00, 0x61, 0x05, 0x78, 0x79, 0x74, 0x85, 0x83, 0x34, 0x82]) us = map (cells_view ?it) [0..<length ?it]"
    using cell_walk_items [of ?it "Some 11" "[]" _ "[]"] by blast
  moreover have "length ?it = 4" by simp
  ultimately show ?thesis using v by (simp only: list.size)
qed
end
