(* ===== verification/Wt_Verify_Dsk.thy ===== *)
theory Wt_Verify_Dsk imports Wt_Block_IO Wt_Cell begin

text \<open>
  Verification of a page image (\<open>src/src/btree/bt_vrfy_dsk.c\<close>): the header, the cells of the internal and leaf pages of
  both stores, and the pages that are a chunk of data. The page is the memory of the buffer, a list of bytes; a read
  outside it is \<open>OUT_OF_BOUNDS\<close>. Messages are not modelled: a complaint is \<open>WT_ERROR\<close>.
\<close>

section \<open>Pages\<close>

definition WT_PAGE_INVALID :: u8 where "WT_PAGE_INVALID = 0"
definition WT_PAGE_COL_FIX :: u8 where "WT_PAGE_COL_FIX = 2"
definition WT_PAGE_COL_INT :: u8 where "WT_PAGE_COL_INT = 3"
definition WT_PAGE_COL_VAR :: u8 where "WT_PAGE_COL_VAR = 4"
definition WT_PAGE_OVFL :: u8 where "WT_PAGE_OVFL = 5"
definition WT_PAGE_ROW_INT :: u8 where "WT_PAGE_ROW_INT = 6"
definition WT_PAGE_ROW_LEAF :: u8 where "WT_PAGE_ROW_LEAF = 7"

lemmas page_types = WT_PAGE_INVALID_def WT_PAGE_BLOCK_MANAGER_def WT_PAGE_COL_FIX_def WT_PAGE_COL_INT_def WT_PAGE_COL_VAR_def
  WT_PAGE_OVFL_def WT_PAGE_ROW_INT_def WT_PAGE_ROW_LEAF_def

definition dsk_recno :: "bool \<Rightarrow> bytes \<Rightarrow> u64" where
  "dsk_recno be img = from_bytes be (get_at 0 8 img)"

definition dsk_entries :: "bool \<Rightarrow> bytes \<Rightarrow> u32" where
  "dsk_entries be img = from_bytes be (get_at 12 4 img)"

definition dsk_type :: "bytes \<Rightarrow> u8" where
  "dsk_type img = img ! 16"

text \<open>
  What the checks use of the tree: the byte order of the machine, the size of the block manager's header, the bits of a
  fixed-length column-store entry, the allocation size and the size of the file, the collator (an extension, \<open>None\<close> for
  the lexicographic order), the decoder of Huffman-encoded keys, and the block manager's read of an address.
\<close>

record dsk_btree =
  db_be :: bool
  db_block_header :: nat
  db_bitcnt :: u8
  db_allocsize :: u32
  db_file_size :: int
  db_collator :: "(bytes \<Rightarrow> bytes \<Rightarrow> int result) option"
  db_huffman_key :: "(bytes \<Rightarrow> bytes result) option"
  db_bm_read :: "bytes \<Rightarrow> bytes result"

definition WT_PAGE_HEADER_BYTE :: "dsk_btree \<Rightarrow> nat" where
  "WT_PAGE_HEADER_BYTE btree = WT_PAGE_HEADER_SIZE + db_block_header btree"

definition WT_BTREE_CMP :: "dsk_btree \<Rightarrow> bytes \<Rightarrow> bytes \<Rightarrow> int result" where
  "WT_BTREE_CMP btree k1 k2 = (case db_collator btree of None \<Rightarrow> Inr (wt_btree_lex_compare k1 k2) | Some cmp \<Rightarrow> cmp k1 k2)"

text \<open>\<open>__wt_bm_addr_valid\<close> as its callers here use it: an error code is not zero, so it counts as valid.\<close>

definition bm_addr_valid :: "dsk_btree \<Rightarrow> bytes \<Rightarrow> bool result" where
  "bm_addr_valid btree addr =
     (case wt_block_addr_valid (db_allocsize btree) (db_file_size btree) addr of
        Inl OUT_OF_BOUNDS \<Rightarrow> Inl OUT_OF_BOUNDS
      | Inl _ \<Rightarrow> Inr True
      | Inr b \<Rightarrow> Inr b)"

text \<open>The data of a cell, and the item of a page that is a chunk of data.\<close>

definition mem_range :: "bytes \<Rightarrow> nat \<Rightarrow> nat \<Rightarrow> bytes result" where
  "mem_range mem p n = (if p + n \<le> length mem then Inr (take n (drop p mem)) else Inl OUT_OF_BOUNDS)"

definition ovfl_read :: "dsk_btree \<Rightarrow> bytes \<Rightarrow> bytes result" where
  "ovfl_read btree addr =
     wt_ret (db_bm_read btree addr) (\<lambda>img. mem_range img (WT_PAGE_HEADER_BYTE btree) (unat (dsk_entries (db_be btree) img)))"

text \<open>\<open>__wt_cell_unpack_copy\<close> of a key.\<close>

definition cell_key_copy :: "dsk_btree \<Rightarrow> bytes \<Rightarrow> wt_cell_unpack \<Rightarrow> bytes result" where
  "cell_key_copy btree mem unpack =
     wt_ret (if cu_type unpack = WT_CELL_KEY_OVFL then ovfl_read btree (drop (cu_data unpack) mem)
             else mem_range mem (cu_data unpack) (unat (cu_size unpack))) (\<lambda>d.
       case db_huffman_key btree of None \<Rightarrow> Inr d | Some dec \<Rightarrow> dec d)"

section \<open>Cells\<close>

definition err_cell_type :: "u8 \<Rightarrow> u8 \<Rightarrow> unit result" where
  "err_cell_type cell_type dsk =
     (if cell_type \<in> {WT_CELL_ADDR, WT_CELL_ADDR_DEL, WT_CELL_ADDR_LNO} then
        (if dsk = WT_PAGE_COL_INT \<or> dsk = WT_PAGE_ROW_INT then Inr () else Inl WT_ERROR)
      else if cell_type = WT_CELL_DEL then (if dsk = WT_PAGE_COL_VAR then Inr () else Inl WT_ERROR)
      else if cell_type \<in> {WT_CELL_KEY, WT_CELL_KEY_OVFL, WT_CELL_KEY_SHORT} then
        (if dsk = WT_PAGE_ROW_INT \<or> dsk = WT_PAGE_ROW_LEAF then Inr () else Inl WT_ERROR)
      else if cell_type \<in> {WT_CELL_VALUE, WT_CELL_VALUE_COPY, WT_CELL_VALUE_OVFL, WT_CELL_VALUE_SHORT} then
        (if dsk = WT_PAGE_COL_VAR \<or> dsk = WT_PAGE_ROW_LEAF then Inr () else Inl WT_ERROR)
      else Inl WT_ERROR)"

definition check_types :: "u8 \<Rightarrow> wt_cell_unpack \<Rightarrow> unit result" where
  "check_types dsk unpack = wt_ret (err_cell_type (cu_raw unpack) dsk) (\<lambda>_. err_cell_type (cu_type unpack) dsk)"

text \<open>
  \<open>WT_CELL_FOREACH\<close> with the safe unpacking: any error of the unpacking is a corrupted cell, a failure of the body ends
  the walk.
\<close>

fun dsk_foreach :: "(wt_cell_unpack \<Rightarrow> 's \<Rightarrow> 's result) \<Rightarrow> bytes \<Rightarrow> nat \<Rightarrow> nat \<Rightarrow> nat \<Rightarrow> 's \<Rightarrow> 's result option" where
  "dsk_foreach body mem e 0 cell s = Some (Inr s)"
| "dsk_foreach body mem e (Suc n) cell s =
     Option.bind (wt_cell_unpack_safe mem (Some e) cell) (\<lambda>r.
       case r of
         Inl err \<Rightarrow> Some (Inl (if err = OUT_OF_BOUNDS then OUT_OF_BOUNDS else WT_ERROR))
       | Inr unpack \<Rightarrow>
           (case body unpack s of
              Inl err \<Rightarrow> Some (Inl err)
            | Inr s' \<Rightarrow> dsk_foreach body mem e n (cell + unat (cu_len unpack)) s'))"

definition dsk_walk :: "dsk_btree \<Rightarrow> bytes \<Rightarrow> (wt_cell_unpack \<Rightarrow> 's \<Rightarrow> 's result) \<Rightarrow> 's \<Rightarrow> unit result option" where
  "dsk_walk btree mem body s =
     Option.bind (dsk_foreach body mem (unat (dsk_size (db_be btree) mem)) (unat (dsk_entries (db_be btree) mem)) (WT_PAGE_HEADER_BYTE btree) s)
       (\<lambda>r. Some (wt_ret r (\<lambda>_. Inr ())))"

section \<open>Row-store pages\<close>

datatype last_cell = FIRST | WAS_KEY | WAS_VALUE

text \<open>
  The key buffers: \<open>current\<close>, \<open>last_pfx\<close> and \<open>last_ovfl\<close> are three different buffers and \<open>last\<close> is one of the last two, so the
  values of \<open>last\<close> and \<open>last_pfx\<close> are enough: \<open>current\<close> is written before it is read, \<open>last_ovfl\<close> is never read.
\<close>

record row_state =
  rs_last_type :: last_cell
  rs_num :: nat
  rs_last :: bytes
  rs_pfx :: bytes

definition row_start :: row_state where
  "row_start = \<lparr>rs_last_type = FIRST, rs_num = 0, rs_last = [], rs_pfx = []\<rparr>"

definition row_order :: "u8 \<Rightarrow> u8 \<Rightarrow> last_cell \<Rightarrow> last_cell result" where
  "row_order dsk cell_type l =
     (if cell_type = WT_CELL_KEY \<or> cell_type = WT_CELL_KEY_OVFL then
        (if l = WAS_KEY \<and> dsk \<noteq> WT_PAGE_ROW_LEAF then Inl WT_ERROR else Inr WAS_KEY)
      else if cell_type = WT_CELL_ADDR \<or> cell_type = WT_CELL_VALUE \<or> cell_type = WT_CELL_VALUE_OVFL then
        (if l = WAS_KEY then Inr WAS_VALUE else Inl WT_ERROR)
      else Inr l)"

definition row_ref :: "dsk_btree \<Rightarrow> bytes \<Rightarrow> wt_cell_unpack \<Rightarrow> unit result" where
  "row_ref btree mem unpack =
     (if cu_type unpack = WT_CELL_ADDR \<or> cu_type unpack = WT_CELL_KEY_OVFL \<or> cu_type unpack = WT_CELL_VALUE_OVFL then
        wt_ret (bm_addr_valid btree (drop (cu_data unpack) mem)) (\<lambda>ok. if ok then Inr () else Inl WT_ERROR)
      else Inr ())"

text \<open>The key of a cell that is not an overflow cell: \<open>size\<close> of a buffer is 32 bits wide.\<close>

definition row_key :: "dsk_btree \<Rightarrow> bytes \<Rightarrow> wt_cell_unpack \<Rightarrow> row_state \<Rightarrow> bytes result" where
  "row_key btree mem unpack s =
     (let prefix = unat (cu_prefix unpack) in
      if rs_pfx s = [] \<and> prefix \<noteq> 0 then Inl WT_ERROR
      else if 1 < rs_num s \<and> length (rs_last s) < prefix then Inl WT_ERROR
      else
        wt_ret (cell_key_copy btree mem unpack) (\<lambda>d.
          if unat (of_nat (prefix + length d) :: u32) \<noteq> prefix + length d then Inl OUT_OF_BOUNDS else Inr (take prefix (rs_last s) @ d)))"

definition row_compare :: "dsk_btree \<Rightarrow> u8 \<Rightarrow> nat \<Rightarrow> bytes \<Rightarrow> bytes \<Rightarrow> unit result" where
  "row_compare btree dsk cell_num l current =
     (if (dsk = WT_PAGE_ROW_INT \<and> 3 < cell_num) \<or> (dsk \<noteq> WT_PAGE_ROW_INT \<and> 1 < cell_num) then
        wt_ret (WT_BTREE_CMP btree l current) (\<lambda>cmp. if 0 \<le> cmp then Inl WT_ERROR else Inr ())
      else Inr ())"

definition row_cell :: "dsk_btree \<Rightarrow> u8 \<Rightarrow> bytes \<Rightarrow> wt_cell_unpack \<Rightarrow> row_state \<Rightarrow> row_state result" where
  "row_cell btree dsk mem unpack s =
     (let s = s\<lparr>rs_num := rs_num s + 1\<rparr>; cell_type = cu_type unpack in
      wt_ret (check_types dsk unpack) (\<lambda>_.
      wt_ret (row_order dsk cell_type (rs_last_type s)) (\<lambda>l.
        let s = s\<lparr>rs_last_type := l\<rparr> in
      wt_ret (row_ref btree mem unpack) (\<lambda>_.
        if cell_type = WT_CELL_KEY \<or> cell_type = WT_CELL_KEY_OVFL then
          wt_ret (if cell_type = WT_CELL_KEY_OVFL then cell_key_copy btree mem unpack else row_key btree mem unpack s) (\<lambda>current.
          wt_ret (row_compare btree dsk (rs_num s) (rs_last s) current) (\<lambda>_.
            Inr (s\<lparr>rs_last := current, rs_pfx := if cell_type = WT_CELL_KEY then current else rs_pfx s\<rparr>)))
        else Inr s))))"

definition verify_dsk_row :: "dsk_btree \<Rightarrow> bytes \<Rightarrow> unit result option" where
  "verify_dsk_row btree mem = dsk_walk btree mem (row_cell btree (dsk_type mem) mem) row_start"

section \<open>Column-store pages\<close>

definition col_int_cell :: "dsk_btree \<Rightarrow> u8 \<Rightarrow> bytes \<Rightarrow> wt_cell_unpack \<Rightarrow> unit \<Rightarrow> unit result" where
  "col_int_cell btree dsk mem unpack _ =
     wt_ret (check_types dsk unpack) (\<lambda>_.
     wt_ret (bm_addr_valid btree (drop (cu_data unpack) mem)) (\<lambda>ok. if ok then Inr () else Inl WT_ERROR))"

definition verify_dsk_col_int :: "dsk_btree \<Rightarrow> bytes \<Rightarrow> unit result option" where
  "verify_dsk_col_int btree mem = dsk_walk btree mem (col_int_cell btree (dsk_type mem) mem) ()"

record var_state =
  vs_last_data :: "nat option"
  vs_last_size :: u32
  vs_last_deleted :: bool

definition var_start :: var_state where
  "var_start = \<lparr>vs_last_data = None, vs_last_size = 0, vs_last_deleted = False\<rparr>"

definition var_match :: "bytes \<Rightarrow> wt_cell_unpack \<Rightarrow> var_state \<Rightarrow> bool result" where
  "var_match mem unpack s =
     (if vs_last_deleted s then Inr (cu_type unpack = WT_CELL_DEL)
      else
        (case vs_last_data s of
           Some p \<Rightarrow>
             if cu_type unpack = WT_CELL_VALUE \<and> vs_last_size s = cu_size unpack
             then cell_memcmp (drop p mem) (drop (cu_data unpack) mem) (ucast (vs_last_size s))
             else Inr False
         | None \<Rightarrow> Inr False))"

definition var_next :: "wt_cell_unpack \<Rightarrow> var_state \<Rightarrow> var_state" where
  "var_next unpack s =
     (if cu_type unpack = WT_CELL_DEL then s\<lparr>vs_last_deleted := True, vs_last_data := None\<rparr>
      else if cu_type unpack = WT_CELL_VALUE_OVFL then s\<lparr>vs_last_deleted := False, vs_last_data := None\<rparr>
      else if cu_type unpack = WT_CELL_VALUE then
        s\<lparr>vs_last_deleted := False, vs_last_data := Some (cu_data unpack), vs_last_size := cu_size unpack\<rparr>
      else s)"

definition col_var_cell :: "dsk_btree \<Rightarrow> u8 \<Rightarrow> bytes \<Rightarrow> wt_cell_unpack \<Rightarrow> var_state \<Rightarrow> var_state result" where
  "col_var_cell btree dsk mem unpack s =
     wt_ret (check_types dsk unpack) (\<lambda>_.
     wt_ret (if cu_type unpack = WT_CELL_VALUE_OVFL then
               wt_ret (bm_addr_valid btree (drop (cu_data unpack) mem)) (\<lambda>ok. if ok then Inr () else Inl WT_ERROR)
             else Inr ()) (\<lambda>_.
     wt_ret (var_match mem unpack s) (\<lambda>same. if same then Inl WT_ERROR else Inr (var_next unpack s))))"

definition verify_dsk_col_var :: "dsk_btree \<Rightarrow> bytes \<Rightarrow> unit result option" where
  "verify_dsk_col_var btree mem = dsk_walk btree mem (col_var_cell btree (dsk_type mem) mem) var_start"

section \<open>Chunks of data\<close>

definition verify_dsk_chunk :: "dsk_btree \<Rightarrow> bytes \<Rightarrow> u32 \<Rightarrow> unit result" where
  "verify_dsk_chunk btree mem datalen =
     (let e = unat (dsk_size (db_be btree) mem); p = WT_PAGE_HEADER_BYTE btree + unat datalen in
      if datalen = 0 then Inl WT_ERROR
      else if e < p then Inl WT_ERROR
      else if list_ex (\<lambda>b. b \<noteq> 0) (drop p (take e mem)) then Inl WT_ERROR
      else Inr ())"

text \<open>\<open>__bitstr_size\<close> of a product that is 32 bits wide.\<close>

definition verify_dsk_col_fix :: "dsk_btree \<Rightarrow> bytes \<Rightarrow> unit result" where
  "verify_dsk_col_fix btree mem =
     verify_dsk_chunk btree mem (drop_bit 3 (ucast (db_bitcnt btree) * dsk_entries (db_be btree) mem + 7))"

section \<open>A page\<close>

text \<open>The loop over the unused bytes of the header: \<open>p\<close> is not moved.\<close>

fun unused_loop :: "bytes \<Rightarrow> nat \<Rightarrow> nat \<Rightarrow> unit result" where
  "unused_loop mem p 0 = Inr ()"
| "unused_loop mem p (Suc i) = (if mem ! p \<noteq> 0 then Inl WT_ERROR else unused_loop mem p i)"

definition wt_verify_dsk :: "dsk_btree \<Rightarrow> bytes \<Rightarrow> unit result option" where
  "wt_verify_dsk btree mem =
     (if length mem < WT_PAGE_HEADER_SIZE then Some (Inl OUT_OF_BOUNDS)
      else
        let ty = dsk_type mem; be = db_be btree in
        if ty \<notin> {WT_PAGE_BLOCK_MANAGER, WT_PAGE_COL_FIX, WT_PAGE_COL_INT, WT_PAGE_COL_VAR, WT_PAGE_OVFL, WT_PAGE_ROW_INT, WT_PAGE_ROW_LEAF}
        then Some (Inl WT_ERROR)
        else if ty \<in> {WT_PAGE_COL_FIX, WT_PAGE_COL_INT, WT_PAGE_COL_VAR} \<and> dsk_recno be mem = 0 then Some (Inl WT_ERROR)
        else if ty \<notin> {WT_PAGE_COL_FIX, WT_PAGE_COL_INT, WT_PAGE_COL_VAR} \<and> dsk_recno be mem \<noteq> 0 then Some (Inl WT_ERROR)
        else if dsk_size be mem \<noteq> of_nat (length mem) then Some (Inl WT_ERROR)
        else if unused_loop mem 17 3 \<noteq> Inr () then Some (Inl WT_ERROR)
        else if ty = WT_PAGE_COL_INT then verify_dsk_col_int btree mem
        else if ty = WT_PAGE_COL_FIX then Some (verify_dsk_col_fix btree mem)
        else if ty = WT_PAGE_COL_VAR then verify_dsk_col_var btree mem
        else if ty = WT_PAGE_ROW_INT \<or> ty = WT_PAGE_ROW_LEAF then verify_dsk_row btree mem
        else Some (verify_dsk_chunk btree mem (dsk_entries be mem)))"

section \<open>Walks as folds\<close>

fun cell_fold :: "(wt_cell_unpack \<Rightarrow> 's \<Rightarrow> 's result) \<Rightarrow> wt_cell_unpack list \<Rightarrow> 's \<Rightarrow> 's result" where
  "cell_fold body [] s = Inr s"
| "cell_fold body (u # us) s = wt_ret (body u s) (cell_fold body us)"

lemma cell_fold_snoc: "cell_fold body (us @ [u]) s = wt_ret (cell_fold body us s) (body u)"
proof (induction us arbitrary: s)
  case Nil
  then show ?case by (cases "body u s") simp_all
next
  case (Cons v us)
  then show ?case by (cases "body v s") simp_all
qed

lemma cell_walk_SucE:
  assumes "cell_walk mem lim (Suc n) cell = Some (Inr us)"
  obtains u vs where "wt_cell_unpack_safe mem lim cell = Some (Inr u)" "cell_walk mem lim n (cell + unat (cu_len u)) = Some (Inr vs)" "us = u # vs"
proof -
  obtain r where r: "wt_cell_unpack_safe mem lim cell = Some r" using assms by (cases "wt_cell_unpack_safe mem lim cell") auto
  then obtain u where u: "r = Inr u" using assms by (cases r) auto
  show thesis using that assms r u by (auto simp: bind_eq_Some_conv wt_ret_Inr_iff)
qed

lemma foreach_walk: "cell_walk mem (Some e) n cell = Some (Inr us) \<Longrightarrow> dsk_foreach body mem e n cell s = Some (cell_fold body us s)"
proof (induction n arbitrary: cell us s)
  case (Suc n)
  from Suc.prems obtain u vs where u: "wt_cell_unpack_safe mem (Some e) cell = Some (Inr u)"
      "cell_walk mem (Some e) n (cell + unat (cu_len u)) = Some (Inr vs)" "us = u # vs" by (rule cell_walk_SucE)
  show ?case using Suc.IH [OF u(2)] u(1,3) by (cases "body u s") simp_all
qed simp

lemma foreach_accepts: "dsk_foreach body mem e n cell s = Some (Inr s') \<Longrightarrow> \<exists>us. cell_walk mem (Some e) n cell = Some (Inr us)"
proof (induction n arbitrary: cell s)
  case (Suc n)
  obtain r where r: "wt_cell_unpack_safe mem (Some e) cell = Some r" using Suc.prems by (cases "wt_cell_unpack_safe mem (Some e) cell") auto
  then obtain u where u: "r = Inr u" using Suc.prems by (cases r) (auto split: if_splits)
  then obtain s1 where "body u s = Inr s1" using Suc.prems r by (cases "body u s") auto
  then have "dsk_foreach body mem e n (cell + unat (cu_len u)) s1 = Some (Inr s')" using Suc.prems r u by simp
  from Suc.IH [OF this] show ?case using r u by auto
qed simp

section \<open>Types of unpacked cells\<close>

lemma raw_type:
  "wt_cell_type_raw c \<notin> {WT_CELL_KEY_SHORT, WT_CELL_VALUE_SHORT} \<Longrightarrow> wt_cell_type c = base_type (wt_cell_type_raw c)"
  "wt_cell_type_raw c = WT_CELL_KEY_SHORT \<Longrightarrow> wt_cell_type c = WT_CELL_KEY" "wt_cell_type_raw c = WT_CELL_VALUE_SHORT \<Longrightarrow> wt_cell_type c = WT_CELL_VALUE"
proof -
  have m: "WT_CELL_TYPE c \<noteq> WT_CELL_KEY_SHORT" "WT_CELL_TYPE c \<noteq> WT_CELL_VALUE_SHORT"
  proof -
    have "\<not> bit (0xf0 :: u8) 0" "\<not> bit (0xf0 :: u8) 1" by simp_all
    then have "\<not> bit (WT_CELL_TYPE c) 0" "\<not> bit (WT_CELL_TYPE c) 1" by (simp_all add: WT_CELL_TYPE_def bit_and_iff)
    then show "WT_CELL_TYPE c \<noteq> WT_CELL_KEY_SHORT" "WT_CELL_TYPE c \<noteq> WT_CELL_VALUE_SHORT"
      by (auto simp: cell_consts bit_simps)
  qed
  have ne: "WT_CELL_VALUE_SHORT \<noteq> WT_CELL_KEY_SHORT" by (simp add: cell_consts)
  show "wt_cell_type_raw c \<notin> {WT_CELL_KEY_SHORT, WT_CELL_VALUE_SHORT} \<Longrightarrow> wt_cell_type c = base_type (wt_cell_type_raw c)"
    by (auto simp: wt_cell_type_def wt_cell_type_raw_def base_type_def Let_def split: if_splits)
  show "wt_cell_type_raw c = WT_CELL_KEY_SHORT \<Longrightarrow> wt_cell_type c = WT_CELL_KEY" "wt_cell_type_raw c = WT_CELL_VALUE_SHORT \<Longrightarrow> wt_cell_type c = WT_CELL_VALUE"
    using m ne by (auto simp: wt_cell_type_def wt_cell_type_raw_def split: if_splits)
qed

definition cell_types :: "u8 set" where
  "cell_types = {WT_CELL_ADDR, WT_CELL_DEL, WT_CELL_KEY, WT_CELL_KEY_OVFL, WT_CELL_VALUE, WT_CELL_VALUE_OVFL}"

lemma cell_done_type: "cell_done lim u = Inr (Cell_Done v) \<Longrightarrow> cu_type v = cu_type u"
  by (auto simp: cell_done_def split: if_splits)

lemma cell_parse_type:
  assumes "cell_parse mem lim cell = Inr (Cell_Done u)"
  shows "cu_type u \<in> cell_types"
proof -
  obtain c where c: "mem_at mem cell = Inr c" using assms by (auto simp: cell_parse_def wt_ret_Inr_iff split: if_splits)
  have t: "cu_type u = wt_cell_type c \<and> wt_cell_type_raw c \<in> {WT_CELL_KEY_SHORT, WT_CELL_VALUE_SHORT} \<union> (insert WT_CELL_KEY long_types - {WT_CELL_VALUE_COPY})"
    using assms unfolding cell_parse_def c wt_ret_simps Let_def
    by (auto simp: wt_ret_Inr_iff dest!: cell_done_type split: if_splits)
  show ?thesis
  proof (cases "wt_cell_type_raw c \<in> {WT_CELL_KEY_SHORT, WT_CELL_VALUE_SHORT}")
    case True
    then show ?thesis using t raw_type(2,3) [of c] by (auto simp: cell_types_def)
  next
    case False
    then show ?thesis using t raw_type(1) [OF False] by (auto simp: base_type_def cell_types_def cell_consts)
  qed
qed

lemma unpack_type:
  assumes "wt_cell_unpack_safe mem lim cell = Some (Inr u)"
  shows "cu_type u \<in> cell_types"
proof -
  let ?P = "\<lambda>mem lim cell (r :: wt_cell_unpack result). \<forall>u. r = Inr u \<longrightarrow> cu_type u \<in> cell_types"
  have "?P mem lim cell (Inr u)"
    by (rule wt_cell_unpack_safe.raw_induct [where P = ?P, OF _ assms])
      (auto simp: bind_eq_Some_conv wt_ret_Inr_iff dest: cell_parse_type split: sum.splits cell_step.splits if_splits)
  then show ?thesis by blast
qed

lemma walk_types: "cell_walk mem lim n cell = Some (Inr us) \<Longrightarrow> \<forall>u\<in>set us. cu_type u \<in> cell_types"
proof (induction n arbitrary: cell us)
  case (Suc n)
  from Suc.prems obtain u vs where u: "wt_cell_unpack_safe mem lim cell = Some (Inr u)"
      "cell_walk mem lim n (cell + unat (cu_len u)) = Some (Inr vs)" "us = u # vs" by (rule cell_walk_SucE)
  show ?case using Suc.IH [OF u(2)] unpack_type [OF u(1)] u(3) by simp
qed simp

section \<open>What is accepted on row-store pages\<close>

definition lex_less :: "bytes \<Rightarrow> bytes \<Rightarrow> bool" where
  "lex_less a b \<longleftrightarrow> wt_btree_lex_compare a b < 0"

lemma lex_less_trans: "lex_less a b \<Longrightarrow> lex_less b c \<Longrightarrow> lex_less a c"
proof (induction a arbitrary: b c)
  case Nil
  then show ?case by (cases b; cases c) (auto simp: lex_less_def split: if_splits)
next
  case (Cons x xs)
  then show ?case by (cases b; cases c) (auto simp: lex_less_def split: if_splits)
qed

lemma sorted_snoc:
  assumes "\<And>a b c. R a b \<Longrightarrow> R b c \<Longrightarrow> R a c" "xs \<noteq> []"
  shows "sorted_wrt R (xs @ [x]) \<longleftrightarrow> sorted_wrt R xs \<and> R (last xs) x"
proof -
  have "R a x" if "sorted_wrt R xs" "R (last xs) x" "a \<in> set xs" for a
  proof (cases "a = last xs")
    case False
    have "xs = butlast xs @ [last xs]" using assms(2) by simp
    moreover from this False have "a \<in> set (butlast xs)" using that(3) by (metis in_set_butlast_appendI UnE set_append set_ConsD list.set(1) empty_iff list.set(2) insertE)
    ultimately have "R a (last xs)" using that(1) by (metis sorted_wrt_append list.set_intros(1))
    then show ?thesis using assms(1) that(2) by blast
  qed (use that in simp)
  then show ?thesis using assms(2) by (auto simp: sorted_wrt_append)
qed

definition is_key :: "wt_cell_unpack \<Rightarrow> bool" where
  "is_key u \<longleftrightarrow> cu_type u = WT_CELL_KEY \<or> cu_type u = WT_CELL_KEY_OVFL"

text \<open>A page begins with a key, a value follows a key, and on an internal page no key follows a key.\<close>

definition order_ok :: "u8 \<Rightarrow> wt_cell_unpack list \<Rightarrow> bool" where
  "order_ok dsk us \<longleftrightarrow> (us \<noteq> [] \<longrightarrow> is_key (hd us)) \<and>
     successively (\<lambda>u v. if is_key v then dsk = WT_PAGE_ROW_LEAF \<or> \<not> is_key u else is_key u) us"

text \<open>The keys, each from the prefix of the one before it and its own data, if every prefix is short enough.\<close>

definition cell_data :: "bytes \<Rightarrow> wt_cell_unpack \<Rightarrow> bytes" where
  "cell_data mem u = take (unat (cu_size u)) (drop (cu_data u) mem)"

definition last_key :: "bytes list \<Rightarrow> bytes" where
  "last_key ks = (if ks = [] then [] else last ks)"

definition add_key :: "bytes \<Rightarrow> wt_cell_unpack \<Rightarrow> bytes list \<Rightarrow> bytes list option" where
  "add_key mem u ks =
     (if \<not> is_key u then Some ks
      else if unat (cu_prefix u) \<le> length (last_key ks) then Some (ks @ [take (unat (cu_prefix u)) (last_key ks) @ cell_data mem u])
      else None)"

definition page_keys :: "bytes \<Rightarrow> wt_cell_unpack list \<Rightarrow> bytes list option" where
  "page_keys mem us = foldl (\<lambda>acc u. Option.bind acc (add_key mem u)) (Some []) us"

definition refs_ok :: "dsk_btree \<Rightarrow> bytes \<Rightarrow> wt_cell_unpack list \<Rightarrow> bool" where
  "refs_ok btree mem us \<longleftrightarrow>
     (\<forall>u\<in>set us. cu_type u \<in> {WT_CELL_ADDR, WT_CELL_VALUE_OVFL} \<longrightarrow> bm_addr_valid btree (drop (cu_data u) mem) = Inr True)"

definition keys_sorted :: "u8 \<Rightarrow> bytes list \<Rightarrow> bool" where
  "keys_sorted dsk ks \<longleftrightarrow> sorted_wrt lex_less (if dsk = WT_PAGE_ROW_INT then tl ks else ks)"

definition row_page_ok :: "dsk_btree \<Rightarrow> u8 \<Rightarrow> bytes \<Rightarrow> wt_cell_unpack list \<Rightarrow> bytes list \<Rightarrow> bool" where
  "row_page_ok btree dsk mem us ks \<longleftrightarrow> (\<forall>u\<in>set us. check_types dsk u = Inr ()) \<and> order_ok dsk us \<and> refs_ok btree mem us \<and>
     page_keys mem us = Some ks \<and> keys_sorted dsk ks"

definition row_after :: "wt_cell_unpack list \<Rightarrow> bytes list \<Rightarrow> row_state" where
  "row_after us ks =
     \<lparr>rs_last_type = (if us = [] then FIRST else if is_key (last us) then WAS_KEY else WAS_VALUE), rs_num = length us,
      rs_last = last_key ks, rs_pfx = last_key ks\<rparr>"

lemma page_keys_snoc: "page_keys mem (us @ [u]) = Option.bind (page_keys mem us) (add_key mem u)"
  by (simp add: page_keys_def)

lemma order_ok_snoc:
  "order_ok dsk (us @ [u]) \<longleftrightarrow> order_ok dsk us \<and>
     (if is_key u then us = [] \<or> dsk = WT_PAGE_ROW_LEAF \<or> \<not> is_key (last us) else us \<noteq> [] \<and> is_key (last us))"
  by (cases "us = []") (auto simp: order_ok_def successively_append_iff)

lemma refs_ok_snoc:
  "refs_ok btree mem (us @ [u]) \<longleftrightarrow> refs_ok btree mem us \<and>
     (cu_type u \<in> {WT_CELL_ADDR, WT_CELL_VALUE_OVFL} \<longrightarrow> bm_addr_valid btree (drop (cu_data u) mem) = Inr True)"
  by (auto simp: refs_ok_def)

text \<open>The number of keys on a page.\<close>

lemma keys_some:
  assumes "page_keys mem us = Some ks" "order_ok dsk us" "us \<noteq> []"
  shows "ks \<noteq> []"
proof -
  have "is_key (hd us) \<longrightarrow> us \<noteq> [] \<longrightarrow> (\<forall>ks. page_keys mem us = Some ks \<longrightarrow> ks \<noteq> [])" for us
  proof (induction us rule: rev_induct)
    case (snoc u us)
    then show ?case by (cases "us = []") (auto simp: page_keys_snoc bind_eq_Some_conv add_key_def page_keys_def split: if_splits)
  qed simp
  then show ?thesis using assms by (auto simp: order_ok_def)
qed

lemma keys_count:
  assumes "dsk \<noteq> WT_PAGE_ROW_LEAF" "order_ok dsk us" "page_keys mem us = Some ks"
  shows "2 * length ks = length us + (if us \<noteq> [] \<and> is_key (last us) then 1 else 0)"
  using assms(2,3)
proof (induction us arbitrary: ks rule: rev_induct)
  case (snoc u us)
  then obtain ks' where "page_keys mem us = Some ks'" "add_key mem u ks' = Some ks" by (auto simp: page_keys_snoc bind_eq_Some_conv)
  then show ?case using snoc.IH [of ks'] snoc.prems(1) assms(1)
    by (auto simp: order_ok_snoc add_key_def split: if_splits)
qed (simp add: page_keys_def)

lemma row_order_iff:
  assumes "cu_type u \<in> cell_types - {WT_CELL_DEL}"
  shows "row_order dsk (cu_type u) (rs_last_type (row_after us ks)) = Inr l \<longleftrightarrow>
    (if is_key u then (us = [] \<or> dsk = WT_PAGE_ROW_LEAF \<or> \<not> is_key (last us)) \<and> l = WAS_KEY
     else (us \<noteq> [] \<and> is_key (last us)) \<and> l = WAS_VALUE)"
  using assms by (auto simp: row_order_def is_key_def row_after_def cell_types_def)

lemma row_key_iff:
  assumes "db_huffman_key btree = None" "cu_type u = WT_CELL_KEY" "cu_data u + unat (cu_size u) \<le> length mem" "length mem < 2 ^ 31"
    and "ks \<noteq> [] \<Longrightarrow> us \<noteq> []"
  shows "row_key btree mem u ((row_after us ks)\<lparr>rs_num := length us + 1, rs_last_type := l\<rparr>) = Inr k \<longleftrightarrow>
    unat (cu_prefix u) \<le> length (last_key ks) \<and> k = take (unat (cu_prefix u)) (last_key ks) @ cell_data mem u"
proof -
  have ne: "WT_CELL_KEY \<noteq> WT_CELL_KEY_OVFL" by (simp add: cell_consts)
  have copy: "cell_key_copy btree mem u = Inr (cell_data mem u)"
    using assms(1-3) ne by (simp add: cell_key_copy_def mem_range_def cell_data_def)
  have "unat (cu_prefix u) < 2 ^ 8" using unsigned_less [of "cu_prefix u"] by simp
  moreover have "length (cell_data mem u) \<le> length mem" by (simp add: cell_data_def)
  ultimately have "unat (of_nat (unat (cu_prefix u) + length (cell_data mem u)) :: u32) = unat (cu_prefix u) + length (cell_data mem u)"
    using assms(4) by (simp only: unsigned_of_nat) (simp add: take_bit_nat_eq_self)
  moreover have "(last_key ks = [] \<longrightarrow> unat (cu_prefix u) = 0) \<and> \<not> (1 < length us + 1 \<and> length (last_key ks) < unat (cu_prefix u)) \<longleftrightarrow>
      unat (cu_prefix u) \<le> length (last_key ks)"
    using assms(5) by (cases "ks = []") (auto simp: last_key_def)
  ultimately show ?thesis using copy by (auto simp: row_key_def row_after_def Let_def simp del: of_nat_add)
qed

lemma row_compare_iff:
  assumes dsk: "dsk = WT_PAGE_ROW_INT \<or> dsk = WT_PAGE_ROW_LEAF" and cmp: "db_collator btree = None"
    and us: "order_ok dsk us" "page_keys mem us = Some ks" "keys_sorted dsk ks"
    and u: "us = [] \<or> dsk = WT_PAGE_ROW_LEAF \<or> \<not> is_key (last us)"
  shows "row_compare btree dsk (length us + 1) (last_key ks) k = Inr () \<longleftrightarrow> keys_sorted dsk (ks @ [k])"
proof -
  have ne: "WT_PAGE_ROW_INT \<noteq> WT_PAGE_ROW_LEAF" by (simp add: page_types)
  have c: "wt_ret (WT_BTREE_CMP btree (last_key ks) k) (\<lambda>cmp. if 0 \<le> cmp then Inl WT_ERROR else Inr ()) = Inr () \<longleftrightarrow> lex_less (last_key ks) k"
    by (simp add: WT_BTREE_CMP_def cmp lex_less_def)
  show ?thesis
  proof (cases "dsk = WT_PAGE_ROW_INT")
    case True
    then have n: "2 * length ks = length us" using keys_count [OF _ us(1,2)] u ne by auto
    show ?thesis
    proof (cases "tl ks = []")
      case t: True
      then have "length ks \<le> 1" by (cases ks) auto
      then show ?thesis using True n t by (cases ks) (auto simp: row_compare_def keys_sorted_def)
    next
      case t: False
      then have l: "2 \<le> length ks" "ks \<noteq> []" by (cases ks; cases "tl ks"; auto)+
      have tl: "tl (ks @ [k]) = tl ks @ [k]" "last (tl ks) = last_key ks" using l t by (simp_all add: last_key_def last_tl)
      have "3 < length us + 1" using n l(1) by linarith
      then have "row_compare btree dsk (length us + 1) (last_key ks) k = Inr () \<longleftrightarrow> lex_less (last_key ks) k" using True c by (simp add: row_compare_def)
      moreover have "sorted_wrt lex_less (tl ks)" using us(3) True by (simp add: keys_sorted_def)
      ultimately show ?thesis using True sorted_snoc [OF lex_less_trans t] by (simp add: keys_sorted_def tl)
    qed
  next
    case False
    show ?thesis
    proof (cases "us = []")
      case True
      then show ?thesis using False us(2) by (simp add: row_compare_def keys_sorted_def page_keys_def)
    next
      case f: False
      then have k: "ks \<noteq> []" using keys_some [OF us(2,1)] by simp
      have "row_compare btree dsk (length us + 1) (last_key ks) k = Inr () \<longleftrightarrow> lex_less (last_key ks) k" using False f c by (simp add: row_compare_def)
      then show ?thesis using False us(3) k sorted_snoc [OF lex_less_trans k] by (simp add: keys_sorted_def last_key_def)
    qed
  qed
qed

lemma row_cell_step:
  assumes dsk: "dsk = WT_PAGE_ROW_INT \<or> dsk = WT_PAGE_ROW_LEAF" and bt: "db_collator btree = None" "db_huffman_key btree = None"
    and u: "cu_type u \<in> cell_types - {WT_CELL_KEY_OVFL}" "is_key u \<Longrightarrow> cu_data u + unat (cu_size u) \<le> length mem" and mem: "length mem < 2 ^ 31"
    and us: "row_page_ok btree dsk mem us ks"
  shows "row_cell btree dsk mem u (row_after us ks) = Inr s \<longleftrightarrow> (\<exists>ks'. row_page_ok btree dsk mem (us @ [u]) ks' \<and> s = row_after (us @ [u]) ks')"
proof (cases "check_types dsk u = Inr ()")
  case False
  then show ?thesis by (cases "check_types dsk u") (auto simp: row_cell_def row_page_ok_def Let_def)
next
  case ct: True
  have oks: "order_ok dsk us" "page_keys mem us = Some ks" "keys_sorted dsk ks" "refs_ok btree mem us" "\<forall>u\<in>set us. check_types dsk u = Inr ()"
    using us by (simp_all add: row_page_ok_def)
  have "cu_type u \<noteq> WT_CELL_DEL" using ct dsk by (auto simp: check_types_def err_cell_type_def wt_ret_Inr_iff cell_consts page_types split: if_splits)
  then have t: "cu_type u \<in> cell_types - {WT_CELL_DEL}" using u(1) by blast
  note ord = row_order_iff [OF t, of dsk us ks]
  have un: "ks \<noteq> [] \<Longrightarrow> us \<noteq> []" using oks(2) by (auto simp: page_keys_def)
  have kk: "WT_CELL_KEY \<noteq> WT_CELL_ADDR" "WT_CELL_KEY \<noteq> WT_CELL_KEY_OVFL" "WT_CELL_KEY \<noteq> WT_CELL_VALUE_OVFL" by (simp_all add: cell_consts)
  show ?thesis
  proof (cases "is_key u")
    case True
    then have ty: "cu_type u = WT_CELL_KEY" using u(1) by (auto simp: is_key_def)
    define s1 where "s1 = (row_after us ks)\<lparr>rs_num := length us + 1, rs_last_type := WAS_KEY\<rparr>"
    have ref: "row_ref btree mem u = Inr ()" using kk ty by (simp add: row_ref_def)
    note key = row_key_iff [OF bt(2) ty u(2) [OF True] mem un, where l = WAS_KEY, folded s1_def]
    let ?ord = "us = [] \<or> dsk = WT_PAGE_ROW_LEAF \<or> \<not> is_key (last us)"
    have "row_cell btree dsk mem u (row_after us ks) = Inr s \<longleftrightarrow> ?ord \<and>
        (\<exists>k. row_key btree mem u s1 = Inr k \<and> row_compare btree dsk (length us + 1) (last_key ks) k = Inr () \<and> s = s1\<lparr>rs_last := k, rs_pfx := k\<rparr>)"
      using ord ct ref ty kk True by (auto simp: row_cell_def Let_def wt_ret_Inr_iff s1_def row_after_def)
    also have "\<dots> \<longleftrightarrow> ?ord \<and> (\<exists>k. (unat (cu_prefix u) \<le> length (last_key ks) \<and> k = take (unat (cu_prefix u)) (last_key ks) @ cell_data mem u) \<and>
        keys_sorted dsk (ks @ [k]) \<and> s = row_after (us @ [u]) (ks @ [k]))"
      using key row_compare_iff [OF dsk bt(1) oks(1-3)] True by (auto simp: s1_def row_after_def last_key_def)
    also have "\<dots> \<longleftrightarrow> (\<exists>ks'. row_page_ok btree dsk mem (us @ [u]) ks' \<and> s = row_after (us @ [u]) ks')"
      using True oks ct ty kk by (auto simp: row_page_ok_def order_ok_snoc refs_ok_snoc page_keys_snoc add_key_def)
    finally show ?thesis .
  next
    case False
    then have nk: "cu_type u \<noteq> WT_CELL_KEY" "cu_type u \<noteq> WT_CELL_KEY_OVFL" by (simp_all add: is_key_def)
    have ref: "row_ref btree mem u = Inr () \<longleftrightarrow> (cu_type u \<in> {WT_CELL_ADDR, WT_CELL_VALUE_OVFL} \<longrightarrow> bm_addr_valid btree (drop (cu_data u) mem) = Inr True)"
      using nk by (auto simp: row_ref_def wt_ret_Inr_iff split: if_splits)
    have "row_cell btree dsk mem u (row_after us ks) = Inr s \<longleftrightarrow> (us \<noteq> [] \<and> is_key (last us)) \<and> row_ref btree mem u = Inr () \<and> s = row_after (us @ [u]) ks"
      using ord ct nk False by (auto simp: row_cell_def Let_def wt_ret_Inr_iff row_after_def)
    then show ?thesis using False oks ct ref
      by (auto simp: row_page_ok_def order_ok_snoc refs_ok_snoc page_keys_snoc add_key_def)
  qed
qed

definition plain_cells :: "bytes \<Rightarrow> wt_cell_unpack list \<Rightarrow> bool" where
  "plain_cells mem us \<longleftrightarrow> (\<forall>u\<in>set us. cu_type u \<noteq> WT_CELL_KEY_OVFL \<and> cu_data u + unat (cu_size u) \<le> length mem)"

lemma row_fold_iff:
  assumes "dsk = WT_PAGE_ROW_INT \<or> dsk = WT_PAGE_ROW_LEAF" "db_collator btree = None" "db_huffman_key btree = None"
    and "\<forall>u\<in>set us. cu_type u \<in> cell_types" "plain_cells mem us" "length mem < 2 ^ 31"
  shows "cell_fold (row_cell btree dsk mem) us row_start = Inr s \<longleftrightarrow> (\<exists>ks. row_page_ok btree dsk mem us ks \<and> s = row_after us ks)"
  using assms(4,5)
proof (induction us arbitrary: s rule: rev_induct)
  case Nil
  have "row_page_ok btree dsk mem [] ks \<longleftrightarrow> ks = []" for ks
    by (auto simp: row_page_ok_def order_ok_def refs_ok_def page_keys_def keys_sorted_def)
  then show ?case by (auto simp: row_start_def row_after_def last_key_def)
next
  case (snoc u us)
  have u: "cu_type u \<in> cell_types - {WT_CELL_KEY_OVFL}" "is_key u \<Longrightarrow> cu_data u + unat (cu_size u) \<le> length mem"
    using snoc.prems by (auto simp: plain_cells_def)
  note step = row_cell_step [OF assms(1-3) u assms(6)]
  have IH: "cell_fold (row_cell btree dsk mem) us row_start = Inr s \<longleftrightarrow> (\<exists>ks. row_page_ok btree dsk mem us ks \<and> s = row_after us ks)" for s
    using snoc by (simp add: plain_cells_def)
  have before: "\<exists>ks. row_page_ok btree dsk mem us ks" if ok: "row_page_ok btree dsk mem (us @ [u]) ks'" for ks'
  proof -
    obtain ks where ks: "page_keys mem us = Some ks" "add_key mem u ks = Some ks'" using ok by (auto simp: row_page_ok_def page_keys_snoc bind_eq_Some_conv)
    then obtain r where r: "ks' = ks @ r" by (auto simp: add_key_def split: if_splits)
    have "sorted_wrt lex_less (if dsk = WT_PAGE_ROW_INT then tl ks else ks)"
      using ok r by (cases ks) (auto simp: row_page_ok_def keys_sorted_def sorted_wrt_append)
    then show ?thesis using ok ks(1) by (auto simp: row_page_ok_def keys_sorted_def order_ok_snoc refs_ok_snoc)
  qed
  show ?case
  proof
    assume "cell_fold (row_cell btree dsk mem) (us @ [u]) row_start = Inr s"
    then obtain s1 where s1: "cell_fold (row_cell btree dsk mem) us row_start = Inr s1" "row_cell btree dsk mem u s1 = Inr s" by (auto simp: cell_fold_snoc wt_ret_Inr_iff)
    then obtain ks where ks: "row_page_ok btree dsk mem us ks" "s1 = row_after us ks" using IH by blast
    show "\<exists>ks. row_page_ok btree dsk mem (us @ [u]) ks \<and> s = row_after (us @ [u]) ks" using step [OF _ ks(1)] s1(2) ks(2) by blast
  next
    assume "\<exists>ks. row_page_ok btree dsk mem (us @ [u]) ks \<and> s = row_after (us @ [u]) ks"
    then obtain ks where ks: "row_page_ok btree dsk mem us ks" "row_cell btree dsk mem u (row_after us ks) = Inr s" using before step by metis
    then show "cell_fold (row_cell btree dsk mem) (us @ [u]) row_start = Inr s" using IH by (simp add: cell_fold_snoc wt_ret_Inr_iff) blast
  qed
qed

definition page_cells :: "dsk_btree \<Rightarrow> bytes \<Rightarrow> wt_cell_unpack list result option" where
  "page_cells btree mem =
     cell_walk mem (Some (unat (dsk_size (db_be btree) mem))) (unat (dsk_entries (db_be btree) mem)) (WT_PAGE_HEADER_BYTE btree)"

lemma dsk_walk_iff:
  "dsk_walk btree mem body s = Some (Inr ()) \<longleftrightarrow> (\<exists>us s'. page_cells btree mem = Some (Inr us) \<and> cell_fold body us s = Inr s')"
proof
  assume "dsk_walk btree mem body s = Some (Inr ())"
  then obtain s' where "dsk_foreach body mem (unat (dsk_size (db_be btree) mem)) (unat (dsk_entries (db_be btree) mem)) (WT_PAGE_HEADER_BYTE btree) s = Some (Inr s')"
    by (auto simp: dsk_walk_def bind_eq_Some_conv wt_ret_Inr_iff)
  with foreach_accepts [OF this] show "\<exists>us s'. page_cells btree mem = Some (Inr us) \<and> cell_fold body us s = Inr s'"
    by (auto simp: page_cells_def foreach_walk)
next
  assume "\<exists>us s'. page_cells btree mem = Some (Inr us) \<and> cell_fold body us s = Inr s'"
  then show "dsk_walk btree mem body s = Some (Inr ())" by (auto simp: page_cells_def dsk_walk_def foreach_walk)
qed

lemma verify_row_iff:
  assumes "dsk_type mem = WT_PAGE_ROW_INT \<or> dsk_type mem = WT_PAGE_ROW_LEAF" "db_collator btree = None" "db_huffman_key btree = None" "length mem < 2 ^ 31"
    and "\<And>us. page_cells btree mem = Some (Inr us) \<Longrightarrow> plain_cells mem us"
  shows "verify_dsk_row btree mem = Some (Inr ()) \<longleftrightarrow> (\<exists>us ks. page_cells btree mem = Some (Inr us) \<and> row_page_ok btree (dsk_type mem) mem us ks)"
proof -
  have "(\<exists>s. cell_fold (row_cell btree (dsk_type mem) mem) us row_start = Inr s) \<longleftrightarrow> (\<exists>ks. row_page_ok btree (dsk_type mem) mem us ks)"
    if "page_cells btree mem = Some (Inr us)" for us
    using row_fold_iff [OF assms(1-3) _ assms(5) [OF that] assms(4)] walk_types [OF that [unfolded page_cells_def]] by blast
  then show ?thesis unfolding verify_dsk_row_def dsk_walk_iff by blast
qed

section \<open>What is accepted on column-store leaf pages\<close>

definition var_cells_ok :: "bytes \<Rightarrow> wt_cell_unpack list \<Rightarrow> bool" where
  "var_cells_ok mem us \<longleftrightarrow>
     successively (\<lambda>u v. \<not> (cu_type u = WT_CELL_DEL \<and> cu_type v = WT_CELL_DEL) \<and>
       \<not> (cu_type u = WT_CELL_VALUE \<and> cu_type v = WT_CELL_VALUE \<and> cell_data mem u = cell_data mem v)) us"

definition var_page_ok :: "dsk_btree \<Rightarrow> u8 \<Rightarrow> bytes \<Rightarrow> wt_cell_unpack list \<Rightarrow> bool" where
  "var_page_ok btree dsk mem us \<longleftrightarrow> (\<forall>u\<in>set us. check_types dsk u = Inr ()) \<and> refs_ok btree mem us \<and> var_cells_ok mem us"

definition var_rel :: "wt_cell_unpack list \<Rightarrow> var_state \<Rightarrow> bool" where
  "var_rel us s \<longleftrightarrow> (vs_last_deleted s \<longleftrightarrow> us \<noteq> [] \<and> cu_type (last us) = WT_CELL_DEL) \<and>
     (if us \<noteq> [] \<and> cu_type (last us) = WT_CELL_VALUE then vs_last_data s = Some (cu_data (last us)) \<and> vs_last_size s = cu_size (last us)
      else vs_last_data s = None)"

lemma var_match_iff:
  assumes rel: "var_rel us s" and b: "cu_data u + unat (cu_size u) \<le> length mem" "us \<noteq> [] \<Longrightarrow> cu_data (last us) + unat (cu_size (last us)) \<le> length mem"
  shows "var_match mem u s = Inr (us \<noteq> [] \<and> (cu_type (last us) = WT_CELL_DEL \<and> cu_type u = WT_CELL_DEL \<or>
    cu_type (last us) = WT_CELL_VALUE \<and> cu_type u = WT_CELL_VALUE \<and> cell_data mem (last us) = cell_data mem u))"
proof -
  have ne: "WT_CELL_VALUE \<noteq> WT_CELL_DEL" by (simp add: cell_consts)
  have len: "length (cell_data mem v) = unat (cu_size v)" if "cu_data v + unat (cu_size v) \<le> length mem" for v using that by (simp add: cell_data_def)
  have sz: "cell_data mem (last us) = cell_data mem u \<Longrightarrow> cu_size (last us) = cu_size u" if "us \<noteq> []"
    using len [OF b(1)] len [OF b(2) [OF that]] by (simp add: word_unat_eq_iff)
  have cmp: "cell_memcmp (drop (cu_data (last us)) mem) (drop (cu_data u) mem) (ucast (cu_size u)) = Inr (cell_data mem (last us) = cell_data mem u)"
    if "us \<noteq> []" "cu_size (last us) = cu_size u"
    using b(1) b(2) [OF that(1)] that(2) by (simp add: cell_memcmp_def cell_data_def unsigned_ucast_eq take_bit_nat_eq_self) linarith
  show ?thesis
    using rel ne sz cmp by (auto simp: var_rel_def var_match_def split: if_splits option.splits)
qed

lemma var_cells_snoc:
  "var_cells_ok mem (us @ [u]) \<longleftrightarrow> var_cells_ok mem us \<and> \<not> (us \<noteq> [] \<and> (cu_type (last us) = WT_CELL_DEL \<and> cu_type u = WT_CELL_DEL \<or>
    cu_type (last us) = WT_CELL_VALUE \<and> cu_type u = WT_CELL_VALUE \<and> cell_data mem (last us) = cell_data mem u))"
  by (cases "us = []") (auto simp: var_cells_ok_def successively_append_iff)

lemma var_next_rel:
  assumes "cu_type u \<in> {WT_CELL_DEL, WT_CELL_VALUE, WT_CELL_VALUE_OVFL}"
  shows "var_rel (us @ [u]) (var_next u s)"
proof -
  have ne: "WT_CELL_VALUE \<noteq> WT_CELL_DEL" "WT_CELL_VALUE_OVFL \<noteq> WT_CELL_DEL" "WT_CELL_VALUE_OVFL \<noteq> WT_CELL_VALUE" by (simp_all add: cell_consts)
  show ?thesis using assms ne by (auto simp: var_rel_def var_next_def)
qed

lemma var_fold_iff:
  assumes "dsk = WT_PAGE_COL_VAR" "\<forall>u\<in>set us. cu_type u \<in> cell_types" "plain_cells mem us"
  shows "(\<exists>s. cell_fold (col_var_cell btree dsk mem) us var_start = Inr s) \<longleftrightarrow> var_page_ok btree dsk mem us"
    "cell_fold (col_var_cell btree dsk mem) us var_start = Inr s \<Longrightarrow> var_rel us s"
  using assms(2,3)
proof (induction us arbitrary: s rule: rev_induct)
  case Nil
  {
    case 1
    show ?case by (simp add: var_page_ok_def refs_ok_def var_cells_ok_def)
  next
    case 2
    then show ?case by (auto simp: var_rel_def var_start_def)
  }
next
  case (snoc u us)
  have pre: "\<forall>u\<in>set us. cu_type u \<in> cell_types" "plain_cells mem us" if "\<forall>v\<in>set (us @ [u]). cu_type v \<in> cell_types" "plain_cells mem (us @ [u])"
    using that by (simp_all add: plain_cells_def)
  have ty: "cu_type u \<in> {WT_CELL_DEL, WT_CELL_VALUE, WT_CELL_VALUE_OVFL}" if "check_types dsk u = Inr ()" "cu_type u \<in> cell_types"
    using that assms(1) by (auto simp: check_types_def err_cell_type_def wt_ret_Inr_iff cell_types_def cell_consts page_types split: if_splits)
  {
    case 1
    note P = pre [OF 1]
    have cell: "(\<exists>s'. col_var_cell btree dsk mem u s = Inr s') \<longleftrightarrow> check_types dsk u = Inr () \<and>
        (cu_type u = WT_CELL_VALUE_OVFL \<longrightarrow> bm_addr_valid btree (drop (cu_data u) mem) = Inr True) \<and>
        \<not> (us \<noteq> [] \<and> (cu_type (last us) = WT_CELL_DEL \<and> cu_type u = WT_CELL_DEL \<or>
          cu_type (last us) = WT_CELL_VALUE \<and> cu_type u = WT_CELL_VALUE \<and> cell_data mem (last us) = cell_data mem u))"
      if "var_rel us s" for s
    proof -
      have "var_match mem u s = Inr (us \<noteq> [] \<and> (cu_type (last us) = WT_CELL_DEL \<and> cu_type u = WT_CELL_DEL \<or>
          cu_type (last us) = WT_CELL_VALUE \<and> cu_type u = WT_CELL_VALUE \<and> cell_data mem (last us) = cell_data mem u))"
        using 1(2) by (intro var_match_iff [OF that]) (auto simp: plain_cells_def)
      then show ?thesis by (auto simp: col_var_cell_def wt_ret_Inr_iff split: if_splits)
    qed
    have na: "cu_type u \<noteq> WT_CELL_ADDR" if "check_types dsk u = Inr ()" using ty [OF that] 1(1) by (auto simp: cell_consts)
    have "(\<exists>s. cell_fold (col_var_cell btree dsk mem) (us @ [u]) var_start = Inr s) \<longleftrightarrow>
        (\<exists>s. cell_fold (col_var_cell btree dsk mem) us var_start = Inr s \<and> (\<exists>s'. col_var_cell btree dsk mem u s = Inr s'))"
      by (auto simp: cell_fold_snoc wt_ret_Inr_iff)
    also have "\<dots> \<longleftrightarrow> (\<exists>s. cell_fold (col_var_cell btree dsk mem) us var_start = Inr s) \<and> check_types dsk u = Inr () \<and>
        (cu_type u = WT_CELL_VALUE_OVFL \<longrightarrow> bm_addr_valid btree (drop (cu_data u) mem) = Inr True) \<and>
        \<not> (us \<noteq> [] \<and> (cu_type (last us) = WT_CELL_DEL \<and> cu_type u = WT_CELL_DEL \<or>
          cu_type (last us) = WT_CELL_VALUE \<and> cu_type u = WT_CELL_VALUE \<and> cell_data mem (last us) = cell_data mem u))"
      using cell snoc.IH(2) [OF _ P] by blast
    also have "\<dots> \<longleftrightarrow> var_page_ok btree dsk mem (us @ [u])"
      using snoc.IH(1) [OF P] na by (auto simp: var_page_ok_def var_cells_snoc refs_ok_snoc)
    finally show ?case .
  next
    case 2
    then obtain s0 where "col_var_cell btree dsk mem u s0 = Inr s" by (auto simp: cell_fold_snoc wt_ret_Inr_iff)
    then have "check_types dsk u = Inr ()" "s = var_next u s0" by (auto simp: col_var_cell_def wt_ret_Inr_iff split: if_splits)
    then show ?case using var_next_rel ty 2(2) by auto
  }
qed

lemma verify_col_var_iff:
  assumes "dsk_type mem = WT_PAGE_COL_VAR" "\<And>us. page_cells btree mem = Some (Inr us) \<Longrightarrow> plain_cells mem us"
  shows "verify_dsk_col_var btree mem = Some (Inr ()) \<longleftrightarrow> (\<exists>us. page_cells btree mem = Some (Inr us) \<and> var_page_ok btree (dsk_type mem) mem us)"
proof -
  have "(\<exists>s. cell_fold (col_var_cell btree (dsk_type mem) mem) us var_start = Inr s) \<longleftrightarrow> var_page_ok btree (dsk_type mem) mem us"
    if "page_cells btree mem = Some (Inr us)" for us
    using var_fold_iff(1) [OF assms(1) _ assms(2) [OF that]] walk_types [OF that [unfolded page_cells_def]] by blast
  then show ?thesis unfolding verify_dsk_col_var_def dsk_walk_iff by blast
qed

lemma verify_col_int_iff:
  "verify_dsk_col_int btree mem = Some (Inr ()) \<longleftrightarrow> (\<exists>us. page_cells btree mem = Some (Inr us) \<and>
     (\<forall>u\<in>set us. check_types (dsk_type mem) u = Inr () \<and> bm_addr_valid btree (drop (cu_data u) mem) = Inr True))"
proof -
  have "(\<exists>s. cell_fold (col_int_cell btree dsk mem) us () = Inr s) \<longleftrightarrow>
      (\<forall>u\<in>set us. check_types dsk u = Inr () \<and> bm_addr_valid btree (drop (cu_data u) mem) = Inr True)" for us dsk
  proof (induction us)
    case (Cons u us)
    have "col_int_cell btree dsk mem u () = Inr () \<longleftrightarrow> check_types dsk u = Inr () \<and> bm_addr_valid btree (drop (cu_data u) mem) = Inr True"
      by (auto simp: col_int_cell_def wt_ret_Inr_iff split: if_splits)
    then show ?case using Cons.IH by (auto simp: wt_ret_Inr_iff)
  qed simp
  then show ?thesis unfolding verify_dsk_col_int_def dsk_walk_iff by blast
qed

section \<open>The header\<close>

text \<open>Only the first of the three unused bytes is looked at.\<close>

lemma unused_loop_iff: "0 < n \<Longrightarrow> unused_loop mem p n = Inr () \<longleftrightarrow> mem ! p = 0"
proof (induction n)
  case (Suc n)
  then show ?case by (cases n) auto
qed simp

definition header_ok :: "dsk_btree \<Rightarrow> bytes \<Rightarrow> bool" where
  "header_ok btree mem \<longleftrightarrow> WT_PAGE_HEADER_SIZE \<le> length mem \<and> dsk_size (db_be btree) mem = of_nat (length mem) \<and> mem ! 17 = 0 \<and>
     (dsk_type mem \<in> {WT_PAGE_COL_FIX, WT_PAGE_COL_INT, WT_PAGE_COL_VAR} \<longleftrightarrow> dsk_recno (db_be btree) mem \<noteq> 0)"

lemma verify_dsk_types:
  "dsk_type mem = WT_PAGE_ROW_INT \<or> dsk_type mem = WT_PAGE_ROW_LEAF \<Longrightarrow>
     wt_verify_dsk btree mem = Some (Inr ()) \<longleftrightarrow> header_ok btree mem \<and> verify_dsk_row btree mem = Some (Inr ())"
  "dsk_type mem = WT_PAGE_COL_VAR \<Longrightarrow> wt_verify_dsk btree mem = Some (Inr ()) \<longleftrightarrow> header_ok btree mem \<and> verify_dsk_col_var btree mem = Some (Inr ())"
  "dsk_type mem = WT_PAGE_COL_INT \<Longrightarrow> wt_verify_dsk btree mem = Some (Inr ()) \<longleftrightarrow> header_ok btree mem \<and> verify_dsk_col_int btree mem = Some (Inr ())"
proof -
  have u: "unused_loop mem 17 3 = Inr () \<longleftrightarrow> mem ! 17 = 0" by (rule unused_loop_iff) simp
  show "dsk_type mem = WT_PAGE_ROW_INT \<or> dsk_type mem = WT_PAGE_ROW_LEAF \<Longrightarrow>
      wt_verify_dsk btree mem = Some (Inr ()) \<longleftrightarrow> header_ok btree mem \<and> verify_dsk_row btree mem = Some (Inr ())"
    by (elim disjE) (auto simp: wt_verify_dsk_def header_ok_def Let_def u page_types)
  show "dsk_type mem = WT_PAGE_COL_VAR \<Longrightarrow> wt_verify_dsk btree mem = Some (Inr ()) \<longleftrightarrow> header_ok btree mem \<and> verify_dsk_col_var btree mem = Some (Inr ())"
    by (auto simp: wt_verify_dsk_def header_ok_def Let_def u page_types)
  show "dsk_type mem = WT_PAGE_COL_INT \<Longrightarrow> wt_verify_dsk btree mem = Some (Inr ()) \<longleftrightarrow> header_ok btree mem \<and> verify_dsk_col_int btree mem = Some (Inr ())"
    by (auto simp: wt_verify_dsk_def header_ok_def Let_def u page_types)
qed

section \<open>Pages of packed items\<close>

fun is_key_item :: "cell_item \<Rightarrow> bool" where
  "is_key_item (Item_Key prefix d) = True"
| "is_key_item it = False"

fun add_item_key :: "cell_item \<Rightarrow> bytes list \<Rightarrow> bytes list option" where
  "add_item_key (Item_Key prefix d) ks =
     (if unat prefix \<le> length (last_key ks) then Some (ks @ [take (unat prefix) (last_key ks) @ d]) else None)"
| "add_item_key it ks = Some ks"

definition item_keys :: "cell_item list \<Rightarrow> bytes list option" where
  "item_keys items = foldl (\<lambda>acc it. Option.bind acc (add_item_key it)) (Some []) items"

text \<open>Keys and values, in the order of a row-store leaf page, with values that may be copies of earlier values.\<close>

definition leaf_items :: "cell_item list \<Rightarrow> bool" where
  "leaf_items items \<longleftrightarrow>
     (\<forall>i<length items. case items ! i of Item_Key _ _ \<Rightarrow> True | Item_Data _ _ \<Rightarrow> True | Item_Copy _ _ \<Rightarrow> fst (cells_view items i) = WT_CELL_VALUE | _ \<Rightarrow> False) \<and>
     (items \<noteq> [] \<longrightarrow> is_key_item (hd items)) \<and> successively (\<lambda>a b. is_key_item a \<or> is_key_item b) items"

definition leaf_cell :: "bytes \<Rightarrow> wt_cell_unpack \<Rightarrow> cell_item \<Rightarrow> bool" where
  "leaf_cell mem u it \<longleftrightarrow> (is_key u \<longleftrightarrow> is_key_item it) \<and> cu_type u \<in> {WT_CELL_KEY, WT_CELL_VALUE} \<and> check_types WT_PAGE_ROW_LEAF u = Inr () \<and>
     cu_data u + unat (cu_size u) \<le> length mem \<and> (\<forall>prefix d. it = Item_Key prefix d \<longrightarrow> cu_prefix u = prefix \<and> cell_data mem u = d)"

lemma item_view_data: "\<exists>ty raw v prefix ovfl d. item_view it = (ty, raw, v, prefix, ovfl, Some d)"
  by (cases it) auto

lemma leaf_cellI:
  assumes i: "i < length items" and ok: "leaf_items items" "cells_ok items" and v: "cell_view mem u = cells_view items i"
  shows "leaf_cell mem u (items ! i)"
proof -
  have ne: "WT_CELL_VALUE \<noteq> WT_CELL_KEY" "WT_CELL_VALUE \<noteq> WT_CELL_KEY_OVFL" by (simp_all add: cell_consts)
  have ty: "check_types WT_PAGE_ROW_LEAF u = Inr ()"
    if "cu_raw u \<in> {WT_CELL_KEY, WT_CELL_KEY_SHORT, WT_CELL_VALUE, WT_CELL_VALUE_SHORT, WT_CELL_VALUE_COPY}" "cu_type u \<in> {WT_CELL_KEY, WT_CELL_VALUE}"
  proof -
    have "err_cell_type t WT_PAGE_ROW_LEAF = Inr ()" if "t \<in> {WT_CELL_KEY, WT_CELL_KEY_SHORT, WT_CELL_VALUE, WT_CELL_VALUE_SHORT, WT_CELL_VALUE_COPY}" for t
      using that by (elim insertE emptyE; simp add: err_cell_type_def cell_consts page_types)
    then show ?thesis using that by (auto simp: check_types_def)
  qed
  show ?thesis
  proof (cases "items ! i")
    case (Item_Key prefix d)
    then have "cell_view mem u = (WT_CELL_KEY, if length d \<le> 63 then WT_CELL_KEY_SHORT else WT_CELL_KEY, 0, prefix, False, Some d)" using v by (simp add: cells_view_def)
    then show ?thesis using Item_Key ty by (auto simp: leaf_cell_def cell_view_def is_key_def cell_data_def split: if_splits)
  next
    case (Item_Data rle d)
    then have "cell_view mem u = (WT_CELL_VALUE, if rle = 0 \<and> length d \<le> 127 then WT_CELL_VALUE_SHORT else WT_CELL_VALUE, count_of rle, 0, False, Some d)"
      using v by (simp add: cells_view_def)
    then show ?thesis using Item_Data ty ne by (auto simp: leaf_cell_def cell_view_def is_key_def split: if_splits)
  next
    case (Item_Copy rle off)
    have f: "fst (cells_view items i) = WT_CELL_VALUE" using ok(1) i by (auto simp: leaf_items_def Item_Copy)
    obtain raw w prefix ovfl d where "cells_view items i = (WT_CELL_VALUE, WT_CELL_VALUE_COPY, w, prefix, ovfl, Some d)"
      using f item_view_data by (auto simp: cells_view_def Item_Copy Let_def split: list.splits prod.splits) (metis prod.inject)
    then show ?thesis using v ty ne by (auto simp: leaf_cell_def cell_view_def is_key_def Item_Copy split: if_splits)
  qed (use ok(1) i in \<open>auto simp: leaf_items_def\<close>)
qed

lemma leaf_cells_keys:
  assumes "list_all2 (leaf_cell mem) us items"
  shows "foldl (\<lambda>acc u. Option.bind acc (add_key mem u)) acc us = foldl (\<lambda>acc it. Option.bind acc (add_item_key it)) acc items"
  using assms
proof (induction arbitrary: acc rule: list_all2_induct)
  case (Cons u us it items)
  have "add_key mem u = add_item_key it" using Cons.hyps(1) by (intro ext, cases it) (auto simp: leaf_cell_def add_key_def)
  then show ?case using Cons.IH by simp
qed simp

lemma leaf_cells_order:
  assumes "list_all2 (leaf_cell mem) us items" "items \<noteq> [] \<longrightarrow> is_key_item (hd items)" "successively (\<lambda>a b. is_key_item a \<or> is_key_item b) items"
  shows "order_ok WT_PAGE_ROW_LEAF us"
proof -
  have "successively (\<lambda>u v. is_key u \<or> is_key v) us"
    using assms(1,3)
  proof (induction rule: list_all2_induct)
    case (Cons u us it items)
    show ?case using Cons by (cases us; cases items) (auto simp: leaf_cell_def)
  qed simp
  moreover have "us \<noteq> [] \<longrightarrow> is_key (hd us)" using assms(1,2) by (cases us; cases items) (auto simp: leaf_cell_def)
  ultimately show ?thesis by (simp add: order_ok_def)  (metis (mono_tags, lifting) successively_mono)
qed


text \<open>A leaf page with the keys \<open>a\<close> and \<open>ab\<close>, the second one with a prefix of one byte, and two equal values.\<close>

definition leaf_btree :: dsk_btree where
  "leaf_btree = \<lparr>db_be = False, db_block_header = 0, db_bitcnt = 0, db_allocsize = 512, db_file_size = 4096, db_collator = None,
     db_huffman_key = None, db_bm_read = (\<lambda>_. Inl EINVAL)\<rparr>"

definition leaf_page_header :: bytes where
  "leaf_page_header = replicate 8 0 @ [30, 0, 0, 0, 4, 0, 0, 0, 7, 0, 0, 0]"

definition leaf_page_items :: "cell_item list" where
  "leaf_page_items = [Item_Key 0 [0x61], Item_Data 0 [0x78], Item_Key 1 [0x62], Item_Copy 0 5]"

definition leaf_page :: bytes where
  "leaf_page = leaf_page_header @ [0x06, 0x00, 0x61, 0x03, 0x78, 0x06, 0x01, 0x62, 0x70, 0x85]"

lemma leaf_page_facts:
  "dsk_type leaf_page = WT_PAGE_ROW_LEAF" "length leaf_page = 30" "header_ok leaf_btree leaf_page" "leaf_page = leaf_page_header @ concat (map item_bytes leaf_page_items)"
  "dsk_entries False leaf_page = 4" "db_collator leaf_btree = None" "db_huffman_key leaf_btree = None" "db_be leaf_btree = False"
  by code_simp+


lemma page_cells_items:
  assumes "cells_ok items" "mem = hdr @ concat (map item_bytes items)" "length hdr = WT_PAGE_HEADER_BYTE btree" "length mem < 2 ^ 31"
    and "dsk_size (db_be btree) mem = of_nat (length mem)" "dsk_entries (db_be btree) mem = of_nat (length items)" "length items < 2 ^ 32"
  shows "\<exists>us. page_cells btree mem = Some (Inr us) \<and> map (cell_view mem) us = map (cells_view items) [0..<length items]"
proof -
  have u: "unat (of_nat (length mem) :: u32) = length mem" "unat (of_nat (length items) :: u32) = length items"
    using assms(4,7) by (simp_all add: unsigned_of_nat take_bit_nat_eq_self)
  have "lim_ok (Some (length mem)) (length hdr + length (concat (map item_bytes items)))" using assms(2,4) by (simp add: lim_ok_def)
  from cell_walk_page [OF assms(1) this, of mem "[]" 0 "length items"] assms(2)
  have "\<exists>us. cell_walk mem (Some (length mem)) (length items) (length hdr) = Some (Inr us) \<and> map (cell_view mem) us = map (cells_view items) [0..<length items]"
    by (simp add: cell_start_def)
  then show ?thesis unfolding page_cells_def assms(5,6) u assms(3) .
qed

text \<open>
  C26: the verification and the packers agree: a row-store leaf page of packed keys and values, where a value may be a
  copy of an earlier one, passes exactly when every prefix is at most as long as the key before it and the keys that
  result are in strictly ascending order.
\<close>

theorem verify_dsk_leaf_items:
  assumes items: "cells_ok items" "leaf_items items" and mem: "mem = hdr @ concat (map item_bytes items)" "length hdr = WT_PAGE_HEADER_BYTE btree" "length mem < 2 ^ 31"
    and hdr: "dsk_type mem = WT_PAGE_ROW_LEAF" "header_ok btree mem" "dsk_entries (db_be btree) mem = of_nat (length items)" "length items < 2 ^ 32"
    and bt: "db_collator btree = None" "db_huffman_key btree = None"
  shows "wt_verify_dsk btree mem = Some (Inr ()) \<longleftrightarrow> (\<exists>ks. item_keys items = Some ks \<and> sorted_wrt lex_less ks)"
proof -
  have sz: "dsk_size (db_be btree) mem = of_nat (length mem)" using hdr(2) by (simp add: header_ok_def)
  obtain us where us: "page_cells btree mem = Some (Inr us)" "map (cell_view mem) us = map (cells_view items) [0..<length items]"
    using page_cells_items [OF items(1) mem sz hdr(3,4)] by blast
  have l: "length us = length items" using arg_cong [OF us(2), of length] by simp
  have "cell_view mem (us ! i) = cells_view items i" if "i < length items" for i
    using arg_cong [OF us(2), of "\<lambda>xs. xs ! i"] that l by simp
  then have all: "list_all2 (leaf_cell mem) us items" using l leaf_cellI [OF _ items(2,1)] by (simp add: list_all2_conv_all_nth)
  have ne: "WT_CELL_KEY \<noteq> WT_CELL_KEY_OVFL" "WT_CELL_VALUE \<noteq> WT_CELL_KEY_OVFL" "WT_CELL_KEY \<notin> {WT_CELL_ADDR, WT_CELL_VALUE_OVFL}"
    "WT_CELL_VALUE \<notin> {WT_CELL_ADDR, WT_CELL_VALUE_OVFL}" "WT_PAGE_ROW_LEAF \<noteq> WT_PAGE_ROW_INT" by (simp_all add: cell_consts page_types)
  have each: "cu_type u \<in> {WT_CELL_KEY, WT_CELL_VALUE}" "check_types WT_PAGE_ROW_LEAF u = Inr ()" "cu_data u + unat (cu_size u) \<le> length mem"
    if "u \<in> set us" for u using all that by (auto simp: list_all2_conv_all_nth in_set_conv_nth leaf_cell_def)
  have p: "plain_cells mem vs" if "page_cells btree mem = Some (Inr vs)" for vs using that us(1) each(1,3) ne by (fastforce simp: plain_cells_def)
  have "refs_ok btree mem us" using each(1) ne by (fastforce simp: refs_ok_def)
  moreover have "order_ok WT_PAGE_ROW_LEAF us" using leaf_cells_order [OF all] items(2) by (simp add: leaf_items_def)
  moreover have "page_keys mem us = item_keys items" unfolding page_keys_def item_keys_def by (rule leaf_cells_keys [OF all])
  ultimately have "row_page_ok btree WT_PAGE_ROW_LEAF mem us ks \<longleftrightarrow> item_keys items = Some ks \<and> sorted_wrt lex_less ks" for ks
    using each(2) ne(5) by (auto simp: row_page_ok_def keys_sorted_def)
  then have "(\<exists>ks. row_page_ok btree WT_PAGE_ROW_LEAF mem us ks) \<longleftrightarrow> (\<exists>ks. item_keys items = Some ks \<and> sorted_wrt lex_less ks)" by blast
  then show ?thesis
    using verify_dsk_types(1) [of mem btree] verify_row_iff [OF _ bt mem(3) p] hdr(1,2) us(1) by simp
qed


theorem verify_dsk_leaf_items_witness: "wt_verify_dsk leaf_btree leaf_page = Some (Inr ())"
proof -
  let ?it = "[Item_Key 0 [0x61], Item_Data 0 [0x78], Item_Key 1 [0x62], Item_Copy 0 5]"
  have len: "map (length \<circ> item_bytes) ?it = [3, 2, 3, 2]" by code_simp
  have l: "length (item_bytes (Item_Key 0 [0x61])) = 3" "length (item_bytes (Item_Data 0 [0x78])) = 2"
    "length (item_bytes (Item_Key 1 [0x62])) = 3" "length (item_bytes (Item_Copy 0 5)) = 2" using len by simp_all
  have c: "copy_of ?it 3 1" using l by (simp add: copy_of_def cell_start_def)
  have "i = 3" if "i < length ?it" "is_copy (?it ! i)" for i using that by (auto simp: less_Suc_eq numeral_eq_Suc)
  then have "\<exists>j<i. copy_of ?it i j" if "i < length ?it" "is_copy (?it ! i)" for i using that c by (metis one_less_numeral_iff semiring_norm(77))
  moreover have "\<forall>it\<in>set ?it. item_ok it" using l by (simp add: item_ok_def)
  moreover have "length (concat (map item_bytes ?it)) < 2 ^ 32" using l by simp
  ultimately have ok: "cells_ok leaf_page_items" unfolding cells_ok_def leaf_page_items_def by blast
  have "list_all (\<lambda>i. case leaf_page_items ! i of Item_Key _ _ \<Rightarrow> True | Item_Data _ _ \<Rightarrow> True
      | Item_Copy _ _ \<Rightarrow> fst (cells_view leaf_page_items i) = WT_CELL_VALUE | _ \<Rightarrow> False) [0..<length leaf_page_items]" by code_simp
  then have leaf: "leaf_items leaf_page_items" unfolding leaf_items_def list_all_upt by (simp add: leaf_page_items_def)
  have hdr: "length leaf_page_header = WT_PAGE_HEADER_BYTE leaf_btree" by code_simp
  have keys: "item_keys leaf_page_items = Some [[0x61], [0x61, 0x62]]" by code_simp
  have "sorted_wrt lex_less [[0x61], [0x61, 0x62]]" by code_simp
  then show ?thesis
    using verify_dsk_leaf_items [OF ok leaf leaf_page_facts(4) hdr _ leaf_page_facts(1,3) _ _ leaf_page_facts(6,7)] leaf_page_facts(2,5,8) keys
    by (simp add: leaf_page_items_def)
qed

end
