(* ===== verification/Spec2Isabelle.thy ===== *)
theory Spec2Isabelle
  imports Wt_Recovery Wt_Txn_Conc Wt_Config_Props Wt_Packing Wt_Verify Wt_Salvage Wt_Verify_Dsk
begin

text \<open>
  A verification development for WiredTiger, a key/value storage engine written in C. It models the
  parts on which the safety of stored data rests: the block manager, which turns a file into blocks
  that are allocated, written, read back, checkpointed and reused, and the transactions, which decide
  what a session sees.

  \<^bold>\<open>The program.\<close> A B-tree is stored in a file that the block manager divides into blocks
  (\<open>src/src/block\<close>). Free and used ranges of the file are kept in extent lists, skip lists with two
  indices. A block is written with a header, a checksum and a write generation, and is known to the
  tree by an address cookie. A checkpoint writes the extent lists themselves as blocks and packs
  their addresses into a checkpoint cookie, from which the file can be opened again. Above the
  trees, transactions (\<open>src/src/txn\<close>) give each update the ID of its transaction and each reader a
  snapshot of the IDs that were running when it started.

  \<^bold>\<open>Theories\<close>, from the bottom up:

  \<^item> \<open>Wt_Prelude\<close>: machine types, error codes, \<open>WT_RET\<close>, generic list lemmas, and the locale
    \<open>range_store\<close>, the contract of a structure that stores disjoint ranges.
  \<^item> \<open>Wt_Intpack\<close> (\<open>src/src/include/intpack.i\<close>): the variable-length integers and the byte-wise key
    comparison; round trips, sizes, and that the packed order is the numeric order.
  \<^item> \<open>Wt_Cksum_Table\<close>, \<open>Wt_Cksum\<close> (\<open>src/src/block/block_cksum.c\<close>): the tables of the slicing-by-8
    checksum as they stand in the source, the function for both byte orders and every alignment, and
    its equivalence with a bit-by-bit CRC-32C.
  \<^item> \<open>Wt_Skiplist\<close> (\<open>src/src/support/rand.c\<close>, \<open>btree.i\<close>, the searches of \<open>block_ext.c\<close>): the random
    generator, the choice of a depth, and search, link and unlink of a skip list. The locale
    \<open>skip_search\<close> states what a search promises; it is interpreted on both indices of an extent list.
  \<^item> \<open>Wt_Extlist\<close> (\<open>block_ext.c\<close>, \<open>block.h\<close>): extent lists and their operations. The invariant
    \<open>extlist_ok\<close> (both indices agree, the extents are disjoint and not adjacent) is kept by every
    operation, and \<open>el_ranges\<close> maps a list to the set of bytes it stands for.
  \<^item> \<open>Wt_Block_Addr\<close> (\<open>block_addr.c\<close>): address and checkpoint cookies.
  \<^item> \<open>Wt_Block\<close> (\<open>block_ext.c\<close>): allocation, free, and the overlap walk that finds the blocks to
    reuse when checkpoints are deleted. The walk has fuel; its measure shows that the number of
    extents of both lists is enough.
  \<^item> \<open>Wt_Bytes\<close>, \<open>Wt_Block_IO\<close> (\<open>block_write.c\<close>, \<open>block_read.c\<close>, \<open>os_rw.c\<close>): headers and page images as
    bytes, compression, checksum, write and read of a block.
  \<^item> \<open>Wt_Durable\<close>: histories of a file. Blocks in use are read back as they were written, whatever is
    written and freed in between; failed writes leave no trace; corruption is detected.
  \<^item> \<open>Wt_Extlist_IO\<close> (\<open>block_ext.c\<close>, \<open>os_ftruncate.c\<close>): extent lists as pages on disk.
  \<^item> \<open>Wt_Ckpt\<close> (\<open>block_ckpt.c\<close>, \<open>meta.h\<close>): load, unload, checkpoint, deletion of checkpoints, resolve.
  \<^item> \<open>Wt_Recovery\<close>: a checkpoint completes when the system calls do, and a new handle that loads its
    cookie gets the root page, the available space and every block in use back.
  \<^item> \<open>Wt_Txn\<close> (\<open>src/src/txn/txn.c\<close>, \<open>txn.i\<close>, \<open>txn.h\<close>): IDs that wrap around, snapshots, visibility,
    begin, commit, rollback and conflict detection, as operations on a connection record.
  \<^item> \<open>Wt_Txn_Conc\<close>: \<open>__wt_txn_begin\<close>, \<open>__wt_txn_get_snapshot\<close> and \<open>__wt_txn_release\<close> as single
    accesses to shared memory that interleave between sessions.

  \<^bold>\<open>Conventions.\<close> A struct is a record and a C function a definition of the same name without its
  leading underscores; a function that can fail returns \<open>wt_error + 'a\<close>. Sizes and checksums are
  32-bit words; file offsets are \<open>off_t\<close>, modelled as \<open>int\<close> with the code's own bound checks, and
  \<open>blk_file_size\<close> stays below \<open>2 ^ 63\<close> by the invariant. Reading outside a buffer, which is undefined
  in C, is the error \<open>OUT_OF_BOUNDS\<close>. The system calls and a compressor are parameters (record
  \<open>wt_io\<close>); what the code relies on is stated in \<open>io_ok\<close>, \<open>compressor_ok\<close> and the hypotheses of the
  theorems, and the witnesses instantiate them with concrete functions.

  \<^bold>\<open>Not modelled.\<close> The access methods above the block manager (page formats, reconciliation,
  eviction, cursors), schema, metadata, LSM trees, the API layer, logging and the utilities; locks,
  except where \<open>Wt_Txn_Conc\<close> interleaves lock-free accesses; verbose messages, statistics and
  diagnostic dumps; salvage, verification and compaction of files.
\<close>

end
